(* ===== verification/Prelude.thy ===== *)
theory Prelude
  imports Main "HOL-Library.Char_ord" "HOL-Library.List_Lexorder" "HOL-Library.Sublist"
    "HOL-Library.State_Monad"
begin

text \<open>
  What every component of the model shares: the part of Python's \<open>str\<close>, \<open>list\<close> and \<open>dict\<close>
  the sources use, exceptions as values, and the lemmas about them.

  A Python string is a \<open>string\<close>; a character stands for the code point U+0000 to U+00FF of the
  same number, and the character classes below (white space, line boundaries, case) are Python's
  own on that range. Text outside it is not modelled. A \<open>dict\<close> is an association list in
  insertion order with distinct keys. An exception is a value of \<open>py_error\<close>: its class, without
  the message, which no code of the repository reads back.
\<close>

named_theorems str_simps \<open>evaluation of the string operations\<close>

section \<open>Exceptions\<close>

datatype py_error =
    ValueError
  | RuntimeError
  | FileNotFoundError
  | CalledProcessError
  | KeyError
  | TypeError
  | AttributeError
  | TimeoutError

type_synonym 'a result = "py_error + 'a"

definition is_ok :: "'a result \<Rightarrow> bool" where
  "is_ok r = (case r of Inl _ \<Rightarrow> False | Inr _ \<Rightarrow> True)"

lemma is_ok_simps [simp]: "is_ok (Inl e) = False" "is_ok (Inr x) = True"
  by (simp_all add: is_ok_def)

lemma is_ok_iff: "is_ok r \<longleftrightarrow> (\<exists>x. r = Inr x)"
  by (cases r) auto

text \<open>One computation after another: the first exception ends it.\<close>

definition andthen :: "'a result \<Rightarrow> ('a \<Rightarrow> 'b result) \<Rightarrow> 'b result" where
  "andthen r f = (case r of Inl e \<Rightarrow> Inl e | Inr x \<Rightarrow> f x)"

lemma andthen_simps [simp]: "andthen (Inl e) f = Inl e" "andthen (Inr x) f = f x"
  by (simp_all add: andthen_def)

lemma andthen_Inr: "andthen r f = Inr y \<longleftrightarrow> (\<exists>x. r = Inr x \<and> f x = Inr y)"
  by (cases r) simp_all

text \<open>\<open>traverse f xs\<close> runs \<open>f\<close> over a list and stops at the first exception.\<close>

fun traverse :: "('a \<Rightarrow> 'b result) \<Rightarrow> 'a list \<Rightarrow> 'b list result" where
  "traverse f [] = Inr []"
| "traverse f (x # xs) =
     (case f x of
        Inl e \<Rightarrow> Inl e
      | Inr y \<Rightarrow> (case traverse f xs of Inl e \<Rightarrow> Inl e | Inr ys \<Rightarrow> Inr (y # ys)))"

lemma traverse_Inr_iff:
  "traverse f xs = Inr ys \<longleftrightarrow> list_all2 (\<lambda>x y. f x = Inr y) xs ys"
proof (induction xs arbitrary: ys)
  case Nil
  then show ?case by auto
next
  case (Cons x xs)
  have step: "traverse f (x # xs) = Inr ys \<longleftrightarrow>
      (\<exists>y zs. ys = y # zs \<and> f x = Inr y \<and> traverse f xs = Inr zs)"
    by (auto split: sum.splits)
  show ?case by (simp only: step Cons.IH list_all2_Cons1)
qed

lemma traverse_length: "traverse f xs = Inr ys \<Longrightarrow> length ys = length xs"
  by (auto simp: traverse_Inr_iff dest: list_all2_lengthD)

section \<open>Characters and strings\<close>

abbreviation ord_of :: "char \<Rightarrow> nat" where
  "ord_of c \<equiv> of_char c"

definition is_space :: "char \<Rightarrow> bool" where
  "is_space c =
     (let n = ord_of c in (9 \<le> n \<and> n \<le> 13) \<or> (28 \<le> n \<and> n \<le> 32) \<or> n = 133 \<or> n = 160)"

definition is_digit :: "char \<Rightarrow> bool" where
  "is_digit c = (let n = ord_of c in 48 \<le> n \<and> n \<le> 57)"

definition is_lower_ascii :: "char \<Rightarrow> bool" where
  "is_lower_ascii c = (let n = ord_of c in 97 \<le> n \<and> n \<le> 122)"

definition is_upper_ascii :: "char \<Rightarrow> bool" where
  "is_upper_ascii c = (let n = ord_of c in 65 \<le> n \<and> n \<le> 90)"

definition is_alnum_ascii :: "char \<Rightarrow> bool" where
  "is_alnum_ascii c = (is_digit c \<or> is_lower_ascii c \<or> is_upper_ascii c)"

text \<open>\<open>str.lower\<close>: ASCII capitals and the capitals U+00C0 to U+00DE but the multiplication sign.\<close>

definition lower_char :: "char \<Rightarrow> char" where
  "lower_char c =
     (let n = ord_of c in
      if (65 \<le> n \<and> n \<le> 90) \<or> (192 \<le> n \<and> n \<le> 222 \<and> n \<noteq> 215) then char_of (n + 32) else c)"

definition lower :: "string \<Rightarrow> string" where
  "lower s = map lower_char s"

text \<open>\<open>lstrip\<close>, \<open>rstrip\<close>, \<open>strip\<close>, with the characters to drop as a predicate.\<close>

definition lstrip_by :: "(char \<Rightarrow> bool) \<Rightarrow> string \<Rightarrow> string" where
  "lstrip_by p s = dropWhile p s"

definition rstrip_by :: "(char \<Rightarrow> bool) \<Rightarrow> string \<Rightarrow> string" where
  "rstrip_by p s = rev (dropWhile p (rev s))"

definition strip_by :: "(char \<Rightarrow> bool) \<Rightarrow> string \<Rightarrow> string" where
  "strip_by p s = rstrip_by p (lstrip_by p s)"

abbreviation strip :: "string \<Rightarrow> string" where
  "strip \<equiv> strip_by is_space"

abbreviation rstrip :: "string \<Rightarrow> string" where
  "rstrip \<equiv> rstrip_by is_space"

text \<open>\<open>sep.join(xs)\<close>.\<close>

fun join :: "string \<Rightarrow> string list \<Rightarrow> string" where
  "join sep [] = []"
| "join sep [x] = x"
| "join sep (x # y # xs) = x @ sep @ join sep (y # xs)"

text \<open>\<open>s.split(c)\<close> at every occurrence of one character.\<close>

fun split_chr :: "char \<Rightarrow> string \<Rightarrow> string list" where
  "split_chr c [] = [[]]"
| "split_chr c (x # xs) =
     (if x = c then [] # split_chr c xs
      else (case split_chr c xs of [] \<Rightarrow> [[x]] | w # ws \<Rightarrow> (x # w) # ws))"

text \<open>\<open>s.partition(c)\<close>: what is before the first \<open>c\<close>, and what is after it if there is one.\<close>

definition before_chr :: "char \<Rightarrow> string \<Rightarrow> string" where
  "before_chr c s = takeWhile (\<lambda>x. x \<noteq> c) s"

definition after_chr :: "char \<Rightarrow> string \<Rightarrow> string" where
  "after_chr c s = tl (dropWhile (\<lambda>x. x \<noteq> c) s)"

text \<open>The part after the last \<open>c\<close> (\<open>s.rsplit(c, 1)[-1]\<close>), the whole text if there is none.\<close>

definition after_last_chr :: "char \<Rightarrow> string \<Rightarrow> string" where
  "after_last_chr c s = rev (takeWhile (\<lambda>x. x \<noteq> c) (rev s))"

text \<open>\<open>s.split()\<close>: the maximal runs of characters that are not white space.\<close>

function split_ws :: "string \<Rightarrow> string list" where
  "split_ws s =
     (let t = dropWhile is_space s in
      if t = [] then []
      else takeWhile (\<lambda>c. \<not> is_space c) t # split_ws (dropWhile (\<lambda>c. \<not> is_space c) t))"
  by pat_completeness auto
termination
proof (relation "measure length")
  show "wf (measure length)" by simp
next
  fix s t :: string
  assume t: "t = dropWhile is_space s" and "t \<noteq> []"
  then obtain c cs where c: "t = c # cs" and nsp: "\<not> is_space c"
    by (metis hd_dropWhile list.collapse)
  have "length (dropWhile (\<lambda>c. \<not> is_space c) t) \<le> length cs"
    using c nsp by (simp add: length_dropWhile_le)
  moreover have "length t \<le> length s" using t by (simp add: length_dropWhile_le)
  ultimately show "(dropWhile (\<lambda>c. \<not> is_space c) t, s) \<in> measure length"
    using c by simp
qed

declare split_ws.simps [simp del]

text \<open>\<open>s.splitlines()\<close>: the boundaries are CR LF, LF, CR, VT, FF, FS, GS, RS and NEL.\<close>

definition is_newline :: "char \<Rightarrow> bool" where
  "is_newline c = (let n = ord_of c in (10 \<le> n \<and> n \<le> 13) \<or> (28 \<le> n \<and> n \<le> 30) \<or> n = 133)"

fun splitlines_from :: "string \<Rightarrow> string \<Rightarrow> string list" where
  "splitlines_from acc [] = (if acc = [] then [] else [rev acc])"
| "splitlines_from acc [c] =
     (if is_newline c then [rev acc] else [rev (c # acc)])"
| "splitlines_from acc (c # d # cs) =
     (if c = CHR 0x0D \<and> d = CHR 0x0A then rev acc # splitlines_from [] cs
      else if is_newline c then rev acc # splitlines_from [] (d # cs)
      else splitlines_from (c # acc) (d # cs))"

definition splitlines :: "string \<Rightarrow> string list" where
  "splitlines s = splitlines_from [] s"

abbreviation nl :: string where
  "nl \<equiv> [CHR 0x0A]"

text \<open>\<open>sub in s\<close>.\<close>

fun contains :: "string \<Rightarrow> string \<Rightarrow> bool" where
  "contains sub [] = (sub = [])"
| "contains sub (c # cs) = (prefix sub (c # cs) \<or> contains sub cs)"

text \<open>Decimal numerals: \<open>str(n)\<close> and \<open>int(s)\<close> of a string of digits.\<close>

definition digit_char :: "nat \<Rightarrow> char" where
  "digit_char d = char_of (48 + d)"

fun show_nat :: "nat \<Rightarrow> string" where
  "show_nat n = (if n < 10 then [digit_char n] else show_nat (n div 10) @ [digit_char (n mod 10)])"

declare show_nat.simps [simp del]

definition show_int :: "int \<Rightarrow> string" where
  "show_int n = (if n < 0 then CHR ''-'' # show_nat (nat (- n)) else show_nat (nat n))"

definition digit_val :: "char \<Rightarrow> nat" where
  "digit_val c = ord_of c - 48"

definition read_nat :: "string \<Rightarrow> nat" where
  "read_nat s = foldl (\<lambda>n c. 10 * n + digit_val c) 0 s"

definition read_int :: "string \<Rightarrow> int" where
  "read_int s = int (read_nat s)"

section \<open>Lemmas about strings\<close>

lemma ord_char_of [simp]: "n < 256 \<Longrightarrow> ord_of (char_of n) = n"
  by (simp add: of_char_of)

lemma ord_less [simp]: "ord_of c < 256"
  by (metis of_char_mod_256 mod_less_divisor zero_less_numeral)

lemma ord_inject: "ord_of c = ord_of d \<longleftrightarrow> c = d"
  by simp

lemma char_of_inject: "m < 256 \<Longrightarrow> n < 256 \<Longrightarrow> char_of m = char_of n \<longleftrightarrow> m = n" for m n :: nat
  by (metis ord_char_of)

lemma digit_char_digit [simp]: "d < 10 \<Longrightarrow> is_digit (digit_char d)"
  by (simp add: is_digit_def digit_char_def Let_def)

lemma digit_val_char [simp]: "d < 10 \<Longrightarrow> digit_val (digit_char d) = d"
  by (simp add: digit_val_def digit_char_def)

lemma read_nat_append: "read_nat (s @ [c]) = 10 * read_nat s + digit_val c"
  by (simp add: read_nat_def)

lemma read_nat_show_nat [simp]: "read_nat (show_nat n) = n"
proof (induction n rule: show_nat.induct)
  case (1 n)
  show ?case
  proof (cases "n < 10")
    case True
    then show ?thesis by (simp add: show_nat.simps [of n] read_nat_def)
  next
    case False
    with "1.IH" show ?thesis by (simp add: show_nat.simps [of n] read_nat_append)
  qed
qed

lemma show_nat_inject [simp]: "show_nat m = show_nat n \<longleftrightarrow> m = n"
  by (metis read_nat_show_nat)

lemma show_nat_digits: "\<forall>c \<in> set (show_nat n). is_digit c"
proof (induction n rule: show_nat.induct)
  case (1 n)
  show ?case
  proof (cases "n < 10")
    case True
    then show ?thesis by (simp add: show_nat.simps [of n])
  next
    case False
    with "1.IH" show ?thesis by (auto simp: show_nat.simps [of n])
  qed
qed

lemma show_nat_nonempty [simp]: "show_nat n \<noteq> []"
  by (simp add: show_nat.simps [of n])

lemma digit_not_space: "is_digit c \<Longrightarrow> \<not> is_space c"
  by (auto simp: is_digit_def is_space_def Let_def)

lemma newline_space: "is_newline c \<Longrightarrow> is_space c"
  by (auto simp: is_newline_def is_space_def Let_def)

lemma digit_not_newline: "is_digit c \<Longrightarrow> \<not> is_newline c"
  using digit_not_space newline_space by blast

text \<open>Joining and splitting.\<close>

lemma split_chr_nonempty [simp]: "split_chr c s \<noteq> []"
  by (induction s) (auto split: list.splits)

lemma split_chr_no_sep: "c \<notin> set s \<Longrightarrow> split_chr c s = [s]"
  by (induction s) auto

lemma split_chr_append:
  "c \<notin> set s \<Longrightarrow> split_chr c (s @ c # t) = s # split_chr c t"
  by (induction s) auto

lemma split_chr_join:
  "xs \<noteq> [] \<Longrightarrow> \<forall>x \<in> set xs. c \<notin> set x \<Longrightarrow> split_chr c (join [c] xs) = xs"
proof (induction xs)
  case Nil
  then show ?case by simp
next
  case (Cons x xs)
  then show ?case by (cases xs) (auto simp: split_chr_no_sep split_chr_append)
qed

lemma join_split_chr [simp]: "join [c] (split_chr c s) = s"
proof (induction s)
  case Nil
  then show ?case by simp
next
  case (Cons x s)
  obtain w ws where split: "split_chr c s = w # ws"
    using split_chr_nonempty [of c s] by (cases "split_chr c s") auto
  with Cons.IH show ?case by (cases ws) auto
qed

lemma split_chr_parts: "w \<in> set (split_chr c s) \<Longrightarrow> c \<notin> set w"
proof (induction s arbitrary: w)
  case Nil
  then show ?case by simp
next
  case (Cons x s)
  obtain v vs where "split_chr c s = v # vs"
    using split_chr_nonempty [of c s] by (cases "split_chr c s") auto
  with Cons show ?case by (auto split: if_splits)
qed

lemma join_Cons: "xs \<noteq> [] \<Longrightarrow> join sep (x # xs) = x @ sep @ join sep xs"
  by (cases xs) auto

lemma join_append:
  "xs \<noteq> [] \<Longrightarrow> ys \<noteq> [] \<Longrightarrow> join sep (xs @ ys) = join sep xs @ sep @ join sep ys"
proof (induction xs)
  case Nil
  then show ?case by simp
next
  case (Cons x xs)
  then show ?case by (cases "xs = []") (simp_all add: join_Cons)
qed

lemma splitlines_from_plain:
  "\<forall>c \<in> set l. \<not> is_newline c \<Longrightarrow>
    splitlines_from acc (l @ nl @ rest) = rev (rev l @ acc) # splitlines_from [] rest"
proof (induction l arbitrary: acc)
  case Nil
  have "is_newline (CHR 0x0A)" by (simp add: is_newline_def)
  then show ?case by (cases rest) auto
next
  case (Cons c l)
  then have "\<not> is_newline c" by simp
  moreover have "is_newline (CHR 0x0D)" by (simp add: is_newline_def)
  ultimately have "splitlines_from acc ((c # l) @ nl @ rest) =
      splitlines_from (c # acc) (l @ nl @ rest)"
    by (cases "l @ nl @ rest") auto
  with Cons show ?case by simp
qed

lemma splitlines_from_last:
  "\<forall>c \<in> set l. \<not> is_newline c \<Longrightarrow> rev l @ acc \<noteq> [] \<Longrightarrow>
    splitlines_from acc l = [rev (rev l @ acc)]"
proof (induction l arbitrary: acc)
  case Nil
  then show ?case by simp
next
  case (Cons c l)
  have "is_newline (CHR 0x0D)" by (simp add: is_newline_def)
  with Cons show ?case by (cases l) auto
qed

definition line_ok :: "string \<Rightarrow> bool" where
  "line_ok l = (\<forall>c \<in> set l. \<not> is_newline c)"

lemma line_ok_Nil [simp]: "line_ok []"
  by (simp add: line_ok_def)

lemma line_ok_Cons [simp]: "line_ok (c # b) \<longleftrightarrow> \<not> is_newline c \<and> line_ok b"
  by (auto simp: line_ok_def)

lemma line_ok_append [simp]: "line_ok (a @ b) \<longleftrightarrow> line_ok a \<and> line_ok b"
  by (auto simp: line_ok_def)

lemma line_ok_show_nat [simp]: "line_ok (show_nat n)"
  using show_nat_digits digit_not_newline by (auto simp: line_ok_def)

lemma no_nl: "line_ok s \<Longrightarrow> CHR 0x0A \<notin> set s"
  by (auto simp: line_ok_def is_newline_def)

lemma splitlines_line: "line_ok l \<Longrightarrow> splitlines (l @ nl @ rest) = l # splitlines rest"
  unfolding splitlines_def line_ok_def using splitlines_from_plain [of l "[]" rest] by simp

lemma splitlines_Nil [simp]: "splitlines [] = []"
  by (simp add: splitlines_def)

lemma splitlines_one: "line_ok l \<Longrightarrow> l \<noteq> [] \<Longrightarrow> splitlines l = [l]"
  by (simp add: splitlines_def line_ok_def splitlines_from_last)

text \<open>The text of a list of lines, each ended by a line feed, splits back into them.\<close>

lemma splitlines_concat:
  "\<forall>l \<in> set ls. line_ok l \<Longrightarrow> splitlines (concat (map (\<lambda>l. l @ nl) ls)) = ls"
proof (induction ls)
  case Nil
  then show ?case by simp
next
  case (Cons l ls)
  then show ?case using splitlines_line [of l "concat (map (\<lambda>l. l @ nl) ls)"] by simp
qed

lemma join_nl: "ls \<noteq> [] \<Longrightarrow> join nl ls @ nl = concat (map (\<lambda>l. l @ nl) ls)"
proof (induction ls)
  case Nil
  then show ?case by simp
next
  case (Cons l ls)
  then show ?case by (cases "ls = []") (simp_all add: join_Cons)
qed

lemma splitlines_join_nl:
  "ls \<noteq> [] \<Longrightarrow> \<forall>l \<in> set ls. line_ok l \<Longrightarrow> splitlines (join nl ls @ nl) = ls"
  by (subst join_nl) (simp_all only: splitlines_concat not_False_eq_True)

lemma splitlines_join:
  assumes "ls \<noteq> []" and "last ls \<noteq> []" and "\<forall>l \<in> set ls. line_ok l"
  shows "splitlines (join nl ls) = ls"
  using assms
proof (induction ls)
  case Nil
  then show ?case by simp
next
  case (Cons l ls)
  show ?case
  proof (cases "ls = []")
    case True
    with Cons.prems show ?thesis by (simp add: splitlines_one)
  next
    case False
    with Cons have "splitlines (join nl ls) = ls" by simp
    with False Cons.prems show ?thesis
      using splitlines_line [of l "join nl ls"] by (simp add: join_Cons)
  qed
qed

definition unlines :: "string list \<Rightarrow> string" where
  "unlines ls = concat (map (\<lambda>l. l @ nl) ls)"

lemma splitlines_unlines: "\<forall>l \<in> set ls. line_ok l \<Longrightarrow> splitlines (unlines ls) = ls"
  unfolding unlines_def by (rule splitlines_concat)

text \<open>Every line of a text is free of line boundaries.\<close>

lemma splitlines_from_ok:
  "l \<in> set (splitlines_from acc s) \<Longrightarrow> \<forall>c \<in> set acc. \<not> is_newline c \<Longrightarrow> line_ok l"
proof (induction acc s arbitrary: l rule: splitlines_from.induct)
  case (1 acc)
  then show ?case by (auto simp: line_ok_def split: if_splits)
next
  case (2 acc c)
  then show ?case by (auto simp: line_ok_def split: if_splits)
next
  case (3 acc c d cs)
  have acc: "line_ok (rev acc)" using "3.prems"(2) by (simp add: line_ok_def)
  consider "c = CHR 0x0D \<and> d = CHR 0x0A" | "\<not> (c = CHR 0x0D \<and> d = CHR 0x0A)" "is_newline c"
    | "\<not> (c = CHR 0x0D \<and> d = CHR 0x0A)" "\<not> is_newline c" by blast
  then show ?case
  proof cases
    case 1
    then show ?thesis using "3.prems"(1) "3.IH"(1) acc by (simp del: char.inject) blast
  next
    case 2
    then have "l = rev acc \<or> l \<in> set (splitlines_from [] (d # cs))"
      using "3.prems"(1) by (simp only: splitlines_from.simps if_False if_True list.set insert_iff)
    then show ?thesis using "3.IH"(2) 2 acc by auto
  next
    case 3
    then have "l \<in> set (splitlines_from (c # acc) (d # cs))"
      using "3.prems"(1) by (simp only: splitlines_from.simps if_False)
    then show ?thesis using "3.IH"(3) 3 "3.prems"(2) by simp
  qed
qed

lemma splitlines_ok: "l \<in> set (splitlines s) \<Longrightarrow> line_ok l"
  unfolding splitlines_def by (erule splitlines_from_ok) simp

text \<open>Stripping.\<close>

lemma rstrip_by_prefix: "\<exists>t. s = rstrip_by p s @ t \<and> (\<forall>c \<in> set t. p c)"
proof -
  have "s = rev (takeWhile p (rev s) @ dropWhile p (rev s))" by simp
  then have "s = rstrip_by p s @ rev (takeWhile p (rev s))"
    by (simp only: rstrip_by_def rev_append)
  moreover have "\<forall>c \<in> set (rev (takeWhile p (rev s))). p c" by (auto dest: set_takeWhileD)
  ultimately show ?thesis by blast
qed

lemma rstrip_by_last: "rstrip_by p s \<noteq> [] \<Longrightarrow> \<not> p (last (rstrip_by p s))"
  unfolding rstrip_by_def by (simp add: last_rev hd_dropWhile)

lemma lstrip_by_hd: "lstrip_by p s \<noteq> [] \<Longrightarrow> \<not> p (hd (lstrip_by p s))"
  unfolding lstrip_by_def by (rule hd_dropWhile)

lemma rstrip_by_id: "s = [] \<or> \<not> p (last s) \<Longrightarrow> rstrip_by p s = s"
  by (cases s rule: rev_cases) (auto simp: rstrip_by_def)

lemma lstrip_by_id: "s = [] \<or> \<not> p (hd s) \<Longrightarrow> lstrip_by p s = s"
  by (cases s) (auto simp: lstrip_by_def)

lemma strip_by_id: "s = [] \<or> \<not> p (hd s) \<and> \<not> p (last s) \<Longrightarrow> strip_by p s = s"
  unfolding strip_by_def by (auto simp: lstrip_by_id rstrip_by_id)

lemma rstrip_by_hd: "rstrip_by p s \<noteq> [] \<Longrightarrow> hd (rstrip_by p s) = hd s"
  using rstrip_by_prefix [of s p] by (metis hd_append2)

lemma strip_by_ends:
  "strip_by p s \<noteq> [] \<Longrightarrow> \<not> p (hd (strip_by p s)) \<and> \<not> p (last (strip_by p s))"
  unfolding strip_by_def
  by (metis rstrip_by_hd rstrip_by_last lstrip_by_hd rstrip_by_prefix Nil_is_append_conv)

lemma strip_by_idem [simp]: "strip_by p (strip_by p s) = strip_by p s"
  by (metis strip_by_id strip_by_ends)

lemma length_rstrip_by: "length (rstrip_by p s) \<le> length s"
  unfolding rstrip_by_def by (metis length_dropWhile_le length_rev)

lemma set_rstrip_by: "set (rstrip_by p s) \<subseteq> set s"
  unfolding rstrip_by_def by (auto dest: set_dropWhileD)

lemma set_strip_by: "set (strip_by p s) \<subseteq> set s"
  unfolding strip_by_def lstrip_by_def using set_rstrip_by by (fastforce dest: set_dropWhileD)

section \<open>Dictionaries\<close>

type_synonym ('k, 'v) dict = "('k \<times> 'v) list"

abbreviation dict_get :: "('k, 'v) dict \<Rightarrow> 'k \<Rightarrow> 'v option" where
  "dict_get \<equiv> map_of"

abbreviation keys :: "('k, 'v) dict \<Rightarrow> 'k list" where
  "keys d \<equiv> map fst d"

text \<open>\<open>d[k] = v\<close>: in place for a key that is there, at the end for a new one.\<close>

fun dict_set :: "'k \<Rightarrow> 'v \<Rightarrow> ('k, 'v) dict \<Rightarrow> ('k, 'v) dict" where
  "dict_set k v [] = [(k, v)]"
| "dict_set k v ((k', v') # d) = (if k = k' then (k, v) # d else (k', v') # dict_set k v d)"

definition dict_del :: "'k \<Rightarrow> ('k, 'v) dict \<Rightarrow> ('k, 'v) dict" where
  "dict_del k d = filter (\<lambda>(k', _). k' \<noteq> k) d"

text \<open>\<open>{**d, **e}\<close> and \<open>d.update(e)\<close>.\<close>

definition dict_merge :: "('k, 'v) dict \<Rightarrow> ('k, 'v) dict \<Rightarrow> ('k, 'v) dict" where
  "dict_merge d e = foldl (\<lambda>d (k, v). dict_set k v d) d e"

lemma dict_get_set [simp]: "dict_get (dict_set k v d) k' = (if k' = k then Some v else dict_get d k')"
  by (induction d) auto

lemma keys_dict_set: "keys (dict_set k v d) = (if k \<in> set (keys d) then keys d else keys d @ [k])"
  by (induction k v d rule: dict_set.induct) auto

lemma distinct_dict_set [simp]: "distinct (keys (dict_set k v d)) \<longleftrightarrow> distinct (keys d)"
  by (simp add: keys_dict_set)

lemma dict_get_del [simp]: "dict_get (dict_del k d) k' = (if k' = k then None else dict_get d k')"
  by (induction d) (auto simp: dict_del_def)

lemma distinct_dict_del: "distinct (keys d) \<Longrightarrow> distinct (keys (dict_del k d))"
  by (induction d) (auto simp: dict_del_def)

lemma dict_get_merge:
  "distinct (keys e) \<Longrightarrow>
    dict_get (dict_merge d e) k = (case dict_get e k of None \<Rightarrow> dict_get d k | Some v \<Rightarrow> Some v)"
proof (induction e arbitrary: d)
  case Nil
  then show ?case by (simp add: dict_merge_def)
next
  case (Cons x e)
  obtain a b where x: "x = (a, b)" by (cases x)
  with Cons.prems have "dict_get e a = None" by (simp add: map_of_eq_None_iff)
  moreover have "dict_merge d (x # e) = dict_merge (dict_set a b d) e"
    by (simp add: dict_merge_def x)
  ultimately show ?case using Cons x by (auto split: option.splits)
qed

text \<open>\<open>list(dict.fromkeys(xs))\<close>: the elements in order of first occurrence.\<close>

fun dedup_acc :: "'a list \<Rightarrow> 'a list \<Rightarrow> 'a list" where
  "dedup_acc seen [] = seen"
| "dedup_acc seen (x # xs) = (if x \<in> set seen then dedup_acc seen xs else dedup_acc (seen @ [x]) xs)"

definition dedup :: "'a list \<Rightarrow> 'a list" where
  "dedup xs = dedup_acc [] xs"

lemma set_dedup_acc: "set (dedup_acc seen xs) = set seen \<union> set xs"
  by (induction seen xs rule: dedup_acc.induct) auto

lemma distinct_dedup_acc: "distinct seen \<Longrightarrow> distinct (dedup_acc seen xs)"
  by (induction seen xs rule: dedup_acc.induct) auto

lemma set_dedup [simp]: "set (dedup xs) = set xs"
  by (simp add: dedup_def set_dedup_acc)

lemma distinct_dedup [simp]: "distinct (dedup xs)"
  by (simp add: dedup_def distinct_dedup_acc)

lemma dedup_acc_prefix: "prefix seen (dedup_acc seen xs)"
proof (induction seen xs rule: dedup_acc.induct)
  case (1 seen)
  then show ?case by simp
next
  case (2 seen x xs)
  then show ?case by (auto intro: prefix_order.trans [of _ "seen @ [x]"])
qed

lemma dedup_append_prefix: "distinct xs \<Longrightarrow> prefix xs (dedup (xs @ ys))"
proof -
  have step: "distinct (seen @ xs) \<Longrightarrow> dedup_acc seen (xs @ ys) = dedup_acc (seen @ xs) ys" for seen
    by (induction xs arbitrary: seen) auto
  assume "distinct xs"
  then show ?thesis using step [of "[]"] dedup_acc_prefix [of xs ys] by (simp add: dedup_def)
qed

lemma contains_set: "contains sub s \<Longrightarrow> set sub \<subseteq> set s"
  by (induction s) (auto dest!: set_mono_prefix)

lemma contains_Nil [simp]: "contains [] s"
  by (cases s) auto

section \<open>Sorting\<close>

text \<open>\<open>sorted(xs)\<close> is \<open>sort\<close> of the library; code points compare as the characters do.\<close>

lemma sorted_strings [simp]: "sorted (sort (xs :: string list))"
  by simp

end
