(* ===== verification/PyRegex.thy ===== *)
theory PyRegex
  imports Prelude
begin

text \<open>
  The part of Python's \<open>re\<close> module the sources use: patterns as a datatype, and the backtracking
  matcher as the list of all its results in the order it would try them, so the first element is
  the match Python returns. Later sections characterise the results of the constructs the
  repository's patterns are built from, and relate the matcher to a derivation relation that
  knows nothing of priorities. No pattern of the repository repeats a part that can match the
  empty string, so a repetition is only continued after progress.
\<close>

section \<open>Patterns and the matcher\<close>

datatype re =
    REps
  | RCls "char \<Rightarrow> bool"
  | RSeq re re
  | RAlt re re
  | RStar re
  | RLazy re
  | RGrp string re
  | RBol
  | REol
  | RMBol
  | RMEol
  | RWordB

text \<open>
  A matcher state is the text already passed (reversed), the text to come, and the groups
  captured so far, the latest first.
\<close>

type_synonym caps = "(string, string) dict"
type_synonym rst = "string \<times> string \<times> caps"

abbreviation togo :: "rst \<Rightarrow> string" where
  "togo st \<equiv> fst (snd st)"

function star_run :: "(rst \<Rightarrow> rst list) \<Rightarrow> rst \<Rightarrow> rst list" where
  "star_run f st =
     concat (map (\<lambda>st'. if length (togo st') < length (togo st) then star_run f st' else []) (f st))
     @ [st]"
  by pat_completeness auto
termination
  by (relation "measure (\<lambda>(f, st). length (togo st))") auto

function lazy_run :: "(rst \<Rightarrow> rst list) \<Rightarrow> rst \<Rightarrow> rst list" where
  "lazy_run f st =
     st # concat (map (\<lambda>st'. if length (togo st') < length (togo st) then lazy_run f st' else [])
                      (f st))"
  by pat_completeness auto
termination
  by (relation "measure (\<lambda>(f, st). length (togo st))") auto

declare star_run.simps [simp del] lazy_run.simps [simp del]

definition is_word :: "char \<Rightarrow> bool" where
  "is_word c =
     (let n = ord_of c in
      is_alnum_ascii c \<or> n = 95 \<or> n \<in> {170, 178, 179, 181, 185, 186, 188, 189, 190}
      \<or> (192 \<le> n \<and> n \<noteq> 215 \<and> n \<noteq> 247))"

definition word_at :: "string \<Rightarrow> bool" where
  "word_at s = (case s of [] \<Rightarrow> False | c # _ \<Rightarrow> is_word c)"

fun run :: "re \<Rightarrow> rst \<Rightarrow> rst list" where
  "run REps st = [st]"
| "run (RCls p) (pre, s, caps) =
     (case s of [] \<Rightarrow> [] | c # cs \<Rightarrow> (if p c then [(c # pre, cs, caps)] else []))"
| "run (RSeq r1 r2) st = concat (map (run r2) (run r1 st))"
| "run (RAlt r1 r2) st = run r1 st @ run r2 st"
| "run (RStar r) st = star_run (run r) st"
| "run (RLazy r) st = lazy_run (run r) st"
| "run (RGrp g r) (pre, s, caps) =
     map (\<lambda>(pre', s', caps').
            (pre', s', (g, take (length s - length s') s) # caps')) (run r (pre, s, caps))"
| "run RBol (pre, s, caps) = (if pre = [] then [(pre, s, caps)] else [])"
| "run REol (pre, s, caps) = (if s = [] \<or> s = nl then [(pre, s, caps)] else [])"
| "run RMBol (pre, s, caps) =
     (if pre = [] \<or> hd pre = CHR 0x0A then [(pre, s, caps)] else [])"
| "run RMEol (pre, s, caps) = (if s = [] \<or> hd s = CHR 0x0A then [(pre, s, caps)] else [])"
| "run RWordB (pre, s, caps) = (if word_at pre \<noteq> word_at s then [(pre, s, caps)] else [])"

text \<open>Derived forms: one character, a literal, \<open>r+\<close>, \<open>r+?\<close>, \<open>r?\<close>, \<open>r{n}\<close>, and \<open>.\<close>\<close>

abbreviation RChr :: "char \<Rightarrow> re" where
  "RChr c \<equiv> RCls (\<lambda>x. x = c)"

fun RLit :: "string \<Rightarrow> re" where
  "RLit [] = REps"
| "RLit (c # cs) = RSeq (RChr c) (RLit cs)"

fun RSeqs :: "re list \<Rightarrow> re" where
  "RSeqs [] = REps"
| "RSeqs (r # rs) = RSeq r (RSeqs rs)"

fun RAlts :: "re \<Rightarrow> re list \<Rightarrow> re" where
  "RAlts r [] = r"
| "RAlts r (q # rs) = RAlt r (RAlts q rs)"

abbreviation RPlus :: "re \<Rightarrow> re" where
  "RPlus r \<equiv> RSeq r (RStar r)"

abbreviation RLazyPlus :: "re \<Rightarrow> re" where
  "RLazyPlus r \<equiv> RSeq r (RLazy r)"

abbreviation ROpt :: "re \<Rightarrow> re" where
  "ROpt r \<equiv> RAlt r REps"

fun RTimes :: "nat \<Rightarrow> re \<Rightarrow> re" where
  "RTimes 0 r = REps"
| "RTimes (Suc n) r = RSeq r (RTimes n r)"

definition not_nl :: "char \<Rightarrow> bool" where
  "not_nl c = (c \<noteq> CHR 0x0A)"

abbreviation RDot :: re where
  "RDot \<equiv> RCls not_nl"

abbreviation RDigit :: re where
  "RDigit \<equiv> RCls is_digit"

abbreviation RSpace :: re where
  "RSpace \<equiv> RCls is_space"

abbreviation RNonSpace :: re where
  "RNonSpace \<equiv> RCls (\<lambda>c. \<not> is_space c)"

text \<open>A character that equals \<open>c\<close> under \<open>re.IGNORECASE\<close> (an ASCII letter).\<close>

abbreviation RChrI :: "char \<Rightarrow> re" where
  "RChrI c \<equiv> RCls (\<lambda>x. lower_char x = lower_char c)"

fun RLitI :: "string \<Rightarrow> re" where
  "RLitI [] = REps"
| "RLitI (c # cs) = RSeq (RChrI c) (RLitI cs)"

section \<open>The operations of the module\<close>

text \<open>A match: what it consumed, what follows it, and the groups it captured.\<close>

record mtch =
  m_text :: string
  m_rest :: string
  m_caps :: caps

definition first_match :: "re \<Rightarrow> string \<Rightarrow> string \<Rightarrow> mtch option" where
  "first_match r pre s =
     (case run r (pre, s, []) of
        [] \<Rightarrow> None
      | (pre', s', caps) # _ \<Rightarrow>
          Some \<lparr>m_text = take (length s - length s') s, m_rest = s', m_caps = caps\<rparr>)"

definition re_match :: "re \<Rightarrow> string \<Rightarrow> mtch option" where
  "re_match r s = first_match r [] s"

text \<open>\<open>re.search\<close>: the first position with a match; what precedes it comes first.\<close>

fun search_from :: "re \<Rightarrow> string \<Rightarrow> string \<Rightarrow> (string \<times> mtch) option" where
  "search_from r pre [] = map_option (\<lambda>m. (rev pre, m)) (first_match r pre [])"
| "search_from r pre (c # cs) =
     (case first_match r pre (c # cs) of
        Some m \<Rightarrow> Some (rev pre, m)
      | None \<Rightarrow> search_from r (c # pre) cs)"

definition re_search :: "re \<Rightarrow> string \<Rightarrow> (string \<times> mtch) option" where
  "re_search r s = search_from r [] s"

text \<open>
  \<open>re.sub(r, repl, s)\<close> with a constant replacement and \<open>re.finditer(r, s)\<close>, for patterns that
  match no empty text: left to right, a match is taken whole and the scan goes on after it.
\<close>

function sub_from :: "re \<Rightarrow> string \<Rightarrow> string \<Rightarrow> string \<Rightarrow> string" where
  "sub_from r repl pre [] = []"
| "sub_from r repl pre (c # cs) =
     (case first_match r pre (c # cs) of
        Some m \<Rightarrow>
          (if length (m_rest m) < Suc (length cs)
           then repl @ sub_from r repl (rev (m_text m) @ pre) (m_rest m)
           else c # sub_from r repl (c # pre) cs)
      | None \<Rightarrow> c # sub_from r repl (c # pre) cs)"
  by pat_completeness auto
termination
  by (relation "measure (\<lambda>(r, repl, pre, s). length s)") auto

definition re_sub :: "re \<Rightarrow> string \<Rightarrow> string \<Rightarrow> string" where
  "re_sub r repl s = sub_from r repl [] s"

function find_from :: "re \<Rightarrow> string \<Rightarrow> string \<Rightarrow> mtch list" where
  "find_from r pre [] = []"
| "find_from r pre (c # cs) =
     (case first_match r pre (c # cs) of
        Some m \<Rightarrow>
          (if length (m_rest m) < Suc (length cs)
           then m # find_from r (rev (m_text m) @ pre) (m_rest m)
           else find_from r (c # pre) cs)
      | None \<Rightarrow> find_from r (c # pre) cs)"
  by pat_completeness auto
termination
  by (relation "measure (\<lambda>(r, pre, s). length s)") auto

definition re_findall :: "re \<Rightarrow> string \<Rightarrow> mtch list" where
  "re_findall r s = find_from r [] s"

text \<open>\<open>m.group(name)\<close>: None for a group that took no part in the match.\<close>

definition grp :: "mtch \<Rightarrow> string \<Rightarrow> string option" where
  "grp m g = dict_get (m_caps m) g"

definition grp0 :: "mtch \<Rightarrow> string \<Rightarrow> string" where
  "grp0 m g = (case grp m g of None \<Rightarrow> [] | Some s \<Rightarrow> s)"

section \<open>Every result passes over a prefix of the text\<close>

definition consumes :: "rst \<Rightarrow> rst \<Rightarrow> bool" where
  "consumes st st' = (\<exists>w. togo st = w @ togo st' \<and> fst st' = rev w @ fst st)"

lemma consumes_refl [simp]: "consumes st st"
  by (simp add: consumes_def)

lemma consumes_trans: "consumes st st' \<Longrightarrow> consumes st' st'' \<Longrightarrow> consumes st st''"
  unfolding consumes_def by fastforce

lemma star_run_consumes:
  "(\<And>st st'. st' \<in> set (f st) \<Longrightarrow> consumes st st') \<Longrightarrow> st' \<in> set (star_run f st) \<Longrightarrow> consumes st st'"
proof (induction f st arbitrary: st' rule: star_run.induct)
  case (1 f st)
  from "1.prems"(2) consider "st' = st"
    | u where "u \<in> set (f st)" "length (togo u) < length (togo st)" "st' \<in> set (star_run f u)"
    by (subst (asm) star_run.simps) (auto split: if_splits)
  then show ?case
  proof cases
    case 2
    then show ?thesis using "1.IH" [OF 2(1,2) "1.prems"(1) 2(3)] "1.prems"(1) consumes_trans by blast
  qed simp
qed

lemma lazy_run_consumes:
  "(\<And>st st'. st' \<in> set (f st) \<Longrightarrow> consumes st st') \<Longrightarrow> st' \<in> set (lazy_run f st) \<Longrightarrow> consumes st st'"
proof (induction f st arbitrary: st' rule: lazy_run.induct)
  case (1 f st)
  from "1.prems"(2) consider "st' = st"
    | u where "u \<in> set (f st)" "length (togo u) < length (togo st)" "st' \<in> set (lazy_run f u)"
    by (subst (asm) lazy_run.simps) (auto split: if_splits)
  then show ?case
  proof cases
    case 2
    then show ?thesis using "1.IH" [OF 2(1,2) "1.prems"(1) 2(3)] "1.prems"(1) consumes_trans by blast
  qed simp
qed

lemma run_consumes: "st' \<in> set (run r st) \<Longrightarrow> consumes st st'"
proof (induction r arbitrary: st st')
  case (RCls p)
  then show ?case by (cases st) (auto simp: consumes_def split: list.splits if_splits)
next
  case (RSeq r1 r2)
  from RSeq.prems obtain u where "u \<in> set (run r1 st)" "st' \<in> set (run r2 u)" by auto
  then show ?case using RSeq.IH consumes_trans by blast
next
  case (RStar r)
  from RStar.prems have "st' \<in> set (star_run (run r) st)" by simp
  then show ?case by (rule star_run_consumes [rotated]) (rule RStar.IH)
next
  case (RLazy r)
  from RLazy.prems have "st' \<in> set (lazy_run (run r) st)" by simp
  then show ?case by (rule lazy_run_consumes [rotated]) (rule RLazy.IH)
next
  case (RGrp g r)
  then show ?case by (cases st) (fastforce simp: consumes_def)
qed (auto split: if_splits simp: consumes_def)

lemma first_match_parts:
  assumes "first_match r pre s = Some m"
  shows "s = m_text m @ m_rest m"
proof -
  from assms obtain st' where st': "st' \<in> set (run r (pre, s, []))"
    and m: "m_rest m = togo st'" "m_text m = take (length s - length (togo st')) s"
    by (cases "run r (pre, s, [])") (fastforce simp: first_match_def)+
  from run_consumes [OF st'] obtain w where "s = w @ togo st'"
    by (auto simp: consumes_def)
  with m show ?thesis by simp
qed

lemma re_match_parts: "re_match r s = Some m \<Longrightarrow> s = m_text m @ m_rest m"
  unfolding re_match_def by (rule first_match_parts)

lemma search_from_parts:
  "search_from r pre s = Some (a, m) \<Longrightarrow> rev pre @ s = a @ m_text m @ m_rest m"
proof (induction r pre s rule: search_from.induct)
  case (1 r pre)
  then show ?case by (auto dest: first_match_parts)
next
  case (2 r pre c cs)
  then show ?case by (auto split: option.splits dest: first_match_parts)
qed

lemma re_search_parts: "re_search r s = Some (a, m) \<Longrightarrow> s = a @ m_text m @ m_rest m"
  unfolding re_search_def by (drule search_from_parts) simp

section \<open>Evaluation in sequence\<close>

text \<open>
  A pattern is run from left to right: these equations give the results of one construct
  followed by the rest of the pattern, and are what evaluates the repository's patterns, on
  concrete texts and in inductions alike.
\<close>

lemma run_RLit_same: "run (RLit w) (pre, w @ s, caps) = [(rev w @ pre, s, caps)]"
  by (induction w arbitrary: pre) auto

lemma run_RLit_other: "\<not> prefix w s \<Longrightarrow> run (RLit w) (pre, s, caps) = []"
proof (induction w arbitrary: pre s)
  case Nil
  then show ?case by simp
next
  case (Cons c w)
  then show ?case by (cases s) auto
qed

lemma run_RLit:
  "run (RLit w) (pre, s, caps) =
    (if prefix w s then [(rev w @ pre, drop (length w) s, caps)] else [])"
proof (cases "prefix w s")
  case True
  then obtain t where "s = w @ t" by (auto simp: prefix_def)
  then show ?thesis by (simp add: run_RLit_same)
next
  case False
  then show ?thesis by (simp add: run_RLit_other)
qed

lemma concat_map_concat: "concat (map f (concat xss)) = concat (map (\<lambda>xs. concat (map f xs)) xss)"
  by (induction xss) auto

lemma run_seq_assoc: "run (RSeq (RSeq a b) c) st = run (RSeq a (RSeq b c)) st"
proof -
  have "run (RSeq b c) = (\<lambda>u. concat (map (run c) (run b u)))" by (rule ext) simp
  then show ?thesis by (simp only: run.simps concat_map_concat map_map comp_def)
qed

lemma run_star_cls_Nil: "run (RStar (RCls p)) (pre, [], caps) = [(pre, [], caps)]"
  by (simp add: star_run.simps)

lemma run_star_cls_Cons:
  "run (RStar (RCls p)) (pre, c # cs, caps) =
    (if p c then run (RStar (RCls p)) (c # pre, cs, caps) else []) @ [(pre, c # cs, caps)]"
  by (simp add: star_run.simps [of _ "(pre, c # cs, caps)"])

lemma run_lazy_cls_Nil: "run (RLazy (RCls p)) (pre, [], caps) = [(pre, [], caps)]"
  by (simp add: lazy_run.simps)

lemma run_lazy_cls_Cons:
  "run (RLazy (RCls p)) (pre, c # cs, caps) =
    (pre, c # cs, caps) # (if p c then run (RLazy (RCls p)) (c # pre, cs, caps) else [])"
  by (simp add: lazy_run.simps [of _ "(pre, c # cs, caps)"])

text \<open>The results of a greedy and of a lazy repetition of one class, longest and shortest first.\<close>

lemma upt_0_Suc: "[0..<Suc n] = 0 # map Suc [0..<n]"
  by (simp only: map_Suc_upt upt_conv_Cons [OF zero_less_Suc])

lemma star_cls_results:
  "run (RStar (RCls p)) (pre, s, caps) =
    map (\<lambda>n. (rev (take n s) @ pre, drop n s, caps)) (rev [0..<Suc (length (takeWhile p s))])"
proof (induction s arbitrary: pre)
  case Nil
  show ?case by (simp add: run_star_cls_Nil del: run.simps)
next
  case (Cons c cs)
  let ?f = "\<lambda>n. (rev (take n (c # cs)) @ pre, drop n (c # cs), caps)"
  show ?case
  proof (cases "p c")
    case True
    define m where "m = Suc (length (takeWhile p cs))"
    have "run (RStar (RCls p)) (pre, c # cs, caps) =
        map (\<lambda>n. (rev (take n cs) @ c # pre, drop n cs, caps)) (rev [0..<m]) @ [(pre, c # cs, caps)]"
      using True by (simp only: run_star_cls_Cons Cons.IH m_def if_True)
    also have "\<dots> = map ?f (rev (map Suc [0..<m])) @ map ?f [0]"
      by (simp only: rev_map [of Suc] map_map comp_def list.map take_Suc_Cons drop_Suc_Cons
          rev.simps append_assoc append.simps take0 drop0)
    also have "\<dots> = map ?f (rev [0..<Suc m])"
      by (simp only: upt_0_Suc rev.simps map_append)
    finally show ?thesis using True by (simp only: m_def takeWhile.simps if_True list.size(4) add_Suc_right add_0_right)
  next
    case False
    then show ?thesis by (simp add: run_star_cls_Cons del: run.simps)
  qed
qed

lemma lazy_cls_results:
  "run (RLazy (RCls p)) (pre, s, caps) =
    map (\<lambda>n. (rev (take n s) @ pre, drop n s, caps)) [0..<Suc (length (takeWhile p s))]"
proof (induction s arbitrary: pre)
  case Nil
  show ?case by (simp add: run_lazy_cls_Nil del: run.simps)
next
  case (Cons c cs)
  let ?f = "\<lambda>n. (rev (take n (c # cs)) @ pre, drop n (c # cs), caps)"
  show ?case
  proof (cases "p c")
    case True
    define m where "m = Suc (length (takeWhile p cs))"
    have "run (RLazy (RCls p)) (pre, c # cs, caps) =
        (pre, c # cs, caps) # map (\<lambda>n. (rev (take n cs) @ c # pre, drop n cs, caps)) [0..<m]"
      using True by (simp only: run_lazy_cls_Cons Cons.IH m_def if_True)
    also have "\<dots> = map ?f [0..<Suc m]"
      by (simp only: upt_0_Suc list.map map_map) (simp add: comp_def)
    finally show ?thesis using True by (simp only: m_def takeWhile.simps if_True list.size(4) add_Suc_right add_0_right)
  next
    case False
    then show ?thesis by (simp add: run_lazy_cls_Cons del: run.simps)
  qed
qed

text \<open>A greedy repetition takes the whole run of the class when the rest of the pattern can follow.\<close>

lemma takeWhile_run: "\<forall>c \<in> set w. p c \<Longrightarrow> s = [] \<or> \<not> p (hd s) \<Longrightarrow> takeWhile p (w @ s) = w"
  by (induction w) (cases s; auto)+

lemma star_cls_first:
  assumes "\<forall>c \<in> set w. p c" and "s = [] \<or> \<not> p (hd s)"
  shows "\<exists>rs. run (RStar (RCls p)) (pre, w @ s, caps) = (rev w @ pre, s, caps) # rs"
  using takeWhile_run [OF assms]
  by (simp add: star_cls_results del: run.simps)

lemma seq_first:
  assumes "run r st = st' # rs" and "run k st' = x # xs"
  shows "\<exists>ys. run (RSeq r k) st = x # ys"
  using assms by simp

lemma seq_star_cls:
  assumes "\<forall>c \<in> set w. p c" and "s = [] \<or> \<not> p (hd s)"
    and "run k (rev w @ pre, s, caps) = x # xs"
  shows "\<exists>ys. run (RSeq (RStar (RCls p)) k) (pre, w @ s, caps) = x # ys"
  using star_cls_first [OF assms(1,2)] seq_first assms(3) by blast

lemma run_grp:
  "run (RGrp g r) (pre, s, caps) =
    map (\<lambda>(pre', s', caps'). (pre', s', (g, take (length s - length s') s) # caps'))
      (run r (pre, s, caps))"
  by simp

lemma grp_star_cls_first:
  assumes "\<forall>c \<in> set w. p c" and "s = [] \<or> \<not> p (hd s)"
  shows "\<exists>rs. run (RGrp g (RStar (RCls p))) (pre, w @ s, caps) = (rev w @ pre, s, (g, w) # caps) # rs"
proof -
  obtain rs where "run (RStar (RCls p)) (pre, w @ s, caps) = (rev w @ pre, s, caps) # rs"
    using star_cls_first [OF assms] by blast
  then show ?thesis by (simp del: run.simps add: run_grp)
qed

lemma grp_plus_cls_first:
  assumes "\<forall>c \<in> set w. p c" and "s = [] \<or> \<not> p (hd s)" and "w \<noteq> []"
  shows "\<exists>rs. run (RGrp g (RPlus (RCls p))) (pre, w @ s, caps) = (rev w @ pre, s, (g, w) # caps) # rs"
proof -
  obtain c cs where w: "w = c # cs" using assms(3) by (cases w) auto
  have "run (RPlus (RCls p)) (pre, w @ s, caps) = run (RStar (RCls p)) (c # pre, cs @ s, caps)"
    using assms(1) w by simp
  moreover obtain rs where
    "run (RStar (RCls p)) (c # pre, cs @ s, caps) = (rev cs @ c # pre, s, caps) # rs"
    using star_cls_first [of cs p s "c # pre" caps] assms(1,2) w by auto
  ultimately show ?thesis using w by (simp del: run.simps add: run_grp)
qed

text \<open>
  A lazy repetition followed by \<open>k\<close> stops at the first point where \<open>k\<close> matches.
\<close>

lemma concat_map_first:
  assumes "\<forall>i < n. f i = []" and "f n = x # xs" and "n < m"
  shows "\<exists>ys. concat (map f [0..<m]) = x # ys"
proof -
  have "concat (map f [0..<n]) = []" using assms(1) by simp
  moreover have "[0..<m] = [0..<n] @ n # [Suc n..<m]"
    using upt_add_eq_append [of 0 n "m - n"] upt_conv_Cons [OF assms(3)] assms(3) by simp
  ultimately have "concat (map f [0..<m]) = x # xs @ concat (map f [Suc n..<m])"
    using assms(2) by (simp only: map_append concat_append list.map concat.simps append.simps)
  then show ?thesis by blast
qed

lemma length_takeWhile_run: "\<forall>c \<in> set w. p c \<Longrightarrow> length w \<le> length (takeWhile p (w @ s))"
  by (induction w) auto

lemma grp_lazy_cls_first:
  assumes p: "\<forall>c \<in> set w. p c"
    and fail: "\<And>i. i < length w \<Longrightarrow>
      run k (rev (take i w) @ pre, drop i w @ s, (g, take i w) # caps) = []"
    and ok: "run k (rev w @ pre, s, (g, w) # caps) = x # xs"
  shows "\<exists>ys. run (RSeq (RGrp g (RLazy (RCls p))) k) (pre, w @ s, caps) = x # ys"
proof -
  let ?t = "w @ s"
  let ?f = "\<lambda>n. run k (rev (take n ?t) @ pre, drop n ?t,
      (g, take (length ?t - length (drop n ?t)) ?t) # caps)"
  have eq: "run (RSeq (RGrp g (RLazy (RCls p))) k) (pre, ?t, caps) =
      concat (map ?f [0..<Suc (length (takeWhile p ?t))])"
    by (simp only: run.simps(3) run_grp lazy_cls_results map_map comp_def prod.case)
  have "\<forall>i < length w. ?f i = []" using fail by simp
  moreover have "?f (length w) = x # xs" using ok by simp
  moreover have "length w < Suc (length (takeWhile p ?t))"
    using length_takeWhile_run [OF p, of s] by simp
  ultimately show ?thesis
    unfolding eq by (rule concat_map_first)
qed

lemma grp_lazy_plus_first:
  assumes p: "\<forall>c \<in> set w. p c" and ne: "w \<noteq> []"
    and fail: "\<And>i. 0 < i \<Longrightarrow> i < length w \<Longrightarrow>
      run k (rev (take i w) @ pre, drop i w @ s, (g, take i w) # caps) = []"
    and ok: "run k (rev w @ pre, s, (g, w) # caps) = x # xs"
  shows "\<exists>ys. run (RSeq (RGrp g (RLazyPlus (RCls p))) k) (pre, w @ s, caps) = x # ys"
proof -
  obtain c cs where w: "w = c # cs" using ne by (cases w) auto
  let ?t = "cs @ s"
  let ?f = "\<lambda>n. run k (rev (take n ?t) @ c # pre, drop n ?t,
      (g, take (length (c # ?t) - length (drop n ?t)) (c # ?t)) # caps)"
  have "run (RLazyPlus (RCls p)) (pre, c # ?t, caps) = run (RLazy (RCls p)) (c # pre, ?t, caps)"
    using p w by simp
  then have eq: "run (RSeq (RGrp g (RLazyPlus (RCls p))) k) (pre, w @ s, caps) =
      concat (map ?f [0..<Suc (length (takeWhile p ?t))])"
    by (simp only: w append_Cons run.simps(3) [of "RGrp _ _"] run_grp lazy_cls_results map_map
        comp_def prod.case)
  have "?f i = []" if "i < length cs" for i
    using fail [of "Suc i"] that w by (simp add: Suc_diff_le)
  moreover have "?f (length cs) = x # xs" using ok w by simp
  moreover have "length cs < Suc (length (takeWhile p ?t))"
    using length_takeWhile_run [of cs p s] p w by simp
  ultimately show ?thesis
    unfolding eq by (intro concat_map_first) auto
qed

text \<open>The bundle that evaluates a pattern on a concrete text.\<close>

lemmas re_eval =
  re_match_def first_match_def run.simps RLit.simps star_run.simps lazy_run.simps
  is_word_def word_at_def is_alnum_ascii_def is_digit_def is_lower_ascii_def is_upper_ascii_def
  is_space_def not_nl_def lower_char_def Let_def

declare run.simps(5,6,7) [simp del] RLit.simps [simp del] run_RLit [simp]

end
