(* ===== verification/Verdict.thy ===== *)
theory Verdict
  imports Prelude
begin

text \<open>
  The run verdict of the suite flows: \<open>f/fstests/common.py\<close>, \<open>f/selftests/common.py\<close>,
  \<open>f/kunit/common.py\<close> each define \<open>run_status\<close>, the one rule the report and the judge of the
  suite share, over the per-item results of the collect step. The contract they all promise is
  the locale \<open>verdict\<close>; each definition is an interpretation of it. The judges
  (\<open>f/*/judge.py\<close>), which turn a red verdict into an exception, are modelled here too.
\<close>

section \<open>The status of one item, as the collect step reports it\<close>

text \<open>
  A collect result is a dict with a \<open>status\<close>, or whatever a failed step left in its place. A
  step that raised under \<open>skip_failures\<close> leaves an error object: a dict without a \<open>status\<close>, or
  no dict at all.
\<close>

datatype item_status = Passed | Failed | Notrun

datatype collected =
    Result item_status
  | NoStatus
  | NotADict

definition item_passed :: "collected \<Rightarrow> bool" where
  "item_passed c = (case c of Result s \<Rightarrow> s = Passed | NoStatus \<Rightarrow> False | NotADict \<Rightarrow> False)"

section \<open>The contract\<close>

locale verdict =
  fixes status_of :: "'i list \<Rightarrow> item_status"
    and green :: "'i \<Rightarrow> bool"
  assumes passed_iff: "status_of xs = Passed \<longleftrightarrow> xs \<noteq> [] \<and> (\<forall>x \<in> set xs. green x)"
    and two_valued: "status_of xs \<in> {Passed, Failed}"
begin

lemma empty_fails: "status_of [] = Failed"
  using passed_iff [of "[]"] two_valued [of "[]"] by auto

lemma failed_iff: "status_of xs = Failed \<longleftrightarrow> xs = [] \<or> (\<exists>x \<in> set xs. \<not> green x)"
  using passed_iff [of xs] two_valued [of xs] by auto

lemma one_red_fails: "x \<in> set xs \<Longrightarrow> \<not> green x \<Longrightarrow> status_of xs = Failed"
  using failed_iff by blast

lemma append_passed:
  "xs \<noteq> [] \<Longrightarrow> ys \<noteq> [] \<Longrightarrow>
    status_of (xs @ ys) = Passed \<longleftrightarrow> status_of xs = Passed \<and> status_of ys = Passed"
  by (auto simp: passed_iff)

lemma order_irrelevant: "set xs = set ys \<Longrightarrow> status_of xs = status_of ys"
  using passed_iff [of xs] passed_iff [of ys] two_valued [of xs] two_valued [of ys]
  by (cases "xs = []") auto

end

section \<open>The definitions of the suites\<close>

text \<open>
  \<open>f/fstests/common.py\<close> reads \<open>s.get("status")\<close> of every result, so a result that is not a dict
  raises; the others test \<open>isinstance(s, dict)\<close> first. \<open>all\<close> stops at the first result that is
  not passed, so what comes after it is not looked at.
\<close>

fun all_passed_fstests :: "collected list \<Rightarrow> bool result" where
  "all_passed_fstests [] = Inr True"
| "all_passed_fstests (NotADict # xs) = Inl AttributeError"
| "all_passed_fstests (x # xs) = (if item_passed x then all_passed_fstests xs else Inr False)"

definition fstests_run_status :: "collected list \<Rightarrow> item_status result" where
  "fstests_run_status per_section =
     (if per_section = [] then Inr Failed
      else (case all_passed_fstests per_section of
              Inl e \<Rightarrow> Inl e
            | Inr ok \<Rightarrow> Inr (if ok then Passed else Failed)))"

definition selftests_run_status :: "collected list \<Rightarrow> item_status" where
  "selftests_run_status per_item =
     (if per_item \<noteq> [] \<and> list_all item_passed per_item then Passed else Failed)"

definition kunit_run_status :: "collected list \<Rightarrow> item_status" where
  "kunit_run_status per_suite =
     (if per_suite \<noteq> [] \<and> list_all item_passed per_suite then Passed else Failed)"

interpretation selftests: verdict selftests_run_status item_passed
  by unfold_locales (auto simp: selftests_run_status_def list_all_iff)

interpretation kunit: verdict kunit_run_status item_passed
  by unfold_locales (auto simp: kunit_run_status_def list_all_iff)

text \<open>On dicts, which is all a collect step returns, the fstests rule meets the same contract.\<close>

definition fstests_verdict :: "item_status option list \<Rightarrow> item_status" where
  "fstests_verdict xs =
     (case fstests_run_status (map (\<lambda>x. case x of None \<Rightarrow> NoStatus | Some s \<Rightarrow> Result s) xs) of
        Inl _ \<Rightarrow> Failed
      | Inr s \<Rightarrow> s)"

lemma all_passed_fstests_dicts:
  "all_passed_fstests (map (\<lambda>x. case x of None \<Rightarrow> NoStatus | Some s \<Rightarrow> Result s) xs) =
    Inr (\<forall>x \<in> set xs. x = Some Passed)"
proof (induction xs)
  case Nil
  then show ?case by simp
next
  case (Cons x xs)
  then show ?case by (cases x) (auto simp: item_passed_def)
qed

lemma fstests_verdict_eq:
  "fstests_verdict xs = (if xs \<noteq> [] \<and> (\<forall>x \<in> set xs. x = Some Passed) then Passed else Failed)"
  by (simp add: fstests_verdict_def fstests_run_status_def all_passed_fstests_dicts)

interpretation fstests: verdict fstests_verdict "\<lambda>x. x = Some Passed"
  by unfold_locales (auto simp: fstests_verdict_eq)

section \<open>The judges\<close>

text \<open>
  \<open>main\<close> of \<open>f/*/judge.py\<close>: a verdict that is not \<open>passed\<close> raises, else the report comes back
  unchanged (\<open>report or {}\<close>; the empty report is \<open>None\<close> here). The messages name the items that
  are not passed, which is where the fstests and the kunit judge read \<open>s.get("status")\<close> of every
  item, so an item that is no dict raises \<open>AttributeError\<close> there instead of \<open>RuntimeError\<close>.
\<close>

definition selftests_judge :: "collected list option \<Rightarrow> 'r option \<Rightarrow> 'r option result" where
  "selftests_judge per_item report =
     (let items = (case per_item of None \<Rightarrow> [] | Some xs \<Rightarrow> xs) in
      if selftests_run_status items \<noteq> Passed then Inl RuntimeError else Inr report)"

definition kunit_judge :: "collected list option \<Rightarrow> 'r option \<Rightarrow> 'r option result" where
  "kunit_judge per_suite report =
     (let suites = (case per_suite of None \<Rightarrow> [] | Some xs \<Rightarrow> xs) in
      if kunit_run_status suites \<noteq> Passed
      then Inl (if NotADict \<in> set suites then AttributeError else RuntimeError)
      else Inr report)"

definition fstests_judge :: "collected list option \<Rightarrow> 'r option \<Rightarrow> 'r option result" where
  "fstests_judge per_section report =
     (let sections = (case per_section of None \<Rightarrow> [] | Some xs \<Rightarrow> xs) in
      case fstests_run_status sections of
        Inl e \<Rightarrow> Inl e
      | Inr status \<Rightarrow>
          (if status \<noteq> Passed
           then Inl (if NotADict \<in> set sections then AttributeError else RuntimeError)
           else Inr report))"

lemma item_passed_iff: "item_passed c \<longleftrightarrow> c = Result Passed"
  by (cases c) (auto simp: item_passed_def)

lemma selftests_judge_ok:
  "selftests_judge (Some xs) r = Inr r' \<longleftrightarrow> xs \<noteq> [] \<and> (\<forall>x \<in> set xs. x = Result Passed) \<and> r' = r"
  using selftests.passed_iff [of xs] by (auto simp: selftests_judge_def item_passed_iff)

lemma kunit_judge_ok:
  "kunit_judge (Some xs) r = Inr r' \<longleftrightarrow> xs \<noteq> [] \<and> (\<forall>x \<in> set xs. x = Result Passed) \<and> r' = r"
  using kunit.passed_iff [of xs] by (auto simp: kunit_judge_def item_passed_iff)

lemma all_passed_fstests_True:
  "all_passed_fstests xs = Inr True \<longleftrightarrow> (\<forall>x \<in> set xs. x = Result Passed)"
proof (induction xs)
  case Nil
  then show ?case by simp
next
  case (Cons x xs)
  then show ?case by (cases x) (auto simp: item_passed_def)
qed

lemma fstests_judge_ok:
  "fstests_judge (Some xs) r = Inr r' \<longleftrightarrow> xs \<noteq> [] \<and> (\<forall>x \<in> set xs. x = Result Passed) \<and> r' = r"
proof -
  have "fstests_run_status xs = Inr Passed \<longleftrightarrow> xs \<noteq> [] \<and> (\<forall>x \<in> set xs. x = Result Passed)"
    using all_passed_fstests_True [of xs]
    by (auto simp: fstests_run_status_def split: sum.splits)
  then show ?thesis by (auto simp: fstests_judge_def split: sum.splits)
qed

end
