(* ===== verification/Paths.thy ===== *)
theory Paths
  imports Prelude
begin

text \<open>
  Absolute paths, as far as the name-escape checks of the sources read them: the \<open>share_dir\<close>
  functions of \<open>f/*/common.py\<close>, \<open>section_results_dir\<close> of \<open>f/fstests/common.py\<close> and \<open>_state_dir\<close>
  of \<open>f/kernel/bisect_step.py\<close>. A path is the list of its components. \<open>Path.resolve\<close> is its
  lexical part (a \<open>..\<close> drops the component before it); the symbolic links of a live file
  system are not modelled.
\<close>

type_synonym path = "string list"

text \<open>\<open>Path(name).parts\<close> without the root: empty components and \<open>.\<close> are dropped.\<close>

definition parts :: "string \<Rightarrow> path" where
  "parts name = filter (\<lambda>c. c \<noteq> [] \<and> c \<noteq> ''.'') (split_chr (CHR ''/'') name)"

definition is_absolute :: "string \<Rightarrow> bool" where
  "is_absolute name = prefix ''/'' name"

text \<open>\<open>root / name\<close>: an absolute name replaces the root.\<close>

definition path_join :: "path \<Rightarrow> string \<Rightarrow> path" where
  "path_join root name = (if is_absolute name then parts name else root @ parts name)"

text \<open>\<open>Path(name).parts\<close>: an absolute path leads with its root, which keeps exactly two slashes.\<close>

definition path_parts :: "string \<Rightarrow> string list" where
  "path_parts name =
     (if \<not> is_absolute name then parts name
      else if prefix ''//'' name \<and> \<not> prefix ''///'' name then ''//'' # parts name
      else ''/'' # parts name)"

fun resolve_from :: "path \<Rightarrow> path \<Rightarrow> path" where
  "resolve_from acc [] = rev acc"
| "resolve_from acc (c # cs) =
     (if c = ''..'' then resolve_from (tl acc) cs else resolve_from (c # acc) cs)"

definition resolve_path :: "path \<Rightarrow> path" where
  "resolve_path p = resolve_from [] p"

text \<open>\<open>root in path.parents\<close>: strictly above.\<close>

definition in_parents :: "path \<Rightarrow> path \<Rightarrow> bool" where
  "in_parents root p = strict_prefix root p"

definition clean :: "path \<Rightarrow> bool" where
  "clean p = (\<forall>c \<in> set p. c \<noteq> ''..'' \<and> c \<noteq> ''.'' \<and> c \<noteq> [] \<and> CHR ''/'' \<notin> set c)"

lemma resolve_from_clean: "''..'' \<notin> set cs \<Longrightarrow> resolve_from acc cs = rev acc @ cs"
  by (induction acc cs rule: resolve_from.induct) auto

lemma resolve_clean: "''..'' \<notin> set p \<Longrightarrow> resolve_path p = p"
  by (simp add: resolve_path_def resolve_from_clean)

lemma resolve_from_no_dotdot: "''..'' \<notin> set acc \<Longrightarrow> ''..'' \<notin> set (resolve_from acc cs)"
proof (induction acc cs rule: resolve_from.induct)
  case (1 acc)
  then show ?case by simp
next
  case (2 acc c cs)
  then show ?case by (cases acc) auto
qed

lemma resolve_no_dotdot: "''..'' \<notin> set (resolve_path p)"
  by (simp add: resolve_path_def resolve_from_no_dotdot)

lemma resolve_idem [simp]: "resolve_path (resolve_path p) = resolve_path p"
  by (simp add: resolve_clean resolve_no_dotdot)

lemma resolve_from_append:
  "resolve_from acc (p @ q) = resolve_from (rev (resolve_from acc p)) q"
  by (induction acc p rule: resolve_from.induct) auto

lemma parts_plain:
  "name \<noteq> [] \<Longrightarrow> CHR ''/'' \<notin> set name \<Longrightarrow> name \<noteq> ''.'' \<Longrightarrow> parts name = [name]"
  by (simp add: parts_def split_chr_no_sep)

lemma parts_clean: "c \<in> set (parts name) \<Longrightarrow> c \<noteq> [] \<and> c \<noteq> ''.'' \<and> CHR ''/'' \<notin> set c"
  by (auto simp: parts_def dest: split_chr_parts)

section \<open>The name-escape check\<close>

text \<open>
  \<open>path = (root / name).resolve()\<close>, refused with \<open>ValueError\<close> unless \<open>root.resolve()\<close> is among
  its parents.
\<close>

definition under :: "path \<Rightarrow> string \<Rightarrow> path result" where
  "under root name =
     (let p = resolve_path (path_join root name) in
      if in_parents (resolve_path root) p then Inr p else Inl ValueError)"

lemma under_inside:
  "under root name = Inr p \<Longrightarrow> strict_prefix (resolve_path root) p \<and> ''..'' \<notin> set p"
  by (auto simp: under_def in_parents_def Let_def resolve_no_dotdot split: if_splits)

lemma under_plain:
  assumes "''..'' \<notin> set root" and "name \<notin> {[], ''.'', ''..''}" and "CHR ''/'' \<notin> set name"
  shows "under root name = Inr (root @ [name])"
proof -
  have "\<not> is_absolute name"
    using assms(3) by (auto simp: is_absolute_def prefix_def)
  then have "path_join root name = root @ [name]"
    using assms by (simp add: path_join_def parts_plain)
  moreover have "resolve_path (root @ [name]) = root @ [name]" "resolve_path root = root"
    using assms by (auto intro!: resolve_clean)
  ultimately show ?thesis by (simp add: under_def in_parents_def strict_prefix_def)
qed

lemma under_escapes: "under root ''..'' = Inl ValueError"
proof -
  have "parts ''..'' = [''..'']" by (simp add: parts_plain)
  then have "resolve_path (path_join root ''..'') = rev (tl (rev (resolve_path root)))"
    by (simp add: path_join_def is_absolute_def resolve_path_def resolve_from_append)
  moreover have "\<not> strict_prefix q (rev (tl (rev q)))" for q :: path
    by (cases q rule: rev_cases) (auto dest: prefix_length_le simp: strict_prefix_def)
  ultimately show ?thesis by (simp add: under_def in_parents_def)
qed

text \<open>\<open>share_dir\<close> of \<open>f/usertests/common.py\<close> and \<open>f/blktests/common.py\<close>.\<close>

definition usertests_share_dir :: "path \<Rightarrow> string \<Rightarrow> path result" where
  "usertests_share_dir workers vm_name = under (workers @ [''shared'', ''usertests'']) vm_name"

definition blktests_share_dir :: "path \<Rightarrow> string \<Rightarrow> path result" where
  "blktests_share_dir workers vm_name = under (workers @ [''shared'', ''blktests'']) vm_name"

end
