(* ===== verification/UnitName.thy ===== *)
theory UnitName
  imports Prelude
begin

text \<open>
  Run items as guest units: \<open>unit_escape\<close> and \<open>item_unit\<close> of \<open>f/selftests/common.py\<close>, which
  escape an item's name into the instance of a systemd template. The locale \<open>codec\<close> is the
  contract of an encoding that can be read back.
\<close>

section \<open>Names as systemd unit instances\<close>

text \<open>\<open>name.encode()\<close>: UTF-8, which gives a code point from U+0080 to U+00FF two bytes.\<close>

definition utf8_char :: "char \<Rightarrow> string" where
  "utf8_char c =
     (let n = ord_of c in
      if n < 128 then [c] else [char_of (192 + n div 64), char_of (128 + n mod 64)])"

definition utf8 :: "string \<Rightarrow> string" where
  "utf8 s = concat (map utf8_char s)"

definition hex_digit :: "nat \<Rightarrow> char" where
  "hex_digit n = char_of (if n < 10 then 48 + n else 87 + n)"

definition hex2 :: "char \<Rightarrow> string" where
  "hex2 c = [hex_digit (ord_of c div 16), hex_digit (ord_of c mod 16)]"

definition escape_byte :: "bool \<Rightarrow> char \<Rightarrow> string" where
  "escape_byte is_first c =
     (if c = CHR ''/'' then ''-''
      else if (is_alnum_ascii c \<or> c \<in> set '':_.'') \<and> \<not> (c = CHR ''.'' \<and> is_first) then [c]
      else [CHR 0x5C, CHR ''x''] @ hex2 c)"

fun escape_bytes :: "bool \<Rightarrow> string \<Rightarrow> string" where
  "escape_bytes is_first [] = []"
| "escape_bytes is_first (c # cs) = escape_byte is_first c @ escape_bytes False cs"

definition unit_escape :: "string \<Rightarrow> string" where
  "unit_escape name = escape_bytes True (utf8 name)"

definition item_unit :: "string \<Rightarrow> string" where
  "item_unit item =
     (if contains '':'' item then ''kselftest-test'' else ''kselftest'')
     @ ''@'' @ unit_escape item @ ''.service''"

text \<open>What the \<open>%I\<close> specifier of the guest's unit does with an instance: the inverse.\<close>

definition unhex :: "char \<Rightarrow> nat" where
  "unhex c = (if is_digit c then ord_of c - 48 else ord_of c - 87)"

fun unit_unescape :: "string \<Rightarrow> string" where
  "unit_unescape (b # x # h # l # cs) =
     (if b = CHR 0x5C \<and> x = CHR ''x'' then char_of (16 * unhex h + unhex l) # unit_unescape cs
      else (if b = CHR ''-'' then CHR ''/'' else b) # unit_unescape (x # h # l # cs))"
| "unit_unescape cs = map (\<lambda>b. if b = CHR ''-'' then CHR ''/'' else b) cs"

locale codec =
  fixes enc :: "'a \<Rightarrow> string"
    and dec :: "string \<Rightarrow> 'b"
    and view :: "'a \<Rightarrow> 'b"
  assumes decodes: "dec (enc x) = view x"
    and view_inj: "view x = view y \<Longrightarrow> x = y"
begin

lemma enc_inject: "enc x = enc y \<longleftrightarrow> x = y"
  by (metis decodes view_inj)

lemma enc_inj_on: "inj_on enc A"
  by (simp add: inj_on_def enc_inject)

lemma enc_distinct: "distinct (map enc xs) \<longleftrightarrow> distinct xs"
  by (simp add: distinct_map enc_inj_on)

end

interpretation numeral: codec show_nat read_nat "\<lambda>n. n"
  by unfold_locales simp_all

lemma unhex_digit [simp]: "n < 16 \<Longrightarrow> unhex (hex_digit n) = n"
  by (simp add: unhex_def hex_digit_def is_digit_def)

lemma hex2_value: "16 * unhex (hex_digit (ord_of c div 16)) + unhex (hex_digit (ord_of c mod 16)) = ord_of c"
proof -
  have "ord_of c div 16 < 16" using ord_less [of c] by (simp only: div_less_iff_less_mult)
  then show ?thesis by simp
qed

lemma unit_unescape_plain:
  "b \<noteq> CHR 0x5C \<Longrightarrow>
    unit_unescape (b # cs) = (if b = CHR ''-'' then CHR ''/'' else b) # unit_unescape cs"
  by (cases "b # cs" rule: unit_unescape.cases) auto

lemma unit_unescape_byte: "unit_unescape (escape_byte f c @ rest) = c # unit_unescape rest"
proof -
  have "\<not> is_alnum_ascii (CHR 0x5C)" "\<not> is_alnum_ascii (CHR ''-'')"
    by (simp_all add: is_alnum_ascii_def is_digit_def is_lower_ascii_def is_upper_ascii_def)
  then consider "c = CHR ''/''"
    | "escape_byte f c = [c]" "c \<noteq> CHR 0x5C" "c \<noteq> CHR ''-''"
    | "escape_byte f c = [CHR 0x5C, CHR ''x''] @ hex2 c" "c \<noteq> CHR ''/''"
  proof (cases "(is_alnum_ascii c \<or> c \<in> set '':_.'') \<and> \<not> (c = CHR ''.'' \<and> f)")
    case True
    then have "c \<noteq> CHR 0x5C" "c \<noteq> CHR ''-''"
      using \<open>\<not> is_alnum_ascii (CHR 0x5C)\<close> \<open>\<not> is_alnum_ascii (CHR ''-'')\<close> by auto
    with True that(1,2) show ?thesis by (cases "c = CHR ''/''") (auto simp: escape_byte_def)
  next
    case False
    with that(1,3) show ?thesis unfolding escape_byte_def by presburger
  qed
  then show ?thesis
  proof cases
    case 1
    then show ?thesis using unit_unescape_plain [of "CHR ''-''" rest] by (simp add: escape_byte_def)
  next
    case 2
    then show ?thesis using unit_unescape_plain [of c rest] by simp
  next
    case 3
    then show ?thesis using hex2_value [of c] by (simp add: hex2_def)
  qed
qed

lemma unit_unescape_bytes: "unit_unescape (escape_bytes f bs) = bs"
proof (induction bs arbitrary: f)
  case Nil
  then show ?case by simp
next
  case (Cons b bs)
  then show ?case by (simp add: unit_unescape_byte)
qed

lemma utf8_inj: "utf8 x = utf8 y \<Longrightarrow> x = y"
proof (induction x arbitrary: y)
  case Nil
  then show ?case by (cases y) (auto simp: utf8_def utf8_char_def Let_def split: if_splits)
next
  case (Cons c x)
  then obtain d y' where y: "y = d # y'"
    by (cases y) (auto simp: utf8_def utf8_char_def Let_def split: if_splits)
  have eq: "utf8_char c @ utf8 x = utf8_char d @ utf8 y'" using Cons.prems by (simp add: y utf8_def)
  have "c = d \<and> utf8 x = utf8 y'"
  proof (cases "ord_of c < 128 \<or> ord_of d < 128")
    case True
    have small: "192 + ord_of e div 64 < 256" for e
    proof -
      have "ord_of e div 64 < 4" using ord_less [of e] by (simp only: div_less_iff_less_mult)
      then show ?thesis by simp
    qed
    have neq: "char_of (192 + ord_of e div 64) \<noteq> a" if a: "ord_of a < 128" for a e
    proof
      assume "char_of (192 + ord_of e div 64) = a"
      with ord_char_of [OF small [of e]] have "ord_of a = 192 + ord_of e div 64" by blast
      with a show False by linarith
    qed
    consider "ord_of c < 128" "ord_of d < 128" | "ord_of c < 128" "\<not> ord_of d < 128"
      | "\<not> ord_of c < 128" "ord_of d < 128" using True by blast
    then show ?thesis
    proof cases
      case 1
      then show ?thesis using eq by (simp add: utf8_char_def)
    next
      case 2
      then have "c = char_of (192 + ord_of d div 64)" using eq by (simp add: utf8_char_def Let_def)
      then show ?thesis using neq [OF 2(1)] by metis
    next
      case 3
      then have "d = char_of (192 + ord_of c div 64)" using eq by (simp add: utf8_char_def Let_def)
      then show ?thesis using neq [OF 3(2)] by metis
    qed
  next
    case False
    have bound: "192 + n div 64 < 256" "128 + n mod 64 < 256" if "n < 256" for n :: nat
      using that by linarith+
    from False eq have "char_of (192 + ord_of c div 64) = (char_of (192 + ord_of d div 64) :: char)"
      "char_of (128 + ord_of c mod 64) = (char_of (128 + ord_of d mod 64) :: char)" "utf8 x = utf8 y'"
      by (simp_all add: utf8_char_def Let_def)
    then have "ord_of c div 64 = ord_of d div 64" "ord_of c mod 64 = ord_of d mod 64"
      using bound [OF ord_less [of c]] bound [OF ord_less [of d]] by (simp_all add: char_of_inject)
    then have "ord_of c = ord_of d" by (metis div_mult_mod_eq)
    with \<open>utf8 x = utf8 y'\<close> show ?thesis by (simp add: ord_inject)
  qed
  then show ?case using Cons.IH y by simp
qed

interpretation unit_name: codec unit_escape unit_unescape utf8
  by unfold_locales (simp_all add: unit_escape_def unit_unescape_bytes utf8_inj)

lemma escape_bytes_chars:
  "c \<in> set (escape_bytes f bs) \<Longrightarrow> is_alnum_ascii c \<or> c \<in> set '':_.-'' \<or> c = CHR 0x5C"
proof (induction bs arbitrary: f)
  case Nil
  then show ?case by simp
next
  case (Cons b bs)
  have hex: "is_alnum_ascii (hex_digit n)" if "n < 16" for n
    using that by (simp add: hex_digit_def is_alnum_ascii_def is_digit_def is_lower_ascii_def)
  have x: "is_alnum_ascii (CHR ''x'')" by (simp add: is_alnum_ascii_def is_lower_ascii_def)
  have "ord_of b div 16 < 16" using ord_less [of b] by (simp only: div_less_iff_less_mult)
  then have "is_alnum_ascii c \<or> c \<in> set '':_.-'' \<or> c = CHR 0x5C" if "c \<in> set (escape_byte f b)"
    using that hex x by (auto simp: escape_byte_def hex2_def split: if_splits)
  then show ?case using Cons by auto
qed

lemma unit_escape_hd: "prefix ''.'' (unit_escape name) \<Longrightarrow> False"
  by (cases "utf8 name")
    (auto simp: unit_escape_def escape_byte_def hex2_def prefix_def split: if_splits)

lemma unit_escape_chars:
  "c \<in> set (unit_escape name) \<Longrightarrow> is_alnum_ascii c \<or> c \<in> set '':_.-'' \<or> c = CHR 0x5C"
  unfolding unit_escape_def by (rule escape_bytes_chars)

lemma item_unit_inject: "item_unit a = item_unit b \<longleftrightarrow> a = b"
proof
  assume eq: "item_unit a = item_unit b"
  then have "contains '':'' a = contains '':'' b"
    by (cases "contains '':'' a"; cases "contains '':'' b") (simp_all add: item_unit_def)
  with eq have "unit_escape a @ ''.service'' = unit_escape b @ ''.service''"
    by (simp add: item_unit_def)
  then show "a = b" by (simp add: unit_name.enc_inject)
qed simp

section \<open>Properties\<close>

text \<open>
  The systemd unescaping of an escaped item name gives back its UTF-8 bytes, for every name:
  nothing is lost, whatever characters the name holds.
\<close>

theorem unit_escape_roundtrip: "unit_unescape (unit_escape name) = utf8 name"
  by (rule unit_name.decodes)

text \<open>
  Distinct run items start distinct guest units, over both templates, and the instance is
  a legal one: only ASCII letters, digits, \<open>: _ . -\<close> and the backslash, so never a \<open>/\<close>, and
  no leading dot.
\<close>

theorem item_unit_safe:
  "inj item_unit
   \<and> set (unit_escape name) \<subseteq> {c. is_alnum_ascii c \<or> c \<in> set '':_.-'' \<or> c = CHR 0x5C}
   \<and> \<not> prefix ''.'' (unit_escape name)"
  using unit_escape_chars unit_escape_hd item_unit_inject by (auto simp: inj_def)

end
