(* ===== verification/Selftests.thy ===== *)
theory Selftests
  imports PyRegex Verdict Paths
begin

text \<open>
  The kselftest suite (\<open>f/selftests/common.py\<close>, \<open>f/selftests/collect.py\<close>): the parser of the flat
  KTAP document \<open>run_kselftest.sh\<close> writes, the verdict of one item, the escaping of an item's name
  into a systemd unit instance, and the picker lists.
\<close>

section \<open>The patterns\<close>

definition HEADER_RE :: re where
  "HEADER_RE = RSeqs [RBol, RLit ''TAP version 13'', RStar RSpace, REol]"

definition PLAN_RE :: re where
  "PLAN_RE = RSeqs [RBol, RLit ''1..'', RGrp ''count'' (RPlus RDigit), RStar RSpace, REol]"

definition RESULT_RE :: re where
  "RESULT_RE = RSeqs [RBol, RGrp ''status'' (RAlt (RLit ''ok'') (RLit ''not ok'')), RLit '' '',
     RGrp ''num'' (RPlus RDigit), RLit '' '',
     RGrp ''desc'' (RLazy (RCls (\<lambda>c. c \<noteq> CHR ''#''))), RStar RSpace,
     ROpt (RSeq (RLit ''# '') (RGrp ''directive'' (RStar RDot))), REol]"

definition DESC_RE :: re where
  "DESC_RE = RSeqs [RBol, RLit ''selftests: '', RGrp ''collection'' (RLazyPlus RDot), RLit '': '',
     RGrp ''test'' (RPlus RDot), REol]"

definition TOTALS_RE :: re where
  "TOTALS_RE = RSeqs [RBol, RLit ''# Totals: pass:'', RGrp ''passed'' (RPlus RDigit),
     RLit '' fail:'', RGrp ''failed'' (RPlus RDigit), RLit '' xfail:'', RGrp ''xfail'' (RPlus RDigit),
     RLit '' xpass:'', RGrp ''xpass'' (RPlus RDigit), RLit '' skip:'', RGrp ''skipped'' (RPlus RDigit),
     RLit '' error:'', RGrp ''error'' (RPlus RDigit), RStar RSpace, REol]"

definition SKIP_RE :: re where
  "SKIP_RE = RSeqs [RBol, RStar RSpace, RLitI ''SKIP'', RWordB]"

definition XFAIL_RE :: re where
  "XFAIL_RE = RSeqs [RBol, RStar RSpace, RLitI ''XFAIL'', RWordB]"

section \<open>The parser\<close>

record ktest =
  t_collection :: string
  t_test :: string
  t_status :: item_status
  t_message :: string

record ksummary =
  tests :: "ktest list"
  passed :: nat
  failed :: nat
  skipped :: nat
  plan :: "nat option"
  complete :: bool
  report_present :: bool

definition empty_summary :: ksummary where
  "empty_summary = \<lparr>tests = [], passed = 0, failed = 0, skipped = 0, plan = None,
     complete = False, report_present = False\<rparr>"

text \<open>The lines after the last one that satisfies \<open>p\<close>.\<close>

fun after_last :: "('a \<Rightarrow> bool) \<Rightarrow> 'a list \<Rightarrow> 'a list option" where
  "after_last p [] = None"
| "after_last p (x # xs) =
     (case after_last p xs of Some ys \<Rightarrow> Some ys | None \<Rightarrow> (if p x then Some xs else None))"

text \<open>One result line: its status from the directive and the verdict, and its entry.\<close>

definition result_status :: "mtch \<Rightarrow> item_status" where
  "result_status m =
     (if re_match SKIP_RE (grp0 m ''directive'') \<noteq> None then Notrun
      else if grp m ''status'' = Some ''ok'' then Passed
      else Failed)"

definition result_test :: "mtch \<Rightarrow> ktest" where
  "result_test m =
     (let directive = grp0 m ''directive'';
          message = (if result_status m = Passed \<and> re_match XFAIL_RE directive = None
                     then [] else strip directive);
          desc = strip (grp0 m ''desc'') in
      case re_match DESC_RE desc of
        Some d \<Rightarrow> \<lparr>t_collection = grp0 d ''collection'', t_test = grp0 d ''test'',
                   t_status = result_status m, t_message = message\<rparr>
      | None \<Rightarrow> \<lparr>t_collection = [], t_test = desc,
                 t_status = result_status m, t_message = message\<rparr>)"

definition add_test :: "ksummary \<Rightarrow> ktest \<Rightarrow> ksummary" where
  "add_test s t =
     (case t_status t of
        Notrun \<Rightarrow> s\<lparr>tests := tests s @ [t], skipped := skipped s + 1\<rparr>
      | Passed \<Rightarrow> s\<lparr>tests := tests s @ [t], passed := passed s + 1\<rparr>
      | Failed \<Rightarrow> s\<lparr>tests := tests s @ [t], failed := failed s + 1\<rparr>)"

text \<open>The body of the loop over the lines: the summary so far and the last totals line.\<close>

definition ktap_line :: "ksummary \<times> mtch option \<Rightarrow> string \<Rightarrow> ksummary \<times> mtch option" where
  "ktap_line acc ln =
     (let (s, totals) = acc;
          p = re_match PLAN_RE ln in
      if p \<noteq> None \<and> plan s = None
      then (s\<lparr>plan := Some (read_nat (grp0 (the p) ''count''))\<rparr>, totals)
      else (case re_match TOTALS_RE ln of
              Some t \<Rightarrow> (s, Some t)
            | None \<Rightarrow>
                (case re_match RESULT_RE ln of
                   None \<Rightarrow> (s, totals)
                 | Some m \<Rightarrow> (add_test s (result_test m), totals))))"

definition total :: "mtch \<Rightarrow> string \<Rightarrow> nat" where
  "total t g = read_nat (grp0 t g)"

definition totals_ok :: "mtch option \<Rightarrow> ksummary \<Rightarrow> bool" where
  "totals_ok totals s =
     (case totals of
        None \<Rightarrow> True
      | Some t \<Rightarrow> total t ''passed'' + total t ''xfail'' + total t ''xpass'' = passed s
                  \<and> total t ''failed'' + total t ''error'' = failed s
                  \<and> total t ''skipped'' = skipped s)"

definition is_header :: "string \<Rightarrow> bool" where
  "is_header ln = (re_match HEADER_RE ln \<noteq> None)"

definition ktap_body :: "string list \<Rightarrow> ksummary" where
  "ktap_body body =
     (let (s, totals) = foldl ktap_line (empty_summary\<lparr>report_present := True\<rparr>, None) body in
      s\<lparr>complete := plan s \<noteq> None \<and> plan s = Some (length (tests s)) \<and> totals_ok totals s\<rparr>)"

definition ktap_lines :: "string list \<Rightarrow> ksummary" where
  "ktap_lines lines =
     (case after_last is_header lines of None \<Rightarrow> empty_summary | Some body \<Rightarrow> ktap_body body)"

definition parse_ktap :: "string \<Rightarrow> ksummary" where
  "parse_ktap text = ktap_lines (splitlines text)"

section \<open>Counters, plan and truncation\<close>

definition num :: "item_status \<Rightarrow> ktest list \<Rightarrow> nat" where
  "num st ts = length (filter (\<lambda>t. t_status t = st) ts)"

lemma num_simps [simp]:
  "num st [] = 0" "num st (ts @ us) = num st ts + num st us"
  "num st [t] = (if t_status t = st then 1 else 0)"
  by (simp_all add: num_def)

lemma num_total: "num Passed ts + num Failed ts + num Notrun ts = length ts"
proof (induction ts)
  case Nil
  then show ?case by simp
next
  case (Cons t ts)
  then show ?case by (cases "t_status t") (simp_all add: num_def)
qed

definition counted :: "ksummary \<Rightarrow> bool" where
  "counted s = (passed s = num Passed (tests s) \<and> failed s = num Failed (tests s)
     \<and> skipped s = num Notrun (tests s))"

lemma add_test_counted: "counted s \<Longrightarrow> counted (add_test s t)"
  by (cases "t_status t") (auto simp: counted_def add_test_def)

lemma add_test_fields [simp]:
  "tests (add_test s t) = tests s @ [t]" "plan (add_test s t) = plan s"
  "report_present (add_test s t) = report_present s"
  by (cases "t_status t"; simp add: add_test_def)+

lemma ktap_line_change:
  "fst (ktap_line acc ln) = fst acc
   \<or> plan (fst acc) = None \<and> (\<exists>n. fst (ktap_line acc ln) = (fst acc)\<lparr>plan := Some n\<rparr>)
   \<or> (\<exists>t. fst (ktap_line acc ln) = add_test (fst acc) t)"
proof (cases "re_match PLAN_RE ln \<noteq> None \<and> plan (fst acc) = None")
  case True
  then show ?thesis by (auto simp: ktap_line_def split: prod.splits)
next
  case False
  then show ?thesis
    by (cases "re_match TOTALS_RE ln"; cases "re_match RESULT_RE ln")
      (auto simp: ktap_line_def split: prod.splits)
qed

lemma ktap_line_cases:
  obtains "fst (ktap_line acc ln) = fst acc"
  | n where "plan (fst acc) = None" "fst (ktap_line acc ln) = (fst acc)\<lparr>plan := Some n\<rparr>"
  | t where "fst (ktap_line acc ln) = add_test (fst acc) t"
  using ktap_line_change [of acc ln] by blast

lemma ktap_line_counted: "counted (fst acc) \<Longrightarrow> counted (fst (ktap_line acc ln))"
proof (cases rule: ktap_line_cases [of acc ln])
  case 3
  then show "counted (fst acc) \<Longrightarrow> ?thesis" by (simp add: add_test_counted)
qed (simp_all add: counted_def)

lemma ktap_fold_counted: "counted (fst acc) \<Longrightarrow> counted (fst (foldl ktap_line acc ls))"
  by (induction ls arbitrary: acc) (simp_all add: ktap_line_counted)

text \<open>A line adds at most one test, at the end, and never changes a plan that is set.\<close>

lemma ktap_line_grows:
  "prefix (tests (fst acc)) (tests (fst (ktap_line acc ln)))
   \<and> (plan (fst acc) \<noteq> None \<longrightarrow> plan (fst (ktap_line acc ln)) = plan (fst acc))
   \<and> report_present (fst (ktap_line acc ln)) = report_present (fst acc)"
  by (cases rule: ktap_line_cases [of acc ln]) simp_all

lemma ktap_fold_grows:
  "prefix (tests (fst acc)) (tests (fst (foldl ktap_line acc ls)))
   \<and> (plan (fst acc) \<noteq> None \<longrightarrow> plan (fst (foldl ktap_line acc ls)) = plan (fst acc))
   \<and> report_present (fst (foldl ktap_line acc ls)) = report_present (fst acc)"
proof (induction ls arbitrary: acc)
  case Nil
  then show ?case by simp
next
  case (Cons l ls)
  from Cons.IH [of "ktap_line acc l"] ktap_line_grows [of acc l] show ?case
    by (auto intro: prefix_order.trans)
qed

abbreviation ktap_fold :: "string list \<Rightarrow> ksummary \<times> mtch option" where
  "ktap_fold \<equiv> foldl ktap_line (empty_summary\<lparr>report_present := True\<rparr>, None)"

lemma ktap_body_fields [simp]:
  "tests (ktap_body b) = tests (fst (ktap_fold b))" "plan (ktap_body b) = plan (fst (ktap_fold b))"
  "passed (ktap_body b) = passed (fst (ktap_fold b))"
  "failed (ktap_body b) = failed (fst (ktap_fold b))"
  "skipped (ktap_body b) = skipped (fst (ktap_fold b))"
  "report_present (ktap_body b)"
  using ktap_fold_grows [of "(empty_summary\<lparr>report_present := True\<rparr>, None)" b]
  by (auto simp: ktap_body_def split: prod.splits)

lemma ktap_body_complete:
  "complete (ktap_body b) \<longleftrightarrow>
    plan (ktap_body b) = Some (length (tests (ktap_body b)))
    \<and> totals_ok (snd (ktap_fold b)) (fst (ktap_fold b))"
  by (auto simp: ktap_body_def split: prod.splits)

lemma ktap_body_counted: "counted (ktap_body b)"
  using ktap_fold_counted [of "(empty_summary\<lparr>report_present := True\<rparr>, None)" b]
  by (simp add: counted_def empty_summary_def)

lemma ktap_lines_counted: "counted (ktap_lines ls)"
proof (cases "after_last is_header ls")
  case None
  then show ?thesis by (simp add: ktap_lines_def counted_def empty_summary_def)
next
  case (Some b)
  then show ?thesis using ktap_body_counted [of b] by (simp add: ktap_lines_def)
qed

lemma ktap_lines_complete:
  "complete (ktap_lines ls) \<Longrightarrow>
    report_present (ktap_lines ls) \<and> plan (ktap_lines ls) = Some (length (tests (ktap_lines ls)))"
  by (auto simp: ktap_lines_def ktap_body_complete empty_summary_def split: option.splits)

text \<open>Only the last header counts.\<close>

lemma after_last_append:
  "\<forall>x \<in> set ys. \<not> p x \<Longrightarrow> after_last p (xs @ ys) = map_option (\<lambda>b. b @ ys) (after_last p xs)"
proof (induction xs)
  case Nil
  have "\<forall>x \<in> set zs. \<not> p x \<Longrightarrow> after_last p zs = None" for zs
    by (induction zs) auto
  with Nil show ?case by simp
next
  case (Cons x xs)
  then show ?case by (auto split: option.splits)
qed

lemma after_last_header:
  "p h \<Longrightarrow> \<forall>x \<in> set body. \<not> p x \<Longrightarrow> after_last p (pre @ h # body) = Some body"
proof (induction pre)
  case Nil
  then show ?case using after_last_append [of body p "[h]"] by simp
next
  case (Cons x pre)
  then show ?case by simp
qed

text \<open>
  Cutting a document short: when the whole and the cut document are both complete, no result
  has been lost.
\<close>

lemma ktap_body_cut:
  assumes "complete (ktap_body (kept @ lost))" and "complete (ktap_body kept)"
  shows "tests (ktap_body kept) = tests (ktap_body (kept @ lost))"
proof -
  let ?s = "fst (ktap_fold kept)" and ?t = "fst (ktap_fold (kept @ lost))"
  have grows: "prefix (tests ?s) (tests ?t)" "plan ?s \<noteq> None \<longrightarrow> plan ?t = plan ?s"
    using ktap_fold_grows [of "ktap_fold kept" lost] by simp_all
  with assms have "length (tests ?s) = length (tests ?t)"
    by (simp add: ktap_body_complete)
  with grows(1) show ?thesis by (auto simp: prefix_def)
qed

lemma ktap_lines_cut:
  assumes "\<forall>l \<in> set lost. \<not> is_header l"
    and "complete (ktap_lines (kept @ lost))" and "complete (ktap_lines kept)"
  shows "tests (ktap_lines kept) = tests (ktap_lines (kept @ lost))"
proof -
  from assms(3) obtain body where body: "after_last is_header kept = Some body"
    by (auto simp: ktap_lines_def empty_summary_def split: option.splits)
  then have "after_last is_header (kept @ lost) = Some (body @ lost)"
    using assms(1) by (simp add: after_last_append)
  with body assms show ?thesis
    using ktap_body_cut [of body lost] by (simp add: ktap_lines_def)
qed

section \<open>Round trip with the runner's document\<close>

text \<open>
  What \<open>run_kselftest.sh\<close> writes for a list of tests, as the comment above the patterns and the
  docstring of \<open>parse_ktap\<close> describe it: the header, the plan, one result line per test.
\<close>

definition desc_of :: "ktest \<Rightarrow> string" where
  "desc_of t = ''selftests: '' @ t_collection t @ '': '' @ t_test t"

definition render_line :: "nat \<Rightarrow> ktest \<Rightarrow> string" where
  "render_line i t =
     (if t_status t = Failed then ''not ok'' else ''ok'') @ '' '' @ show_nat i @ '' '' @ desc_of t
     @ (if t_message t = [] then [] else '' # '' @ t_message t)"

fun render_lines :: "nat \<Rightarrow> ktest list \<Rightarrow> string list" where
  "render_lines i [] = []"
| "render_lines i (t # ts) = render_line i t # render_lines (Suc i) ts"

definition render_doc :: "ktest list \<Rightarrow> string list" where
  "render_doc ts =
     ''TAP version 13'' # (''1..'' @ show_nat (length ts)) # render_lines 1 ts"

text \<open>
  The entries such a document carries: names without a \<open>#\<close>, a collection without a colon, no
  white space but inner blanks, and a message that starts with \<open>SKIP\<close> for a test that did not
  run, is missing or an \<open>XFAIL\<close> note for a pass, and is not a \<open>SKIP\<close> note for a failure.
\<close>

definition name_ok :: "string \<Rightarrow> bool" where
  "name_ok s = (s \<noteq> [] \<and> CHR ''#'' \<notin> set s \<and> (\<forall>c \<in> set s. is_space c \<longrightarrow> c = CHR '' '')
     \<and> \<not> is_space (hd s) \<and> \<not> is_space (last s))"

definition message_ok :: "string \<Rightarrow> bool" where
  "message_ok s = ((\<forall>c \<in> set s. is_space c \<longrightarrow> c = CHR '' '')
     \<and> (s = [] \<or> \<not> is_space (hd s) \<and> \<not> is_space (last s)))"

definition ktest_ok :: "ktest \<Rightarrow> bool" where
  "ktest_ok t =
     (name_ok (t_collection t) \<and> CHR '':'' \<notin> set (t_collection t) \<and> name_ok (t_test t)
      \<and> message_ok (t_message t)
      \<and> (case t_status t of
           Notrun \<Rightarrow> re_match SKIP_RE (t_message t) \<noteq> None
         | Passed \<Rightarrow> t_message t = [] \<or>
             re_match XFAIL_RE (t_message t) \<noteq> None \<and> re_match SKIP_RE (t_message t) = None
         | Failed \<Rightarrow> re_match SKIP_RE (t_message t) = None))"

text \<open>The end of a result line: white space, a directive, the end of the line.\<close>

abbreviation tail_re :: re where
  "tail_re \<equiv> RSeqs [RStar RSpace,
     ROpt (RSeq (RLit ''# '') (RGrp ''directive'' (RStar RDot))), REol]"

lemma tail_fails:
  assumes "\<forall>d \<in> set sp. is_space d" and "\<not> is_space c" and "c \<noteq> CHR ''#''"
  shows "run tail_re (pre, sp @ c # rest, caps) = []"
proof -
  have hash: "\<not> is_space (CHR ''#'')" "is_space (CHR 0x0A)" by (simp_all add: is_space_def)
  define k where "k = RSeqs [ROpt (RSeq (RLit ''# '') (RGrp ''directive'' (RStar RDot))), REol]"
  have k: "run k (pre', sp' @ c # rest, caps) = []" if "\<forall>d \<in> set sp'. is_space d" for pre' sp'
  proof (cases sp')
    case Nil
    then show ?thesis using assms hash by (auto simp: k_def)
  next
    case (Cons d ds)
    then show ?thesis using that hash by (auto simp: k_def append_eq_Cons_conv)
  qed
  have "run k (pre', drop n (sp @ c # rest), caps) = []" if "n \<le> length sp" for n pre'
  proof -
    have "drop n (sp @ c # rest) = drop n sp @ c # rest" using that by simp
    moreover have "\<forall>d \<in> set (drop n sp). is_space d" using assms(1) by (auto dest: in_set_dropD)
    ultimately show ?thesis by (simp only: k)
  qed
  moreover have "takeWhile is_space (sp @ c # rest) = sp"
    using assms by (intro takeWhile_run) auto
  moreover have "run tail_re (pre, sp @ c # rest, caps) =
      concat (map (run k) (run (RStar RSpace) (pre, sp @ c # rest, caps)))"
    by (simp add: k_def)
  ultimately show ?thesis
    by (auto simp: star_cls_results simp del: upt_Suc)
qed

lemma tail_end: "\<exists>ys. run tail_re (pre, [], caps) = (pre, [], caps) # ys"
  by (simp add: run_star_cls_Nil)

lemma tail_directive:
  assumes "\<forall>c \<in> set m. not_nl c"
  shows "\<exists>ys pre'. run tail_re (pre, '' # '' @ m, caps) = (pre', [], (''directive'', m) # caps) # ys"
proof -
  obtain rs where rs: "run (RGrp ''directive'' (RStar RDot)) ('' #'' @ '' '' @ pre, m @ [], caps) =
      (rev m @ '' #'' @ '' '' @ pre, [], (''directive'', m) # caps) # rs"
    using grp_star_cls_first [OF assms, of "[]"] by blast
  have "\<exists>ys. run (RSeqs [ROpt (RSeq (RLit ''# '') (RGrp ''directive'' (RStar RDot))), REol])
      ('' '' @ pre, ''# '' @ m, caps) = (rev m @ '' #'' @ '' '' @ pre, [], (''directive'', m) # caps) # ys"
    using rs by simp
  then obtain ys where "run (RSeqs [ROpt (RSeq (RLit ''# '') (RGrp ''directive'' (RStar RDot))), REol])
      (rev '' '' @ pre, ''# '' @ m, caps) = (rev m @ '' #'' @ '' '' @ pre, [], (''directive'', m) # caps) # ys"
    by auto
  from seq_star_cls [OF _ _ this, of is_space] show ?thesis by (auto simp: is_space_def)
qed

lemma desc_tail:
  assumes w: "\<forall>c \<in> set w. c \<noteq> CHR ''#''" "w \<noteq> []" "\<not> is_space (last w)"
    and ok: "run tail_re (rev w @ pre, s, (''desc'', w) # caps) = x # xs"
  shows "\<exists>ys. run (RSeq (RGrp ''desc'' (RLazy (RCls (\<lambda>c. c \<noteq> CHR ''#'')))) tail_re)
    (pre, w @ s, caps) = x # ys"
proof (rule grp_lazy_cls_first [OF w(1) _ ok])
  fix i
  assume i: "i < length w"
  let ?u = "drop i w"
  have "last ?u = last w" "?u \<noteq> []" using i by simp_all
  with w(3) have "\<exists>c \<in> set ?u. \<not> is_space c" by (metis last_in_set)
  then obtain c r where c: "dropWhile is_space ?u = c # r"
    by (metis dropWhile_eq_Nil_conv neq_Nil_conv)
  then have nsp: "\<not> is_space c" by (metis hd_dropWhile list.sel(1) list.simps(3))
  have "c \<in> set w" using c by (metis in_set_dropD list.set_intros(1) set_dropWhileD)
  then have "c \<noteq> CHR ''#''" using w(1) by blast
  moreover have "?u @ s = takeWhile is_space ?u @ c # (r @ s)"
    using c by (metis append_Cons append_assoc takeWhile_dropWhile_id)
  ultimately show "run tail_re (rev (take i w) @ pre, ?u @ s, (''desc'', take i w) # caps) = []"
    using tail_fails [of "takeWhile is_space ?u" c] nsp by (metis set_takeWhileD)
qed

lemma result_re_start:
  assumes st: "st = ''ok'' \<or> st = ''not ok''"
    and ok: "\<And>pre'. \<exists>ys pre''. run (RSeq (RGrp ''desc'' (RLazy (RCls (\<lambda>c. c \<noteq> CHR ''#'')))) tail_re)
      (pre', s, [(''num'', show_nat i), (''status'', st)]) = (pre'', [], caps) # ys"
  shows "\<exists>m. re_match RESULT_RE (st @ '' '' @ show_nat i @ '' '' @ s) = Some m \<and> m_caps m = caps"
proof -
  define k where "k = RSeq (RGrp ''desc'' (RLazy (RCls (\<lambda>c. c \<noteq> CHR ''#'')))) tail_re"
  define k2 where "k2 = RSeq (RGrp ''num'' (RPlus RDigit)) (RSeq (RLit '' '') k)"
  have eq: "RESULT_RE = RSeq RBol (RSeq (RGrp ''status'' (RAlt (RLit ''ok'') (RLit ''not ok'')))
      (RSeq (RLit '' '') k2))"
    by (simp add: RESULT_RE_def k_def k2_def)
  let ?pre = "'' '' @ rev st" and ?caps = "[(''status'', st)]"
  have "\<not> is_digit (CHR '' '')" by (simp add: is_digit_def)
  then obtain rs where num: "run (RGrp ''num'' (RPlus RDigit)) (?pre, show_nat i @ '' '' @ s, ?caps) =
      (rev (show_nat i) @ ?pre, '' '' @ s, (''num'', show_nat i) # ?caps) # rs"
    using grp_plus_cls_first [of "show_nat i" is_digit "'' '' @ s" "''num''" ?pre ?caps] show_nat_digits
    by auto
  obtain ys pre'' where "run k ('' '' @ rev (show_nat i) @ ?pre, s, (''num'', show_nat i) # ?caps) =
      (pre'', [], caps) # ys"
    using ok unfolding k_def by blast
  then have "\<exists>ys. run (RSeq (RLit '' '') k) (rev (show_nat i) @ ?pre, '' '' @ s,
      (''num'', show_nat i) # ?caps) = (pre'', [], caps) # ys"
    by simp
  then obtain ys' where k2: "run k2 (?pre, show_nat i @ '' '' @ s, ?caps) = (pre'', [], caps) # ys'"
    using seq_first [OF num] unfolding k2_def by blast
  have lits: "run (RLit ''ok'') ([], st @ t, []) = (if st = ''ok'' then [(''ko'', t, [])] else [])"
    "run (RLit ''not ok'') ([], st @ t, []) = (if st = ''ok'' then [] else [(''ko ton'', t, [])])" for t
    using st by (auto simp: run_RLit)
  have status: "run (RGrp ''status'' (RAlt (RLit ''ok'') (RLit ''not ok''))) ([], st @ t, []) =
      [(rev st, t, ?caps)]" for t
    using st by (auto simp: run_grp lits)
  have "\<exists>ys. run RESULT_RE ([], st @ '' '' @ show_nat i @ '' '' @ s, []) = (pre'', [], caps) # ys"
    using k2 by (simp add: eq status)
  then show ?thesis by (auto simp: re_match_def first_match_def)
qed

lemma desc_of_tail:
  assumes "name_ok (t_collection t)" and "name_ok (t_test t)"
  shows "\<forall>c \<in> set (desc_of t). c \<noteq> CHR ''#''" "desc_of t \<noteq> []" "\<not> is_space (last (desc_of t))"
    "\<not> is_space (hd (desc_of t))" "strip (desc_of t) = desc_of t"
proof -
  show 1: "\<forall>c \<in> set (desc_of t). c \<noteq> CHR ''#''" "desc_of t \<noteq> []" "\<not> is_space (last (desc_of t))"
    "\<not> is_space (hd (desc_of t))"
    using assms by (auto simp: desc_of_def name_ok_def is_space_def)
  then show "strip (desc_of t) = desc_of t" by (intro strip_by_id) auto
qed

text \<open>What the result pattern captures on a rendered line.\<close>

definition line_caps :: "nat \<Rightarrow> ktest \<Rightarrow> caps" where
  "line_caps i t =
     (if t_message t = [] then [] else [(''directive'', t_message t)])
     @ [(''desc'', desc_of t), (''num'', show_nat i),
        (''status'', if t_status t = Failed then ''not ok'' else ''ok'')]"

lemma message_not_nl: "message_ok m \<Longrightarrow> \<forall>c \<in> set m. not_nl c"
  by (auto simp: message_ok_def not_nl_def is_space_def)

lemma result_re_line:
  assumes "name_ok (t_collection t)" and "name_ok (t_test t)" and "message_ok (t_message t)"
  shows "\<exists>m. re_match RESULT_RE (render_line i t) = Some m \<and> m_caps m = line_caps i t"
proof -
  let ?st = "if t_status t = Failed then ''not ok'' else ''ok''"
  let ?s = "desc_of t @ (if t_message t = [] then [] else '' # '' @ t_message t)"
  let ?caps = "[(''num'', show_nat i), (''status'', ?st)]"
  have "\<exists>ys pre''. run (RSeq (RGrp ''desc'' (RLazy (RCls (\<lambda>c. c \<noteq> CHR ''#'')))) tail_re)
      (pre', ?s, ?caps) = (pre'', [], line_caps i t) # ys" for pre'
  proof (cases "t_message t = []")
    case True
    obtain ys where "run tail_re (rev (desc_of t) @ pre', [], (''desc'', desc_of t) # ?caps) =
        (rev (desc_of t) @ pre', [], (''desc'', desc_of t) # ?caps) # ys"
      using tail_end by blast
    from desc_tail [OF desc_of_tail(1-3) [OF assms(1,2)] this] True show ?thesis
      by (auto simp: line_caps_def)
  next
    case False
    obtain ys pre'' where "run tail_re (rev (desc_of t) @ pre', '' # '' @ t_message t,
        (''desc'', desc_of t) # ?caps) =
        (pre'', [], (''directive'', t_message t) # (''desc'', desc_of t) # ?caps) # ys"
      using tail_directive [OF message_not_nl [OF assms(3)]] by blast
    from desc_tail [OF desc_of_tail(1-3) [OF assms(1,2)] this] False show ?thesis
      by (auto simp: line_caps_def)
  qed
  from result_re_start [OF _ this] show ?thesis by (auto simp: render_line_def)
qed

text \<open>The description splits back into the collection and the test.\<close>

lemma desc_re_desc:
  assumes c: "name_ok (t_collection t)" "CHR '':'' \<notin> set (t_collection t)" and n: "name_ok (t_test t)"
  shows "\<exists>d. re_match DESC_RE (desc_of t) = Some d
    \<and> m_caps d = [(''test'', t_test t), (''collection'', t_collection t)]"
proof -
  let ?c = "t_collection t" and ?n = "t_test t" and ?pre = "rev ''selftests: ''"
  define k where "k = RSeqs [RLit '': '', RGrp ''test'' (RPlus RDot), REol]"
  have eq: "DESC_RE = RSeq RBol (RSeq (RLit ''selftests: '')
      (RSeq (RGrp ''collection'' (RLazyPlus RDot)) k))"
    by (simp add: DESC_RE_def k_def)
  have nn: "\<forall>c \<in> set s. not_nl c" if "name_ok s" for s
    using that by (auto simp: name_ok_def not_nl_def is_space_def)
  obtain rs where rs: "run (RGrp ''test'' (RPlus RDot)) (rev '': '' @ rev ?c @ ?pre, ?n @ [],
      [(''collection'', ?c)]) = (rev ?n @ rev '': '' @ rev ?c @ ?pre, [],
      [(''test'', ?n), (''collection'', ?c)]) # rs"
    using grp_plus_cls_first [OF nn [OF n], of "[]" "''test''" "rev '': '' @ rev ?c @ ?pre"
        "[(''collection'', ?c)]"] n unfolding name_ok_def by blast
  then have ok: "\<exists>ys. run k (rev ?c @ ?pre, '': '' @ ?n, [(''collection'', ?c)]) =
      (rev ?n @ rev '': '' @ rev ?c @ ?pre, [], [(''test'', ?n), (''collection'', ?c)]) # ys"
    by (simp add: k_def)
  have fail: "run k (rev (take i ?c) @ ?pre, drop i ?c @ '': '' @ ?n, caps) = []" if "i < length ?c" for i caps
  proof -
    have "drop i ?c \<noteq> []" using that by simp
    then obtain d ds where d: "drop i ?c = d # ds" by (meson neq_Nil_conv)
    then have "d \<in> set ?c" by (metis in_set_dropD list.set_intros(1))
    then have "d \<noteq> CHR '':''" using c(2) by blast
    then show ?thesis by (auto simp: k_def d)
  qed
  obtain ys where "run (RSeq (RGrp ''collection'' (RLazyPlus RDot)) k) (?pre, ?c @ '': '' @ ?n, []) =
      (rev ?n @ rev '': '' @ rev ?c @ ?pre, [], [(''test'', ?n), (''collection'', ?c)]) # ys"
    using grp_lazy_plus_first [OF nn [OF c(1)], of k ?pre "'': '' @ ?n" "''collection''" "[]"] ok fail c(1)
    by (auto simp: name_ok_def)
  then have "\<exists>ys. run DESC_RE ([], desc_of t, []) =
      (rev ?n @ rev '': '' @ rev ?c @ ?pre, [], [(''test'', ?n), (''collection'', ?c)]) # ys"
    by (simp add: eq desc_of_def)
  then show ?thesis by (auto simp: re_match_def first_match_def)
qed

lemma result_test_line:
  assumes "ktest_ok t" and caps: "m_caps m = line_caps i t"
  shows "result_test m = t"
proof -
  have ok: "name_ok (t_collection t)" "CHR '':'' \<notin> set (t_collection t)" "name_ok (t_test t)"
    "message_ok (t_message t)"
    using assms(1) by (auto simp: ktest_ok_def)
  have grps: "grp0 m ''directive'' = t_message t" "grp0 m ''desc'' = desc_of t"
    "grp m ''status'' = Some (if t_status t = Failed then ''not ok'' else ''ok'')"
    by (auto simp: grp0_def grp_def caps line_caps_def)
  have skip: "re_match SKIP_RE [] = None" by (simp add: SKIP_RE_def re_match_def first_match_def run_star_cls_Nil)
  have status: "result_status m = t_status t"
    using assms(1) skip by (cases "t_status t") (auto simp: result_status_def grps ktest_ok_def)
  have "strip (t_message t) = t_message t"
    using ok(4) by (intro strip_by_id) (auto simp: message_ok_def)
  then have message: "(if result_status m = Passed \<and> re_match XFAIL_RE (t_message t) = None
      then [] else strip (t_message t)) = t_message t"
    using assms(1) by (auto simp: status ktest_ok_def)
  obtain d where d: "re_match DESC_RE (desc_of t) = Some d"
    "m_caps d = [(''test'', t_test t), (''collection'', t_collection t)]"
    using desc_re_desc [OF ok(1-3)] by blast
  then have "grp0 d ''collection'' = t_collection t" "grp0 d ''test'' = t_test t"
    by (simp_all add: grp0_def grp_def)
  then show ?thesis
    using message
    by (simp add: result_test_def Let_def grps desc_of_tail(5) [OF ok(1,3)] d(1) status)
qed

lemma render_not_plan: "re_match PLAN_RE (render_line i t) = None"
  by (simp add: PLAN_RE_def render_line_def re_match_def first_match_def)

lemma render_not_totals: "re_match TOTALS_RE (render_line i t) = None"
  by (simp add: TOTALS_RE_def render_line_def re_match_def first_match_def)

lemma render_not_header: "\<not> is_header (render_line i t)"
  by (simp add: is_header_def HEADER_RE_def render_line_def re_match_def first_match_def)

lemma ktap_line_render:
  "ktest_ok t \<Longrightarrow> ktap_line (s, tot) (render_line i t) = (add_test s t, tot)"
  using result_re_line [of t i] result_test_line [of t _ i]
  by (auto simp: ktap_line_def render_not_plan render_not_totals ktest_ok_def)

lemma ktap_fold_render:
  "\<forall>t \<in> set ts. ktest_ok t \<Longrightarrow>
    \<exists>s'. foldl ktap_line (s, tot) (render_lines i ts) = (s', tot) \<and> tests s' = tests s @ ts \<and> plan s' = plan s"
proof (induction ts arbitrary: s i)
  case Nil
  then show ?case by simp
next
  case (Cons t ts)
  then show ?case using Cons.IH [of "add_test s t" "Suc i"] by (auto simp: ktap_line_render)
qed

lemma plan_re_plan:
  "\<exists>p. re_match PLAN_RE (''1..'' @ show_nat n) = Some p \<and> grp0 p ''count'' = show_nat n"
proof -
  define k where "k = RSeqs [RStar RSpace, REol]"
  have eq: "PLAN_RE = RSeq RBol (RSeq (RLit ''1..'') (RSeq (RGrp ''count'' (RPlus RDigit)) k))"
    by (simp add: PLAN_RE_def k_def)
  obtain rs where rs: "run (RGrp ''count'' (RPlus RDigit)) (rev ''1..'', show_nat n @ [], []) =
      (rev (show_nat n) @ rev ''1..'', [], [(''count'', show_nat n)]) # rs"
    using grp_plus_cls_first [of "show_nat n" is_digit "[]" "''count''" "rev ''1..''" "[]"] show_nat_digits
    by auto
  have "run k (pre, [], caps) = [(pre, [], caps)]" for pre caps
    by (simp add: k_def run_star_cls_Nil)
  then have "\<exists>ys pre. run PLAN_RE ([], ''1..'' @ show_nat n, []) = (pre, [], [(''count'', show_nat n)]) # ys"
    using rs by (simp add: eq)
  then show ?thesis by (auto simp: re_match_def first_match_def grp0_def grp_def)
qed

lemma plan_not_header: "\<not> is_header (''1..'' @ show_nat n)"
  by (simp add: is_header_def HEADER_RE_def re_match_def first_match_def)

lemma header_header: "is_header ''TAP version 13''"
  by (simp add: is_header_def HEADER_RE_def re_match_def first_match_def run_star_cls_Nil)

lemma render_lines_not_header: "l \<in> set (render_lines i ts) \<Longrightarrow> \<not> is_header l"
  by (induction i ts rule: render_lines.induct) (auto simp: render_not_header)

lemma ktap_lines_render:
  assumes "\<forall>t \<in> set ts. ktest_ok t"
  shows "tests (ktap_lines (render_doc ts)) = ts \<and> complete (ktap_lines (render_doc ts))"
proof -
  let ?s0 = "empty_summary\<lparr>report_present := True\<rparr>"
  let ?body = "(''1..'' @ show_nat (length ts)) # render_lines 1 ts"
  obtain p where p: "re_match PLAN_RE (''1..'' @ show_nat (length ts)) = Some p"
    "grp0 p ''count'' = show_nat (length ts)"
    using plan_re_plan by blast
  have plan: "ktap_line (?s0, None) (''1..'' @ show_nat (length ts)) =
      (?s0\<lparr>plan := Some (length ts)\<rparr>, None)"
    using p by (simp add: ktap_line_def empty_summary_def del: append.simps)
  obtain s' where fold: "foldl ktap_line (?s0\<lparr>plan := Some (length ts)\<rparr>, None) (render_lines 1 ts) = (s', None)"
    "tests s' = tests (?s0\<lparr>plan := Some (length ts)\<rparr>) @ ts"
    "plan s' = plan (?s0\<lparr>plan := Some (length ts)\<rparr>)"
    using ktap_fold_render [OF assms] by blast
  then have s': "ktap_fold ?body = (s', None)" "tests s' = ts" "plan s' = Some (length ts)"
    by (simp_all only: foldl_Cons plan) (simp_all add: empty_summary_def)
  have "after_last is_header (render_doc ts) = Some ?body"
    using after_last_header [of is_header "''TAP version 13''" ?body "[]"] header_header
      plan_not_header render_lines_not_header
    by (auto simp: render_doc_def)
  then have "ktap_lines (render_doc ts) = ktap_body ?body" by (simp add: ktap_lines_def)
  then show ?thesis using s' by (simp add: ktap_body_complete totals_ok_def del: append.simps)
qed

lemma line_ok_blanks: "\<forall>c \<in> set s. is_space c \<longrightarrow> c = CHR '' '' \<Longrightarrow> line_ok s"
proof -
  have "\<not> is_newline (CHR '' '')" by (simp add: is_newline_def)
  then show "\<forall>c \<in> set s. is_space c \<longrightarrow> c = CHR '' '' \<Longrightarrow> line_ok s"
    using newline_space unfolding line_ok_def by metis
qed

lemma name_line: "name_ok s \<Longrightarrow> line_ok s"
  unfolding name_ok_def using line_ok_blanks by blast

lemma message_line: "message_ok s \<Longrightarrow> line_ok s"
  unfolding message_ok_def using line_ok_blanks by blast

lemma render_line_ok: "ktest_ok t \<Longrightarrow> line_ok (render_line i t)"
proof -
  assume "ktest_ok t"
  then have "line_ok (t_collection t)" "line_ok (t_test t)" "line_ok (t_message t)"
    by (auto simp: ktest_ok_def name_line message_line)
  moreover have "line_ok ''ok''" "line_ok ''not ok''" "line_ok '' ''" "line_ok '': ''"
    "line_ok ''selftests: ''" "line_ok '' # ''"
    by (simp_all add: line_ok_def is_newline_def)
  ultimately show ?thesis
    by (simp add: render_line_def desc_of_def del: append.simps)
qed

lemma render_doc_ok: "\<forall>t \<in> set ts. ktest_ok t \<Longrightarrow> \<forall>l \<in> set (render_doc ts). line_ok l"
proof -
  assume "\<forall>t \<in> set ts. ktest_ok t"
  then have "\<forall>l \<in> set (render_lines i ts). line_ok l" for i
    by (induction ts arbitrary: i) (auto simp: render_line_ok)
  moreover have "line_ok ''TAP version 13''" "line_ok ''1..''"
    by (simp_all add: line_ok_def is_newline_def)
  ultimately show ?thesis by (simp add: render_doc_def del: append.simps)
qed

section \<open>One item: the collect step\<close>

record collect_in =
  ci_item :: string
  ci_ktap :: string
  ci_result :: string
  ci_exec_status :: string
  ci_crashed :: bool
  ci_timed_out :: bool
  ci_user_crashes :: "string list"
  ci_user_crash_count :: "nat option"
  ci_fail_on_user_crash :: bool

record collect_out =
  co_item :: string
  co_status :: item_status
  co_report_present :: bool
  co_tests :: nat
  co_passed :: nat
  co_failed :: nat
  co_skipped :: nat
  co_user_crashes :: "nat option"
  co_per_test :: "ktest list"
  co_failures :: "ktest list"

definition plumbing_ok :: "collect_in \<Rightarrow> bool" where
  "plumbing_ok i =
     (ci_result i = ''done'' \<and> ci_exec_status i \<in> {[], ''0''}
      \<and> \<not> ci_crashed i \<and> \<not> ci_timed_out i)"

definition user_crash_count :: "collect_in \<Rightarrow> nat option" where
  "user_crash_count i =
     (if ci_user_crash_count i = None \<and> ci_user_crashes i \<noteq> []
      then Some (length (ci_user_crashes i)) else ci_user_crash_count i)"

definition crash_fails :: "collect_in \<Rightarrow> bool" where
  "crash_fails i =
     (ci_fail_on_user_crash i
      \<and> (case user_crash_count i of None \<Rightarrow> False | Some n \<Rightarrow> n \<noteq> 0))"

definition crash_failure :: "collect_in \<Rightarrow> ktest" where
  "crash_failure i =
     \<lparr>t_collection = ci_item i, t_test = ''userspace crash'', t_status = Failed,
      t_message = (case ci_user_crashes i of [] \<Rightarrow> ''no line captured'' | l # _ \<Rightarrow> l)
        @ '' ('' @ show_nat (case user_crash_count i of None \<Rightarrow> 0 | Some n \<Rightarrow> n)
        @ '' crash line(s))''\<rparr>"

definition selftests_collect :: "collect_in \<Rightarrow> collect_out" where
  "selftests_collect i =
     (let s = parse_ktap (ci_ktap i);
          failures = filter (\<lambda>t. t_status t = Failed) (tests s)
            @ (if crash_fails i then [crash_failure i] else []);
          status =
            (if \<not> plumbing_ok i \<or> \<not> complete s \<or> failed s \<noteq> 0 \<or> crash_fails i then Failed
             else if passed s = 0 then Notrun
             else Passed) in
      \<lparr>co_item = ci_item i, co_status = status, co_report_present = report_present s,
       co_tests = length (tests s), co_passed = passed s, co_failed = failed s,
       co_skipped = skipped s, co_user_crashes = user_crash_count i,
       co_per_test = tests s, co_failures = failures\<rparr>)"

section \<open>The pickers\<close>

definition CURATED_COLLECTIONS :: "(string, string) dict" where
  "CURATED_COLLECTIONS =
    [(''size'', ''size (minimal memory-usage report)''),
     (''breakpoints'', ''breakpoints (ptrace hardware breakpoints)''),
     (''kcmp'', ''kcmp (kcmp() syscall)''),
     (''mincore'', ''mincore (mincore() syscall)''),
     (''splice'', ''splice (splice() syscall)''),
     (''sync'', ''sync (sw_sync fence framework)''),
     (''clone3'', ''clone3 (clone3() syscall)''),
     (''fchmodat2'', ''fchmodat2 (fchmodat2() syscall)''),
     (''mount_setattr'', ''mount_setattr (mount_setattr() syscall)''),
     (''memfd'', ''memfd (memfd_create() sealing)''),
     (''mqueue'', ''mqueue (POSIX message queues)''),
     (''syscall_user_dispatch'', ''syscall_user_dispatch (SUD)''),
     (''ptrace'', ''ptrace (ptrace() interfaces)''),
     (''seccomp'', ''seccomp (seccomp filters)''),
     (''cgroup'', ''cgroup (control groups)''),
     (''futex'', ''futex (futex() syscall)''),
     (''rlimits'', ''rlimits (resource limits)''),
     (''capabilities'', ''capabilities (POSIX capabilities)''),
     (''exec'', ''exec (execve() edge cases)''),
     (''proc'', ''proc (procfs interfaces)''),
     (''sysctl'', ''sysctl (sysctl interfaces)''),
     (''lib'', ''lib (in-kernel library test modules)''),
     (''kmod'', ''kmod (module loader stress via test_kmod)''),
     (''module'', ''module (kallsyms find_symbol via test_kallsyms)''),
     (''firmware'', ''firmware (loader + fallback via fw_run_tests.sh)''),
     (''timers'', ''timers (POSIX timers and clocks)''),
     (''kselftest_harness'', ''kselftest_harness (harness self-checks)''),
     (''pidfd'', ''pidfd (pidfd_* syscalls; hang-prone, outside the curated build)''),
     (''net'', ''net (networking; heavy deps, outside the curated build)''),
     (''net/forwarding'', ''net/forwarding (switch topologies; needs veth setup)''),
     (''mm'', ''mm (memory management; needs hugepages configured)''),
     (''ftrace'', ''ftrace (ftracetest; long-running)''),
     (''kvm'', ''kvm (needs nested virtualization)''),
     (''livepatch'', ''livepatch (needs CONFIG_LIVEPATCH + test modules)''),
     (''user_events'', ''user_events (needs CONFIG_USER_EVENTS)'')]"

text \<open>\<open>_cached_union\<close>: the names of every VM's cache, sorted; \<open>caches\<close> are the caches read.\<close>

definition cached_union :: "string list list \<Rightarrow> string list" where
  "cached_union caches = sort (dedup (concat caches))"

definition picker_label :: "(string, string) dict \<Rightarrow> string \<Rightarrow> string" where
  "picker_label curated c = (case dict_get curated c of None \<Rightarrow> c | Some l \<Rightarrow> l)"

definition ordered_names :: "(string, string) dict \<Rightarrow> string list \<Rightarrow> string list" where
  "ordered_names curated names =
     filter (\<lambda>c. c \<in> set names) (keys curated)
     @ filter (\<lambda>c. c \<notin> set (keys curated)) names"

text \<open>
  \<open>list_collections\<close>: the selected VM's cache, else the union of all caches, else the curated
  catalogue; the options are (value, label) pairs.
\<close>

definition list_collections ::
  "string list \<Rightarrow> string list list \<Rightarrow> string \<Rightarrow> (string \<times> string) list" where
  "list_collections cached caches filterText =
     (let names = (if cached \<noteq> [] then cached
                   else if cached_union caches \<noteq> [] then cached_union caches
                   else keys CURATED_COLLECTIONS);
          needle = lower filterText in
      map (\<lambda>c. (c, picker_label CURATED_COLLECTIONS c))
        (filter (\<lambda>c. contains needle (lower c)
                    \<or> contains needle (lower (picker_label CURATED_COLLECTIONS c)))
          (ordered_names CURATED_COLLECTIONS names)))"

definition list_tests :: "string list \<Rightarrow> string list list \<Rightarrow> string \<Rightarrow> (string \<times> string) list" where
  "list_tests cached caches filterText =
     (let names = (if cached \<noteq> [] then cached else cached_union caches);
          needle = lower filterText in
      map (\<lambda>t. (t, t)) (filter (\<lambda>t. contains needle (lower t)) names))"

text \<open>\<open>share_dir\<close>: the VM's directory under \<open>$WORKERS_DIR/shared/selftests\<close>.\<close>

definition selftests_share_dir :: "path \<Rightarrow> string \<Rightarrow> path result" where
  "selftests_share_dir workers vm_name = under (workers @ [''shared'', ''selftests'']) vm_name"

lemma set_ordered_names [simp]: "set (ordered_names curated names) = set names"
  by (auto simp: ordered_names_def)

lemma distinct_ordered_names:
  "distinct (keys curated) \<Longrightarrow> distinct names \<Longrightarrow> distinct (ordered_names curated names)"
  by (auto simp: ordered_names_def)

section \<open>Properties\<close>

text \<open>
  C11: the document the runner writes for a list of tests parses back to exactly those tests, in
  order, and reads as complete.
\<close>

theorem parse_ktap_roundtrip:
  assumes "\<forall>t \<in> set ts. ktest_ok t"
  shows "tests (parse_ktap (unlines (render_doc ts))) = ts
    \<and> complete (parse_ktap (unlines (render_doc ts)))"
  using ktap_lines_render [OF assms] splitlines_unlines [OF render_doc_ok [OF assms]]
  by (simp add: parse_ktap_def)

definition ktests_example :: "ktest list" where
  "ktests_example =
    [\<lparr>t_collection = ''size'', t_test = ''get_size'', t_status = Passed, t_message = []\<rparr>,
     \<lparr>t_collection = ''net/forwarding'', t_test = ''gre.sh'', t_status = Failed,
       t_message = ''exit=1''\<rparr>,
     \<lparr>t_collection = ''kvm'', t_test = ''smm_test'', t_status = Notrun, t_message = ''SKIP''\<rparr>]"

lemma skip_examples:
  "re_match SKIP_RE ''SKIP'' \<noteq> None" "re_match SKIP_RE ''exit=1'' = None"
  by code_simp+

lemma ktests_example_ok: "\<forall>t \<in> set ktests_example. ktest_ok t"
  using skip_examples
  by (simp add: ktests_example_def ktest_ok_def name_ok_def message_ok_def is_space_def)

theorem parse_ktap_roundtrip_witness:
  "tests (parse_ktap (unlines (render_doc ktests_example))) = ktests_example
   \<and> complete (parse_ktap (unlines (render_doc ktests_example)))"
  using parse_ktap_roundtrip [OF ktests_example_ok] .

text \<open>
  The counters of every parsed document, whatever the text, are the numbers of its entries
  by status, and a document read as complete has a header and a plan of exactly as many tests
  as were read.
\<close>

theorem parse_ktap_counts:
  "passed (parse_ktap text) = num Passed (tests (parse_ktap text))
   \<and> failed (parse_ktap text) = num Failed (tests (parse_ktap text))
   \<and> skipped (parse_ktap text) = num Notrun (tests (parse_ktap text))
   \<and> (complete (parse_ktap text) \<longrightarrow>
        plan (parse_ktap text) = Some (length (tests (parse_ktap text)))
        \<and> report_present (parse_ktap text))"
  using ktap_lines_counted [of "splitlines text"] ktap_lines_complete [of "splitlines text"]
  by (auto simp: parse_ktap_def counted_def)

theorem parse_ktap_counts_witness:
  "plan (parse_ktap (unlines (render_doc ktests_example))) = Some 3
   \<and> report_present (parse_ktap (unlines (render_doc ktests_example)))"
proof -
  have "complete (parse_ktap (unlines (render_doc ktests_example)))
      \<and> tests (parse_ktap (unlines (render_doc ktests_example))) = ktests_example"
    using ktap_lines_render [OF ktests_example_ok]
      splitlines_unlines [OF render_doc_ok [OF ktests_example_ok]]
    by (simp add: parse_ktap_def)
  with parse_ktap_counts [of "unlines (render_doc ktests_example)"] show ?thesis
    by (simp add: ktests_example_def)
qed

text \<open>
  A journal cut short never reads as a full run with results missing: when the text of the
  lines kept and the text with the lost lines added (no new header among them) both read as
  complete, they hold the same results.
\<close>

theorem parse_ktap_truncation:
  assumes "\<forall>l \<in> set (kept @ lost). line_ok l" and "\<forall>l \<in> set lost. \<not> is_header l"
    and "complete (parse_ktap (unlines (kept @ lost)))" and "complete (parse_ktap (unlines kept))"
  shows "tests (parse_ktap (unlines kept)) = tests (parse_ktap (unlines (kept @ lost)))"
proof -
  have "splitlines (unlines (kept @ lost)) = kept @ lost" "splitlines (unlines kept) = kept"
    using assms(1) by (auto intro!: splitlines_unlines)
  with assms show ?thesis
    using ktap_lines_cut [of lost kept] by (simp add: parse_ktap_def)
qed

theorem parse_ktap_truncation_witness:
  "tests (parse_ktap (unlines (render_doc ktests_example))) =
    tests (parse_ktap (unlines (render_doc ktests_example @ [])))"
proof (rule parse_ktap_truncation)
  show "complete (parse_ktap (unlines (render_doc ktests_example)))"
    "complete (parse_ktap (unlines (render_doc ktests_example @ [])))"
    using ktap_lines_render [OF ktests_example_ok]
      splitlines_unlines [OF render_doc_ok [OF ktests_example_ok]]
    by (simp_all add: parse_ktap_def)
qed (use render_doc_ok [OF ktests_example_ok] in simp_all)

text \<open>
  A green kselftest run, end to end: when the judge lets the run of a list of items through,
  there was at least one item, and every item's start job finished, its exit status was clean,
  the guest neither crashed nor timed out, its KTAP document was complete with no failed and at
  least one passed test, and no user-space crash counted as a failure.
\<close>

theorem selftests_green_run:
  assumes "selftests_judge (Some (map (\<lambda>i. Result (co_status (selftests_collect i))) items)) report
    = Inr report'"
  shows "items \<noteq> [] \<and> report' = report
    \<and> (\<forall>i \<in> set items. plumbing_ok i \<and> complete (parse_ktap (ci_ktap i))
        \<and> num Failed (tests (parse_ktap (ci_ktap i))) = 0
        \<and> num Passed (tests (parse_ktap (ci_ktap i))) > 0 \<and> \<not> crash_fails i)"
proof -
  have "counted (parse_ktap t)" for t
    by (simp add: parse_ktap_def ktap_lines_counted)
  then have counts: "failed (parse_ktap t) = num Failed (tests (parse_ktap t))"
    "passed (parse_ktap t) = num Passed (tests (parse_ktap t))" for t
    by (simp_all add: counted_def)
  from assms have "items \<noteq> []" "report' = report"
    "\<forall>i \<in> set items. co_status (selftests_collect i) = Passed"
    by (auto simp: selftests_judge_ok)
  then show ?thesis
    by (auto simp: selftests_collect_def Let_def counts split: if_splits)
qed

definition item_example :: collect_in where
  "item_example =
    \<lparr>ci_item = ''size'', ci_ktap = unlines (render_doc [hd ktests_example]), ci_result = ''done'',
     ci_exec_status = [], ci_crashed = False, ci_timed_out = False, ci_user_crashes = [],
     ci_user_crash_count = None, ci_fail_on_user_crash = True\<rparr>"

theorem selftests_green_run_witness:
  "selftests_judge (Some (map (\<lambda>i. Result (co_status (selftests_collect i))) [item_example])) (Some ''report'')
     = Inr (Some ''report'')
   \<and> complete (parse_ktap (ci_ktap item_example))"
proof -
  have ok: "\<forall>t \<in> set [hd ktests_example]. ktest_ok t"
    using ktests_example_ok by (simp add: ktests_example_def)
  have parse: "tests (parse_ktap (ci_ktap item_example)) = [hd ktests_example]"
    "complete (parse_ktap (ci_ktap item_example))"
    using ktap_lines_render [OF ok] splitlines_unlines [OF render_doc_ok [OF ok]]
    by (simp_all add: parse_ktap_def item_example_def)
  have "counted (parse_ktap (ci_ktap item_example))"
    by (simp add: parse_ktap_def ktap_lines_counted)
  with parse have "co_status (selftests_collect item_example) = Passed"
    by (simp add: selftests_collect_def Let_def counted_def plumbing_ok_def crash_fails_def
        user_crash_count_def item_example_def ktests_example_def)
  then have "selftests_judge (Some (map (\<lambda>i. Result (co_status (selftests_collect i))) [item_example]))
      (Some ''report'') = Inr (Some ''report'')"
    by (simp add: selftests_judge_ok)
  with selftests_green_run [OF this] show ?thesis by simp
qed

text \<open>
  The collection picker never comes up empty before any text is typed, offers every known
  name and nothing else, and offers no name twice when the cache it reads holds none twice.
\<close>

theorem list_collections_complete:
  assumes "distinct cached"
  shows "list_collections cached caches [] \<noteq> []
    \<and> distinct (map fst (list_collections cached caches text))
    \<and> (cached \<noteq> [] \<longrightarrow> set (map fst (list_collections cached caches [])) = set cached)"
proof -
  have curated: "distinct (keys CURATED_COLLECTIONS)" "keys CURATED_COLLECTIONS \<noteq> []"
    by (simp_all add: CURATED_COLLECTIONS_def)
  have distinct_union: "distinct (cached_union caches)" by (simp add: cached_union_def)
  define names where "names = (if cached \<noteq> [] then cached
      else if cached_union caches \<noteq> [] then cached_union caches else keys CURATED_COLLECTIONS)"
  have vals: "map fst (list_collections cached caches t) =
      filter (\<lambda>c. contains (lower t) (lower c)
        \<or> contains (lower t) (lower (picker_label CURATED_COLLECTIONS c)))
        (ordered_names CURATED_COLLECTIONS names)" for t
    by (simp only: list_collections_def names_def Let_def map_map comp_def fst_conv map_ident)
  have names: "names \<noteq> []" "distinct names" "cached \<noteq> [] \<Longrightarrow> names = cached"
    using assms curated distinct_union by (auto simp: names_def)
  have all: "map fst (list_collections cached caches []) = ordered_names CURATED_COLLECTIONS names"
    by (simp add: vals lower_def)
  have "set (map fst (list_collections cached caches [])) = set names"
    by (simp only: all set_ordered_names)
  moreover have "distinct (map fst (list_collections cached caches text))"
    using distinct_ordered_names [OF curated(1) names(2)] by (simp add: vals)
  ultimately show ?thesis using names by (metis list.map_disc_iff set_empty)
qed

theorem list_collections_complete_witness:
  "list_collections [''size'', ''net''] [] [] \<noteq> []
   \<and> set (map fst (list_collections [''size'', ''net''] [] [])) = {''size'', ''net''}"
  using list_collections_complete [of "[''size'', ''net'']" "[]" "[]"] by simp

end
