(* ===== verification/Effects.thy ===== *)
theory Effects
  imports Paths
begin

text \<open>
  Code with effects. A step of the sources runs processes (\<open>git\<close>, \<open>nix\<close>, a tool of a devShell)
  and reads and writes files; it is modelled as a tree of commands, each with a continuation that
  takes the answer, so that a statement about a step holds for every behaviour of the processes
  and of the file system. \<open>exec\<close> runs a tree against a handler, which stands for the machine.

  The rules for \<open>sound\<close> (every command satisfies a predicate, every result another) are what the
  component proofs use; \<open>sound_exec\<close> turns them into statements about runs.
\<close>

named_theorems sound_intros \<open>rules for the soundness of a program, one per construct\<close>

section \<open>Commands and answers\<close>

text \<open>
  \<open>Git\<close> is an argv of the flake's \<open>git\<close> (\<open>Git\<close> of \<open>f/common/devshell.py\<close>), \<open>Nix\<close> one of the raw
  \<open>nix\<close>, \<open>Dev\<close> one run in the devShell of a name. The rest are the file-system calls the steps
  make: first the reads, then the writes; \<open>TempDir\<close> and \<open>DropTemp\<close> are the two ends of a
  \<open>tempfile.TemporaryDirectory\<close>, \<open>Rmtree\<close> is \<open>shutil.rmtree\<close>.
\<close>

datatype cmd =
    Git "string list"
  | Nix "string list"
  | Dev string "string list"
  | Exists path
  | IsDir path
  | IsFile path
  | IsSymlink path
  | ListDir path
  | ReadText path
  | RealPath path
  | Mtime path
  | TempDir
  | DropTemp path
  | Mkdir path
  | Rmtree path
  | Unlink path
  | WriteText path string
  | AppendText path string

text \<open>
  An answer: the exit status of a process (0 for a probe that holds), what it wrote to its
  standard output (the text of a file), and the entries of a directory.
\<close>

record resp =
  rc :: int
  out :: string
  entries :: "string list"

definition holds :: "resp \<Rightarrow> bool" where
  "holds r = (rc r = 0)"

datatype 'a prog =
    Ret 'a
  | Raise py_error
  | Do cmd "resp \<Rightarrow> 'a prog"

primrec bind :: "'a prog \<Rightarrow> ('a \<Rightarrow> 'b prog) \<Rightarrow> 'b prog" where
  "bind (Ret x) f = f x"
| "bind (Raise e) f = Raise e"
| "bind (Do c k) f = Do c (\<lambda>r. bind (k r) f)"

text \<open>\<open>try: m; except: h\<close>.\<close>

primrec catch :: "'a prog \<Rightarrow> (py_error \<Rightarrow> 'a prog) \<Rightarrow> 'a prog" where
  "catch (Ret x) h = Ret x"
| "catch (Raise e) h = h e"
| "catch (Do c k) h = Do c (\<lambda>r. catch (k r) h)"

text \<open>\<open>attempt m\<close> reifies an exception; \<open>ensuring m c\<close> runs \<open>c\<close> whatever \<open>m\<close> does (\<open>finally\<close>, \<open>with\<close>).\<close>

primrec attempt :: "'a prog \<Rightarrow> 'a result prog" where
  "attempt (Ret x) = Ret (Inr x)"
| "attempt (Raise e) = Ret (Inl e)"
| "attempt (Do c k) = Do c (\<lambda>r. attempt (k r))"

definition perform :: "cmd \<Rightarrow> resp prog" where
  "perform c = Do c Ret"

definition act :: "cmd \<Rightarrow> unit prog" where
  "act c = Do c (\<lambda>_. Ret ())"

definition probe :: "cmd \<Rightarrow> bool prog" where
  "probe c = Do c (\<lambda>r. Ret (holds r))"

definition nop :: "unit prog" where
  "nop = Ret ()"

definition only_if :: "bool \<Rightarrow> unit prog \<Rightarrow> unit prog" where
  "only_if b m = (if b then m else nop)"

fun for_each :: "'a list \<Rightarrow> ('a \<Rightarrow> unit prog) \<Rightarrow> unit prog" where
  "for_each [] f = nop"
| "for_each (x # xs) f = bind (f x) (\<lambda>_. for_each xs f)"

fun map_prog :: "('a \<Rightarrow> 'b prog) \<Rightarrow> 'a list \<Rightarrow> 'b list prog" where
  "map_prog f [] = Ret []"
| "map_prog f (x # xs) = bind (f x) (\<lambda>y. bind (map_prog f xs) (\<lambda>ys. Ret (y # ys)))"

definition of_result :: "'a result \<Rightarrow> 'a prog" where
  "of_result r = (case r of Inl e \<Rightarrow> Raise e | Inr x \<Rightarrow> Ret x)"

definition ensuring :: "'a prog \<Rightarrow> unit prog \<Rightarrow> 'a prog" where
  "ensuring m c = bind (attempt m) (\<lambda>r. bind c (\<lambda>_. of_result r))"

section \<open>Processes\<close>

text \<open>
  \<open>Git.ok\<close>, \<open>Git.run\<close> and \<open>Git.capture\<close>: with \<open>check\<close>, a non-zero exit status raises
  \<open>CalledProcessError\<close>.
\<close>

definition git_ok :: "string list \<Rightarrow> bool prog" where
  "git_ok args = Do (Git args) (\<lambda>r. Ret (holds r))"

definition git_run :: "string list \<Rightarrow> unit prog" where
  "git_run args = Do (Git args) (\<lambda>r. if holds r then Ret () else Raise CalledProcessError)"

definition git_status :: "string list \<Rightarrow> int prog" where
  "git_status args = Do (Git args) (\<lambda>r. Ret (rc r))"

definition git_capture :: "string list \<Rightarrow> string prog" where
  "git_capture args = Do (Git args) (\<lambda>r. Ret (out r))"

definition git_capture_checked :: "string list \<Rightarrow> string prog" where
  "git_capture_checked args =
     Do (Git args) (\<lambda>r. if holds r then Ret (out r) else Raise CalledProcessError)"

definition nix_run :: "string list \<Rightarrow> unit prog" where
  "nix_run args = Do (Nix args) (\<lambda>r. if holds r then Ret () else Raise CalledProcessError)"

definition nix_capture :: "string list \<Rightarrow> string prog" where
  "nix_capture args =
     Do (Nix args) (\<lambda>r. if holds r then Ret (out r) else Raise CalledProcessError)"

definition dev_run :: "string \<Rightarrow> string list \<Rightarrow> unit prog" where
  "dev_run shell args =
     Do (Dev shell args) (\<lambda>r. if holds r then Ret () else Raise CalledProcessError)"

definition dev_capture :: "string \<Rightarrow> string list \<Rightarrow> string prog" where
  "dev_capture shell args =
     Do (Dev shell args) (\<lambda>r. if holds r then Ret (out r) else Raise CalledProcessError)"

text \<open>\<open>Path.read_text\<close>, of a file that must be there.\<close>

definition read_text :: "path \<Rightarrow> string prog" where
  "read_text p = Do (ReadText p) (\<lambda>r. if holds r then Ret (out r) else Raise FileNotFoundError)"

text \<open>
  \<open>_atomic_write\<close> of the suites' \<open>common.py\<close>: the parent directory, then the file, which is written
  to a hidden temporary name and renamed, so that its text changes in one step.
\<close>

definition atomic_write :: "path \<Rightarrow> string \<Rightarrow> unit prog" where
  "atomic_write p data = bind (act (Mkdir (butlast p))) (\<lambda>_. act (WriteText p data))"

section \<open>Runs\<close>

text \<open>A machine answers a command and moves to its next state.\<close>

type_synonym 'w machine = "'w \<Rightarrow> cmd \<Rightarrow> resp \<times> 'w"

primrec exec :: "'a prog \<Rightarrow> 'w machine \<Rightarrow> 'w \<Rightarrow> 'a result \<times> 'w" where
  "exec (Ret x) m w = (Inr x, w)"
| "exec (Raise e) m w = (Inl e, w)"
| "exec (Do c k) m w = (case m w c of (r, w') \<Rightarrow> exec (k r) m w')"

primrec trace :: "'a prog \<Rightarrow> 'w machine \<Rightarrow> 'w \<Rightarrow> cmd list" where
  "trace (Ret x) m w = []"
| "trace (Raise e) m w = []"
| "trace (Do c k) m w = c # (case m w c of (r, w') \<Rightarrow> trace (k r) m w')"

lemma exec_bind:
  "exec (bind p f) m w =
     (case exec p m w of (Inl e, w') \<Rightarrow> (Inl e, w') | (Inr x, w') \<Rightarrow> exec (f x) m w')"
  by (induction p arbitrary: w) (simp_all split: prod.splits)

lemma exec_catch:
  "exec (catch p h) m w =
     (case exec p m w of (Inl e, w') \<Rightarrow> exec (h e) m w' | (Inr x, w') \<Rightarrow> (Inr x, w'))"
  by (induction p arbitrary: w) (simp_all split: prod.splits)

lemma trace_bind:
  "trace (bind p f) m w =
     trace p m w @ (case exec p m w of (Inl e, w') \<Rightarrow> [] | (Inr x, w') \<Rightarrow> trace (f x) m w')"
  by (induction p arbitrary: w) (simp_all split: prod.splits)

lemma bind_assoc [simp]: "bind (bind p f) g = bind p (\<lambda>x. bind (f x) g)"
  by (induction p) simp_all

lemma bind_Ret [simp]: "bind p Ret = p"
  by (induction p) simp_all

section \<open>Soundness\<close>

text \<open>
  \<open>sound C Q p\<close>: whatever the machine answers, every command of \<open>p\<close> satisfies \<open>C\<close> and every
  value it returns satisfies \<open>Q\<close>.
\<close>

primrec sound :: "(cmd \<Rightarrow> bool) \<Rightarrow> ('a \<Rightarrow> bool) \<Rightarrow> 'a prog \<Rightarrow> bool" where
  "sound C Q (Ret x) = Q x"
| "sound C Q (Raise e) = True"
| "sound C Q (Do c k) = (C c \<and> (\<forall>r. sound C Q (k r)))"

lemma sound_exec:
  "sound C Q p \<Longrightarrow> exec p m w = (Inr x, w') \<Longrightarrow> Q x"
  by (induction p arbitrary: w) (auto split: prod.splits)

lemma sound_trace:
  "sound C Q p \<Longrightarrow> c \<in> set (trace p m w) \<Longrightarrow> C c"
  by (induction p arbitrary: w) (auto split: prod.splits)

lemma sound_bind:
  "sound C Q p \<Longrightarrow> (\<And>x. Q x \<Longrightarrow> sound C R (f x)) \<Longrightarrow> sound C R (bind p f)"
  by (induction p) simp_all

lemma sound_catch:
  "sound C Q p \<Longrightarrow> (\<And>e. sound C Q (h e)) \<Longrightarrow> sound C Q (catch p h)"
  by (induction p) simp_all

lemma sound_weaken:
  "sound C Q p \<Longrightarrow> (\<And>c. C c \<Longrightarrow> C' c) \<Longrightarrow> (\<And>x. Q x \<Longrightarrow> Q' x) \<Longrightarrow> sound C' Q' p"
  by (induction p) auto

lemma sound_conj: "sound C Q p \<Longrightarrow> sound C' Q' p \<Longrightarrow> sound (\<lambda>c. C c \<and> C' c) (\<lambda>x. Q x \<and> Q' x) p"
  by (induction p) simp_all

text \<open>The rules the proofs apply; a program whose result does not matter has \<open>\<lambda>_. True\<close>.\<close>

abbreviation issues :: "(cmd \<Rightarrow> bool) \<Rightarrow> 'a prog \<Rightarrow> bool" where
  "issues C p \<equiv> sound C (\<lambda>_. True) p"

lemma issues_bind [sound_intros]: "issues C p \<Longrightarrow> (\<And>x. issues C (f x)) \<Longrightarrow> issues C (bind p f)"
  by (rule sound_bind)

lemma issues_catch [sound_intros]: "issues C p \<Longrightarrow> (\<And>e. issues C (h e)) \<Longrightarrow> issues C (catch p h)"
  by (rule sound_catch)

lemma issues_attempt [simp]: "issues C (attempt p) = issues C p"
  by (induction p) simp_all

lemma issues_simps [simp, sound_intros]:
  "issues C (Ret x)" "issues C (Raise e)" "issues C nop" "issues C (of_result r)"
  by (simp_all add: nop_def of_result_def split: sum.splits)

lemma issues_do [simp]:
  "issues C (act c) = C c" "issues C (probe c) = C c" "issues C (perform c) = C c"
  "issues C (git_ok args) = C (Git args)" "issues C (git_run args) = C (Git args)"
  "issues C (git_status args) = C (Git args)" "issues C (git_capture args) = C (Git args)"
  "issues C (git_capture_checked args) = C (Git args)"
  "issues C (nix_run args) = C (Nix args)" "issues C (nix_capture args) = C (Nix args)"
  "issues C (dev_run sh args) = C (Dev sh args)" "issues C (dev_capture sh args) = C (Dev sh args)"
  by (simp_all add: act_def probe_def perform_def git_ok_def git_run_def git_status_def
      git_capture_def git_capture_checked_def nix_run_def nix_capture_def dev_run_def dev_capture_def)

lemma issues_ensuring [sound_intros]: "issues C p \<Longrightarrow> issues C c \<Longrightarrow> issues C (ensuring p c)"
  unfolding ensuring_def by (intro issues_bind) simp_all

lemma issues_only_if [sound_intros]: "(b \<Longrightarrow> issues C p) \<Longrightarrow> issues C (only_if b p)"
  by (simp add: only_if_def)

lemma issues_if [sound_intros]:
  "(b \<Longrightarrow> issues C p) \<Longrightarrow> (\<not> b \<Longrightarrow> issues C q) \<Longrightarrow> issues C (if b then p else q)"
  by simp

lemma issues_for_each [sound_intros]:
  "(\<And>x. x \<in> set xs \<Longrightarrow> issues C (f x)) \<Longrightarrow> issues C (for_each xs f)"
  by (induction xs) (auto intro: issues_bind)

lemma issues_map_prog [sound_intros]:
  "(\<And>x. x \<in> set xs \<Longrightarrow> issues C (f x)) \<Longrightarrow> issues C (map_prog f xs)"
  by (induction xs) (auto intro!: issues_bind)

text \<open>No exception leaves the program, whatever the machine answers.\<close>

primrec never_raises :: "'a prog \<Rightarrow> bool" where
  "never_raises (Ret x) = True"
| "never_raises (Raise e) = False"
| "never_raises (Do c k) = (\<forall>r. never_raises (k r))"

lemma never_raises_exec: "never_raises p \<Longrightarrow> is_ok (fst (exec p m w))"
  by (induction p arbitrary: w) (auto split: prod.splits)

lemma never_raises_bind: "never_raises p \<Longrightarrow> (\<And>x. never_raises (f x)) \<Longrightarrow> never_raises (bind p f)"
  by (induction p) simp_all

lemma never_raises_attempt [simp]: "never_raises (attempt p)"
  by (induction p) simp_all

lemma never_raises_for_each: "(\<And>x. never_raises (f x)) \<Longrightarrow> never_raises (for_each xs f)"
  by (induction xs) (simp_all add: nop_def never_raises_bind)

text \<open>
  A property of the machine's state that every allowed command keeps is kept by the program.
\<close>

lemma exec_keeps:
  assumes "issues C p" and keeps: "\<And>w c. C c \<Longrightarrow> I w \<Longrightarrow> I (snd (m w c))" and "I w"
  shows "I (snd (exec p m w))"
  using assms(1,3)
proof (induction p arbitrary: w)
  case (Do c k)
  obtain r w' where step: "m w c = (r, w')" by (cases "m w c")
  with Do.prems keeps [of c w] have "I w'" by simp
  with Do step show ?case by simp
qed simp_all

section \<open>Statements about the history of a run\<close>

text \<open>The commands of a run with their answers.\<close>

type_synonym history = "(cmd \<times> resp) list"

primrec log_of :: "'a prog \<Rightarrow> 'w machine \<Rightarrow> 'w \<Rightarrow> history" where
  "log_of (Ret x) m w = []"
| "log_of (Raise e) m w = []"
| "log_of (Do c k) m w = (case m w c of (r, w') \<Rightarrow> (c, r) # log_of (k r) m w')"

text \<open>
  \<open>guarded G Q h p\<close>: with \<open>h\<close> behind it, \<open>p\<close> issues a command \<open>c\<close> only after a history \<open>g\<close> with
  \<open>G g c\<close>, and returns \<open>x\<close> only after a history \<open>g\<close> with \<open>Q g x\<close>.
\<close>

primrec guarded ::
  "(history \<Rightarrow> cmd \<Rightarrow> bool) \<Rightarrow> (history \<Rightarrow> 'a \<Rightarrow> bool) \<Rightarrow> 'a prog \<Rightarrow> history \<Rightarrow> bool" where
  "guarded G Q (Ret x) h = Q h x"
| "guarded G Q (Raise e) h = True"
| "guarded G Q (Do c k) h = (G h c \<and> (\<forall>r. guarded G Q (k r) (h @ [(c, r)])))"

lemma guarded_bind [sound_intros]:
  "guarded G (\<lambda>g x. guarded G R (f x) g) p h \<Longrightarrow> guarded G R (bind p f) h"
  by (induction p arbitrary: h) simp_all

lemma guarded_bind_iff: "guarded G R (bind p f) h = guarded G (\<lambda>g x. guarded G R (f x) g) p h"
  by (induction p arbitrary: h) simp_all

lemma guarded_weaken:
  "guarded G Q p h \<Longrightarrow> (\<And>g x. Q g x \<Longrightarrow> R g x) \<Longrightarrow> guarded G R p h"
  by (induction p arbitrary: h) auto

lemma sound_guarded:
  "sound C Q p \<Longrightarrow> (\<And>g c. C c \<Longrightarrow> G g c) \<Longrightarrow> (\<And>g x. Q x \<Longrightarrow> R g x) \<Longrightarrow> guarded G R p h"
  by (induction p arbitrary: h) auto

lemma sound_history:
  "sound (\<lambda>_. True) R p \<Longrightarrow> (\<And>g x. set h \<subseteq> set g \<Longrightarrow> R x \<Longrightarrow> Q g x) \<Longrightarrow>
    guarded (\<lambda>_ _. True) Q p h"
proof (induction p arbitrary: h)
  case (Do c k)
  have "guarded (\<lambda>_ _. True) Q (k r) (h @ [(c, r)])" for r
    using Do.prems by (intro Do.IH) auto
  then show ?case by simp
qed auto

lemma issues_any [simp]: "issues (\<lambda>_. True) p"
  by (induction p) simp_all

lemma any_history: "(\<And>g x. set h \<subseteq> set g \<Longrightarrow> Q g x) \<Longrightarrow> guarded (\<lambda>_ _. True) Q p h"
  by (rule sound_history [where R = "\<lambda>_. True"]) simp_all

lemma guarded_trivial: "guarded (\<lambda>_ _. True) (\<lambda>_ _. True) p h"
  by (induction p arbitrary: h) simp_all

lemma guarded_exec:
  "guarded G Q p h \<Longrightarrow> exec p m w = (Inr x, w') \<Longrightarrow> Q (h @ log_of p m w) x"
proof (induction p arbitrary: h w)
  case (Do c k)
  obtain r w1 where step: "m w c = (r, w1)" by (cases "m w c")
  then have run: "exec (k r) m w1 = (Inr x, w')" using Do.prems(2) by simp
  have "guarded G Q (k r) (h @ [(c, r)])" using Do.prems(1) by simp
  with run have "Q ((h @ [(c, r)]) @ log_of (k r) m w1) x" by (intro Do.IH) auto
  with step show ?case by simp
qed auto

lemma guarded_log:
  "guarded G Q p h \<Longrightarrow> log_of p m w = pre @ (c, r) # post \<Longrightarrow> G (h @ pre) c"
proof (induction p arbitrary: h w pre)
  case (Do d k)
  obtain s w1 where step: "m w d = (s, w1)" by (cases "m w d")
  then have split: "(d, s) # log_of (k s) m w1 = pre @ (c, r) # post" using Do.prems(2) by simp
  show ?case
  proof (cases pre)
    case Nil
    with split Do.prems(1) show ?thesis by simp
  next
    case (Cons p' pre')
    with split have "p' = (d, s)" "log_of (k s) m w1 = pre' @ (c, r) # post" by auto
    moreover have "guarded G Q (k s) (h @ [(d, s)])" using Do.prems(1) by simp
    ultimately have "G ((h @ [(d, s)]) @ pre') c" by (intro Do.IH) auto
    with Cons \<open>p' = (d, s)\<close> show ?thesis by simp
  qed
qed simp_all

lemma trace_log: "trace p m w = map fst (log_of p m w)"
  by (induction p arbitrary: w) (simp_all split: prod.splits)

section \<open>The directories of the build area\<close>

text \<open>
  \<open>workbench_dir\<close> and its relatives of \<open>f/common/devshell.py\<close>: an environment variable that is
  set and not empty names the directory, else it is derived from the one above. The values are
  absolute paths. Only \<open>WORKERS_DIR\<close> has no default: reading it unset raises \<open>KeyError\<close>.
\<close>

type_synonym environ = "(string, string) dict"

definition env_path :: "environ \<Rightarrow> string \<Rightarrow> path option" where
  "env_path env name =
     (case dict_get env name of
        None \<Rightarrow> None
      | Some v \<Rightarrow> (if v = [] then None else Some (parts v)))"

definition workers_env :: "environ \<Rightarrow> path result" where
  "workers_env env =
     (case dict_get env ''WORKERS_DIR'' of None \<Rightarrow> Inl KeyError | Some v \<Rightarrow> Inr (parts v))"

definition or_else :: "path option \<Rightarrow> path result \<Rightarrow> path result" where
  "or_else p q = (case p of Some x \<Rightarrow> Inr x | None \<Rightarrow> q)"

definition sub :: "path result \<Rightarrow> string \<Rightarrow> path result" where
  "sub p name = (case p of Inl e \<Rightarrow> Inl e | Inr x \<Rightarrow> Inr (x @ [name]))"

definition workbench_dir :: "environ \<Rightarrow> path result" where
  "workbench_dir env =
     or_else (env_path env ''WORKBENCH_DIR'')
       (case workers_env env of Inl e \<Rightarrow> Inl e | Inr w \<Rightarrow> Inr (butlast w))"

definition worktrees_dir :: "environ \<Rightarrow> path result" where
  "worktrees_dir env = or_else (env_path env ''WORKTREES_DIR'') (workbench_dir env)"

definition system_dir :: "environ \<Rightarrow> path result" where
  "system_dir env = or_else (env_path env ''SYSTEM_DIR'') (sub (workbench_dir env) ''system'')"

definition mirrors_dir :: "environ \<Rightarrow> path result" where
  "mirrors_dir env = or_else (env_path env ''MIRRORS_DIR'') (sub (system_dir env) ''mirror'')"

definition ccache_dir :: "environ \<Rightarrow> path result" where
  "ccache_dir env = or_else (env_path env ''CCACHE_DIR'') (sub (system_dir env) ''ccache'')"

definition store_index_dir :: "environ \<Rightarrow> path result" where
  "store_index_dir env =
     or_else (env_path env ''STORE_INDEX_DIR'') (sub (system_dir env) ''store-index'')"

definition vendor_dir :: "environ \<Rightarrow> path option \<Rightarrow> path result" where
  "vendor_dir env workers =
     or_else (env_path env ''VENDOR_DIR'')
       (case (case workers of Some w \<Rightarrow> Inr (butlast w) | None \<Rightarrow> workbench_dir env) of
          Inl e \<Rightarrow> Inl e
        | Inr wb \<Rightarrow> Inr (butlast wb @ [''vendor'']))"

lemmas dir_defs = workbench_dir_def worktrees_dir_def system_dir_def mirrors_dir_def ccache_dir_def
  store_index_dir_def vendor_dir_def or_else_def sub_def env_path_def workers_env_def

text \<open>\<open>str(path)\<close>.\<close>

definition path_str :: "path \<Rightarrow> string" where
  "path_str p = (if p = [] then ''/'' else concat (map (\<lambda>c. CHR ''/'' # c) p))"

text \<open>\<open>Git()\<close>: the binary comes from the flake, built once and pinned at \<open>$SYSTEM_DIR/gitbin\<close>.\<close>

definition resolve_git :: "environ \<Rightarrow> unit prog" where
  "resolve_git env =
     bind (of_result (workers_env env)) (\<lambda>base.
     bind (of_result (system_dir env)) (\<lambda>sys.
     bind (probe (Exists (sys @ [''gitbin'', ''bin'', ''git'']))) (\<lambda>there. if there then nop else
     bind (of_result (vendor_dir env (Some base))) (\<lambda>vendor.
     nix_run [''build'', ''path:'' @ path_str vendor @ ''/nixos-flake#git'', ''--out-link'',
       path_str (sys @ [''gitbin''])]))))"

end
