(* ===== verification/Labels.thy ===== *)
theory Labels
  imports PyRegex
begin

text \<open>
  The readable part of a build identity: the slugs of \<open>f/common/worktree.py\<close> (\<open>_slug\<close>, \<open>_b4_slug\<close>,
  \<open>_split_trailing_version\<close>, \<open>_subject_label\<close>, \<open>_compute_label\<close>), and how
  \<open>f/kernel/identity.py\<close> and \<open>f/qemu/identity.py\<close> fit a label into their budgets.
\<close>

section \<open>Slugs\<close>

definition slug_char :: "char \<Rightarrow> bool" where
  "slug_char c = (is_alnum_ascii c \<or> c \<in> set ''._-'')"

definition slug_edge :: "char \<Rightarrow> bool" where
  "slug_edge c = (c \<in> set ''-._'')"

text \<open>
  \<open>re.sub(r"[^A-Za-z0-9._-]+", "-", s)\<close>: each maximal run of other characters becomes one dash.
\<close>

fun collapse :: "bool \<Rightarrow> string \<Rightarrow> string" where
  "collapse in_run [] = []"
| "collapse in_run (c # cs) =
     (if slug_char c then c # collapse False cs
      else if in_run then collapse True cs
      else CHR ''-'' # collapse True cs)"

definition slug :: "string \<Rightarrow> string" where
  "slug s = lower (strip_by slug_edge (collapse False (strip s)))"

definition b4_slug :: "string \<Rightarrow> string" where
  "b4_slug b4_series =
     (let value = strip_by (\<lambda>c. c = CHR ''/'') (strip b4_series);
          leaf = after_last_chr (CHR ''/'') value;
          s = take 48 (slug (before_chr (CHR ''@'') leaf)) in
      if s = [] then ''series'' else s)"

text \<open>\<open>_split_trailing_version\<close>: \<open>re.search(r"-v\d+$", slug)\<close>.\<close>

definition VSUFFIX_RE :: re where
  "VSUFFIX_RE = RSeq (RLit ''-v'') (RSeq (RPlus RDigit) REol)"

definition split_trailing_version :: "string \<Rightarrow> string \<times> string" where
  "split_trailing_version s =
     (case re_search VSUFFIX_RE s of Some (head, m) \<Rightarrow> (head, m_text m) | None \<Rightarrow> (s, []))"

section \<open>The label of a subject line\<close>

definition BRACKET_RE :: re where
  "BRACKET_RE = RSeqs [RStar RSpace, RLit ''['', RGrp ''1'' (RLazy RDot), RLit '']'']"

definition VTOKEN_RE :: re where
  "VTOKEN_RE = RSeqs [RWordB, RLit ''v'', RGrp ''1'' (RPlus RDigit), RWordB]"

definition TRAILING_RE :: re where
  "TRAILING_RE = RSeqs [RAlt RBol RSpace, RLit ''v'', RGrp ''1'' (RPlus RDigit), RStar RSpace, REol]"

definition bracket_version :: "string \<Rightarrow> nat option" where
  "bracket_version subject =
     (case re_match BRACKET_RE subject of
        None \<Rightarrow> None
      | Some b \<Rightarrow>
          (case re_search VTOKEN_RE (grp0 b ''1'') of
             None \<Rightarrow> None
           | Some (_, m) \<Rightarrow> Some (read_nat (grp0 m ''1''))))"

text \<open>The summary and the version: from the bracket, else a trailing \<open>vN\<close> taken off the summary.\<close>

definition subject_parts :: "string \<Rightarrow> string \<times> nat option" where
  "subject_parts subject =
     (let summary = after_last_chr (CHR '']'') subject in
      case bracket_version subject of
        Some v \<Rightarrow> (summary, Some v)
      | None \<Rightarrow>
          (case re_search TRAILING_RE summary of
             None \<Rightarrow> (summary, None)
           | Some (before, m) \<Rightarrow> (before, Some (read_nat (grp0 m ''1'')))))"

definition subject_label :: "string \<Rightarrow> string" where
  "subject_label subject =
     (let (summary, version) = subject_parts subject;
          s = slug summary in
      case version of
        None \<Rightarrow> s
      | Some v \<Rightarrow>
          (if v \<ge> 2
           then (if s \<noteq> [] then s @ ''-v'' @ show_nat v else ''v'' @ show_nat v)
           else s))"

definition compute_label :: "string \<Rightarrow> string \<Rightarrow> string \<Rightarrow> bool \<Rightarrow> string \<Rightarrow> string" where
  "compute_label user_label b4_series b4_label is_tag ref =
     (if user_label \<noteq> [] then slug user_label
      else if b4_series \<noteq> [] then b4_label
      else if is_tag then ''vanilla''
      else slug ref)"

section \<open>Fitting a label\<close>

text \<open>\<open>cut[: cut.rindex("-")]\<close>: what is before the last dash.\<close>

definition before_last_dash :: "string \<Rightarrow> string" where
  "before_last_dash s = rev (tl (dropWhile (\<lambda>c. c \<noteq> CHR ''-'') (rev s)))"

definition fit_head :: "string \<Rightarrow> int \<Rightarrow> string" where
  "fit_head text budget =
     (if budget \<le> 0 then []
      else if int (length text) \<le> budget then text
      else (let c = take (nat budget) text;
                d = (if CHR ''-'' \<in> set c then before_last_dash c else c) in
            rstrip_by slug_edge d))"

definition fit_label :: "string \<Rightarrow> int \<Rightarrow> string" where
  "fit_label label budget =
     (if budget \<le> 0 then []
      else (let (head, suffix) = split_trailing_version label in
            if suffix = [] then fit_head label budget
            else (let fitted = fit_head head (budget - int (length suffix)) in
                  if fitted \<noteq> [] then fitted @ suffix
                  else lstrip_by (\<lambda>c. c = CHR ''-'') suffix)))"

text \<open>\<open>_prefix_basename\<close> of \<open>f/qemu/identity.py\<close>; \<open>head[: 64 - len(suffix)]\<close> counts a negative
  bound from the end, as Python does.\<close>

definition py_take :: "int \<Rightarrow> 'a list \<Rightarrow> 'a list" where
  "py_take n xs = (if n \<ge> 0 then take (nat n) xs else take (length xs - nat (- n)) xs)"

definition prefix_basename :: "string \<Rightarrow> string \<Rightarrow> string \<Rightarrow> string \<Rightarrow> string" where
  "prefix_basename version label identity sanitizer =
     (let (head, suffix) = split_trailing_version (slug label);
          s = rstrip_by slug_edge (py_take (64 - int (length suffix)) head) @ suffix in
      join ''-'' (filter (\<lambda>p. p \<noteq> []) [version, s, sanitizer] @ [identity]))"

section \<open>Slugs are label-safe\<close>

definition label_char :: "char \<Rightarrow> bool" where
  "label_char c = (is_digit c \<or> is_lower_ascii c \<or> c \<in> set ''._-'')"

definition label_ok :: "string \<Rightarrow> bool" where
  "label_ok s =
     ((\<forall>c \<in> set s. label_char c) \<and> (s \<noteq> [] \<longrightarrow> \<not> slug_edge (hd s) \<and> \<not> slug_edge (last s)))"

lemma slug_edge_ord: "slug_edge c \<Longrightarrow> ord_of c = 45 \<or> ord_of c = 46 \<or> ord_of c = 95"
  by (auto simp: slug_edge_def)

lemma slug_char_lower:
  assumes "slug_char c"
  shows "label_char (lower_char c) \<and> slug_edge (lower_char c) = slug_edge c"
proof (cases "is_upper_ascii c")
  case True
  then have n: "65 \<le> ord_of c" "ord_of c \<le> 90" by (simp_all add: is_upper_ascii_def Let_def)
  have "ord_of (lower_char c) = ord_of c + 32" using n by (simp add: lower_char_def)
  with n have "label_char (lower_char c)" "\<not> slug_edge (lower_char c)" "\<not> slug_edge c"
    using slug_edge_ord [of c] slug_edge_ord [of "lower_char c"]
    by (auto simp: label_char_def is_lower_ascii_def)
  then show ?thesis by simp
next
  case False
  then have id: "lower_char c = c"
    using assms
    by (auto simp: lower_char_def slug_char_def is_upper_ascii_def is_alnum_ascii_def is_digit_def
        is_lower_ascii_def Let_def)
  then show ?thesis
    using assms False by (auto simp: label_char_def slug_char_def is_alnum_ascii_def)
qed

lemma label_char_slug: "label_char c \<Longrightarrow> slug_char c \<and> lower_char c = c \<and> \<not> is_space c \<and> \<not> is_newline c"
proof -
  assume c: "label_char c"
  have "slug_char c"
    using c by (auto simp: label_char_def slug_char_def is_alnum_ascii_def)
  moreover have "lower_char c = c"
    using c by (auto simp: label_char_def lower_char_def is_digit_def is_lower_ascii_def Let_def)
  moreover have "\<not> is_space c"
    using c by (auto simp: label_char_def is_space_def is_digit_def is_lower_ascii_def Let_def)
  ultimately show ?thesis using newline_space by blast
qed

lemma collapse_chars: "c \<in> set (collapse r s) \<Longrightarrow> slug_char c"
  by (induction r s rule: collapse.induct) (auto simp: slug_char_def split: if_splits)

lemma collapse_id: "\<forall>c \<in> set s. slug_char c \<Longrightarrow> collapse r s = s"
  by (induction r s rule: collapse.induct) auto

lemma slug_label_ok: "label_ok (slug s)"
proof -
  let ?t = "strip_by slug_edge (collapse False (strip s))"
  have chars: "\<forall>c \<in> set ?t. slug_char c"
    using set_strip_by [of slug_edge] collapse_chars by blast
  have ends: "?t \<noteq> [] \<Longrightarrow> \<not> slug_edge (hd ?t) \<and> \<not> slug_edge (last ?t)"
    by (rule strip_by_ends)
  show ?thesis
  proof (cases "?t = []")
    case True
    then show ?thesis by (simp add: slug_def lower_def label_ok_def)
  next
    case False
    then have "hd ?t \<in> set ?t" "last ?t \<in> set ?t" by simp_all
    with False chars ends slug_char_lower show ?thesis
      by (simp add: slug_def lower_def label_ok_def hd_map last_map)
  qed
qed

lemma slug_id: "label_ok s \<Longrightarrow> slug s = s"
proof -
  assume ok: "label_ok s"
  then have chars: "\<forall>c \<in> set s. slug_char c \<and> lower_char c = c \<and> \<not> is_space c"
    using label_char_slug by (auto simp: label_ok_def)
  then have "strip s = s"
    by (cases "s = []") (auto intro!: strip_by_id)
  moreover have "strip_by slug_edge s = s"
    using ok by (intro strip_by_id) (auto simp: label_ok_def)
  moreover have "lower s = s" using chars by (simp add: lower_def map_idI)
  ultimately show ?thesis using chars by (simp add: slug_def collapse_id)
qed

lemma slug_fixed_iff: "slug s = s \<longleftrightarrow> label_ok s"
  using slug_id slug_label_ok [of s] by metis

section \<open>Splitting off the revision\<close>

lemma vsuffix_only:
  assumes "first_match VSUFFIX_RE pre s = Some m"
  shows "\<exists>ds t. s = ''-v'' @ ds @ t \<and> (\<forall>c \<in> set ds. is_digit c) \<and> ds \<noteq> [] \<and> (t = [] \<or> t = nl)
    \<and> m_text m = ''-v'' @ ds"
proof -
  have "prefix ''-v'' s"
    using assms by (auto simp: first_match_def VSUFFIX_RE_def split: if_splits)
  then obtain u where s: "s = ''-v'' @ u" by (auto simp: prefix_def)
  let ?pre = "rev ''-v'' @ pre"
  have run: "run VSUFFIX_RE (pre, s, []) = run (RSeq (RPlus RDigit) REol) (?pre, u, [])"
    by (simp add: VSUFFIX_RE_def s)
  with assms have "u \<noteq> []" "is_digit (hd u)"
    by (cases u; auto simp: first_match_def split: if_splits)+
  then obtain d v where u: "u = d # v" "is_digit d" by (cases u) auto
  let ?n = "length (takeWhile is_digit v)"
  have results: "run VSUFFIX_RE (pre, s, []) =
      concat (map (\<lambda>n. run REol (rev (take n v) @ d # ?pre, drop n v, [])) (rev [0..<Suc ?n]))"
    unfolding run u run.simps(3) using u(2)
    by (simp only: run.simps(2) list.case if_True list.map concat.simps append_Nil2 star_cls_results
        map_map comp_def)
  have digits: "\<forall>c \<in> set (take n v). is_digit c" if "n \<le> ?n" for n
    using that by (metis order_trans set_take_subset_set_take set_takeWhileD subsetD takeWhile_eq_take)
  from assms obtain st where st: "st \<in> set (run VSUFFIX_RE (pre, s, []))"
    and m: "m_text m = take (length s - length (togo st)) s"
    by (cases "run VSUFFIX_RE (pre, s, [])") (fastforce simp: first_match_def)+
  then obtain n where n: "n \<le> ?n" and "st \<in> set (run REol (rev (take n v) @ d # ?pre, drop n v, []))"
    unfolding results set_concat set_map set_rev set_upt by (auto simp only: less_Suc_eq_le atLeastLessThan_iff)
  then have t: "togo st = drop n v" "drop n v = [] \<or> drop n v = nl"
    by (auto split: if_splits)
  have "s = ''-v'' @ (d # take n v) @ drop n v" by (simp add: s u)
  moreover have "m_text m = ''-v'' @ (d # take n v)"
  proof -
    have "n \<le> length v" using n length_takeWhile_le [of is_digit v] by linarith
    then have "Suc (Suc (Suc (length v))) - (length v - n) = Suc (Suc (Suc n))" by linarith
    then show ?thesis by (simp only: m t s u) simp
  qed
  ultimately show ?thesis using digits [OF n] u(2) t(2)
    by (intro exI [of _ "d # take n v"] exI [of _ "drop n v"]) simp
qed

lemma vsuffix_match:
  assumes "ds \<noteq> []" and "\<forall>c \<in> set ds. is_digit c"
  shows "\<exists>m. first_match VSUFFIX_RE pre (''-v'' @ ds) = Some m \<and> m_text m = ''-v'' @ ds"
proof -
  obtain d v where ds: "ds = d # v" "is_digit d" "\<forall>c \<in> set v. is_digit c"
    using assms by (cases ds) auto
  obtain ys where "run (RSeq (RStar RDigit) REol) (d # rev ''-v'' @ pre, v @ [], []) =
      (rev v @ d # rev ''-v'' @ pre, [], []) # ys"
    using seq_star_cls [of v is_digit "[]" REol "d # rev ''-v'' @ pre" "[]"] ds(3) by auto
  moreover have "run VSUFFIX_RE (pre, ''-v'' @ ds, []) =
      run (RSeq (RStar RDigit) REol) (d # rev ''-v'' @ pre, v @ [], [])"
    using ds by (simp add: VSUFFIX_RE_def)
  ultimately show ?thesis by (simp add: first_match_def)
qed

lemma search_vsuffix:
  assumes "ds \<noteq> []" and "\<forall>c \<in> set ds. is_digit c"
  shows "\<exists>m. search_from VSUFFIX_RE pre (h @ ''-v'' @ ds) = Some (rev pre @ h, m) \<and> m_text m = ''-v'' @ ds"
proof (induction h arbitrary: pre)
  case Nil
  then show ?case using vsuffix_match [OF assms, of pre] by auto
next
  case (Cons c h)
  have "first_match VSUFFIX_RE pre ((c # h) @ ''-v'' @ ds) = None"
  proof (rule ccontr)
    assume "first_match VSUFFIX_RE pre ((c # h) @ ''-v'' @ ds) \<noteq> None"
    then obtain ds' t where eq: "(c # h) @ ''-v'' @ ds = ''-v'' @ ds' @ t"
      and ds': "\<forall>c \<in> set ds'. is_digit c" "t = [] \<or> t = nl"
      using vsuffix_only by blast
    from eq have "drop 2 ((c # h) @ ''-v'' @ ds) = ds' @ t" by simp
    moreover have "CHR ''v'' \<in> set (drop 2 ((c # h) @ ''-v'' @ ds))" by (cases h) auto
    ultimately have "CHR ''v'' \<in> set ds' \<union> set t" by (metis set_append)
    moreover have "\<not> is_digit (CHR ''v'')" by (simp add: is_digit_def)
    ultimately show False using ds' by auto
  qed
  then show ?case using Cons.IH [of "c # pre"] by simp
qed

lemma split_version_suffix:
  assumes "ds \<noteq> []" and "\<forall>c \<in> set ds. is_digit c"
  shows "split_trailing_version (h @ ''-v'' @ ds) = (h, ''-v'' @ ds)"
  using search_vsuffix [OF assms, of "[]" h]
  by (auto simp: split_trailing_version_def re_search_def)

lemma search_from_first_match:
  "search_from r pre s = Some (a, m) \<Longrightarrow> \<exists>pre' s'. first_match r pre' s' = Some m"
  by (induction r pre s rule: search_from.induct) (auto split: option.splits)

lemma split_version_cases:
  obtains "split_trailing_version s = (s, [])"
  | h ds t where "s = h @ ''-v'' @ ds @ t" "t = [] \<or> t = nl" "ds \<noteq> []" "\<forall>c \<in> set ds. is_digit c"
      "split_trailing_version s = (h, ''-v'' @ ds)"
proof (cases "re_search VSUFFIX_RE s")
  case None
  then show ?thesis using that(1) by (simp add: split_trailing_version_def)
next
  case (Some hm)
  obtain h m where hm: "hm = (h, m)" by (cases hm)
  with Some have s: "s = h @ m_text m @ m_rest m" by (simp add: re_search_parts)
  from Some hm obtain pre' s' where m': "first_match VSUFFIX_RE pre' s' = Some m"
    unfolding re_search_def using search_from_first_match by blast
  then have fm: "first_match VSUFFIX_RE pre' (m_text m @ m_rest m) = Some m"
    using first_match_parts by metis
  from vsuffix_only [OF fm] obtain ds t where dt: "m_text m @ m_rest m = ''-v'' @ ds @ t"
    "\<forall>c \<in> set ds. is_digit c" "ds \<noteq> []" "t = [] \<or> t = nl" "m_text m = ''-v'' @ ds"
    by blast
  show ?thesis
    using that(2) [of h ds t] s dt Some hm by (simp add: split_trailing_version_def)
qed

lemma split_version_append:
  "label_ok s \<Longrightarrow> split_trailing_version s = (h, sfx) \<Longrightarrow> s = h @ sfx"
proof (cases rule: split_version_cases [of s])
  case (2 h' ds t)
  assume s: "label_ok s" "split_trailing_version s = (h, sfx)"
  have "\<not> label_char (CHR 0x0A)" by (simp add: label_char_def is_digit_def is_lower_ascii_def)
  then have "t = []" using 2(1,2) s(1) by (auto simp: label_ok_def)
  then show ?thesis using 2 s by simp
qed simp

section \<open>Budgets\<close>

lemma before_last_dash_prefix: "CHR ''-'' \<in> set s \<Longrightarrow> strict_prefix (before_last_dash s) s"
proof -
  assume "CHR ''-'' \<in> set s"
  then obtain a b where s: "s = a @ CHR ''-'' # b" "CHR ''-'' \<notin> set b"
    by (metis split_list_last)
  then have "\<forall>c \<in> set (rev b). c \<noteq> CHR ''-''" by auto
  then have "dropWhile (\<lambda>c. c \<noteq> CHR ''-'') (rev b @ CHR ''-'' # rev a) = CHR ''-'' # rev a"
    by (subst dropWhile_append2) auto
  then have "before_last_dash s = a" by (simp add: before_last_dash_def s)
  with s show ?thesis by (simp add: strict_prefix_def)
qed

lemma rstrip_by_is_prefix: "prefix (rstrip_by p s) s"
  using rstrip_by_prefix [of s p] by (auto simp: prefix_def)

lemma fit_head_cases:
  obtains "budget \<le> 0" "fit_head text budget = []"
  | "budget > 0" "int (length text) \<le> budget" "fit_head text budget = text"
  | d where "budget > 0" "prefix d (take (nat budget) text)" "fit_head text budget = rstrip_by slug_edge d"
proof (cases "budget \<le> 0 \<or> int (length text) \<le> budget")
  case True
  then show ?thesis using that(1,2) by (cases "budget \<le> 0") (simp_all add: fit_head_def)
next
  case False
  define c where "c = take (nat budget) text"
  define d where "d = (if CHR ''-'' \<in> set c then before_last_dash c else c)"
  have "prefix d c" using before_last_dash_prefix [of c] by (auto simp: d_def)
  moreover have "fit_head text budget = rstrip_by slug_edge d"
    using False by (simp only: fit_head_def Let_def d_def c_def if_False de_Morgan_disj)
  ultimately show ?thesis using that(3) False by (simp add: c_def)
qed

lemma fit_head_prefix: "prefix (fit_head text budget) text"
proof (cases rule: fit_head_cases [of budget "text"])
  case (3 d)
  then show ?thesis
    using rstrip_by_is_prefix [of slug_edge d] take_is_prefix prefix_order.trans by metis
qed simp_all

lemma fit_head_length: "int (length (fit_head text budget)) \<le> max 0 budget"
proof (cases rule: fit_head_cases [of budget "text"])
  case (3 d)
  then show ?thesis
    using length_rstrip_by [of slug_edge d] prefix_length_le [of d "take (nat budget) text"]
    by simp linarith
qed simp_all

lemma fit_head_ends:
  assumes ok: "label_ok text"
  shows "label_ok (fit_head text budget)"
proof (cases rule: fit_head_cases [of budget "text"])
  case (3 d)
  show ?thesis
  proof (cases "rstrip_by slug_edge d = []")
    case True
    then show ?thesis using 3 by (simp add: label_ok_def)
  next
    case False
    then have "\<not> slug_edge (last (rstrip_by slug_edge d))" by (rule rstrip_by_last)
    moreover have front: "prefix (rstrip_by slug_edge d) text"
      using fit_head_prefix [of "text" budget] 3 by simp
    then have "hd (rstrip_by slug_edge d) = hd text" "text \<noteq> []"
      using False by (auto simp: prefix_def)
    moreover have "set (rstrip_by slug_edge d) \<subseteq> set text" using front set_mono_prefix by blast
    ultimately show ?thesis using ok 3 unfolding label_ok_def by auto
  qed
qed (use ok in \<open>simp_all add: label_ok_def\<close>)


text \<open>A digit string \<open>ds\<close> after \<open>-v\<close> is what a matched suffix is.\<close>

lemma suffix_stripped:
  "\<forall>c \<in> set ds. is_digit c \<Longrightarrow> lstrip_by (\<lambda>c. c = CHR ''-'') (''-v'' @ ds) = CHR ''v'' # ds"
  by (simp add: lstrip_by_def)

lemma fit_label_suffix:
  assumes "0 < budget" and split: "split_trailing_version label = (h, ''-v'' @ ds)"
    and "\<forall>c \<in> set ds. is_digit c"
  shows "fit_label label budget =
    (if fit_head h (budget - int (length ds) - 2) = [] then ''v'' @ ds
     else fit_head h (budget - int (length ds) - 2) @ ''-v'' @ ds)"
proof -
  have len: "budget - int (length (''-v'' @ ds)) = budget - int (length ds) - 2" by simp
  have ne: "''-v'' @ ds \<noteq> []" "\<not> budget \<le> 0" using assms(1) by simp_all
  show ?thesis
    unfolding fit_label_def split Let_def prod.case len suffix_stripped [OF assms(3)]
    using ne by (simp only: if_False if_not_P) simp
qed

lemma fit_label_cases:
  assumes "0 < budget"
  obtains "snd (split_trailing_version label) = []" "fit_label label budget = fit_head label budget"
  | h ds where "split_trailing_version label = (h, ''-v'' @ ds)" "ds \<noteq> []" "\<forall>c \<in> set ds. is_digit c"
      "fit_head h (budget - int (length ds) - 2) \<noteq> []"
      "fit_label label budget = fit_head h (budget - int (length ds) - 2) @ ''-v'' @ ds"
  | h ds where "split_trailing_version label = (h, ''-v'' @ ds)" "ds \<noteq> []" "\<forall>c \<in> set ds. is_digit c"
      "fit_label label budget = ''v'' @ ds"
proof (cases rule: split_version_cases [of label])
  case 1
  then show ?thesis using that(1) assms by (simp add: fit_label_def)
next
  case (2 h ds t)
  then show ?thesis
    using that(2,3) [of h ds] fit_label_suffix [OF assms 2(5,4)] by metis
qed

lemma label_ok_append_suffix:
  assumes "label_ok h" and "h \<noteq> []" and "ds \<noteq> []" and "\<forall>c \<in> set ds. is_digit c"
  shows "label_ok (h @ ''-v'' @ ds)"
proof -
  have digit: "label_char c \<and> \<not> slug_edge c" if "is_digit c" for c
    using that slug_edge_ord [of c] by (auto simp: label_char_def is_digit_def Let_def)
  have "label_char (CHR ''-'')" "label_char (CHR ''v'')"
    by (simp_all add: label_char_def is_lower_ascii_def)
  with assms digit show ?thesis by (auto simp: label_ok_def)
qed

lemma label_ok_version: "\<forall>c \<in> set ds. is_digit c \<Longrightarrow> label_ok (''v'' @ ds)"
proof -
  have digit: "label_char c \<and> \<not> slug_edge c" if "is_digit c" for c
    using that slug_edge_ord [of c] by (auto simp: label_char_def is_digit_def Let_def)
  have "label_char (CHR ''v'')" "\<not> slug_edge (CHR ''v'')"
    by (simp_all add: label_char_def is_lower_ascii_def slug_edge_def)
  with digit show "\<forall>c \<in> set ds. is_digit c \<Longrightarrow> ?thesis" by (auto simp: label_ok_def)
qed

lemma label_ok_head: "label_ok (h @ t) \<Longrightarrow> label_ok (rstrip_by slug_edge h)"
proof -
  assume ok: "label_ok (h @ t)"
  show ?thesis
  proof (cases "rstrip_by slug_edge h = []")
    case False
    moreover have "prefix (rstrip_by slug_edge h) h" by (rule rstrip_by_is_prefix)
    moreover have "\<not> slug_edge (last (rstrip_by slug_edge h))" using False by (rule rstrip_by_last)
    moreover have "hd (rstrip_by slug_edge h) = hd h" using False by (rule rstrip_by_hd)
    moreover have "h \<noteq> []" using False by (auto simp: rstrip_by_def)
    then have "hd h = hd (h @ t)" "h @ t \<noteq> []" by simp_all
    ultimately show ?thesis using ok set_mono_prefix [of "rstrip_by slug_edge h" h]
      unfolding label_ok_def by auto
  qed (simp add: label_ok_def)
qed

lemma subject_label_cases:
  "subject_label subject = slug (fst (subject_parts subject))
   \<or> (\<exists>v. v \<ge> 2 \<and> snd (subject_parts subject) = Some v \<and> subject_label subject =
        (if slug (fst (subject_parts subject)) = [] then ''v'' @ show_nat v
         else slug (fst (subject_parts subject)) @ ''-v'' @ show_nat v))"
  by (auto simp: subject_label_def Let_def split: prod.splits option.splits)

lemma subject_label_ok: "label_ok (subject_label subject)"
  using subject_label_cases [of subject] slug_label_ok show_nat_digits
    label_ok_append_suffix label_ok_version by (metis show_nat_nonempty)

lemma compute_label_ok: "label_ok b4_label \<Longrightarrow> label_ok (compute_label u b4 b4_label tag ref)"
proof -
  have "label_ok ''vanilla''"
    by (simp add: label_ok_def label_char_def is_lower_ascii_def slug_edge_def)
  then show "label_ok b4_label \<Longrightarrow> ?thesis" by (simp add: compute_label_def slug_label_ok)
qed

section \<open>Properties\<close>

text \<open>
  The build label of any run is safe to use in a release and a file name: only lower-case
  letters, digits, dots, underscores and dashes, with none of the last three at either end; and
  labels are exactly the fixed points of the slug, so slugging twice changes nothing.
\<close>

theorem labels_safe:
  "label_ok (compute_label user_label series (subject_label subject) is_tag ref)
   \<and> (slug s = s \<longleftrightarrow> label_ok s) \<and> slug (slug s) = slug s"
  using compute_label_ok [OF subject_label_ok] slug_fixed_iff [of s] slug_id [OF slug_label_ok [of s]]
  by simp



text \<open>
  The branch a series is published under is named from the series alone, is never empty, at
  most 48 characters, starts with neither a dash nor a dot, and holds no separator.
\<close>

theorem b4_slug_safe:
  "b4_slug series \<noteq> [] \<and> length (b4_slug series) \<le> 48 \<and> list_all label_char (b4_slug series)
   \<and> \<not> slug_edge (hd (b4_slug series))"
proof -
  have series: "label_ok ''series''" by (simp add: label_ok_def label_char_def is_lower_ascii_def slug_edge_def)
  define v where "v = slug (before_chr (CHR ''@'')
      (after_last_chr (CHR ''/'') (strip_by (\<lambda>c. c = CHR ''/'') (strip series))))"
  have eq: "b4_slug series = (if take 48 v = [] then ''series'' else take 48 v)"
    by (simp add: b4_slug_def v_def Let_def)
  have v: "label_ok v" by (simp add: v_def slug_label_ok)
  then have "\<forall>c \<in> set (take 48 v). label_char c" by (auto simp: label_ok_def dest: in_set_takeD)
  moreover have "take 48 v \<noteq> [] \<Longrightarrow> \<not> slug_edge (hd (take 48 v))"
    using v by (cases v) (auto simp: label_ok_def)
  ultimately show ?thesis using series by (auto simp: eq label_ok_def list_all_iff)
qed

end
