(* ===== verification/Worktree.thy ===== *)
theory Worktree
  imports Effects Labels
begin

text \<open>
  Worktrees cut from the Bare (\<open>f/common/worktree.py\<close>): \<open>prepare\<close>, which forces the worker's build
  worktree onto a ref, and \<open>prepare_developer\<close>, which syncs the tree a developer edits in and may
  discard nothing. Every \<open>git\<close> command is one command of the program tree, with its argv; what
  git answers is free, so the theorems hold for every behaviour of git and of the file system.
  What the steps print is left out, and the reason a developer tree was left alone is a
  constructor that carries what its message names.
\<close>

section \<open>The worktree group\<close>

definition RESERVED_GROUPS :: "string list" where
  "RESERVED_GROUPS = [''system'', ''workers'']"

definition validate_group :: "string \<Rightarrow> unit result" where
  "validate_group g =
     (if g = [] \<or> g \<in> {''.'', ''..''} \<or> prefix ''-'' g \<or> (\<exists>c \<in> set g. is_space c)
         \<or> path_parts g \<noteq> [g]
      then Inl ValueError
      else if g \<in> set RESERVED_GROUPS then Inl ValueError
      else Inr ())"

section \<open>Reading a worktree\<close>

definition none_if_empty :: "string \<Rightarrow> string option" where
  "none_if_empty s = (if s = [] then None else Some s)"

definition in_tree :: "path \<Rightarrow> string list \<Rightarrow> string list" where
  "in_tree p args = ''-C'' # path_str p # args"

definition read_head :: "path \<Rightarrow> string option prog" where
  "read_head wt =
     bind (git_capture (in_tree wt [''rev-parse'', ''--verify'', ''--quiet'', ''HEAD'']))
       (\<lambda>txt. Ret (none_if_empty (strip txt)))"

definition HEADS :: string where
  "HEADS = ''refs/heads/''"

definition attached_branch :: "path \<Rightarrow> string prog" where
  "attached_branch wt =
     bind (git_capture (in_tree wt [''rev-parse'', ''--symbolic-full-name'', ''HEAD'']))
       (\<lambda>txt. Ret (if prefix HEADS (strip txt) then drop (length HEADS) (strip txt) else []))"

definition read_gitdir :: "path \<Rightarrow> path option prog" where
  "read_gitdir wt =
     bind (git_capture (in_tree wt [''rev-parse'', ''--git-dir'']))
       (\<lambda>txt. Ret (if strip txt = [] then None else Some (path_join wt (strip txt))))"

definition occupied :: "path \<Rightarrow> bool prog" where
  "occupied wt =
     bind (probe (Exists wt)) (\<lambda>there. if \<not> there then Ret False else
     bind (probe (IsDir wt)) (\<lambda>dir. if \<not> dir then Ret True else
     bind (perform (ListDir wt)) (\<lambda>r. Ret (entries r \<noteq> []))))"

text \<open>\<open>path.resolve()\<close>; None when it raises \<open>OSError\<close>.\<close>

definition resolved :: "path \<Rightarrow> path option prog" where
  "resolved p = bind (perform (RealPath p)) (\<lambda>r. Ret (if holds r then Some (parts (out r)) else None))"

definition is_worktree_of :: "path \<Rightarrow> path \<Rightarrow> bool prog" where
  "is_worktree_of wt bare =
     bind (git_capture (in_tree wt [''rev-parse'', ''--git-common-dir''])) (\<lambda>txt.
     if strip txt = [] then Ret False else
     bind (resolved (path_join wt (strip txt))) (\<lambda>a.
     bind (resolved bare) (\<lambda>b. Ret (a \<noteq> None \<and> b \<noteq> None \<and> a = b))))"

definition MARKERS :: "(string \<times> string) list" where
  "MARKERS = [(''CHERRY_PICK_HEAD'', ''cherry-pick''), (''REVERT_HEAD'', ''revert''),
     (''MERGE_HEAD'', ''merge''), (''BISECT_LOG'', ''bisect'')]"

fun first_marker :: "path \<Rightarrow> (string \<times> string) list \<Rightarrow> string option prog" where
  "first_marker gitdir [] = Ret None"
| "first_marker gitdir ((marker, name) # ms) =
     bind (probe (Exists (gitdir @ [marker]))) (\<lambda>there.
     if there then Ret (Some name) else first_marker gitdir ms)"

definition in_progress :: "path option \<Rightarrow> string option prog" where
  "in_progress gitdir = (case gitdir of
     None \<Rightarrow> Ret None
   | Some d \<Rightarrow>
       bind (probe (IsDir (d @ [''rebase-apply'']))) (\<lambda>apply.
       if apply
       then bind (probe (Exists (d @ [''rebase-apply'', ''applying'']))) (\<lambda>am.
         Ret (Some (if am then ''git am'' else ''rebase'')))
       else bind (probe (IsDir (d @ [''rebase-merge'']))) (\<lambda>mrg.
         if mrg then Ret (Some ''rebase'') else first_marker d MARKERS)))"

section \<open>Refs\<close>

definition verify_commit :: "path \<Rightarrow> string \<Rightarrow> string prog" where
  "verify_commit repo candidate =
     bind (git_capture (in_tree repo
       [''rev-parse'', ''--verify'', ''--quiet'', candidate @ ''^{commit}'']))
       (\<lambda>txt. Ret (strip txt))"

text \<open>\<open>_resolve_ref\<close>: a tag, else the mirror's branch, else the literal ref.\<close>

definition resolve_ref :: "path \<Rightarrow> string \<Rightarrow> (string \<times> bool) prog" where
  "resolve_ref bare ref =
     bind (verify_commit bare (''refs/tags/'' @ ref)) (\<lambda>tag. if tag \<noteq> [] then Ret (tag, True) else
     bind (verify_commit bare (''mirror/'' @ ref)) (\<lambda>up. if up \<noteq> [] then Ret (up, False) else
     bind (verify_commit bare ref) (\<lambda>lit. if lit \<noteq> [] then Ret (lit, False) else
     Raise ValueError)))"

text \<open>
  \<open>_attachable_branch\<close>: the lines are \<open>refname|tip|holder\<close>. The first line of the branch itself
  whose tip is the target decides.
\<close>

fun attachable_line :: "path \<Rightarrow> string \<Rightarrow> string \<Rightarrow> string list \<Rightarrow> string prog" where
  "attachable_line bare ref target [] = Ret []"
| "attachable_line bare ref target (candidate # lines) =
     (let refname = before_chr (CHR ''|'') candidate;
          rest = after_chr (CHR ''|'') candidate;
          tip = before_chr (CHR ''|'') rest;
          holder = after_chr (CHR ''|'') rest in
      if refname \<noteq> HEADS @ ref \<or> tip \<noteq> target then attachable_line bare ref target lines
      else if holder = [] then Ret ref
      else bind (resolved (parts holder)) (\<lambda>h.
           bind (resolved bare) (\<lambda>b. Ret (if h \<noteq> b then [] else ref))))"

definition attachable_branch :: "path \<Rightarrow> string \<Rightarrow> string \<Rightarrow> string prog" where
  "attachable_branch bare ref target =
     bind (git_capture (in_tree bare [''for-each-ref'',
       ''--format=%(refname)|%(objectname)|%(worktreepath)'', HEADS @ ref])) (\<lambda>txt.
     attachable_line bare ref target (splitlines (strip txt)))"

section \<open>Syncing a developer worktree\<close>

datatype reason =
    NotAWorktreeOf path
  | OperationHolds string
  | CannotTellOrphans
  | WouldOrphan
  | RemoveRefused
  | CannotAdd string
  | OnBranch string "string option" string
  | CannotFastForward "string option" string

definition remove_worktree :: "path \<Rightarrow> path \<Rightarrow> reason option prog" where
  "remove_worktree bare wt =
     bind (read_head wt) (\<lambda>h.
     bind (case h of
             None \<Rightarrow> Ret None
           | Some sha \<Rightarrow>
               bind (attempt (git_capture_checked (in_tree bare [''rev-list'', ''--max-count=1'', sha,
                 ''--not'', ''--branches'', ''--tags'', ''--remotes'', ''--glob=refs/kdevops/*''])))
                 (\<lambda>txt. Ret (case txt of
                    Inl e \<Rightarrow> Some CannotTellOrphans
                  | Inr text \<Rightarrow> (if strip text \<noteq> [] then Some WouldOrphan else None)))) (\<lambda>refused.
     case refused of
       Some r \<Rightarrow> Ret (Some r)
     | None \<Rightarrow>
         bind (git_status (in_tree bare [''worktree'', ''remove'', path_str wt])) (\<lambda>code.
         Ret (if code \<noteq> 0 then Some RemoveRefused else None))))"

definition sync_occupied :: "path \<Rightarrow> path \<Rightarrow> string \<Rightarrow> string \<Rightarrow> (reason option \<times> string option) prog" where
  "sync_occupied bare wt ref target =
     bind (read_head wt) (\<lambda>h.
     bind (attached_branch wt) (\<lambda>attached.
     if h \<noteq> Some target then
       (if attached \<noteq> [] then Ret (Some (OnBranch attached h target), h)
        else bind (git_ok (in_tree wt [''merge'', ''--ff-only'', target])) (\<lambda>_.
             bind (read_head wt) (\<lambda>moved.
             Ret (if moved \<noteq> Some target then (Some (CannotFastForward h target), moved)
                  else (None, moved)))))
     else if attached \<noteq> [] then Ret (None, h)
     else bind (attachable_branch bare ref target) (\<lambda>branch.
          if branch = [] then Ret (None, h)
          else bind (git_ok (in_tree wt [''checkout'', branch])) (\<lambda>_. Ret (None, h)))))"

definition sync_absent :: "path \<Rightarrow> path \<Rightarrow> string \<Rightarrow> string \<Rightarrow> (reason option \<times> string option) prog" where
  "sync_absent bare wt ref target =
     bind (attachable_branch bare ref target) (\<lambda>branch.
     bind (git_ok (in_tree bare ([''worktree'', ''add''] @
        (if branch \<noteq> [] then [path_str wt, branch] else [''--detach'', path_str wt, target])))) (\<lambda>ok.
     if \<not> ok then Ret (Some (CannotAdd (if branch \<noteq> [] then branch else target)), None)
     else bind (read_head wt) (\<lambda>h. Ret (None, h))))"

definition sync_guards :: "path \<Rightarrow> path \<Rightarrow> bool \<Rightarrow> reason option prog" where
  "sync_guards bare wt recreate =
     bind (occupied wt) (\<lambda>occ. if \<not> occ then Ret None else
     bind (is_worktree_of wt bare) (\<lambda>ours. if \<not> ours then Ret (Some (NotAWorktreeOf bare)) else
     bind (read_gitdir wt) (\<lambda>gitdir.
     bind (in_progress gitdir) (\<lambda>operation. case operation of
       Some name \<Rightarrow> Ret (Some (OperationHolds name))
     | None \<Rightarrow> (if recreate then remove_worktree bare wt else Ret None)))))"

definition sync :: "path \<Rightarrow> path \<Rightarrow> string \<Rightarrow> string \<Rightarrow> bool \<Rightarrow> (reason option \<times> string option) prog" where
  "sync bare wt ref target recreate =
     bind (sync_guards bare wt recreate) (\<lambda>refused. case refused of
       Some r \<Rightarrow> bind (read_head wt) (\<lambda>h. Ret (Some r, h))
     | None \<Rightarrow>
         bind (occupied wt) (\<lambda>occ.
         if \<not> occ then sync_absent bare wt ref target else sync_occupied bare wt ref target))"

section \<open>A b4 series\<close>

fun first_subject :: "string list \<Rightarrow> string" where
  "first_subject [] = []"
| "first_subject (l # ls) =
     (if prefix ''Subject:'' l then strip (drop (length ''Subject:'') l) else first_subject ls)"

definition mboxes :: "path \<Rightarrow> path list prog" where
  "mboxes d =
     bind (perform (ListDir d)) (\<lambda>r.
     Ret (map (\<lambda>n. d @ [n]) (sort (filter (suffix ''.mbx'') (entries r)))))"

definition subject_of :: "path \<Rightarrow> string prog" where
  "subject_of p = bind (perform (ReadText p)) (\<lambda>r. Ret (first_subject (splitlines (out r))))"

text \<open>\<open>with tempfile.TemporaryDirectory() as tmp\<close>: the directory goes whatever happens in it.\<close>

definition with_temp_dir :: "(path \<Rightarrow> 'a prog) \<Rightarrow> 'a prog" where
  "with_temp_dir f =
     bind (perform TempDir) (\<lambda>r. ensuring (f (parts (out r))) (act (DropTemp (parts (out r)))))"

definition MIDMASK :: string where
  "MIDMASK = ''b4.midmask=https://lore.kernel.org/all/%s''"

definition b4_argv :: "path \<Rightarrow> string list \<Rightarrow> path \<Rightarrow> string \<Rightarrow> string list" where
  "b4_argv cwd verb outdir series =
     [''cwd'', path_str cwd, ''b4'', ''--config'', MIDMASK] @ verb @ [''--outdir'', path_str outdir, series]"

definition cover_subject :: "path \<Rightarrow> string \<Rightarrow> string prog" where
  "cover_subject wt series =
     with_temp_dir (\<lambda>tmp.
       bind (attempt (dev_run ''build-kernel'' (b4_argv wt [''mbox'', ''--single-message''] tmp series)))
         (\<lambda>r. case r of
            Inl e \<Rightarrow> Ret []
          | Inr u \<Rightarrow> bind (mboxes tmp) (\<lambda>ms. case ms of [] \<Rightarrow> Ret [] | m # _ \<Rightarrow> subject_of m)))"

definition apply_b4_series :: "path \<Rightarrow> string \<Rightarrow> string prog" where
  "apply_b4_series wt series =
     with_temp_dir (\<lambda>tmp.
       bind (dev_run ''build-kernel'' (b4_argv wt [''am''] tmp series)) (\<lambda>_.
       bind (mboxes tmp) (\<lambda>ms. case ms of
         [] \<Rightarrow> Raise FileNotFoundError
       | mbox # _ \<Rightarrow>
           bind (cover_subject wt series) (\<lambda>cover.
           bind (if cover \<noteq> [] then Ret (subject_label cover)
                 else bind (subject_of mbox) (\<lambda>sub. Ret (subject_label sub))) (\<lambda>label.
           bind (git_run ([''-c'', ''user.name=kdevops'', ''-c'', ''user.email=kdevops@kdevops''] @
             in_tree wt [''am'', ''--committer-date-is-author-date'', path_str mbox])) (\<lambda>_.
           Ret label))))))"

text \<open>The branch is only ever created; one that exists is left, and this run's commit is anchored.\<close>

definition publish_b4_branch :: "path \<Rightarrow> string \<Rightarrow> string option prog" where
  "publish_b4_branch wt series =
     (let branch = ''b4/'' @ b4_slug series; ref = HEADS @ branch in
      bind (read_head wt) (\<lambda>h.
      bind (git_capture (in_tree wt [''rev-parse'', ''--verify'', ''--quiet'', ref])) (\<lambda>txt.
      let existing = strip txt in
      if h = Some existing then Ret (Some branch)
      else if existing \<noteq> [] then
        bind (git_ok (in_tree wt [''update-ref'', ''refs/kdevops/'' @ branch, ''HEAD''])) (\<lambda>_. Ret None)
      else
        bind (git_ok (in_tree wt [''update-ref'', ref, ''HEAD'', []])) (\<lambda>ok.
        Ret (if ok then Some branch else None)))))"

section \<open>The build area\<close>

record request =
  r_project :: string
  r_ref :: string
  r_group :: string
  r_series :: string
  r_label :: string
  r_recreate :: bool
  r_extra_dirs :: "string list"
  r_wipe_dirs :: "string list"
  r_version_file :: string

definition bare_of :: "environ \<Rightarrow> string \<Rightarrow> path result" where
  "bare_of env project =
     (case system_dir env of Inl e \<Rightarrow> Inl e | Inr d \<Rightarrow> Inr (path_join (d @ [''bare'']) (project @ ''.git'')))"

definition require_build_area :: "environ \<Rightarrow> path \<Rightarrow> path \<Rightarrow> unit prog" where
  "require_build_area env bare workers =
     bind (probe (IsDir (bare @ [''objects'']))) (\<lambda>objects. if \<not> objects then Raise FileNotFoundError else
     bind (of_result (vendor_dir env (Some workers))) (\<lambda>vendor.
     bind (probe (Exists (vendor @ [''nixos-flake'', ''flake.nix'']))) (\<lambda>flake.
     if \<not> flake then Raise FileNotFoundError else nop)))"

definition list_dir :: "path \<Rightarrow> unit prog" where
  "list_dir p = bind (probe (Exists p)) (\<lambda>there. if there then nop else Raise FileNotFoundError)"

definition read_version :: "path \<Rightarrow> string \<Rightarrow> string option prog" where
  "read_version wt version_file =
     bind (probe (IsFile (path_join wt version_file))) (\<lambda>there. if \<not> there then Ret None else
     bind (perform (ReadText (path_join wt version_file))) (\<lambda>r. Ret (none_if_empty (strip (out r)))))"

definition exclude_dirs :: "path \<Rightarrow> string list \<Rightarrow> unit prog" where
  "exclude_dirs bare extra =
     bind (probe (IsDir (bare @ [''.git'']))) (\<lambda>nested.
     let info = (if nested then bare @ [''.git''] else bare) @ [''info'']; exclude = info @ [''exclude''] in
     bind (probe (IsFile exclude)) (\<lambda>there.
     bind (if there then bind (perform (ReadText exclude)) (\<lambda>r. Ret (splitlines (out r))) else Ret []) (\<lambda>present.
     let missing = filter (\<lambda>l. l \<notin> set present) (map (\<lambda>d. ''/'' @ d @ ''/'') extra) in
     if missing = [] then nop
     else bind (act (Mkdir info)) (\<lambda>_. act (AppendText exclude (unlines missing))))))"

section \<open>The developer worktree\<close>

record developer_result =
  d_commit :: "string option"
  d_worktree :: path
  d_label :: string
  d_branch :: "string option"
  d_synced :: bool
  d_reason :: "reason option"

definition prepare_developer :: "environ \<Rightarrow> request \<Rightarrow> developer_result prog" where
  "prepare_developer env r =
     (if prefix ''-'' (r_ref r) then Raise ValueError else
      bind (of_result (validate_group (r_group r))) (\<lambda>_.
      bind (resolve_git env) (\<lambda>_.
      bind (of_result (workers_env env)) (\<lambda>workers.
      bind (of_result (bare_of env (r_project r))) (\<lambda>bare.
      bind (of_result (worktrees_dir env)) (\<lambda>root.
      let wt = path_join (path_join root (r_group r)) (r_project r) in
      bind (require_build_area env bare workers) (\<lambda>_.
      bind (act (Mkdir (butlast wt))) (\<lambda>_.
      bind (git_ok (in_tree bare [''fetch'', ''--tags'', ''--prune'', ''mirror''])) (\<lambda>_.
      bind (resolve_ref bare (r_ref r)) (\<lambda>(target, is_tag).
      bind (git_ok (in_tree bare [''worktree'', ''prune''])) (\<lambda>_.
      bind (sync bare wt (r_ref r) target (r_recreate r)) (\<lambda>(reason, commit).
      bind (if r_series r \<noteq> [] \<and> reason = None
            then bind (apply_b4_series wt (r_series r)) (\<lambda>label.
                 bind (publish_b4_branch wt (r_series r)) (\<lambda>branch.
                 bind (read_head wt) (\<lambda>h. Ret (branch, label, h))))
            else Ret (None, [], commit)) (\<lambda>(branch, b4_label, commit').
      bind (probe (Exists wt)) (\<lambda>there.
      bind (only_if there (list_dir wt)) (\<lambda>_.
      Ret \<lparr>d_commit = commit', d_worktree = wt,
           d_label = compute_label (r_label r) (r_series r) b4_label is_tag (r_ref r),
           d_branch = branch, d_synced = (reason = None), d_reason = reason\<rparr>)))))))))))))))"

section \<open>The worker's build worktree\<close>

definition abort_if :: "path \<Rightarrow> path \<Rightarrow> string \<Rightarrow> string \<Rightarrow> unit prog" where
  "abort_if wt d marker verb =
     bind (probe (Exists (d @ [marker]))) (\<lambda>there.
     only_if there (bind (git_ok (in_tree wt [verb, ''--abort''])) (\<lambda>_. nop)))"

definition sanitize_worktree :: "path \<Rightarrow> unit prog" where
  "sanitize_worktree wt =
     bind (read_gitdir wt) (\<lambda>gitdir. case gitdir of
       None \<Rightarrow> nop
     | Some d \<Rightarrow>
         bind (probe (IsDir (d @ [''rebase-apply'']))) (\<lambda>apply.
         bind (if apply
               then bind (probe (Exists (d @ [''rebase-apply'', ''applying'']))) (\<lambda>am.
                 git_ok (in_tree wt [if am then ''am'' else ''rebase'', ''--abort'']))
               else bind (probe (IsDir (d @ [''rebase-merge'']))) (\<lambda>mrg.
                 if mrg then git_ok (in_tree wt [''rebase'', ''--abort'']) else Ret True)) (\<lambda>_.
         bind (abort_if wt d ''CHERRY_PICK_HEAD'' ''cherry-pick'') (\<lambda>_.
         bind (abort_if wt d ''REVERT_HEAD'' ''revert'') (\<lambda>_.
         abort_if wt d ''MERGE_HEAD'' ''merge'')))))"

record worker_result =
  w_group :: string
  w_index :: string
  w_commit :: string
  w_worktree :: path
  w_label :: string
  w_branch :: "string option"
  w_build_dir :: "path option"
  w_destdir :: "path option"
  w_version :: "string option option"

definition lay_worktree :: "path \<Rightarrow> path \<Rightarrow> string \<Rightarrow> bool \<Rightarrow> unit prog" where
  "lay_worktree bare wt target recreate =
     bind (git_run (in_tree bare [''worktree'', ''prune''])) (\<lambda>_.
     bind (only_if recreate (bind (act (Rmtree wt)) (\<lambda>_. git_run (in_tree bare [''worktree'', ''prune''])))) (\<lambda>_.
     bind (git_ok (in_tree wt [''rev-parse'', ''--git-dir''])) (\<lambda>there.
     if there
     then bind (sanitize_worktree wt) (\<lambda>_.
          bind (git_ok (in_tree wt [''clean'', ''--force'', ''-d''])) (\<lambda>_.
          git_run (in_tree wt [''checkout'', ''--detach'', ''--force'', target])))
     else bind (act (Rmtree wt)) (\<lambda>_.
          git_run (in_tree bare [''worktree'', ''add'', ''--force'', ''--detach'', path_str wt, target])))))"

definition lay_series :: "path \<Rightarrow> string \<Rightarrow> (string \<times> string option) prog" where
  "lay_series wt series =
     (if series = [] then Ret ([], None) else
      bind (catch (apply_b4_series wt series)
              (\<lambda>e. bind (sanitize_worktree wt) (\<lambda>_. Raise e))) (\<lambda>label.
      bind (publish_b4_branch wt series) (\<lambda>branch. Ret (label, branch))))"

definition lay_extra_dir :: "path \<Rightarrow> string list \<Rightarrow> string \<Rightarrow> unit prog" where
  "lay_extra_dir wt wipe d =
     bind (only_if (d \<in> set wipe) (act (Rmtree (path_join wt d)))) (\<lambda>_. act (Mkdir (path_join wt d)))"

definition worker_tree :: "path \<Rightarrow> string \<Rightarrow> string \<Rightarrow> path" where
  "worker_tree workers index project = path_join (path_join (path_join workers index) ''main'') project"

definition prepare :: "environ \<Rightarrow> request \<Rightarrow> worker_result prog" where
  "prepare env r =
     (if prefix ''-'' (r_ref r) then Raise ValueError else
      bind (of_result (validate_group (r_group r))) (\<lambda>_.
      bind (resolve_git env) (\<lambda>_.
      bind (of_result (workers_env env)) (\<lambda>workers.
      bind (of_result (bare_of env (r_project r))) (\<lambda>bare.
      bind (case dict_get env ''WORKER_INDEX'' of None \<Rightarrow> Raise KeyError | Some i \<Rightarrow> Ret i) (\<lambda>index.
      let wt = worker_tree workers index (r_project r) in
      bind (require_build_area env bare workers) (\<lambda>_.
      bind (act (Mkdir (butlast wt))) (\<lambda>_.
      bind (git_ok (in_tree bare [''fetch'', ''--tags'', ''--force'', ''--prune'', ''mirror''])) (\<lambda>_.
      bind (resolve_ref bare (r_ref r)) (\<lambda>(target, is_tag).
      bind (lay_worktree bare wt target (r_recreate r)) (\<lambda>_.
      bind (lay_series wt (r_series r)) (\<lambda>(b4_label, branch).
      bind (for_each (r_extra_dirs r) (lay_extra_dir wt (r_wipe_dirs r))) (\<lambda>_.
      bind (exclude_dirs bare (r_extra_dirs r)) (\<lambda>_.
      bind (git_capture_checked (in_tree wt [''rev-parse'', ''HEAD''])) (\<lambda>commit.
      bind (list_dir wt) (\<lambda>_.
      bind (if r_version_file r = [] then Ret None
            else bind (read_version wt (r_version_file r)) (\<lambda>v. Ret (Some v))) (\<lambda>version.
      Ret \<lparr>w_group = ''main'', w_index = index, w_commit = strip commit, w_worktree = wt,
           w_label = compute_label (r_label r) (r_series r) b4_label is_tag (r_ref r),
           w_branch = branch,
           w_build_dir = (if ''build'' \<in> set (r_extra_dirs r) then Some (wt @ [''build'']) else None),
           w_destdir = (if ''destdir'' \<in> set (r_extra_dirs r) then Some (wt @ [''destdir'']) else None),
           w_version = version\<rparr>)))))))))))))))))"

section \<open>Commands that only read\<close>

definition read_verbs :: "string list" where
  "read_verbs = [''rev-parse'', ''for-each-ref'', ''rev-list'']"

definition reading :: "cmd \<Rightarrow> bool" where
  "reading c = (case c of
     Git args \<Rightarrow> (\<exists>p verb rest. args = in_tree p (verb # rest) \<and> verb \<in> set read_verbs)
   | Exists _ \<Rightarrow> True | IsDir _ \<Rightarrow> True | IsFile _ \<Rightarrow> True | IsSymlink _ \<Rightarrow> True | ListDir _ \<Rightarrow> True
   | ReadText _ \<Rightarrow> True | RealPath _ \<Rightarrow> True | Mtime _ \<Rightarrow> True
   | _ \<Rightarrow> False)"

lemma reading_simps [simp]:
  "reading (Exists p)" "reading (IsDir p)" "reading (IsFile p)" "reading (ListDir p)"
  "reading (ReadText p)" "reading (RealPath p)"
  "reading (Git (in_tree p (''rev-parse'' # rest)))"
  "reading (Git (in_tree p (''for-each-ref'' # rest)))"
  "reading (Git (in_tree p (''rev-list'' # rest)))"
  by (auto simp: reading_def read_verbs_def)

lemma reading_head [simp]: "issues reading (read_head p)"
  unfolding read_head_def by (intro sound_intros) simp

lemma reading_attached [simp]: "issues reading (attached_branch p)"
  unfolding attached_branch_def by (intro sound_intros) simp

lemma reading_gitdir [simp]: "issues reading (read_gitdir p)"
  unfolding read_gitdir_def by (intro sound_intros) simp

lemma reading_occupied [simp]: "issues reading (occupied p)"
  unfolding occupied_def by (intro sound_intros) simp_all

lemma reading_resolved [simp]: "issues reading (resolved p)"
  unfolding resolved_def by (intro sound_intros) simp

lemma reading_is_worktree_of [simp]: "issues reading (is_worktree_of p q)"
  unfolding is_worktree_of_def by (intro sound_intros) simp_all

lemma reading_first_marker [simp]: "issues reading (first_marker d ms)"
  by (induction d ms rule: first_marker.induct) (auto intro!: sound_intros)

lemma reading_in_progress [simp]: "issues reading (in_progress d)"
  unfolding in_progress_def by (cases d) (auto intro!: sound_intros)

lemma reading_resolve_ref [simp]: "issues reading (resolve_ref p ref)"
  unfolding resolve_ref_def verify_commit_def by (auto intro!: sound_intros)

lemma reading_attachable_line [simp]: "issues reading (attachable_line b ref t ls)"
  by (induction b ref t ls rule: attachable_line.induct) (auto intro!: sound_intros simp: Let_def)

lemma reading_attachable [simp]: "issues reading (attachable_branch b ref t)"
  unfolding attachable_branch_def by (auto intro!: sound_intros)

lemma reading_mboxes [simp]: "issues reading (mboxes d)"
  unfolding mboxes_def by (auto intro!: sound_intros)

lemma reading_subject_of [simp]: "issues reading (subject_of p)"
  unfolding subject_of_def by (auto intro!: sound_intros)

lemma reading_list_dir [simp]: "issues reading (list_dir p)"
  unfolding list_dir_def by (auto intro!: sound_intros)

lemma reading_require [simp]: "issues reading (require_build_area env b w)"
  unfolding require_build_area_def by (auto intro!: sound_intros)

lemma reading_version [simp]: "issues reading (read_version p f)"
  unfolding read_version_def by (auto intro!: sound_intros)

text \<open>A program that only reads passes any guard that lets reads through.\<close>

lemma issues_reading: "issues reading p \<Longrightarrow> (\<And>c. reading c \<Longrightarrow> C c) \<Longrightarrow> issues C p"
  by (rule sound_weaken)

lemma guarded_reading:
  "issues reading p \<Longrightarrow> (\<And>g c. reading c \<Longrightarrow> G g c) \<Longrightarrow> (\<And>g x. Q g x) \<Longrightarrow> guarded G Q p h"
  by (rule sound_guarded)

section \<open>The developer's vocabulary\<close>

text \<open>
  The commands the developer path may issue. Nothing here takes a forcing flag, and nothing
  resets, cleans, stashes, aborts or rewinds: git refuses each of these rather than lose work. The
  file system is only read, but for the parent of the worktree and temporary directories.
\<close>

definition gentle_git :: "path \<Rightarrow> path \<Rightarrow> string list \<Rightarrow> bool" where
  "gentle_git bare wt args =
     (reading (Git args)
      \<or> args = in_tree bare [''fetch'', ''--tags'', ''--prune'', ''mirror'']
      \<or> args = in_tree bare [''worktree'', ''prune'']
      \<or> args = in_tree bare [''worktree'', ''remove'', path_str wt]
      \<or> (\<exists>b. b \<noteq> [] \<and> args = in_tree bare [''worktree'', ''add'', path_str wt, b])
      \<or> (\<exists>t. args = in_tree bare [''worktree'', ''add'', ''--detach'', path_str wt, t])
      \<or> (\<exists>t. args = in_tree wt [''merge'', ''--ff-only'', t])
      \<or> (\<exists>b. b \<noteq> [] \<and> args = in_tree wt [''checkout'', b])
      \<or> (\<exists>m. args = [''-c'', ''user.name=kdevops'', ''-c'', ''user.email=kdevops@kdevops''] @
             in_tree wt [''am'', ''--committer-date-is-author-date'', m])
      \<or> (\<exists>b. args = in_tree wt [''update-ref'', ''refs/kdevops/b4/'' @ b, ''HEAD''])
      \<or> (\<exists>b. args = in_tree wt [''update-ref'', ''refs/heads/b4/'' @ b, ''HEAD'', []]))"

definition gentle :: "path \<Rightarrow> path \<Rightarrow> cmd \<Rightarrow> bool" where
  "gentle bare wt c = (case c of
     Git args \<Rightarrow> gentle_git bare wt args
   | Dev sh args \<Rightarrow> (\<exists>verb out series. verb \<in> {[''am''], [''mbox'', ''--single-message'']}
       \<and> args = b4_argv wt verb out series)
   | Rmtree _ \<Rightarrow> False | Unlink _ \<Rightarrow> False | WriteText _ _ \<Rightarrow> False | AppendText _ _ \<Rightarrow> False
   | Mkdir p \<Rightarrow> p = butlast wt
   | _ \<Rightarrow> True)"

lemma gentle_reads [simp]:
  "gentle bare wt (Exists p)" "gentle bare wt (IsDir p)" "gentle bare wt (IsFile p)"
  "gentle bare wt (ListDir p)" "gentle bare wt (ReadText p)" "gentle bare wt (RealPath p)"
  "gentle bare wt TempDir" "gentle bare wt (DropTemp p)" "gentle bare wt (Nix args)"
  "gentle bare wt (Mkdir (butlast wt))" "gentle bare wt (Git args) = gentle_git bare wt args"
  by (simp_all add: gentle_def)

lemma gentle_writes [simp]:
  "gentle_git bare wt (in_tree bare [''fetch'', ''--tags'', ''--prune'', ''mirror''])"
  "gentle_git bare wt (in_tree bare [''worktree'', ''prune''])"
  "gentle_git bare wt (in_tree bare [''worktree'', ''remove'', path_str wt])"
  "b \<noteq> [] \<Longrightarrow> gentle_git bare wt (in_tree bare [''worktree'', ''add'', path_str wt, b])"
  "gentle_git bare wt (in_tree bare [''worktree'', ''add'', ''--detach'', path_str wt, t])"
  "gentle_git bare wt (in_tree wt [''merge'', ''--ff-only'', t])"
  "b \<noteq> [] \<Longrightarrow> gentle_git bare wt (in_tree wt [''checkout'', b])"
  "gentle_git bare wt (''-c'' # ''user.name=kdevops'' # ''-c'' # ''user.email=kdevops@kdevops'' #
     in_tree wt [''am'', ''--committer-date-is-author-date'', m])"
  "gentle_git bare wt (in_tree wt [''update-ref'', ''refs/kdevops/'' @ ''b4/'' @ u, ''HEAD''])"
  "gentle_git bare wt (in_tree wt [''update-ref'', HEADS @ ''b4/'' @ u, ''HEAD'', []])"
  by (auto simp: gentle_git_def HEADS_def in_tree_def)

lemma gentle_b4 [simp]:
  "gentle bare wt (Dev sh (b4_argv wt [''am''] d s))"
  "gentle bare wt (Dev sh (b4_argv wt [''mbox'', ''--single-message''] d s))"
  by (auto simp: gentle_def)

lemma gentle_reading_cmd: "reading c \<Longrightarrow> gentle bare wt c"
  by (cases c) (auto simp: reading_def gentle_def gentle_git_def)

lemma gentle_reading [simp]: "issues reading p \<Longrightarrow> issues (gentle bare wt) p"
  by (erule issues_reading) (rule gentle_reading_cmd)

lemma gentle_rev_list [simp]: "gentle_git bare wt (in_tree p (''rev-list'' # rest))"
  "gentle_git bare wt (in_tree p (''rev-parse'' # rest))"
  by (simp_all add: gentle_git_def)

lemma gentle_remove [simp]: "issues (gentle bare wt) (remove_worktree bare wt)"
  unfolding remove_worktree_def by (auto intro!: sound_intros split: option.splits)

lemma gentle_sync [simp]: "issues (gentle bare wt) (sync bare wt ref target recreate)"
  unfolding sync_def sync_guards_def sync_absent_def sync_occupied_def
  by (auto intro!: sound_intros split: option.splits)

lemma gentle_with_temp_dir:
  "(\<And>d. issues (gentle bare wt) (f d)) \<Longrightarrow> issues (gentle bare wt) (with_temp_dir f)"
  unfolding with_temp_dir_def by (auto intro!: sound_intros)

lemma gentle_cover_subject [simp]: "issues (gentle bare wt) (cover_subject wt series)"
  unfolding cover_subject_def
  by (rule gentle_with_temp_dir) (auto intro!: sound_intros split: sum.splits list.splits)

lemma gentle_apply [simp]: "issues (gentle bare wt) (apply_b4_series wt series)"
  unfolding apply_b4_series_def
  by (rule gentle_with_temp_dir) (auto intro!: sound_intros split: list.splits)

lemma gentle_publish [simp]: "issues (gentle bare wt) (publish_b4_branch wt series)"
  unfolding publish_b4_branch_def Let_def by (auto intro!: sound_intros simp del: append.simps)

lemma gentle_resolve_git [simp]: "issues (gentle bare wt) (resolve_git env)"
  unfolding resolve_git_def by (auto intro!: sound_intros)

text \<open>Where the developer path works: its Bare and its worktree, when the environment names them.\<close>

definition developer_tree :: "environ \<Rightarrow> request \<Rightarrow> path result" where
  "developer_tree env r =
     (case worktrees_dir env of
        Inl e \<Rightarrow> Inl e
      | Inr root \<Rightarrow> Inr (path_join (path_join root (r_group r)) (r_project r)))"

lemma gentle_prepare_developer:
  assumes "bare_of env (r_project r) = Inr bare" and "developer_tree env r = Inr wt"
  shows "issues (gentle bare wt) (prepare_developer env r)"
proof -
  obtain root where root: "worktrees_dir env = Inr root"
    "wt = path_join (path_join root (r_group r)) (r_project r)"
    using assms(2) by (auto simp: developer_tree_def split: sum.splits)
  have ok: "of_result (Inr x) = Ret x" for x :: 'x by (simp add: of_result_def)
  show ?thesis
    unfolding prepare_developer_def assms(1) root(1) ok bind.simps(1) Let_def
    unfolding root(2) [symmetric]
    by (auto intro!: sound_intros)
qed

text \<open>Without a Bare or a worktree root the step raises before its first command of substance.\<close>

lemma developer_no_tree:
  assumes "bare_of env (r_project r) = Inl e \<or> developer_tree env r = Inl e"
  shows "issues (\<lambda>c. case c of Nix _ \<Rightarrow> True | Exists _ \<Rightarrow> True | _ \<Rightarrow> False) (prepare_developer env r)"
proof -
  have fail: "bare_of env (r_project r) = Inl e \<or> worktrees_dir env = Inl e"
    using assms by (auto simp: developer_tree_def split: sum.splits)
  then show ?thesis
    unfolding prepare_developer_def resolve_git_def
    by (auto intro!: sound_intros simp: of_result_def split: sum.splits)
qed

section \<open>What a sync removes and returns\<close>

definition head_args :: "path \<Rightarrow> string list" where
  "head_args wt = in_tree wt [''rev-parse'', ''--verify'', ''--quiet'', ''HEAD'']"

definition orphan_args :: "path \<Rightarrow> string \<Rightarrow> string list" where
  "orphan_args bare sha = in_tree bare [''rev-list'', ''--max-count=1'', sha, ''--not'', ''--branches'',
     ''--tags'', ''--remotes'', ''--glob=refs/kdevops/*'']"

definition remove_args :: "path \<Rightarrow> path \<Rightarrow> string list" where
  "remove_args bare wt = in_tree bare [''worktree'', ''remove'', path_str wt]"

text \<open>
  The history before a removal: HEAD was just read and there is none, or every commit it reaches
  was just found under a branch, a tag, a remote or \<open>refs/kdevops\<close>.
\<close>

definition nothing_orphaned :: "path \<Rightarrow> path \<Rightarrow> history \<Rightarrow> bool" where
  "nothing_orphaned bare wt h =
     ((\<exists>g r. h = g @ [(Git (head_args wt), r)] \<and> strip (out r) = [])
      \<or> (\<exists>g r q. h = g @ [(Git (head_args wt), r), (Git (orphan_args bare (strip (out r))), q)]
           \<and> holds q \<and> strip (out q) = []))"

definition removal_guard :: "path \<Rightarrow> path \<Rightarrow> bool \<Rightarrow> history \<Rightarrow> cmd \<Rightarrow> bool" where
  "removal_guard bare wt recreate h c =
     (c = Git (remove_args bare wt) \<longrightarrow> recreate \<and> nothing_orphaned bare wt h)"

lemma in_tree_inject: "in_tree p (a # as) = in_tree q (b # bs) \<longleftrightarrow> path_str p = path_str q \<and> a = b \<and> as = bs"
  by (auto simp: in_tree_def)

lemma removal_guard_other:
  "c \<noteq> Git (remove_args bare wt) \<Longrightarrow> removal_guard bare wt recreate h c"
  by (simp add: removal_guard_def)

lemma reading_not_removal: "reading c \<Longrightarrow> c \<noteq> Git (remove_args bare wt)"
  by (auto simp: reading_def remove_args_def in_tree_inject read_verbs_def)

lemma removal_reading:
  "issues reading p \<Longrightarrow> (\<And>g x. Q g x) \<Longrightarrow> guarded (removal_guard bare wt again) Q p h"
  by (erule guarded_reading) (simp_all add: removal_guard_other reading_not_removal)

lemma removal_bind:
  "issues reading p \<Longrightarrow> (\<And>g x. guarded (removal_guard bare wt again) Q (f x) g) \<Longrightarrow>
    guarded (removal_guard bare wt again) Q (bind p f) h"
  unfolding guarded_bind_iff by (rule removal_reading)

lemma removal_remove:
  "guarded (removal_guard bare wt True) (\<lambda>_ _. True) (remove_worktree bare wt) h"
  unfolding remove_worktree_def read_head_def git_capture_def git_capture_checked_def git_status_def
  by (auto simp: none_if_empty_def removal_guard_def nothing_orphaned_def in_tree_inject
      head_args_def orphan_args_def remove_args_def)

lemma not_removal: "issues (\<lambda>c. c \<noteq> Git (remove_args bare wt)) p \<Longrightarrow>
    guarded (removal_guard bare wt again) (\<lambda>_ _. True) p h"
  by (erule sound_guarded) (simp_all add: removal_guard_other)

lemma reading_keeps [simp]: "issues reading p \<Longrightarrow> issues (\<lambda>c. c \<noteq> Git (remove_args bare wt)) p"
  by (erule issues_reading) (rule reading_not_removal)

lemma in_tree_remove: "in_tree p (a # as) = remove_args bare wt \<longleftrightarrow>
    path_str p = path_str bare \<and> a = ''worktree'' \<and> as = [''remove'', path_str wt]"
  by (simp add: remove_args_def in_tree_inject)

lemma removal_sync:
  "guarded (removal_guard bare wt recreate) (\<lambda>_ _. True) (sync bare wt ref target recreate) h"
proof -
  let ?G = "removal_guard bare wt recreate"
  have occ: "guarded ?G (\<lambda>_ _. True) (sync_occupied bare wt ref target) g" for g
    unfolding sync_occupied_def
    by (intro not_removal) (auto intro!: sound_intros simp: in_tree_remove)
  have absent: "guarded ?G (\<lambda>_ _. True) (sync_absent bare wt ref target) g" for g
    unfolding sync_absent_def
    by (intro not_removal) (auto intro!: sound_intros simp: in_tree_remove)
  have guards: "guarded ?G (\<lambda>_ _. True) (sync_guards bare wt recreate) g" for g
    unfolding sync_guards_def
    by (auto simp: removal_remove intro!: removal_bind split: option.splits)
  have rest: "guarded ?G (\<lambda>_ _. True) (case refused of
       Some r \<Rightarrow> bind (read_head wt) (\<lambda>h. Ret (Some r, h))
     | None \<Rightarrow> bind (occupied wt) (\<lambda>occ.
         if \<not> occ then sync_absent bare wt ref target else sync_occupied bare wt ref target)) g" for refused g
    by (cases refused) (auto simp: occ absent intro!: removal_bind)
  show ?thesis
    unfolding sync_def guarded_bind_iff
    by (rule guarded_weaken [OF guards]) (rule rest)
qed

text \<open>What a sync returns, over the history of the run.\<close>

definition head_read :: "path \<Rightarrow> history \<Rightarrow> string \<Rightarrow> bool" where
  "head_read wt h sha = (\<exists>r. (Git (head_args wt), r) \<in> set h \<and> sha = strip (out r))"

definition added_at :: "path \<Rightarrow> history \<Rightarrow> bool" where
  "added_at bare h =
     (\<exists>args r. (Git (in_tree bare (''worktree'' # ''add'' # args)), r) \<in> set h \<and> holds r)"

definition sync_post :: "path \<Rightarrow> path \<Rightarrow> string \<Rightarrow> history \<Rightarrow> reason option \<times> string option \<Rightarrow> bool" where
  "sync_post bare wt target h x =
     ((fst x = None \<longrightarrow> snd x = Some target \<or> added_at bare h)
      \<and> (\<forall>sha. snd x = Some sha \<longrightarrow> head_read wt h sha))"

lemma head_read_mono: "set h \<subseteq> set g \<Longrightarrow> head_read wt h sha \<Longrightarrow> head_read wt g sha"
  by (auto simp: head_read_def)

lemma read_head_post:
  assumes "\<And>r g. g = h @ [(Git (head_args wt), r)] \<Longrightarrow>
      guarded (\<lambda>_ _. True) Q (f (none_if_empty (strip (out r)))) g"
  shows "guarded (\<lambda>_ _. True) Q (bind (read_head wt) f) h"
  using assms by (simp add: read_head_def git_capture_def head_args_def)

lemma head_read_just: "h = g @ [(Git (head_args wt), r)] \<Longrightarrow> none_if_empty (strip (out r)) = Some sha \<Longrightarrow>
    head_read wt h sha"
  by (auto simp: head_read_def none_if_empty_def split: if_splits)

lemma sync_post_occupied: "guarded (\<lambda>_ _. True) (sync_post bare wt target) (sync_occupied bare wt ref target) h"
  unfolding sync_occupied_def
proof (rule read_head_post)
  fix r g
  assume g: "g = h @ [(Git (head_args wt), r)]"
  define hd0 where "hd0 = none_if_empty (strip (out r))"
  have read: "hd0 = Some sha \<Longrightarrow> head_read wt g sha" for sha
    unfolding hd0_def by (rule head_read_just [OF g])
  have ff: "guarded (\<lambda>_ _. True) (sync_post bare wt target)
      (bind (git_ok (in_tree wt [''merge'', ''--ff-only'', target])) (\<lambda>_.
       bind (read_head wt) (\<lambda>moved.
       Ret (if moved \<noteq> Some target then (Some (CannotFastForward hd0 target), moved)
            else (None, moved))))) g'" for g'
    unfolding guarded_bind_iff
    by (rule any_history, simp only: guarded_bind_iff [symmetric], rule read_head_post)
      (auto simp: sync_post_def head_read_just)
  have at: "guarded (\<lambda>_ _. True) (sync_post bare wt target) p g"
    if "sound (\<lambda>_. True) (\<lambda>x. x = (None, hd0)) p" "hd0 = Some target" for p
    using that(1) by (rule sound_history) (auto simp: sync_post_def that(2) intro: head_read_mono [OF _ read])
  have any: "guarded (\<lambda>_ _. True) Q p g'" if "\<And>g'' x. set g' \<subseteq> set g'' \<Longrightarrow> Q g'' x" for Q p g'
    using that by (rule any_history)
  show "guarded (\<lambda>_ _. True) (sync_post bare wt target)
      (bind (attached_branch wt) (\<lambda>attached.
       if hd0 \<noteq> Some target then
         (if attached \<noteq> [] then Ret (Some (OnBranch attached hd0 target), hd0)
          else bind (git_ok (in_tree wt [''merge'', ''--ff-only'', target])) (\<lambda>_.
               bind (read_head wt) (\<lambda>moved.
               Ret (if moved \<noteq> Some target then (Some (CannotFastForward hd0 target), moved)
                    else (None, moved)))))
       else if attached \<noteq> [] then Ret (None, hd0)
       else bind (attachable_branch bare ref target) (\<lambda>branch.
            if branch = [] then Ret (None, hd0)
            else bind (git_ok (in_tree wt [''checkout'', branch])) (\<lambda>_. Ret (None, hd0))))) g"
  proof (cases "hd0 = Some target")
    case True
    show ?thesis
      by (rule at [OF _ True]) (auto simp: True git_ok_def intro!: sound_bind [where Q = "\<lambda>_. True"])
  next
    case False
    show ?thesis
      unfolding guarded_bind_iff [of _ _ "attached_branch wt"]
      by (rule any) (use False in \<open>auto simp: ff sync_post_def intro: head_read_mono [OF _ read]\<close>)
  qed
qed

lemma sync_post_absent: "guarded (\<lambda>_ _. True) (sync_post bare wt target) (sync_absent bare wt ref target) h"
proof -
  have head: "guarded (\<lambda>_ _. True) (sync_post bare wt target)
      (bind (read_head wt) (\<lambda>h. Ret (None, h))) (g @ [(Git (in_tree bare (''worktree'' # ''add'' # args)), r)])"
    if "holds r" for g args r
    by (rule read_head_post) (use that in \<open>auto simp: sync_post_def added_at_def head_read_just\<close>)
  have add: "guarded (\<lambda>_ _. True) (sync_post bare wt target)
      (bind (git_ok (in_tree bare (''worktree'' # ''add'' # args))) (\<lambda>ok.
       if \<not> ok then Ret (Some (CannotAdd name), None)
       else bind (read_head wt) (\<lambda>h. Ret (None, h)))) g" for g args name
    using head [of _ g args] by (simp add: git_ok_def sync_post_def)
  show ?thesis
    unfolding sync_absent_def guarded_bind_iff [of _ _ "attachable_branch bare ref target"]
    by (rule any_history) (auto simp: add)
qed

lemma sync_post_sync: "guarded (\<lambda>_ _. True) (sync_post bare wt target) (sync bare wt ref target recreate) h"
proof -
  have refused: "guarded (\<lambda>_ _. True) (sync_post bare wt target)
      (bind (read_head wt) (\<lambda>h. Ret (Some rs, h))) g" for rs g
    by (rule read_head_post) (auto simp: sync_post_def head_read_just)
  have rest: "guarded (\<lambda>_ _. True) (sync_post bare wt target)
      (bind (occupied wt) (\<lambda>occ.
         if \<not> occ then sync_absent bare wt ref target else sync_occupied bare wt ref target)) g" for g
    unfolding guarded_bind_iff
    by (rule any_history) (simp add: sync_post_absent sync_post_occupied)
  show ?thesis
    unfolding sync_def guarded_bind_iff [of _ _ "sync_guards bare wt recreate"]
    by (rule any_history) (simp add: refused rest split: option.splits)
qed

section \<open>The worker's commands\<close>

text \<open>
  The worker forces: what it removes, cleans, aborts and checks out is its own worktree, the Bare
  is only fetched into and registered with, and nothing else is written but the exclude file.
\<close>

definition confined :: "path \<Rightarrow> path \<Rightarrow> string list \<Rightarrow> cmd \<Rightarrow> bool" where
  "confined bare wt extra c = (case c of
     Git args \<Rightarrow>
       reading (Git args)
       \<or> args = in_tree bare [''fetch'', ''--tags'', ''--force'', ''--prune'', ''mirror'']
       \<or> args = in_tree bare [''worktree'', ''prune'']
       \<or> (\<exists>t. args = in_tree bare [''worktree'', ''add'', ''--force'', ''--detach'', path_str wt, t])
       \<or> (\<exists>rest. args = in_tree wt rest)
       \<or> (\<exists>m. args = [''-c'', ''user.name=kdevops'', ''-c'', ''user.email=kdevops@kdevops''] @
             in_tree wt [''am'', ''--committer-date-is-author-date'', m])
   | Dev sh args \<Rightarrow> (\<exists>verb out series. verb \<in> {[''am''], [''mbox'', ''--single-message'']}
       \<and> args = b4_argv wt verb out series)
   | Rmtree p \<Rightarrow> p = wt \<or> (\<exists>d \<in> set extra. p = path_join wt d)
   | Mkdir p \<Rightarrow> p = butlast wt \<or> (\<exists>d \<in> set extra. p = path_join wt d) \<or> prefix bare p
   | AppendText p _ \<Rightarrow> prefix bare p \<and> last p = ''exclude''
   | Unlink _ \<Rightarrow> False | WriteText _ _ \<Rightarrow> False
   | _ \<Rightarrow> True)"

lemma confined_reading_cmd: "reading c \<Longrightarrow> confined bare wt extra c"
  by (cases c) (auto simp: reading_def confined_def)

lemma confined_reading [simp]: "issues reading p \<Longrightarrow> issues (confined bare wt extra) p"
  by (erule issues_reading) (rule confined_reading_cmd)

lemma confined_simps [simp]:
  "confined bare wt extra (Git (in_tree wt args))"
  "confined bare wt extra (Git (in_tree bare [''fetch'', ''--tags'', ''--force'', ''--prune'', ''mirror'']))"
  "confined bare wt extra (Git (in_tree bare [''worktree'', ''prune'']))"
  "confined bare wt extra
     (Git (in_tree bare [''worktree'', ''add'', ''--force'', ''--detach'', path_str wt, t]))"
  "confined bare wt extra (Git (''-c'' # ''user.name=kdevops'' # ''-c'' # ''user.email=kdevops@kdevops'' #
     in_tree wt [''am'', ''--committer-date-is-author-date'', m]))"
  "confined bare wt extra (Dev sh (b4_argv wt [''am''] tmp s))"
  "confined bare wt extra (Dev sh (b4_argv wt [''mbox'', ''--single-message''] tmp s))"
  "confined bare wt extra TempDir" "confined bare wt extra (DropTemp p)" "confined bare wt extra (Nix args)"
  "confined bare wt extra (Exists p)" "confined bare wt extra (IsDir p)" "confined bare wt extra (IsFile p)"
  "confined bare wt extra (ReadText p)"
  "confined bare wt extra (Rmtree wt)" "confined bare wt extra (Mkdir (butlast wt))"
  "d \<in> set extra \<Longrightarrow> confined bare wt extra (Mkdir (path_join wt d))"
  "d \<in> set extra \<Longrightarrow> confined bare wt extra (Rmtree (path_join wt d))"
  by (auto simp: confined_def)

lemma confined_with_temp_dir:
  "(\<And>d. issues (confined bare wt extra) (f d)) \<Longrightarrow> issues (confined bare wt extra) (with_temp_dir f)"
  unfolding with_temp_dir_def by (auto intro!: sound_intros)

lemma confined_cover_subject [simp]: "issues (confined bare wt extra) (cover_subject wt series)"
  unfolding cover_subject_def
  by (rule confined_with_temp_dir) (auto intro!: sound_intros split: sum.splits list.splits)

lemma confined_apply [simp]: "issues (confined bare wt extra) (apply_b4_series wt series)"
  unfolding apply_b4_series_def
  by (rule confined_with_temp_dir) (auto intro!: sound_intros split: list.splits)

lemma confined_publish [simp]: "issues (confined bare wt extra) (publish_b4_branch wt series)"
  unfolding publish_b4_branch_def Let_def by (auto intro!: sound_intros simp del: append.simps)

lemma confined_resolve_git [simp]: "issues (confined bare wt extra) (resolve_git env)"
  unfolding resolve_git_def by (auto intro!: sound_intros)

lemma confined_sanitize [simp]: "issues (confined bare wt extra) (sanitize_worktree wt)"
  unfolding sanitize_worktree_def abort_if_def by (auto intro!: sound_intros split: option.splits)

lemma confined_lay [simp]: "issues (confined bare wt extra) (lay_worktree bare wt target recreate)"
  unfolding lay_worktree_def by (auto intro!: sound_intros)

lemma confined_lay_series [simp]: "issues (confined bare wt extra) (lay_series wt series)"
  unfolding lay_series_def by (auto intro!: sound_intros)

lemma confined_extra_dir [simp]: "d \<in> set extra \<Longrightarrow> issues (confined bare wt extra) (lay_extra_dir wt wipe d)"
  unfolding lay_extra_dir_def by (auto intro!: sound_intros)

lemma confined_exclude [simp]: "issues (confined bare wt extra) (exclude_dirs bare ds)"
  unfolding exclude_dirs_def Let_def
  by (auto intro!: sound_intros) (auto simp: confined_def)

lemma confined_prepare:
  assumes "bare_of env (r_project r) = Inr bare" and "workers_env env = Inr workers"
    and "dict_get env ''WORKER_INDEX'' = Some index" and wt: "wt = worker_tree workers index (r_project r)"
  shows "issues (confined bare wt (r_extra_dirs r)) (prepare env r)"
proof -
  have ok: "of_result (Inr x) = Ret x" for x :: 'x by (simp add: of_result_def)
  show ?thesis
    unfolding prepare_def assms(1-3) ok bind.simps(1) Let_def option.case
    unfolding wt [symmetric]
    by (auto intro!: sound_intros)
qed

text \<open>When the worker's worktree is laid, one of the two forcing commands put it on the target.\<close>

definition laid_at :: "path \<Rightarrow> path \<Rightarrow> string \<Rightarrow> history \<Rightarrow> bool" where
  "laid_at bare wt target h =
     (\<exists>r. holds r
        \<and> ((Git (in_tree wt [''checkout'', ''--detach'', ''--force'', target]), r) \<in> set h
           \<or> (Git (in_tree bare [''worktree'', ''add'', ''--force'', ''--detach'', path_str wt, target]), r) \<in> set h))"

lemma laid_post: "guarded (\<lambda>_ _. True) (\<lambda>g _. laid_at bare wt target g) (lay_worktree bare wt target recreate) h"
proof -
  have checkout: "guarded (\<lambda>_ _. True) (\<lambda>g _. laid_at bare wt target g)
      (git_run (in_tree wt [''checkout'', ''--detach'', ''--force'', target])) g" for g
    by (auto simp: git_run_def laid_at_def)
  have add: "guarded (\<lambda>_ _. True) (\<lambda>g _. laid_at bare wt target g)
      (git_run (in_tree bare [''worktree'', ''add'', ''--force'', ''--detach'', path_str wt, target])) g" for g
    by (auto simp: git_run_def laid_at_def)
  have "guarded (\<lambda>_ _. True) (\<lambda>g _. laid_at bare wt target g) (bind p (\<lambda>_. q)) g"
    if "\<And>g. guarded (\<lambda>_ _. True) (\<lambda>g _. laid_at bare wt target g) q g" for p :: "'x prog" and q :: "unit prog" and g
    unfolding guarded_bind_iff by (rule any_history) (rule that)
  note step = this
  show ?thesis
    unfolding lay_worktree_def
    by (intro step) (simp only: guarded_bind_iff, rule any_history, simp add: guarded_bind_iff [symmetric],
      intro conjI impI step checkout add)
qed

text \<open>Publishing a branch: it is created over nothing, or already at the head.\<close>

definition branch_ref :: "string \<Rightarrow> string" where
  "branch_ref series = HEADS @ ''b4/'' @ b4_slug series"

definition branch_guard :: "path \<Rightarrow> string \<Rightarrow> history \<Rightarrow> cmd \<Rightarrow> bool" where
  "branch_guard wt series h c =
     (\<forall>ref rest. c = Git (in_tree wt (''update-ref'' # ref # rest)) \<and> prefix HEADS ref \<longrightarrow>
        ref = branch_ref series \<and> rest = [''HEAD'', []]
        \<and> (\<exists>g r. h = g @ [(Git (in_tree wt [''rev-parse'', ''--verify'', ''--quiet'', ref]), r)] \<and> strip (out r) = []))"

lemma publish_guarded:
  "guarded (branch_guard wt series)
     (\<lambda>g b. \<forall>br. b = Some br \<longrightarrow> HEADS @ br = branch_ref series)
     (publish_b4_branch wt series) h"
proof -
  have anchor: "\<not> prefix HEADS (''refs/kdevops/'' @ x)" for x by (simp add: HEADS_def)
  show ?thesis
    unfolding publish_b4_branch_def read_head_def git_capture_def git_ok_def Let_def
    by (auto simp: branch_guard_def in_tree_inject anchor branch_ref_def simp del: append.simps)
qed

section \<open>Properties\<close>

text \<open>A small machine for the examples: a clean worktree of \<open>/b.git\<close> at \<open>/w\<close>, on commit \<open>c1\<close>.\<close>

definition yes :: "string \<Rightarrow> resp" where
  "yes text = \<lparr>rc = 0, out = text, entries = []\<rparr>"

definition no :: resp where
  "no = \<lparr>rc = 1, out = [], entries = []\<rparr>"

definition demo_machine :: "unit machine" where
  "demo_machine w c = ((case c of
     Git args \<Rightarrow>
       (if args = head_args [''w''] then yes (''c1'' @ nl)
        else if ''--git-common-dir'' \<in> set args then yes (''/b.git'' @ nl)
        else if ''rev-parse'' \<in> set args \<and> ''--git-dir'' \<notin> set args \<and> ''--symbolic-full-name'' \<notin> set args
        then yes (''c1'' @ nl)
        else yes [])
   | Exists p \<Rightarrow> yes []
   | IsDir p \<Rightarrow> (if p \<in> {[''w''], [''b.git'', ''objects'']} then yes [] else no)
   | ListDir p \<Rightarrow> \<lparr>rc = 0, out = [], entries = [''Makefile'']\<rparr>
   | RealPath p \<Rightarrow> yes (path_str p)
   | _ \<Rightarrow> yes []), ())"

definition demo_env :: environ where
  "demo_env = [(''WORKERS_DIR'', ''/workers''), (''WORKTREES_DIR'', ''/trees''), (''SYSTEM_DIR'', ''/sys''),
     (''WORKER_INDEX'', ''3'')]"

definition demo_request :: request where
  "demo_request = \<lparr>r_project = ''linux'', r_ref = ''v7.0'', r_group = ''vanilla'', r_series = [],
     r_label = [], r_recreate = False, r_extra_dirs = [''build''], r_wipe_dirs = [], r_version_file = []\<rparr>"

text \<open>
  A worktree group that passes validation is one plain directory directly below the worktree
  root: it never names the root's parent, a nested or an absolute path, or one of the reserved
  siblings. The file-system root itself is the one exception, which the code lets through.
\<close>

theorem validate_group_plain:
  assumes "validate_group g = Inr ()" and "g \<noteq> ''/''" and "g \<noteq> ''//''"
  shows "path_join root g = root @ [g] \<and> g \<noteq> ''..'' \<and> g \<notin> set RESERVED_GROUPS \<and> CHR ''/'' \<notin> set g"
proof -
  from assms(1) have g: "g \<noteq> []" "g \<noteq> ''..''" "path_parts g = [g]" "g \<notin> set RESERVED_GROUPS"
    by (auto simp: validate_group_def split: if_splits)
  have rel: "\<not> is_absolute g"
  proof
    assume "is_absolute g"
    with g(3) have "g \<in> {''/'', ''//''}" by (auto simp: path_parts_def split: if_splits)
    with assms(2,3) show False by simp
  qed
  with g(3) have "parts g = [g]" by (simp add: path_parts_def)
  moreover from this have "CHR ''/'' \<notin> set g" using parts_clean [of g g] by simp
  ultimately show ?thesis using g rel by (simp add: path_join_def)
qed

theorem validate_group_plain_witness: "path_join [''trees''] ''vanilla'' = [''trees'', ''vanilla'']"
proof -
  have "validate_group ''vanilla'' = Inr ()"
    by (simp add: validate_group_def RESERVED_GROUPS_def is_space_def path_parts_def is_absolute_def
        parts_plain)
  from validate_group_plain [OF this, of "[''trees'']"] show ?thesis by simp
qed

lemma validate_group_root: "validate_group ''/'' = Inr () \<and> path_join root ''/'' = []"
  by (simp add: validate_group_def RESERVED_GROUPS_def is_space_def path_parts_def is_absolute_def
      parts_def path_join_def)

text \<open>
  C4: whatever git and the file system answer, the sync of a developer worktree issues no command
  outside its gentle vocabulary: no forcing flag, no reset, clean, stash or abort, and no file
  written or removed outside temporary directories.
\<close>

theorem prepare_developer_gentle:
  assumes "bare_of env (r_project r) = Inr bare" and "developer_tree env r = Inr wt"
    and "c \<in> set (trace (prepare_developer env r) m w)"
  shows "gentle bare wt c"
  using gentle_prepare_developer [OF assms(1,2)] assms(3) by (rule sound_trace)

theorem prepare_developer_gentle_witness:
  "list_all (gentle [''sys'', ''bare'', ''linux.git''] [''trees'', ''vanilla'', ''linux''])
     (trace (prepare_developer demo_env demo_request) demo_machine ())"
proof -
  have "bare_of demo_env (r_project demo_request) = Inr [''sys'', ''bare'', ''linux.git'']"
    "developer_tree demo_env demo_request = Inr [''trees'', ''vanilla'', ''linux'']"
    by code_simp+
  then show ?thesis unfolding list_all_iff by (intro ballI prepare_developer_gentle)
qed

text \<open>
  C10: a developer worktree is removed only for an explicit recreate, and only right after HEAD was
  read and git confirmed that every commit it reaches is on a branch, a tag, a remote or under
  \<open>refs/kdevops\<close> (or that there is no HEAD to lose).
\<close>

theorem sync_removal_safe:
  assumes "log_of (sync bare wt ref target recreate) m w = pre @ (Git (remove_args bare wt), r) # post"
  shows "recreate \<and> nothing_orphaned bare wt pre"
  using guarded_log [OF removal_sync [of bare wt recreate ref target "[]"] assms]
  by (simp add: removal_guard_def)

definition demo_log :: history where
  "demo_log = log_of (sync [''b.git''] [''w''] ''v7.0'' ''c1'' True) demo_machine ()"

theorem sync_removal_safe_witness: "nothing_orphaned [''b.git''] [''w''] (take 9 demo_log)"
proof -
  have at9: "demo_log ! 9 = (Git (remove_args [''b.git''] [''w'']), yes [])" "9 < length demo_log"
    by code_simp+
  have "log_of (sync [''b.git''] [''w''] ''v7.0'' ''c1'' True) demo_machine () =
      take 9 demo_log @ (Git (remove_args [''b.git''] [''w'']), yes []) # drop 10 demo_log"
    using id_take_nth_drop [OF at9(2)] unfolding at9(1) by (simp add: demo_log_def)
  from sync_removal_safe [OF this] show ?thesis by simp
qed





text \<open>
  Publishing a series never moves a branch: the only branch ref it writes is \<open>b4/<slug>\<close>, with
  an empty old value, right after git reported that the branch does not exist, and the branch it
  returns is that one.
\<close>

theorem publish_never_moves:
  assumes "log_of (publish_b4_branch wt series) m w =
      pre @ (Git (in_tree wt (''update-ref'' # ref # rest)), r) # post" and "prefix HEADS ref"
  shows "ref = HEADS @ ''b4/'' @ b4_slug series \<and> rest = [''HEAD'', []]
    \<and> (\<exists>g q. pre = g @ [(Git (in_tree wt [''rev-parse'', ''--verify'', ''--quiet'', ref]), q)]
          \<and> strip (out q) = [])"
  using guarded_log [OF publish_guarded [of wt series "[]"] assms(1)] assms(2)
  by (simp add: branch_guard_def branch_ref_def)

definition absent_machine :: "unit machine" where
  "absent_machine w c = ((case c of
     Git args \<Rightarrow> (if args = head_args [''w''] then yes ''c1'' else if ''rev-parse'' \<in> set args then no else yes [])
   | _ \<Rightarrow> no), ())"

theorem publish_never_moves_witness:
  "log_of (publish_b4_branch [''w''] ''x@y'') absent_machine () =
     [(Git (head_args [''w'']), yes ''c1''),
      (Git (in_tree [''w''] [''rev-parse'', ''--verify'', ''--quiet'', ''refs/heads/b4/x'']), no),
      (Git (in_tree [''w''] [''update-ref'', ''refs/heads/b4/x'', ''HEAD'', []]), yes [])]
   \<and> b4_slug ''x@y'' = ''x''"
proof -
  have run: "log_of (publish_b4_branch [''w''] ''x@y'') absent_machine () =
     [(Git (head_args [''w'']), yes ''c1''),
      (Git (in_tree [''w''] [''rev-parse'', ''--verify'', ''--quiet'', ''refs/heads/b4/x'']), no)]
     @ (Git (in_tree [''w''] (''update-ref'' # ''refs/heads/b4/x'' # [''HEAD'', []])), yes []) # []"
    by code_simp
  from publish_never_moves [OF run] have "''refs/heads/b4/x'' = HEADS @ ''b4/'' @ b4_slug ''x@y''"
    by (simp add: HEADS_def)
  then have "b4_slug ''x@y'' = ''x''" by (simp add: HEADS_def)
  with run show ?thesis by simp
qed

end
