(* ===== verification/Json.thy ===== *)
theory Json
  imports Prelude
begin

text \<open>
  JSON values as the steps exchange them (Python's \<open>None\<close>, \<open>bool\<close>, \<open>int\<close>, \<open>str\<close>, \<open>list\<close> and
  \<open>dict\<close> with string keys), their truth value, and the operations the sources use on values of
  unknown shape, with the exception each raises on the wrong one.
\<close>

datatype json =
    JNull
  | JBool bool
  | JInt int
  | JStr string
  | JList "json list"
  | JObj "(string \<times> json) list"

fun truthy :: "json \<Rightarrow> bool" where
  "truthy JNull = False"
| "truthy (JBool b) = b"
| "truthy (JInt n) = (n \<noteq> 0)"
| "truthy (JStr s) = (s \<noteq> [])"
| "truthy (JList xs) = (xs \<noteq> [])"
| "truthy (JObj d) = (d \<noteq> [])"

fun is_obj :: "json \<Rightarrow> bool" where
  "is_obj (JObj d) = True"
| "is_obj _ = False"

text \<open>The members of a dict; \<open>err\<close> is what the code at hand raises on any other value.\<close>

fun members :: "py_error \<Rightarrow> json \<Rightarrow> (string, json) dict result" where
  "members err (JObj d) = Inr d"
| "members err _ = Inl err"

text \<open>\<open>x or d\<close>, and \<open>obj.get(k) or d\<close>.\<close>

definition or_json :: "json \<Rightarrow> json \<Rightarrow> json" where
  "or_json x d = (if truthy x then x else d)"

definition get_or_json :: "(string, json) dict \<Rightarrow> string \<Rightarrow> json \<Rightarrow> json" where
  "get_or_json obj k d = (case dict_get obj k of None \<Rightarrow> d | Some x \<Rightarrow> or_json x d)"

text \<open>\<open>[*x]\<close>: a list as it is, a string as its characters, a dict as its keys.\<close>

fun unpack :: "json \<Rightarrow> json list result" where
  "unpack (JList xs) = Inr xs"
| "unpack (JStr s) = Inr (map (\<lambda>c. JStr [c]) s)"
| "unpack (JObj d) = Inr (map (\<lambda>(k, _). JStr k) d)"
| "unpack _ = Inl TypeError"

fun hashable :: "json \<Rightarrow> bool" where
  "hashable (JList _) = False"
| "hashable (JObj _) = False"
| "hashable _ = True"

text \<open>The value at a path of keys.\<close>

fun jget :: "string list \<Rightarrow> json \<Rightarrow> json option" where
  "jget [] v = Some v"
| "jget (k # ks) (JObj d) = (case dict_get d k of None \<Rightarrow> None | Some v \<Rightarrow> jget ks v)"
| "jget (k # ks) _ = None"

lemma members_Inr: "members err x = Inr d \<longleftrightarrow> x = JObj d"
  by (cases x) auto

lemma dict_merge_Nil [simp]: "dict_merge d [] = d"
  by (simp add: dict_merge_def)

lemma dict_merge_Cons [simp]: "dict_merge d ((k, v) # e) = dict_merge (dict_set k v d) e"
  by (simp add: dict_merge_def)

end
