(* ===== verification/Bringup.thy ===== *)
theory Bringup
  imports Json
begin

text \<open>
  The inputs of \<open>f/qsu/bringup\<close> that a bisect builds for one candidate (\<open>bringup_args\<close> of
  \<open>f/kernel/bisect_step.py\<close>): the built-in guest, or the pasted one with the keys the bisect owns
  replaced. The pasted guest is any JSON value, so every access that can raise has its branch.
\<close>

section \<open>Payloads\<close>

definition closure_suites :: "string \<Rightarrow> string list" where
  "closure_suites payload =
     (if payload = ''runtime_tests'' then []
      else if payload = ''selftests'' then [''selftests'']
      else if payload = ''usertests'' then [''usertests'']
      else [''kunit''])"

definition harness_dirs :: "string list \<Rightarrow> string list" where
  "harness_dirs suites = dedup (map (before_chr (CHR ''/'')) suites)"

abbreviation strs :: "string list \<Rightarrow> json list" where
  "strs xs \<equiv> map JStr xs"

text \<open>\<open>_union(base, extra)\<close>: \<open>dict.fromkeys\<close> needs hashable elements.\<close>

definition union_json :: "json \<Rightarrow> string list \<Rightarrow> json result" where
  "union_json base extra = andthen (unpack base) (\<lambda>xs.
     if list_all hashable xs then Inr (JList (dedup (xs @ strs extra))) else Inl TypeError)"

definition check_guest :: "json \<Rightarrow> unit result" where
  "check_guest guest = (case guest of
     JObj d \<Rightarrow>
       (if d = [] \<or> ''kernel'' \<in> set (keys d) \<and> ''closure'' \<in> set (keys d) then Inr ()
        else Inl ValueError)
   | _ \<Rightarrow> (if truthy guest then Inl ValueError else Inr ()))"

section \<open>The groups the bisect owns\<close>

definition vm_group :: "string \<Rightarrow> json" where
  "vm_group vm_name = JObj [(''vm_target'', JStr ''new''), (''auto_vm_name'', JBool False), (''vm_name'', JStr vm_name)]"

definition worktree_group :: "string \<Rightarrow> (string, json) dict" where
  "worktree_group candidate =
     [(''custom_ref'', JBool True), (''git_ref'', JStr candidate), (''b4_series'', JStr []),
      (''custom_label'', JBool False)]"

definition reuse_group :: json where
  "reuse_group = JObj [(''reuse'', JBool True), (''use_peers'', JBool True)]"

definition default_guest :: "string \<Rightarrow> string \<Rightarrow> string \<Rightarrow> string list \<Rightarrow> string \<Rightarrow> string \<Rightarrow> json" where
  "default_guest candidate vm_name payload suites compiler make_flags =
     (let selftests = (payload = ''selftests''); usertests = (payload = ''usertests'') in
      JObj
       [(''boot_orchestration'',
           JObj [(''wait_timeout'', JInt 300), (''emit_vars_yaml_snapshot'', JBool False)]),
        (''vm'', vm_group vm_name),
        (''qemu'', JObj [(''mode'', JStr ''nixpkgs'')]),
        (''boot_kernel'', JObj [(''kernel_parameters'', JList [])]),
        (''closure'', JObj
           [(''mode'', JStr ''build''),
            (''lock'', JObj [(''update_lock'', JBool True)]),
            (''guest'', JObj
               [(''vm_name'', JStr vm_name), (''home'', JBool True), (''shares'', JObj []),
                (''home_dir'', JStr []), (''ssh_keys'', JList []), (''user_name'', JStr ''kdevops'')]),
            (''closure'', JObj
               [(''profiles'', JList [JStr ''devel'']), (''overrides'', JList []),
                (''test_suites'', JList (strs (closure_suites payload)))])]),
        (''boot_nvme'', JObj
           [(''customize_drives'', JBool False), (''nvme_drive_count'', JInt 4),
            (''nvme_drive_size_gb'', JInt 20)]),
        (''kernel'', JObj
           [(''mode'', JStr ''build''),
            (''build'', JObj
               [(''ccache'', JBool True), (''compiler'', JStr compiler), (''make_flags'', JStr make_flags),
                (''reproducible'', JBool True)]),
            (''reuse'', reuse_group),
            (''installation'', JObj [(''install'', JBool True), (''modules_install'', JBool True)]),
            (''configuration'', JObj
               [(''config_method'', JStr ''preset''), (''preset'', JStr ''imageless_defconfig'')]),
            (''worktree'', JObj (worktree_group candidate)),
            (''selftests'', JObj
               [(''enable'', JBool selftests), (''targets'', JList (if selftests then strs suites else [])),
                (''extra_targets'', JStr [])]),
            (''usertests'', JObj
               [(''enable'', JBool usertests),
                (''harnesses'', JList (if usertests then strs (harness_dirs suites) else []))])]),
        (''boot_qemu'', JObj
           [(''cpu'', JStr ''host''), (''ram'', JInt 4096), (''cpus'', JInt 4), (''accel'', JStr ''kvm''),
            (''iommu'', JStr []), (''machine_type'', JStr ''q35'')]),
        (''boot_networking'', JObj
           [(''vm_index'', JInt 0), (''ssh_port_base'', JInt 10022), (''vsock_cid_base'', JInt 100),
            (''custom_ssh_port'', JBool False), (''custom_vsock_cid'', JBool False)]),
        (''boot_sharing'', JObj
           [(''home_share'', JBool True), (''controller_share'', JBool False),
            (''custom_virtiofsd'', JBool False), (''home_share_readwrite'', JBool True)])])"

section \<open>A pasted guest\<close>

text \<open>\<open>closure.setdefault("guest", {})["vm_name"] = vm_name\<close> and the union of its test suites.\<close>

definition own_closure :: "string \<Rightarrow> string \<Rightarrow> json \<Rightarrow> json result" where
  "own_closure vm_name payload closure =
     andthen (members AttributeError closure) (\<lambda>c.
     andthen (members TypeError (case dict_get c ''guest'' of None \<Rightarrow> JObj [] | Some g \<Rightarrow> g)) (\<lambda>g.
     let c' = dict_set ''guest'' (JObj (dict_set ''vm_name'' (JStr vm_name) g)) c in
     andthen (members AttributeError (case dict_get c' ''closure'' of None \<Rightarrow> JObj [] | Some b \<Rightarrow> b)) (\<lambda>body.
     andthen (union_json (get_or_json body ''test_suites'' (JList [])) (closure_suites payload)) (\<lambda>u.
     Inr (JObj (dict_set ''closure'' (JObj (dict_set ''test_suites'' u body)) c'))))))"

text \<open>\<open>pasted.pop("ref", None)\<close> of a list raises \<open>TypeError\<close>, of any other value \<open>AttributeError\<close>.\<close>

definition own_worktree :: "string \<Rightarrow> (string, json) dict \<Rightarrow> json result" where
  "own_worktree candidate kern =
     (case get_or_json kern ''worktree'' (JObj []) of
        JObj w \<Rightarrow> Inr (JObj (dict_merge (dict_del ''ref'' w) (worktree_group candidate)))
      | JList _ \<Rightarrow> Inl TypeError
      | _ \<Rightarrow> Inl AttributeError)"

definition own_build :: "string \<Rightarrow> string \<Rightarrow> (string, json) dict \<Rightarrow> json result" where
  "own_build compiler make_flags kern =
     andthen (members TypeError (get_or_json kern ''build'' (JObj []))) (\<lambda>b.
     Inr (JObj (dict_merge b [(''compiler'', JStr compiler), (''make_flags'', JStr make_flags)])))"

text \<open>The group of a suite payload: enabled, with its list the pasted one and the bisect's own.\<close>

definition own_suite :: "string \<Rightarrow> string \<Rightarrow> string list \<Rightarrow> (string, json) dict \<Rightarrow> (string, json) dict result" where
  "own_suite name field extra kern =
     andthen (members TypeError (get_or_json kern name (JObj []))) (\<lambda>p.
     andthen (union_json (get_or_json p field (JList [])) extra) (\<lambda>u.
     Inr (dict_set name (JObj (dict_merge p [(''enable'', JBool True), (field, u)])) kern)))"

definition own_suites :: "string \<Rightarrow> string list \<Rightarrow> (string, json) dict \<Rightarrow> (string, json) dict result" where
  "own_suites payload suites kern =
     (if payload = ''selftests'' then own_suite ''selftests'' ''targets'' suites kern
      else if payload = ''usertests'' then own_suite ''usertests'' ''harnesses'' (harness_dirs suites) kern
      else Inr kern)"

definition own_kernel ::
  "string \<Rightarrow> string \<Rightarrow> string list \<Rightarrow> string \<Rightarrow> string \<Rightarrow> json \<Rightarrow> json result" where
  "own_kernel candidate payload suites compiler make_flags kern =
     andthen (members TypeError kern) (\<lambda>k.
     andthen (own_worktree candidate (dict_set ''mode'' (JStr ''build'') k)) (\<lambda>w.
     let k2 = dict_set ''worktree'' w (dict_set ''mode'' (JStr ''build'') k) in
     andthen (own_build compiler make_flags k2) (\<lambda>b.
     andthen (own_suites payload suites (dict_set ''reuse'' reuse_group (dict_set ''build'' b k2))) (\<lambda>k4.
     Inr (JObj k4)))))"

definition item_of :: "(string, json) dict \<Rightarrow> string \<Rightarrow> json result" where
  "item_of d key = (case dict_get d key of None \<Rightarrow> Inl KeyError | Some v \<Rightarrow> Inr v)"

definition pasted_guest ::
  "string \<Rightarrow> string \<Rightarrow> string \<Rightarrow> string list \<Rightarrow> string \<Rightarrow> string \<Rightarrow> (string, json) dict \<Rightarrow> json result" where
  "pasted_guest candidate vm_name payload suites compiler make_flags guest =
     (let args = dict_del ''worktree'' (dict_set ''vm'' (vm_group vm_name) guest) in
      andthen (item_of args ''closure'') (\<lambda>closure.
      andthen (own_closure vm_name payload closure) (\<lambda>c.
      andthen (item_of args ''kernel'') (\<lambda>kern.
      andthen (own_kernel candidate payload suites compiler make_flags kern) (\<lambda>k.
      Inr (JObj (dict_set ''kernel'' k (dict_set ''closure'' c args))))))))"

definition bringup_args ::
  "string \<Rightarrow> string \<Rightarrow> string \<Rightarrow> string list \<Rightarrow> string \<Rightarrow> string \<Rightarrow> json \<Rightarrow> json result" where
  "bringup_args candidate vm_name payload suites compiler make_flags guest =
     (if \<not> truthy guest then Inr (default_guest candidate vm_name payload suites compiler make_flags)
      else andthen (check_guest guest) (\<lambda>_.
           andthen (members ValueError guest) (pasted_guest candidate vm_name payload suites compiler make_flags)))"

section \<open>What the guest keeps and what the bisect owns\<close>

lemma own_suites_other:
  "own_suites payload suites k = Inr e \<Longrightarrow> key \<notin> {''selftests'', ''usertests''} \<Longrightarrow> dict_get e key = dict_get k key"
  by (auto simp: own_suites_def own_suite_def andthen_Inr split: if_splits)

definition bisect_keys :: "string set" where
  "bisect_keys = {''mode'', ''worktree'', ''build'', ''reuse'', ''selftests'', ''usertests''}"

lemma own_kernel_spec:
  assumes "own_kernel candidate payload suites compiler make_flags kern = Inr k"
  shows "\<exists>d e. kern = JObj d \<and> k = JObj e \<and> (\<forall>key. key \<notin> bisect_keys \<longrightarrow> dict_get e key = dict_get d key)
    \<and> dict_get e ''mode'' = Some (JStr ''build'') \<and> dict_get e ''reuse'' = Some reuse_group
    \<and> jget [''worktree'', ''git_ref''] k = Some (JStr candidate)
    \<and> jget [''worktree'', ''b4_series''] k = Some (JStr [])
    \<and> jget [''worktree'', ''ref''] k = None
    \<and> jget [''build'', ''compiler''] k = Some (JStr compiler)
    \<and> jget [''build'', ''make_flags''] k = Some (JStr make_flags)"
proof -
  from assms obtain d w b e where d: "kern = JObj d" "k = JObj e"
    and w: "own_worktree candidate (dict_set ''mode'' (JStr ''build'') d) = Inr w"
    and b: "own_build compiler make_flags (dict_set ''worktree'' w (dict_set ''mode'' (JStr ''build'') d)) = Inr b"
    and e: "own_suites payload suites (dict_set ''reuse'' reuse_group (dict_set ''build'' b
          (dict_set ''worktree'' w (dict_set ''mode'' (JStr ''build'') d)))) = Inr e"
    by (auto simp only: own_kernel_def members_Inr andthen_Inr Let_def sum.inject)
  from w obtain w0 where w0: "w = JObj (dict_merge (dict_del ''ref'' w0) (worktree_group candidate))"
    by (auto simp: own_worktree_def split: json.splits)
  from b obtain b0 where b0: "b = JObj (dict_merge b0 [(''compiler'', JStr compiler), (''make_flags'', JStr make_flags)])"
    by (auto simp: own_build_def andthen_Inr)
  have get: "dict_get e key = dict_get (dict_set ''reuse'' reuse_group (dict_set ''build'' b
          (dict_set ''worktree'' w (dict_set ''mode'' (JStr ''build'') d)))) key"
    if "key \<notin> {''selftests'', ''usertests''}" for key
    by (rule own_suites_other [OF e that])
  have "dict_get e ''mode'' = Some (JStr ''build'')" "dict_get e ''reuse'' = Some reuse_group"
    "dict_get e ''worktree'' = Some w" "dict_get e ''build'' = Some b"
    by (simp_all add: get)
  moreover have "dict_get e key = dict_get d key" if "key \<notin> bisect_keys" for key
    using that by (simp add: get bisect_keys_def)
  ultimately show ?thesis
    by (intro exI [of _ d] exI [of _ e]) (simp add: d w0 b0 worktree_group_def)
qed

lemma union_json_spec:
  "union_json base extra = Inr u \<Longrightarrow>
    \<exists>us. u = JList us \<and> set (strs extra) \<subseteq> set us \<and> (\<forall>xs. base = JList xs \<longrightarrow> set xs \<subseteq> set us)"
  by (auto simp: union_json_def andthen_Inr split: if_splits)

lemma own_closure_spec:
  assumes "own_closure vm_name payload closure = Inr c"
  shows "jget [''guest'', ''vm_name''] c = Some (JStr vm_name)
    \<and> (\<exists>us. jget [''closure'', ''test_suites''] c = Some (JList us)
         \<and> set (strs (closure_suites payload)) \<subseteq> set us
         \<and> (\<forall>xs. jget [''closure'', ''test_suites''] closure = Some (JList xs) \<longrightarrow> set xs \<subseteq> set us))"
proof -
  from assms obtain d g body u where d: "closure = JObj d"
    and body: "(case dict_get (dict_set ''guest'' (JObj (dict_set ''vm_name'' (JStr vm_name) g)) d) ''closure'' of
        None \<Rightarrow> JObj [] | Some b \<Rightarrow> b) = JObj body"
    and u: "union_json (get_or_json body ''test_suites'' (JList [])) (closure_suites payload) = Inr u"
    and c: "c = JObj (dict_set ''closure'' (JObj (dict_set ''test_suites'' u body))
        (dict_set ''guest'' (JObj (dict_set ''vm_name'' (JStr vm_name) g)) d))"
    by (auto simp only: own_closure_def members_Inr andthen_Inr Let_def sum.inject)
  from union_json_spec [OF u] obtain us where us: "u = JList us" "set (strs (closure_suites payload)) \<subseteq> set us"
    "\<And>xs. get_or_json body ''test_suites'' (JList []) = JList xs \<Longrightarrow> set xs \<subseteq> set us"
    by blast
  have kept: "set xs \<subseteq> set us" if "jget [''closure'', ''test_suites''] closure = Some (JList xs)" for xs
  proof (rule us(3))
    from that obtain b where b: "dict_get d ''closure'' = Some b" "jget [''test_suites''] b = Some (JList xs)"
      by (auto simp: d split: option.splits)
    with body have "b = JObj body" by simp
    with b(2) show "get_or_json body ''test_suites'' (JList []) = JList xs"
      by (auto simp: get_or_json_def or_json_def split: option.splits)
  qed
  show ?thesis using us(1,2) kept by (auto simp: c)
qed

section \<open>Properties\<close>

text \<open>
  Whatever guest is pasted, the bringup inputs a bisect hands on build the candidate commit and
  nothing else: the kernel ref is the candidate with no series and no \<open>ref\<close> on top, built here with
  the bisect's compiler and flags, booted under the bisect's VM name with the payload's closure
  suite, with no developer worktree; and every other key of the pasted guest and of its kernel
  group, and every test suite it lists, is kept.
\<close>

theorem bringup_args_candidate:
  assumes "bringup_args candidate vm_name payload suites compiler make_flags guest = Inr args"
  shows "jget [''kernel'', ''worktree'', ''git_ref''] args = Some (JStr candidate)
    \<and> jget [''kernel'', ''worktree'', ''b4_series''] args = Some (JStr [])
    \<and> jget [''kernel'', ''worktree'', ''ref''] args = None
    \<and> jget [''kernel'', ''mode''] args = Some (JStr ''build'')
    \<and> jget [''kernel'', ''build'', ''compiler''] args = Some (JStr compiler)
    \<and> jget [''kernel'', ''build'', ''make_flags''] args = Some (JStr make_flags)
    \<and> jget [''vm''] args = Some (vm_group vm_name)
    \<and> jget [''closure'', ''guest'', ''vm_name''] args = Some (JStr vm_name)
    \<and> jget [''worktree''] args = None
    \<and> (\<exists>us. jget [''closure'', ''closure'', ''test_suites''] args = Some (JList us)
         \<and> set (strs (closure_suites payload)) \<subseteq> set us
         \<and> (\<forall>xs. truthy guest \<and> jget [''closure'', ''closure'', ''test_suites''] guest = Some (JList xs)
              \<longrightarrow> set xs \<subseteq> set us))
    \<and> (truthy guest \<longrightarrow>
         (\<forall>key. key \<notin> {''vm'', ''worktree'', ''closure'', ''kernel''} \<longrightarrow> jget [key] args = jget [key] guest)
         \<and> (\<forall>key. key \<notin> bisect_keys \<longrightarrow> jget [''kernel'', key] args = jget [''kernel'', key] guest))"
proof (cases "truthy guest")
  case False
  with assms have args: "args = default_guest candidate vm_name payload suites compiler make_flags"
    by (simp add: bringup_args_def)
  show ?thesis using False by (simp add: args default_guest_def Let_def worktree_group_def)
next
  case True
  let ?args = "\<lambda>g. dict_del ''worktree'' (dict_set ''vm'' (vm_group vm_name) g)"
  from True assms obtain g where g: "guest = JObj g"
    and p: "pasted_guest candidate vm_name payload suites compiler make_flags g = Inr args"
    by (auto simp: bringup_args_def andthen_Inr members_Inr)
  from p obtain cl c ke k where cl: "item_of (?args g) ''closure'' = Inr cl"
    and c: "own_closure vm_name payload cl = Inr c"
    and ke: "item_of (?args g) ''kernel'' = Inr ke"
    and k: "own_kernel candidate payload suites compiler make_flags ke = Inr k"
    and args: "args = JObj (dict_set ''kernel'' k (dict_set ''closure'' c (?args g)))"
    by (auto simp only: pasted_guest_def andthen_Inr Let_def sum.inject)
  have "dict_get g ''closure'' = Some cl" "dict_get g ''kernel'' = Some ke"
    using cl ke by (auto simp: item_of_def split: option.splits)
  then have K: "jget (''kernel'' # ks) args = jget ks k" "jget (''kernel'' # ks) guest = jget ks ke"
    and C: "jget (''closure'' # ks) args = jget ks c" "jget (''closure'' # ks) guest = jget ks cl" for ks
    by (simp_all add: args g)
  have top: "jget [''vm''] args = Some (vm_group vm_name)" "jget [''worktree''] args = None"
    "\<And>key. key \<notin> {''vm'', ''worktree'', ''closure'', ''kernel''} \<Longrightarrow> jget [key] args = jget [key] guest"
    by (simp_all add: args g)
  obtain d e where de: "ke = JObj d" "k = JObj e"
    "\<And>key. key \<notin> bisect_keys \<Longrightarrow> dict_get e key = dict_get d key"
    and mode: "dict_get e ''mode'' = Some (JStr ''build'')"
    and spec: "jget [''worktree'', ''git_ref''] k = Some (JStr candidate)"
    "jget [''worktree'', ''b4_series''] k = Some (JStr [])" "jget [''worktree'', ''ref''] k = None"
    "jget [''build'', ''compiler''] k = Some (JStr compiler)"
    "jget [''build'', ''make_flags''] k = Some (JStr make_flags)"
    using own_kernel_spec [OF k] by blast
  have kept: "jget [''mode''] k = Some (JStr ''build'')" "\<And>key. key \<notin> bisect_keys \<Longrightarrow> jget [key] k = jget [key] ke"
    using de mode by simp_all
  obtain us where us: "jget [''guest'', ''vm_name''] c = Some (JStr vm_name)"
    "jget [''closure'', ''test_suites''] c = Some (JList us)" "set (strs (closure_suites payload)) \<subseteq> set us"
    "\<And>xs. truthy guest \<and> jget [''closure'', ''test_suites''] cl = Some (JList xs) \<Longrightarrow> set xs \<subseteq> set us"
    using own_closure_spec [OF c] by blast
  show ?thesis
    unfolding K C
    by (assumption | rule conjI impI allI exI [of _ us] spec kept top us)+
qed

definition demo_guest :: json where
  "demo_guest = JObj
     [(''worktree'', JObj [(''ref'', JStr ''dev'')]),
      (''boot_qemu'', JObj [(''ram'', JInt 8192)]),
      (''kernel'', JObj [(''worktree'', JObj [(''ref'', JStr ''v6.0''), (''b4_series'', JStr ''x@y'')]),
         (''installation'', JBool True)]),
      (''closure'', JObj [(''closure'', JObj [(''test_suites'', JList [JStr ''fstests''])])])]"

theorem bringup_args_candidate_witness:
  "\<exists>args. bringup_args ''c0ffee'' ''vm1'' ''selftests'' [''size''] ''clang'' [] demo_guest = Inr args
     \<and> jget [''kernel'', ''worktree'', ''git_ref''] args = Some (JStr ''c0ffee'')
     \<and> jget [''boot_qemu'', ''ram''] args = Some (JInt 8192)"
proof -
  have "is_ok (bringup_args ''c0ffee'' ''vm1'' ''selftests'' [''size''] ''clang'' [] demo_guest)"
    by code_simp
  then obtain args where args: "bringup_args ''c0ffee'' ''vm1'' ''selftests'' [''size''] ''clang'' [] demo_guest = Inr args"
    by (auto simp: is_ok_iff)
  have "jget [''boot_qemu''] demo_guest = Some (JObj [(''ram'', JInt 8192)])" "truthy demo_guest"
    by (simp_all add: demo_guest_def)
  moreover from bringup_args_candidate [OF args] calculation
  have "jget [''kernel'', ''worktree'', ''git_ref''] args = Some (JStr ''c0ffee'')"
    "jget [''boot_qemu''] args = jget [''boot_qemu''] demo_guest"
    by auto
  ultimately show ?thesis using args by (cases args) (auto split: option.splits)
qed

end
