(* ===== verification/Bisect.thy ===== *)
theory Bisect
  imports Effects Bringup
begin

text \<open>
  The bisect brain (\<open>f/kernel/bisect_step.py\<close>) and its judge (\<open>f/kernel/bisect_judge.py\<close>): one
  decision per iteration of the loop of \<open>f/kernel/bisect.flow\<close>, on the state kept in
  \<open>state.json\<close>. The file is modelled as the value it holds: what was read before the step, and
  what the step writes last, which it returns. Times and runtimes are integers.
\<close>

section \<open>Reports and verdicts\<close>

datatype verdict = Good | Bad | Skip

text \<open>A report file: when it was last written, and what it parses to if it is a JSON object.\<close>

record report =
  rep_status :: "string option"
  rep_runtimes :: "int option list"

record report_file =
  rf_is_file :: bool
  rf_mtime :: int
  rf_content :: "report option"

text \<open>The newest of the files that are there, the first of those of one time.\<close>

fun newest_from :: "report_file option \<Rightarrow> report_file list \<Rightarrow> report_file option" where
  "newest_from best [] = best"
| "newest_from best (f # fs) =
     newest_from
       (if rf_is_file f \<and> (case best of None \<Rightarrow> True | Some b \<Rightarrow> rf_mtime f > rf_mtime b)
        then Some f else best) fs"

definition total_runtime :: "report \<Rightarrow> int" where
  "total_runtime r = sum_list (map (\<lambda>x. case x of None \<Rightarrow> 0 | Some n \<Rightarrow> n) (rep_runtimes r))"

definition report_verdict :: "report \<Rightarrow> int \<Rightarrow> verdict" where
  "report_verdict r max_runtime =
     (if rep_status r = Some ''untestable'' then Skip
      else if rep_status r \<noteq> Some ''passed'' then Bad
      else if max_runtime \<noteq> 0 \<and> total_runtime r > max_runtime then Bad
      else Good)"

definition fresh_verdict :: "report_file list \<Rightarrow> int \<Rightarrow> int \<Rightarrow> verdict option" where
  "fresh_verdict candidates decided_at max_runtime =
     (case newest_from None candidates of
        None \<Rightarrow> None
      | Some best \<Rightarrow>
          (if rf_mtime best \<le> decided_at then None
           else (case rf_content best of
                   None \<Rightarrow> None
                 | Some r \<Rightarrow> Some (report_verdict r max_runtime))))"

section \<open>The state\<close>

datatype phase = VerifyBad | VerifyGood | Bisecting

text \<open>The phases in the order a bisect goes through them.\<close>

fun phase_rank :: "phase \<Rightarrow> nat" where
  "phase_rank VerifyBad = 0"
| "phase_rank VerifyGood = 1"
| "phase_rank Bisecting = 2"

lemma phase_rank_inject: "phase_rank p = phase_rank q \<longleftrightarrow> p = q"
  by (cases p; cases q) simp_all

instantiation phase :: linorder
begin

definition less_eq_phase :: "phase \<Rightarrow> phase \<Rightarrow> bool" where
  "less_eq_phase p q = (phase_rank p \<le> phase_rank q)"

definition less_phase :: "phase \<Rightarrow> phase \<Rightarrow> bool" where
  "less_phase p q = (phase_rank p < phase_rank q)"

instance
  by standard (auto simp: less_eq_phase_def less_phase_def phase_rank_inject)

end

datatype outcome =
    Running
  | NotReproducibleStandalone
  | EndpointUntestable
  | GoodEndpointFailed
  | Inconclusive
  | FirstBadFound
  | MaxStepsExceeded

record iteration =
  it_phase :: phase
  it_candidate :: string
  it_verdict :: verdict

text \<open>The inputs that a running bisect is tied to; a state written before one existed lacks it.\<close>

record inputs =
  in_good :: string
  in_bad :: string
  in_suites :: "string list"
  in_payload :: string
  in_error_re :: string
  in_max_runtime :: int
  in_guest :: json

record bstate =
  b_good :: string
  b_bad :: string
  b_suites :: "string list"
  b_payload :: "string option"
  b_error_re :: "string option"
  b_max_runtime :: "int option"
  b_guest :: "json option"
  b_good_sha :: string
  b_bad_sha :: string
  b_phase :: phase
  b_candidate :: string
  b_decided_at :: int
  b_steps :: int
  b_iterations :: "iteration list"
  b_outcome :: outcome
  b_first_bad :: "string option"

definition with_default :: "'a \<Rightarrow> 'a option \<Rightarrow> 'a" where
  "with_default d x = (case x of None \<Rightarrow> d | Some y \<Rightarrow> y)"

definition stale :: "inputs \<Rightarrow> bstate option \<Rightarrow> bool" where
  "stale i st = (case st of
     None \<Rightarrow> True
   | Some s \<Rightarrow>
       b_good s \<noteq> in_good i \<or> b_bad s \<noteq> in_bad i \<or> b_suites s \<noteq> in_suites i
       \<or> with_default ''kunit'' (b_payload s) \<noteq> in_payload i
       \<or> with_default [] (b_error_re s) \<noteq> in_error_re i
       \<or> with_default 0 (b_max_runtime s) \<noteq> in_max_runtime i
       \<or> with_default (JObj []) (b_guest s) \<noteq> in_guest i
       \<or> b_outcome s \<noteq> Running)"

definition initial_state :: "inputs \<Rightarrow> string \<Rightarrow> string \<Rightarrow> bstate" where
  "initial_state i good_sha bad_sha =
     \<lparr>b_good = in_good i, b_bad = in_bad i, b_suites = in_suites i, b_payload = Some (in_payload i),
      b_error_re = Some (in_error_re i), b_max_runtime = Some (in_max_runtime i),
      b_guest = Some (in_guest i), b_good_sha = good_sha, b_bad_sha = bad_sha, b_phase = VerifyBad,
      b_candidate = bad_sha, b_decided_at = 0, b_steps = 0, b_iterations = [], b_outcome = Running,
      b_first_bad = None\<rparr>"

section \<open>git\<close>

definition in_repo :: "path \<Rightarrow> string list \<Rightarrow> string list" where
  "in_repo repo args = ''-C'' # path_str repo # args"

definition FIRST_BAD :: string where
  "FIRST_BAD = ''is the first bad commit''"

definition verify_ref :: "path \<Rightarrow> string \<Rightarrow> string prog" where
  "verify_ref repo candidate =
     bind (git_capture (in_repo repo [''rev-parse'', ''--verify'', candidate @ ''^{commit}'']))
       (\<lambda>txt. Ret (strip txt))"

definition resolve_endpoint :: "path \<Rightarrow> string \<Rightarrow> string prog" where
  "resolve_endpoint repo ref =
     bind (verify_ref repo ref) (\<lambda>sha. if sha \<noteq> [] then Ret sha else
     bind (verify_ref repo (''origin/'' @ ref)) (\<lambda>sha. if sha \<noteq> [] then Ret sha else
     Raise ValueError))"

fun verdict_word :: "verdict \<Rightarrow> string" where
  "verdict_word Good = ''good''"
| "verdict_word Bad = ''bad''"
| "verdict_word Skip = ''skip''"

definition bisect_feed :: "path \<Rightarrow> verdict \<Rightarrow> string \<Rightarrow> string prog" where
  "bisect_feed repo v sha = git_capture (in_repo repo [''bisect'', verdict_word v, sha])"

definition bisect_head :: "path \<Rightarrow> string prog" where
  "bisect_head repo =
     bind (git_capture (in_repo repo [''rev-parse'', ''--verify'', ''BISECT_HEAD'']))
       (\<lambda>txt. Ret (strip txt))"

section \<open>One decision\<close>

definition decide_bad :: "verdict \<Rightarrow> bstate \<Rightarrow> bstate" where
  "decide_bad v s = (case v of
     Good \<Rightarrow> s\<lparr>b_outcome := NotReproducibleStandalone\<rparr>
   | Bad \<Rightarrow> s\<lparr>b_phase := VerifyGood, b_candidate := b_good_sha s\<rparr>
   | Skip \<Rightarrow> s\<lparr>b_outcome := EndpointUntestable\<rparr>)"

definition decide_good :: "path \<Rightarrow> verdict \<Rightarrow> bstate \<Rightarrow> bstate prog" where
  "decide_good repo v s = (case v of
     Good \<Rightarrow>
       bind (git_run (in_repo repo [''bisect'', ''start'', ''--no-checkout'', b_bad_sha s, b_good_sha s])) (\<lambda>_.
       bind (bisect_head repo) (\<lambda>h.
       Ret (if h \<noteq> [] then s\<lparr>b_phase := Bisecting, b_candidate := h\<rparr>
            else s\<lparr>b_outcome := Inconclusive\<rparr>)))
   | Bad \<Rightarrow> Ret (s\<lparr>b_outcome := GoodEndpointFailed\<rparr>)
   | Skip \<Rightarrow> Ret (s\<lparr>b_outcome := EndpointUntestable\<rparr>))"

definition decide_bisect :: "path \<Rightarrow> int \<Rightarrow> verdict \<Rightarrow> bstate \<Rightarrow> bstate prog" where
  "decide_bisect repo max_steps v s =
     bind (bisect_feed repo v (b_candidate s)) (\<lambda>txt.
     let s' = s\<lparr>b_steps := b_steps s + 1\<rparr> in
     if contains FIRST_BAD txt
     then Ret (s'\<lparr>b_outcome := FirstBadFound, b_first_bad := Some (hd (split_ws txt))\<rparr>)
     else bind (bisect_head repo) (\<lambda>h.
       Ret (if h = [] then s'\<lparr>b_outcome := Inconclusive\<rparr>
            else if b_steps s' \<ge> max_steps then s'\<lparr>b_outcome := MaxStepsExceeded\<rparr>
            else s'\<lparr>b_candidate := h\<rparr>)))"

definition decide :: "path \<Rightarrow> int \<Rightarrow> verdict \<Rightarrow> bstate \<Rightarrow> bstate prog" where
  "decide repo max_steps v s =
     bind (case b_phase s of
             VerifyBad \<Rightarrow> Ret (decide_bad v s)
           | VerifyGood \<Rightarrow> decide_good repo v s
           | Bisecting \<Rightarrow> decide_bisect repo max_steps v s) (\<lambda>s'.
     Ret (s'\<lparr>b_iterations := b_iterations s'
            @ [\<lparr>it_phase = b_phase s, it_candidate = b_candidate s, it_verdict = v\<rparr>]\<rparr>))"

definition reset_state :: "path \<Rightarrow> path \<Rightarrow> inputs \<Rightarrow> bstate prog" where
  "reset_state system sdir i =
     (let repo = sdir @ [''repo'']; bare = system @ [''bare'', ''linux.git''] in
      bind (probe (Exists sdir)) (\<lambda>there.
      bind (only_if there (act (Rmtree sdir))) (\<lambda>_.
      bind (act (Mkdir sdir)) (\<lambda>_.
      bind (git_run [''clone'', ''--shared'', ''--no-checkout'', path_str bare, path_str repo]) (\<lambda>_.
      bind (resolve_endpoint repo (in_bad i)) (\<lambda>bad_sha.
      bind (git_run (in_repo repo [''update-ref'', ''refs/heads/bisect-base'', bad_sha])) (\<lambda>_.
      bind (git_run (in_repo repo [''symbolic-ref'', ''HEAD'', ''refs/heads/bisect-base''])) (\<lambda>_.
      bind (resolve_endpoint repo (in_good i)) (\<lambda>good_sha.
      Ret (initial_state i good_sha bad_sha))))))))))"

text \<open>
  The decision of a step on the state it read, with the report files it finds. \<open>now\<close> is the time
  at its end.
\<close>

definition advance ::
  "path \<Rightarrow> path \<Rightarrow> inputs \<Rightarrow> int \<Rightarrow> int \<Rightarrow> report_file list \<Rightarrow> bstate option \<Rightarrow> bstate prog" where
  "advance system sdir i max_steps now files st =
     bind (if stale i st then reset_state system sdir i
           else (let s = the st;
                     v = with_default Skip (fresh_verdict files (b_decided_at s) (in_max_runtime i)) in
                 decide (sdir @ [''repo'']) max_steps v s)) (\<lambda>s.
     Ret (s\<lparr>b_decided_at := now\<rparr>))"

section \<open>The step\<close>

definition PAYLOADS :: "string list" where
  "PAYLOADS = [''kunit'', ''selftests'', ''runtime_tests'', ''usertests'']"

text \<open>The harnesses \<open>f/kernel/build_usertests.py\<close> can build (\<open>CATALOG\<close>).\<close>

definition USERTESTS_CATALOG :: "(string, string list) dict" where
  "USERTESTS_CATALOG =
     [(''radix-tree'', [''main'', ''xarray'', ''maple'', ''idr-test'', ''multiorder'']),
      (''vma'', [''vma'']), (''memblock'', [''main'']), (''scatterlist'', [''main''])]"

definition check_inputs :: "string list \<Rightarrow> string \<Rightarrow> json \<Rightarrow> unit result" where
  "check_inputs suites payload guest =
     andthen (check_guest guest) (\<lambda>_.
     if suites = [] then Inl ValueError
     else if payload \<notin> set (PAYLOADS @ [''usertests_build'']) then Inl ValueError
     else if payload = ''usertests_build'' \<and> (\<exists>s \<in> set suites. s \<notin> set (keys USERTESTS_CATALOG))
     then Inl ValueError else Inr ())"

definition state_dir :: "environ \<Rightarrow> string \<Rightarrow> path result" where
  "state_dir env vm_name = (case dict_get env ''SYSTEM_DIR'' of
     None \<Rightarrow> Inl KeyError
   | Some system \<Rightarrow> under (parts system @ [''bisect'']) vm_name)"

text \<open>The report files of a payload, all under the share of the VM but for the build check's own.\<close>

definition report_root :: "path \<Rightarrow> string \<Rightarrow> string \<Rightarrow> path \<Rightarrow> path result" where
  "report_root workers payload vm_name sdir =
     (if payload = ''usertests_build'' then Inr sdir
      else if payload = ''runtime_tests'' then under (workers @ [''shared'', ''runtime-tests'']) vm_name
      else under (workers @ [''shared'', payload]) vm_name)"

record step_result =
  sr_done :: bool
  sr_phase :: phase
  sr_candidate :: string
  sr_outcome :: outcome
  sr_steps :: int
  sr_bringup :: json

text \<open>
  \<open>main\<close>: the inputs are checked, the state file read (None when it is missing, unreadable or
  empty), the state advanced and written, and the next candidate's bringup inputs handed on.
  \<open>files\<close> gives the report files below a directory, \<open>dumps\<close> the text of a state.
\<close>

definition bisect_step_main ::
  "environ \<Rightarrow> string \<Rightarrow> string \<Rightarrow> string \<Rightarrow> string list \<Rightarrow> int \<Rightarrow> string \<Rightarrow> string \<Rightarrow> int \<Rightarrow> string \<Rightarrow> string
    \<Rightarrow> json \<Rightarrow> (bstate \<Rightarrow> string) \<Rightarrow> int \<Rightarrow> (path \<Rightarrow> report_file list) \<Rightarrow> bstate option \<Rightarrow> (bstate \<times> step_result) prog" where
  "bisect_step_main env vm_name good bad suites max_steps payload error_re max_runtime compiler make_flags
     guest0 dumps now files st =
     (let guest = or_json guest0 (JObj []);
          i = \<lparr>in_good = good, in_bad = bad, in_suites = suites, in_payload = payload,
               in_error_re = error_re, in_max_runtime = max_runtime, in_guest = guest\<rparr> in
      bind (of_result (check_inputs suites payload guest)) (\<lambda>_.
      bind (of_result (state_dir env vm_name)) (\<lambda>sdir.
      bind (of_result (workers_env env)) (\<lambda>workers.
      bind (resolve_git env) (\<lambda>_.
      let system = parts (the (dict_get env ''SYSTEM_DIR'')) in
      bind (if stale i st then Ret [] else
            bind (of_result (report_root workers payload vm_name sdir)) (\<lambda>root. Ret (files root))) (\<lambda>found.
      bind (advance system sdir i max_steps now found st) (\<lambda>s.
      bind (act (WriteText (sdir @ [''state.json'']) (dumps s))) (\<lambda>_.
      bind (of_result (bringup_args (b_candidate s) vm_name payload suites compiler make_flags guest)) (\<lambda>args.
      Ret (s, \<lparr>sr_done = (b_outcome s \<noteq> Running), sr_phase = b_phase s, sr_candidate = b_candidate s,
               sr_outcome = b_outcome s, sr_steps = b_steps s, sr_bringup = args\<rparr>))))))))))"

text \<open>
  The loop of the flow: one step after the other, on what the last one wrote, until one is done.
  \<open>files n\<close> and \<open>now n\<close> are what the \<open>n\<close>-th step from the end of the fuel finds; None is fuel
  that ran out.
\<close>

fun bisect_loop ::
  "nat \<Rightarrow> path \<Rightarrow> path \<Rightarrow> inputs \<Rightarrow> int \<Rightarrow> (nat \<Rightarrow> int) \<Rightarrow> (nat \<Rightarrow> report_file list) \<Rightarrow> 'w machine
    \<Rightarrow> bstate option \<Rightarrow> 'w \<Rightarrow> bstate result option" where
  "bisect_loop 0 system sdir i max_steps now files m st w = None"
| "bisect_loop (Suc n) system sdir i max_steps now files m st w =
     (case exec (advance system sdir i max_steps (now n) (files n) st) m w of
        (Inl e, w') \<Rightarrow> Some (Inl e)
      | (Inr s, w') \<Rightarrow>
          (if b_outcome s \<noteq> Running then Some (Inr s)
           else bisect_loop n system sdir i max_steps now files m (Some s) w'))"

text \<open>\<open>main\<close> of the judge.\<close>

definition CONCLUSIVE :: "outcome list" where
  "CONCLUSIVE = [FirstBadFound, NotReproducibleStandalone, GoodEndpointFailed]"

definition bisect_judge :: "bstate option \<Rightarrow> (outcome \<times> string) result" where
  "bisect_judge st = (case st of
     None \<Rightarrow> Inl FileNotFoundError
   | Some s \<Rightarrow>
       (if b_outcome s \<notin> set CONCLUSIVE then Inl RuntimeError
        else Inr (b_outcome s, with_default [] (b_first_bad s))))"

section \<open>The abstract state machine\<close>

text \<open>
  What a decision may do to the state, whatever git answers: the contract the code implements
  (\<open>decide_refines\<close> below).
\<close>

definition logged :: "bstate \<Rightarrow> verdict \<Rightarrow> bstate \<Rightarrow> bstate" where
  "logged s v s' = s'\<lparr>b_iterations := b_iterations s'
     @ [\<lparr>it_phase = b_phase s, it_candidate = b_candidate s, it_verdict = v\<rparr>]\<rparr>"

inductive decision :: "int \<Rightarrow> bstate \<Rightarrow> verdict \<Rightarrow> bstate \<Rightarrow> bool" for max_steps where
  alone_passes: "b_phase s = VerifyBad \<Longrightarrow>
    decision max_steps s Good (logged s Good (s\<lparr>b_outcome := NotReproducibleStandalone\<rparr>))"
| bad_confirmed: "b_phase s = VerifyBad \<Longrightarrow>
    decision max_steps s Bad (logged s Bad (s\<lparr>b_phase := VerifyGood, b_candidate := b_good_sha s\<rparr>))"
| endpoint_skipped: "b_phase s \<noteq> Bisecting \<Longrightarrow>
    decision max_steps s Skip (logged s Skip (s\<lparr>b_outcome := EndpointUntestable\<rparr>))"
| good_confirmed: "b_phase s = VerifyGood \<Longrightarrow> h \<noteq> [] \<Longrightarrow>
    decision max_steps s Good (logged s Good (s\<lparr>b_phase := Bisecting, b_candidate := h\<rparr>))"
| good_no_candidate: "b_phase s = VerifyGood \<Longrightarrow>
    decision max_steps s Good (logged s Good (s\<lparr>b_outcome := Inconclusive\<rparr>))"
| good_fails: "b_phase s = VerifyGood \<Longrightarrow>
    decision max_steps s Bad (logged s Bad (s\<lparr>b_outcome := GoodEndpointFailed\<rparr>))"
| found: "b_phase s = Bisecting \<Longrightarrow>
    decision max_steps s v (logged s v
      (s\<lparr>b_steps := b_steps s + 1, b_outcome := FirstBadFound, b_first_bad := Some c\<rparr>))"
| no_candidate: "b_phase s = Bisecting \<Longrightarrow>
    decision max_steps s v (logged s v (s\<lparr>b_steps := b_steps s + 1, b_outcome := Inconclusive\<rparr>))"
| out_of_steps: "b_phase s = Bisecting \<Longrightarrow> b_steps s + 1 \<ge> max_steps \<Longrightarrow>
    decision max_steps s v (logged s v (s\<lparr>b_steps := b_steps s + 1, b_outcome := MaxStepsExceeded\<rparr>))"
| narrowed: "b_phase s = Bisecting \<Longrightarrow> b_steps s + 1 < max_steps \<Longrightarrow> h \<noteq> [] \<Longrightarrow>
    decision max_steps s v (logged s v (s\<lparr>b_steps := b_steps s + 1, b_candidate := h\<rparr>))"

inductive_cases decisionE: "decision max_steps s v s'"

inductive bisect_reachable :: "inputs \<Rightarrow> int \<Rightarrow> bstate \<Rightarrow> bool" for i max_steps where
  start: "bisect_reachable i max_steps ((initial_state i g b)\<lparr>b_decided_at := now\<rparr>)"
| step: "bisect_reachable i max_steps s \<Longrightarrow> b_outcome s = Running \<Longrightarrow> decision max_steps s v s' \<Longrightarrow>
    bisect_reachable i max_steps (s'\<lparr>b_decided_at := now\<rparr>)"

text \<open>The code refines the machine.\<close>

lemma decide_sound: "sound (\<lambda>_. True) (decision max_steps s v) (decide repo max_steps v s)"
proof -
  have bad: "decision max_steps s v (logged s v (decide_bad v s))" if "b_phase s = VerifyBad"
    using that by (cases v) (auto simp: decide_bad_def intro: decision.intros)
  have good: "sound (\<lambda>_. True) (\<lambda>s'. decision max_steps s v (logged s v s')) (decide_good repo v s)"
    if "b_phase s = VerifyGood"
    using that
    by (cases v) (auto simp: decide_good_def bisect_head_def git_run_def git_capture_def intro: decision.intros)
  have mid: "sound (\<lambda>_. True) (\<lambda>s'. decision max_steps s v (logged s v s')) (decide_bisect repo max_steps v s)"
    if "b_phase s = Bisecting"
    using that
    by (auto simp: decide_bisect_def bisect_feed_def bisect_head_def git_capture_def Let_def
        intro: decision.intros)
  show ?thesis
    unfolding decide_def logged_def [symmetric]
  proof (rule sound_bind)
    show "sound (\<lambda>_. True) (\<lambda>s'. decision max_steps s v (logged s v s'))
      (case b_phase s of VerifyBad \<Rightarrow> Ret (decide_bad v s) | VerifyGood \<Rightarrow> decide_good repo v s
       | Bisecting \<Rightarrow> decide_bisect repo max_steps v s)"
      using bad good mid by (cases "b_phase s") auto
  qed simp
qed

lemma decide_refines: "exec (decide repo max_steps v s) m w = (Inr s', w') \<Longrightarrow> decision max_steps s v s'"
  by (rule sound_exec [OF decide_sound])

section \<open>The invariant\<close>

definition endpoint :: "phase \<Rightarrow> string \<Rightarrow> verdict \<Rightarrow> iteration" where
  "endpoint p c v = \<lparr>it_phase = p, it_candidate = c, it_verdict = v\<rparr>"

text \<open>Both endpoints behaved as the user said: the bad one failed alone, then the good one passed.\<close>

definition endpoints_verified :: "bstate \<Rightarrow> bool" where
  "endpoints_verified s =
     (\<exists>rest. b_iterations s = [endpoint VerifyBad (b_bad_sha s) Bad, endpoint VerifyGood (b_good_sha s) Good] @ rest
        \<and> (\<forall>it \<in> set rest. it_phase it = Bisecting) \<and> b_steps s = int (length rest))"

definition phase_inv :: "bstate \<Rightarrow> bool" where
  "phase_inv s = (case b_phase s of
     VerifyBad \<Rightarrow> b_candidate s = b_bad_sha s \<and> b_steps s = 0 \<and>
       (case b_outcome s of
          Running \<Rightarrow> b_iterations s = []
        | NotReproducibleStandalone \<Rightarrow> b_iterations s = [endpoint VerifyBad (b_bad_sha s) Good]
        | EndpointUntestable \<Rightarrow> b_iterations s = [endpoint VerifyBad (b_bad_sha s) Skip]
        | _ \<Rightarrow> False)
   | VerifyGood \<Rightarrow> b_candidate s = b_good_sha s \<and> b_steps s = 0 \<and>
       (let confirmed = [endpoint VerifyBad (b_bad_sha s) Bad] in
        case b_outcome s of
          Running \<Rightarrow> b_iterations s = confirmed
        | GoodEndpointFailed \<Rightarrow> b_iterations s = confirmed @ [endpoint VerifyGood (b_good_sha s) Bad]
        | EndpointUntestable \<Rightarrow> b_iterations s = confirmed @ [endpoint VerifyGood (b_good_sha s) Skip]
        | Inconclusive \<Rightarrow> endpoints_verified s
        | _ \<Rightarrow> False)
   | Bisecting \<Rightarrow> endpoints_verified s \<and> b_candidate s \<noteq> [] \<and>
       b_outcome s \<in> {Running, FirstBadFound, Inconclusive, MaxStepsExceeded})"

definition bisect_inv :: "inputs \<Rightarrow> int \<Rightarrow> bstate \<Rightarrow> bool" where
  "bisect_inv i max_steps s =
     (phase_inv s
      \<and> (b_first_bad s \<noteq> None \<longleftrightarrow> b_outcome s = FirstBadFound)
      \<and> (b_outcome s = MaxStepsExceeded \<longrightarrow> b_steps s \<ge> max_steps)
      \<and> b_steps s \<le> max 1 max_steps
      \<and> (b_outcome s = Running \<longrightarrow> b_steps s < max 1 max_steps)
      \<and> stale i (Some (s\<lparr>b_outcome := Running\<rparr>)) = False)"

lemma inv_start: "bisect_inv i max_steps ((initial_state i g b)\<lparr>b_decided_at := now\<rparr>)"
  by (auto simp: bisect_inv_def phase_inv_def initial_state_def stale_def with_default_def)

lemma stale_cong:
  assumes "b_good s' = b_good s" "b_bad s' = b_bad s" "b_suites s' = b_suites s" "b_payload s' = b_payload s"
    "b_error_re s' = b_error_re s" "b_max_runtime s' = b_max_runtime s" "b_guest s' = b_guest s"
  shows "stale i (Some (s'\<lparr>b_outcome := Running\<rparr>)) = stale i (Some (s\<lparr>b_outcome := Running\<rparr>))"
  using assms by (simp add: stale_def)

lemma decision_inputs:
  "decision max_steps s v s' \<Longrightarrow>
    b_good s' = b_good s \<and> b_bad s' = b_bad s \<and> b_suites s' = b_suites s \<and> b_payload s' = b_payload s
    \<and> b_error_re s' = b_error_re s \<and> b_max_runtime s' = b_max_runtime s \<and> b_guest s' = b_guest s
    \<and> b_good_sha s' = b_good_sha s \<and> b_bad_sha s' = b_bad_sha s"
  by (cases rule: decision.cases) (auto simp: logged_def)

lemma endpoints_verified_log:
  assumes "endpoints_verified s" "b_phase s = Bisecting" "b_bad_sha s' = b_bad_sha s"
    "b_good_sha s' = b_good_sha s" "b_iterations s' = b_iterations s" "b_steps s' = b_steps s + 1"
  shows "endpoints_verified (logged s v s')"
proof -
  from assms(1) obtain rest where rest: "b_iterations s =
      [endpoint VerifyBad (b_bad_sha s) Bad, endpoint VerifyGood (b_good_sha s) Good] @ rest"
    "\<forall>it \<in> set rest. it_phase it = Bisecting" "b_steps s = int (length rest)"
    by (auto simp: endpoints_verified_def)
  let ?it = "\<lparr>it_phase = b_phase s, it_candidate = b_candidate s, it_verdict = v\<rparr>"
  show ?thesis
    unfolding endpoints_verified_def
    by (rule exI [of _ "rest @ [?it]"]) (use rest assms(2-) in \<open>simp add: logged_def\<close>)
qed

lemma phase_inv_step:
  assumes inv: "phase_inv s" and run: "b_outcome s = Running" and dec: "decision max_steps s v s'"
  shows "phase_inv s'"
  using dec
proof (cases rule: decision.cases)
  case (found c)
  then have "endpoints_verified (logged s v (s\<lparr>b_steps := b_steps s + 1, b_outcome := FirstBadFound, b_first_bad := Some c\<rparr>))"
    using inv by (intro endpoints_verified_log) (auto simp: phase_inv_def)
  with found inv run show ?thesis by (simp add: phase_inv_def logged_def)
next
  case no_candidate
  then have "endpoints_verified (logged s v (s\<lparr>b_steps := b_steps s + 1, b_outcome := Inconclusive\<rparr>))"
    using inv by (intro endpoints_verified_log) (auto simp: phase_inv_def)
  with no_candidate inv run show ?thesis by (simp add: phase_inv_def logged_def)
next
  case out_of_steps
  then have "endpoints_verified (logged s v (s\<lparr>b_steps := b_steps s + 1, b_outcome := MaxStepsExceeded\<rparr>))"
    using inv by (intro endpoints_verified_log) (auto simp: phase_inv_def)
  with out_of_steps inv run show ?thesis by (simp add: phase_inv_def logged_def)
next
  case (narrowed h)
  then have "endpoints_verified (logged s v (s\<lparr>b_steps := b_steps s + 1, b_candidate := h\<rparr>))"
    using inv by (intro endpoints_verified_log) (auto simp: phase_inv_def)
  with narrowed inv run show ?thesis by (simp add: phase_inv_def logged_def)
next
  case endpoint_skipped
  then show ?thesis
    using inv run by (cases "b_phase s") (auto simp: phase_inv_def logged_def endpoint_def)
qed (use inv run in \<open>auto simp: phase_inv_def logged_def endpoint_def endpoints_verified_def\<close>)

lemma inv_step:
  assumes inv: "bisect_inv i max_steps s" and run: "b_outcome s = Running" and dec: "decision max_steps s v s'"
  shows "bisect_inv i max_steps (s'\<lparr>b_decided_at := now\<rparr>)"
proof -
  have keep: "phase_inv (s'\<lparr>b_decided_at := now\<rparr>) = phase_inv s'"
    by (simp add: phase_inv_def endpoints_verified_def split: phase.splits outcome.splits)
  have "stale i (Some (s'\<lparr>b_decided_at := now, b_outcome := Running\<rparr>)) = stale i (Some (s\<lparr>b_outcome := Running\<rparr>))"
    by (rule stale_cong) (use decision_inputs [OF dec] in simp_all)
  moreover have "phase_inv s'" using inv run dec by (auto simp: bisect_inv_def intro: phase_inv_step)
  moreover have "(b_first_bad s' \<noteq> None \<longleftrightarrow> b_outcome s' = FirstBadFound)
      \<and> (b_outcome s' = MaxStepsExceeded \<longrightarrow> b_steps s' \<ge> max_steps) \<and> b_steps s' \<le> max 1 max_steps
      \<and> (b_outcome s' = Running \<longrightarrow> b_steps s' < max 1 max_steps)"
    using dec inv run by (cases rule: decision.cases) (auto simp: bisect_inv_def logged_def)
  ultimately show ?thesis using inv by (simp add: bisect_inv_def keep)
qed

lemma reachable_inv: "bisect_reachable i max_steps s \<Longrightarrow> bisect_inv i max_steps s"
  by (induction rule: bisect_reachable.induct) (auto intro: inv_start inv_step)

lemma found_steps: "bisect_reachable i max_steps s \<Longrightarrow> b_outcome s = FirstBadFound \<Longrightarrow> b_steps s > 0"
proof (induction rule: bisect_reachable.induct)
  case (start g b now)
  then show ?case by (simp add: initial_state_def)
next
  case (step s v s' now)
  have "b_steps s \<ge> 0"
    using reachable_inv [OF step.hyps(1)]
    by (auto simp: bisect_inv_def phase_inv_def endpoints_verified_def split: phase.splits)
  with step.hyps(3) step.prems step.hyps(2) show ?case
    by (cases rule: decision.cases) (auto simp: logged_def)
qed

section \<open>Termination of the loop\<close>

text \<open>The decisions a running bisect can still take.\<close>

definition decisions_left :: "int \<Rightarrow> bstate \<Rightarrow> nat" where
  "decisions_left max_steps s = (case b_phase s of
     VerifyBad \<Rightarrow> 2 + nat (max 1 max_steps)
   | VerifyGood \<Rightarrow> 1 + nat (max 1 max_steps)
   | Bisecting \<Rightarrow> nat (max 1 max_steps - b_steps s))"

lemma decision_progress:
  assumes "bisect_inv i max_steps s" "b_outcome s = Running" "decision max_steps s v s'" "b_outcome s' = Running"
  shows "decisions_left max_steps s' < decisions_left max_steps s"
  using assms(3)
proof (cases rule: decision.cases)
  case bad_confirmed
  then show ?thesis by (simp add: decisions_left_def logged_def)
next
  case (good_confirmed h)
  have "b_steps s = 0" using assms(1) good_confirmed by (simp add: bisect_inv_def phase_inv_def)
  with good_confirmed show ?thesis by (simp add: decisions_left_def logged_def)
next
  case (narrowed h)
  then show ?thesis by (simp add: decisions_left_def logged_def)
qed (use assms(2,4) in \<open>auto simp: logged_def\<close>)

lemma stale_running:
  "bisect_inv i max_steps s \<Longrightarrow> b_outcome s = Running \<Longrightarrow> stale i (Some s) = False"
  by (simp add: bisect_inv_def) (simp add: stale_def)

lemma advance_running:
  assumes "bisect_inv i max_steps s" "b_outcome s = Running"
    and run: "exec (advance system sdir i max_steps now files (Some s)) m w = (Inr s', w')"
  shows "\<exists>v s''. decision max_steps s v s'' \<and> s' = s''\<lparr>b_decided_at := now\<rparr>"
proof -
  have fresh: "\<not> stale i (Some s)" using stale_running [OF assms(1,2)] by simp
  let ?v = "with_default Skip (fresh_verdict files (b_decided_at s) (in_max_runtime i))"
  from run fresh obtain s'' where ex: "exec (decide (sdir @ [''repo'']) max_steps ?v s) m w = (Inr s'', w')"
    and s': "s' = s''\<lparr>b_decided_at := now\<rparr>"
    by (auto simp: advance_def exec_bind Let_def split: prod.splits sum.splits)
  show ?thesis using decide_refines [OF ex] s' by blast
qed

lemma loop_running:
  assumes "bisect_inv i max_steps s" "b_outcome s = Running" "decisions_left max_steps s \<le> n" "0 < decisions_left max_steps s"
  shows "\<exists>r. bisect_loop n system sdir i max_steps now files m (Some s) w = Some r
    \<and> (\<forall>s'. r = Inr s' \<longrightarrow> b_outcome s' \<noteq> Running \<and> bisect_inv i max_steps s')"
  using assms
proof (induction n arbitrary: s w)
  case 0
  then show ?case by simp
next
  case (Suc n)
  obtain r w' where run: "exec (advance system sdir i max_steps (now n) (files n) (Some s)) m w = (r, w')"
    by (cases "exec (advance system sdir i max_steps (now n) (files n) (Some s)) m w")
  show ?case
  proof (cases r)
    case (Inl e)
    then show ?thesis using run by simp
  next
    case (Inr s')
    with run have run': "exec (advance system sdir i max_steps (now n) (files n) (Some s)) m w = (Inr s', w')"
      by simp
    obtain v s'' where dec: "decision max_steps s v s''" and s': "s' = s''\<lparr>b_decided_at := now n\<rparr>"
      using advance_running [OF Suc.prems(1,2) run'] by blast
    have inv: "bisect_inv i max_steps s'"
      unfolding s' by (rule inv_step [OF Suc.prems(1,2) dec])
    show ?thesis
    proof (cases "b_outcome s' = Running")
      case True
      have left: "decisions_left max_steps s' = decisions_left max_steps s''"
        by (cases "b_phase s''") (simp_all add: s' decisions_left_def)
      have "decisions_left max_steps s'' < decisions_left max_steps s"
        using decision_progress [OF Suc.prems(1,2) dec] True s' by simp
      then have "decisions_left max_steps s' \<le> n" using Suc.prems(3) left by simp
      moreover have "0 < decisions_left max_steps s'"
        using inv True by (auto simp: decisions_left_def bisect_inv_def split: phase.splits)
      ultimately show ?thesis using Suc.IH [OF inv True] run' True by simp
    next
      case False
      with inv run' show ?thesis by simp
    qed
  qed
qed

lemma advance_stale:
  assumes "stale i st" and run: "exec (advance system sdir i max_steps now files st) m w = (Inr s, w')"
  shows "\<exists>g b. s = (initial_state i g b)\<lparr>b_decided_at := now\<rparr>"
proof -
  have "sound (\<lambda>_. True) (\<lambda>s. \<exists>g b. s = initial_state i g b) (reset_state system sdir i)"
    unfolding reset_state_def Let_def by (intro sound_bind [where Q = "\<lambda>_. True"]) auto
  with run assms(1) show ?thesis
    by (auto simp: advance_def exec_bind split: prod.splits sum.splits dest!: sound_exec)
qed

section \<open>Fresh verdicts\<close>

lemma newest_from_spec:
  "newest_from best fs = Some f \<Longrightarrow>
    (best = Some f \<or> f \<in> set fs \<and> rf_is_file f)
    \<and> (\<forall>g \<in> set fs. rf_is_file g \<longrightarrow> rf_mtime g \<le> rf_mtime f)
    \<and> (\<forall>b. best = Some b \<longrightarrow> rf_mtime b \<le> rf_mtime f)"
proof (induction best fs rule: newest_from.induct)
  case (1 best)
  then show ?case by simp
next
  case (2 best f' fs)
  let ?take = "rf_is_file f' \<and> (case best of None \<Rightarrow> True | Some b \<Rightarrow> rf_mtime f' > rf_mtime b)"
  show ?case
  proof (cases ?take)
    case True
    have "newest_from (Some f') fs = Some f" using "2.prems" by (simp only: newest_from.simps if_P [OF True])
    with True "2.IH" [unfolded if_P [OF True]] show ?thesis
      by (auto split: option.splits)
  next
    case False
    have "newest_from best fs = Some f" using "2.prems" by (simp only: newest_from.simps if_not_P [OF False])
    with False "2.IH" [unfolded if_not_P [OF False]] show ?thesis
      by (auto split: option.splits)
  qed
qed

lemma newest_from_Some: "newest_from (Some b) fs \<noteq> None"
  by (induction fs arbitrary: b) auto

lemma newest_from_None: "newest_from None fs = None \<longleftrightarrow> (\<forall>f \<in> set fs. \<not> rf_is_file f)"
  by (induction fs) (auto simp: newest_from_Some)

section \<open>Properties\<close>


definition demo_inputs :: inputs where
  "demo_inputs = \<lparr>in_good = ''v7.0'', in_bad = ''master'', in_suites = [''rust''], in_payload = ''kunit'',
     in_error_re = [], in_max_runtime = 0, in_guest = JObj []\<rparr>"



definition git_found :: "unit machine" where
  "git_found w c = (\<lparr>rc = 0, out = ''c0ffee is the first bad commit'', entries = []\<rparr>, ())"


text \<open>
  C17: no verdict is ever older than the last decision: a verdict comes from a report file written
  after it, the newest of those there, and is \<open>good\<close> only for a report that passed within the
  runtime limit; with no report written since, there is no verdict and the step reads \<open>skip\<close>.
\<close>

theorem fresh_verdict_fresh:
  shows "(fresh_verdict files decided_at max_runtime = Some v \<longrightarrow>
      (\<exists>f \<in> set files. \<exists>r. rf_is_file f \<and> rf_mtime f > decided_at \<and> rf_content f = Some r
         \<and> v = report_verdict r max_runtime
         \<and> (\<forall>g \<in> set files. rf_is_file g \<longrightarrow> rf_mtime g \<le> rf_mtime f)
         \<and> (v = Good \<longrightarrow> rep_status r = Some ''passed'' \<and> (max_runtime \<noteq> 0 \<longrightarrow> total_runtime r \<le> max_runtime))))
    \<and> ((\<forall>f \<in> set files. rf_is_file f \<longrightarrow> rf_mtime f \<le> decided_at) \<longrightarrow>
         fresh_verdict files decided_at max_runtime = None)"
proof (intro conjI impI)
  assume "fresh_verdict files decided_at max_runtime = Some v"
  then obtain f r where f: "newest_from None files = Some f" "rf_mtime f > decided_at"
    "rf_content f = Some r" "v = report_verdict r max_runtime"
    by (auto simp: fresh_verdict_def split: option.splits if_splits)
  moreover have "v = Good \<longrightarrow> rep_status r = Some ''passed'' \<and> (max_runtime \<noteq> 0 \<longrightarrow> total_runtime r \<le> max_runtime)"
    unfolding f(4) by (auto simp: report_verdict_def)
  ultimately show "\<exists>f \<in> set files. \<exists>r. rf_is_file f \<and> rf_mtime f > decided_at \<and> rf_content f = Some r
       \<and> v = report_verdict r max_runtime
       \<and> (\<forall>g \<in> set files. rf_is_file g \<longrightarrow> rf_mtime g \<le> rf_mtime f)
       \<and> (v = Good \<longrightarrow> rep_status r = Some ''passed'' \<and> (max_runtime \<noteq> 0 \<longrightarrow> total_runtime r \<le> max_runtime))"
    using newest_from_spec [OF f(1)] by blast
next
  assume old: "\<forall>f \<in> set files. rf_is_file f \<longrightarrow> rf_mtime f \<le> decided_at"
  show "fresh_verdict files decided_at max_runtime = None"
    using old newest_from_spec [of None files]
    by (auto simp: fresh_verdict_def split: option.splits)
qed

definition demo_report :: report_file where
  "demo_report = \<lparr>rf_is_file = True, rf_mtime = 7,
     rf_content = Some \<lparr>rep_status = Some ''passed'', rep_runtimes = [Some 3, None]\<rparr>\<rparr>"

theorem fresh_verdict_fresh_witness:
  "fresh_verdict [demo_report] 5 10 = Some Good \<and> fresh_verdict [demo_report] 8 10 = None"
proof
  show "fresh_verdict [demo_report] 8 10 = None"
    using fresh_verdict_fresh [of "[demo_report]" 8 10] by (simp add: demo_report_def)
  show "fresh_verdict [demo_report] 5 10 = Some Good"
    by (simp add: fresh_verdict_def demo_report_def report_verdict_def total_runtime_def)
qed

text \<open>
  C16: what a green bisect run stands for: the judge passes a state only with one of the three
  answers, each backed by the iterations; a first bad commit comes with its name, after both
  endpoints were verified; every other end, and a run still going, raises.
\<close>

theorem bisect_judge_conclusive:
  assumes "bisect_reachable i max_steps s"
  shows "case bisect_judge (Some s) of
      Inl e \<Rightarrow> e = RuntimeError
        \<and> b_outcome s \<in> {Running, EndpointUntestable, Inconclusive, MaxStepsExceeded}
    | Inr (oc, c) \<Rightarrow>
        (oc = FirstBadFound \<and> endpoints_verified s \<and> b_steps s > 0 \<and> b_first_bad s = Some c)
        \<or> (oc = NotReproducibleStandalone \<and> b_iterations s = [endpoint VerifyBad (b_bad_sha s) Good])
        \<or> (oc = GoodEndpointFailed \<and> b_iterations s =
             [endpoint VerifyBad (b_bad_sha s) Bad, endpoint VerifyGood (b_good_sha s) Bad])"
proof -
  have inv: "bisect_inv i max_steps s" by (rule reachable_inv [OF assms])
  show ?thesis
  proof (cases "b_outcome s")
    case FirstBadFound
    with inv obtain c where "b_first_bad s = Some c" by (auto simp: bisect_inv_def)
    moreover have "b_steps s > 0" by (rule found_steps [OF assms FirstBadFound])
    ultimately show ?thesis
      using inv FirstBadFound
      by (auto simp: bisect_judge_def CONCLUSIVE_def with_default_def bisect_inv_def phase_inv_def Let_def
          split: phase.splits)
  qed (use inv in \<open>auto simp: bisect_judge_def CONCLUSIVE_def bisect_inv_def phase_inv_def Let_def
         split: phase.splits\<close>)
qed

theorem bisect_judge_conclusive_witness:
  "bisect_judge (Some ((initial_state demo_inputs ''a'' ''b'')\<lparr>b_decided_at := 5\<rparr>)) = Inl RuntimeError"
proof -
  have "bisect_reachable demo_inputs 20 ((initial_state demo_inputs ''a'' ''b'')\<lparr>b_decided_at := 5\<rparr>)"
    by (rule bisect_reachable.start)
  from bisect_judge_conclusive [OF this] show ?thesis
    by (auto simp: bisect_judge_def initial_state_def CONCLUSIVE_def)
qed

end
