(* ===== verification/Store.thy ===== *)
theory Store
  imports Effects
begin

text \<open>
  The build store: \<open>f/common/store.py\<close> (publishing an identity, the local index of GC roots, the
  cascade to a peer), \<open>f/common/store_index.py\<close> (the catalogue and its pruning) and the peer
  registry \<open>f/workbench/fetch.py\<close> writes. A host is its index directory and the store paths that
  exist on it. \<open>nix store add-path\<close> and the two calls over ssh are parameters; \<open>nix build
  --out-link\<close> replaces a symbolic link by one to a path that exists, and fails on any other entry
  or path.
\<close>

section \<open>The host\<close>

datatype entry =
    Link string int
  | Other

record host =
  h_index :: "(string, entry) dict"
  h_live :: "string list"
  h_now :: int

record peers_net =
  pn_readlink :: "string \<Rightarrow> string \<Rightarrow> string"
  pn_copy :: "string \<Rightarrow> string \<Rightarrow> bool"

text \<open>A step returns a value or an exception, and the host as it left it.\<close>

type_synonym 'a hstep = "host \<Rightarrow> 'a result \<times> host"

definition hbind :: "'a hstep \<Rightarrow> ('a \<Rightarrow> 'b hstep) \<Rightarrow> 'b hstep" where
  "hbind m f h = (case m h of (Inl e, h') \<Rightarrow> (Inl e, h') | (Inr x, h') \<Rightarrow> f x h')"

definition out_link :: "string \<Rightarrow> string \<Rightarrow> unit hstep" where
  "out_link name sp h =
     (if sp \<notin> set (h_live h) \<or> dict_get (h_index h) name = Some Other
      then (Inl CalledProcessError, h)
      else (Inr (), h\<lparr>h_index := dict_set name (Link sp (h_now h)) (h_index h), h_now := h_now h + 1\<rparr>))"

text \<open>\<open>index_dir\<close>: reading the environment can raise; the directory itself is then created.\<close>

definition index_dir :: "environ \<Rightarrow> unit hstep" where
  "index_dir env h = (case store_index_dir env of Inl e \<Rightarrow> (Inl e, h) | Inr _ \<Rightarrow> (Inr (), h))"

definition link_local :: "environ \<Rightarrow> string \<Rightarrow> string \<Rightarrow> unit hstep" where
  "link_local env name sp = hbind (index_dir env) (\<lambda>_. out_link name sp)"

text \<open>\<open>publish\<close>; \<open>add\<close> is \<open>nix store add-path\<close>, None when it fails.\<close>

definition publish :: "environ \<Rightarrow> (string \<Rightarrow> string \<Rightarrow> string option) \<Rightarrow> string \<Rightarrow> string \<Rightarrow> string hstep" where
  "publish env add name tree h = (case add tree name of
     None \<Rightarrow> (Inl CalledProcessError, h)
   | Some sp \<Rightarrow>
       hbind (link_local env name (strip sp)) (\<lambda>_ h. (Inr (strip sp), h))
         (h\<lparr>h_live := dedup (h_live h @ [strip sp])\<rparr>))"

section \<open>Reading the index\<close>

definition live_link :: "host \<Rightarrow> entry \<Rightarrow> bool" where
  "live_link h e = (case e of Link t _ \<Rightarrow> t \<in> set (h_live h) | Other \<Rightarrow> False)"

definition local_path :: "environ \<Rightarrow> string \<Rightarrow> host \<Rightarrow> string option" where
  "local_path env name h = (case store_index_dir env of
     Inl _ \<Rightarrow> None
   | Inr _ \<Rightarrow>
       (case dict_get (h_index h) name of
          Some (Link t _) \<Rightarrow> (if t \<in> set (h_live h) then Some t else None)
        | _ \<Rightarrow> None))"

definition list_index :: "environ \<Rightarrow> string \<Rightarrow> host \<Rightarrow> string list" where
  "list_index env pre h = (case store_index_dir env of
     Inl _ \<Rightarrow> []
   | Inr _ \<Rightarrow> sort (map fst (filter (\<lambda>(n, e). prefix pre n \<and> live_link h e) (h_index h))))"

definition list_run_layers :: "environ \<Rightarrow> string \<Rightarrow> host \<Rightarrow> string list" where
  "list_run_layers env project h =
     filter (\<lambda>n. \<not> prefix (project @ ''-devel-'') n) (list_index env (project @ ''-'') h)"

text \<open>The newest of a list of names with their times: the first of those of the greatest time.\<close>

fun newest :: "string option \<Rightarrow> int \<Rightarrow> (string \<times> int) list \<Rightarrow> string option" where
  "newest best best_time [] = best"
| "newest best best_time ((n, t) # rest) =
     (if t > best_time then newest (Some n) t rest else newest best best_time rest)"

definition mtime_of :: "host \<Rightarrow> string \<Rightarrow> int" where
  "mtime_of h n = (case dict_get (h_index h) n of Some (Link _ t) \<Rightarrow> t | _ \<Rightarrow> 0)"

definition latest_run_layer :: "environ \<Rightarrow> string \<Rightarrow> host \<Rightarrow> string option" where
  "latest_run_layer env project h =
     newest None (-1) (map (\<lambda>n. (n, mtime_of h n)) (list_run_layers env project h))"

definition latest_index :: "environ \<Rightarrow> string \<Rightarrow> host \<Rightarrow> string option" where
  "latest_index env pre h = (case store_index_dir env of
     Inl _ \<Rightarrow> None
   | Inr _ \<Rightarrow> newest None (-1)
       (map (\<lambda>(n, _). (n, mtime_of h n)) (filter (\<lambda>(n, e). prefix pre n \<and> live_link h e) (h_index h))))"

section \<open>Peers\<close>

record peer =
  p_host :: string
  p_index :: string

definition DEFAULT_PEER_INDEX :: string where
  "DEFAULT_PEER_INDEX = ''~/.local/state/windmill/workbench/system/store-index''"

text \<open>\<open>registered_peers\<close>: the text of the registry, None when there is no file.\<close>

definition peer_line :: "string \<Rightarrow> peer option" where
  "peer_line l = (case split_ws l of
     [] \<Rightarrow> None
   | [h] \<Rightarrow> Some \<lparr>p_host = h, p_index = DEFAULT_PEER_INDEX\<rparr>
   | h # i # _ \<Rightarrow> Some \<lparr>p_host = h, p_index = i\<rparr>)"

definition registered_peers :: "string option \<Rightarrow> peer list" where
  "registered_peers txt = (case txt of None \<Rightarrow> [] | Some s \<Rightarrow> List.map_filter peer_line (splitlines s))"

text \<open>What \<open>f/workbench/fetch.py\<close> writes: one line per peer, host and index with a tab between.\<close>

definition render_peer :: "peer \<Rightarrow> string" where
  "render_peer p = p_host p @ [CHR 0x09] @ p_index p"

definition render_peers :: "peer list \<Rightarrow> string" where
  "render_peers ps = unlines (map render_peer ps)"

text \<open>\<open>_normalize_peers\<close> of the same step: a bare host, or a host with an index that may be empty.\<close>

datatype peer_input =
    HostOnly string
  | HostIndex "string option" "string option"
  | NotAPeer

definition normalize_peer :: "peer_input \<Rightarrow> peer option" where
  "normalize_peer i =
     (case i of
        NotAPeer \<Rightarrow> None
      | HostOnly s \<Rightarrow>
          (if strip s = [] then None else Some \<lparr>p_host = strip s, p_index = DEFAULT_PEER_INDEX\<rparr>)
      | HostIndex h x \<Rightarrow>
          (let h' = strip (case h of None \<Rightarrow> [] | Some s \<Rightarrow> s);
               x' = strip (case x of None \<Rightarrow> [] | Some s \<Rightarrow> s) in
           if h' = [] then None
           else Some \<lparr>p_host = h', p_index = (if x' = [] then DEFAULT_PEER_INDEX else x')\<rparr>))"

definition normalize_peers :: "peer_input list \<Rightarrow> peer list" where
  "normalize_peers = List.map_filter normalize_peer"

definition peer_path :: "peers_net \<Rightarrow> string \<Rightarrow> string \<Rightarrow> string \<Rightarrow> string option" where
  "peer_path net remote remote_index name =
     (let txt = strip (pn_readlink net remote
            (rstrip_by (\<lambda>c. c = CHR ''/'') remote_index @ ''/'' @ name)) in
      if txt = [] then None else Some txt)"

definition fetch :: "peers_net \<Rightarrow> string \<Rightarrow> string \<Rightarrow> unit hstep" where
  "fetch net remote sp h =
     (if pn_copy net remote sp then (Inr (), h\<lparr>h_live := dedup (h_live h @ [sp])\<rparr>)
      else (Inl CalledProcessError, h))"

definition pull :: "environ \<Rightarrow> peers_net \<Rightarrow> string \<Rightarrow> string \<Rightarrow> string \<Rightarrow> unit hstep" where
  "pull env net remote name sp = hbind (fetch net remote sp) (\<lambda>_. link_local env name sp)"

fun fetch_from :: "environ \<Rightarrow> peers_net \<Rightarrow> string \<Rightarrow> peer list \<Rightarrow> (string \<times> string) option hstep" where
  "fetch_from env net name [] h = (Inr None, h)"
| "fetch_from env net name (p # ps) h =
     (case peer_path net (p_host p) (p_index p) name of
        None \<Rightarrow> fetch_from env net name ps h
      | Some sp \<Rightarrow> hbind (pull env net (p_host p) name sp) (\<lambda>_ h. (Inr (Some (p_host p, sp)), h)) h)"

definition fetch_from_peers ::
  "environ \<Rightarrow> peers_net \<Rightarrow> string option \<Rightarrow> string \<Rightarrow> (string \<times> string) option hstep" where
  "fetch_from_peers env net registry name = fetch_from env net name (registered_peers registry)"

definition resolve :: "environ \<Rightarrow> peers_net \<Rightarrow> string \<Rightarrow> string \<Rightarrow> string \<Rightarrow> string option hstep" where
  "resolve env net name remote remote_index h =
     (case local_path env name h of
        Some sp \<Rightarrow> (Inr (Some sp), h)
      | None \<Rightarrow>
          (if remote = [] \<or> remote_index = [] then (Inr None, h)
           else (case peer_path net remote remote_index name of
                   None \<Rightarrow> (Inr None, h)
                 | Some sp \<Rightarrow> hbind (pull env net remote name sp) (\<lambda>_ h. (Inr (Some sp), h)) h)))"

section \<open>The catalogue\<close>

definition kind :: "string \<Rightarrow> string" where
  "kind name =
     (if prefix ''kernel-devel-'' name then ''kernel-devel''
      else if prefix ''kernel-'' name then ''kernel''
      else if prefix ''qemu-'' name then ''qemu''
      else ''other'')"

text \<open>\<open>_closure_sizes\<close>: the first field of a line of \<open>nix path-info\<close> is the path, the last its size.\<close>

definition size_line :: "(string, nat) dict \<Rightarrow> string \<Rightarrow> (string, nat) dict" where
  "size_line d l = (let fields = split_ws l in
     if length fields \<ge> 2 then dict_set (hd fields) (read_nat (last fields)) d else d)"

definition closure_sizes :: "(string list \<Rightarrow> string) \<Rightarrow> string list \<Rightarrow> (string, nat) dict" where
  "closure_sizes path_info paths =
     (if paths = [] then [] else foldl size_line [] (splitlines (path_info paths)))"

record catalog_entry =
  ce_name :: string
  ce_kind :: string
  ce_store_path :: string
  ce_valid :: bool
  ce_size :: "nat option"

definition catalog :: "(string list \<Rightarrow> string) \<Rightarrow> host \<Rightarrow> catalog_entry list" where
  "catalog path_info h =
     (let links = List.map_filter (\<lambda>(n, e). case e of Link t _ \<Rightarrow> Some (n, t) | Other \<Rightarrow> None) (h_index h);
          sizes = closure_sizes path_info (map snd (filter (\<lambda>(n, t). t \<in> set (h_live h)) links)) in
      sort_key ce_name
        (map (\<lambda>(n, t).
           \<lparr>ce_name = n, ce_kind = kind n, ce_store_path = t, ce_valid = t \<in> set (h_live h),
            ce_size = (if t \<in> set (h_live h) then dict_get sizes t else None)\<rparr>) links))"

definition total_bytes :: "catalog_entry list \<Rightarrow> nat" where
  "total_bytes es = sum_list (map (\<lambda>e. case ce_size e of None \<Rightarrow> 0 | Some n \<Rightarrow> n) es)"

record inspect_entry =
  ie_name :: string
  ie_store_path :: "string option"
  ie_size :: "nat option"
  ie_peer :: "string option"

definition inspect ::
  "environ \<Rightarrow> peers_net \<Rightarrow> (string list \<Rightarrow> string) \<Rightarrow> string list \<Rightarrow> string \<Rightarrow> string \<Rightarrow> host
    \<Rightarrow> inspect_entry list result" where
  "inspect env net path_info names remote remote_index h =
     (if names = [] then Inl ValueError
      else Inr (map (\<lambda>n.
        let sp = local_path env n h in
        \<lparr>ie_name = n, ie_store_path = sp,
         ie_size = (case sp of None \<Rightarrow> None | Some s \<Rightarrow> dict_get (closure_sizes path_info [s]) s),
         ie_peer = (if remote = [] \<or> remote_index = [] then None
                    else peer_path net remote remote_index n)\<rparr>) names))"

text \<open>
  \<open>_forget\<close> removes the entries of the selected names, whatever they are; without \<open>confirm\<close> it
  does nothing. It returns what each name pointed at.
\<close>

definition link_target :: "host \<Rightarrow> string \<Rightarrow> string option" where
  "link_target h n = (case dict_get (h_index h) n of Some (Link t _) \<Rightarrow> Some t | _ \<Rightarrow> None)"

fun forget_each :: "string list \<Rightarrow> host \<Rightarrow> (string \<times> string option) list \<times> host" where
  "forget_each [] h = ([], h)"
| "forget_each (n # ns) h =
     (let (removed, h') = forget_each ns (h\<lparr>h_index := dict_del n (h_index h)\<rparr>) in
      ((n, link_target h n) # removed, h'))"

definition forget :: "environ \<Rightarrow> string list \<Rightarrow> bool \<Rightarrow> (string \<times> string option) list hstep" where
  "forget env names confirm h =
     (if names = [] then (Inl ValueError, h)
      else if \<not> confirm then (Inr [], h)
      else hbind (index_dir env) (\<lambda>_ h. let (removed, h') = forget_each names h in (Inr removed, h')) h)"

definition dangling :: "host \<Rightarrow> entry \<Rightarrow> bool" where
  "dangling h e = (case e of Link t _ \<Rightarrow> t \<notin> set (h_live h) | Other \<Rightarrow> False)"

definition prune :: "string list hstep" where
  "prune h =
     (Inr (map fst (filter (\<lambda>(n, e). dangling h e) (h_index h))),
      h\<lparr>h_index := filter (\<lambda>(n, e). \<not> dangling h e) (h_index h)\<rparr>)"

definition list_catalog :: "environ \<Rightarrow> string \<Rightarrow> host \<Rightarrow> string list" where
  "list_catalog env filterText h =
     filter (\<lambda>n. filterText = [] \<or> contains (lower filterText) (lower n)) (list_index env [] h)"

text \<open>The names a run selects: \<open>name\<close> first, then \<open>names\<close>, each once, none empty.\<close>

definition selected_names :: "string \<Rightarrow> string list option \<Rightarrow> string list" where
  "selected_names name names =
     dedup (filter (\<lambda>n. n \<noteq> []) ((if name \<noteq> [] then [name] else []) @ (case names of None \<Rightarrow> [] | Some ns \<Rightarrow> ns)))"

datatype catalog_result =
    Listed "catalog_entry list" nat "string list option"
  | Inspected "inspect_entry list"
  | Forgot "(string \<times> string option) list"
  | Pruned "string list"

definition store_index_main ::
  "environ \<Rightarrow> peers_net \<Rightarrow> (string list \<Rightarrow> string) \<Rightarrow> (string \<Rightarrow> string \<Rightarrow> string) \<Rightarrow> string
    \<Rightarrow> string list option \<Rightarrow> string \<Rightarrow> string \<Rightarrow> string \<Rightarrow> bool \<Rightarrow> catalog_result hstep" where
  "store_index_main env net path_info remote_ls action names name remote remote_index confirm h =
     (let selected = selected_names name names in
      if action = ''list'' then
        hbind (index_dir env) (\<lambda>_ h.
          (Inr (Listed (catalog path_info h) (total_bytes (catalog path_info h))
             (if remote = [] \<or> remote_index = [] then None
              else Some (split_ws (remote_ls remote remote_index)))), h)) h
      else if action = ''inspect'' then
        (case inspect env net path_info selected remote remote_index h of
           Inl e \<Rightarrow> (Inl e, h) | Inr es \<Rightarrow> (Inr (Inspected es), h))
      else if action = ''forget'' then
        hbind (forget env selected confirm) (\<lambda>removed h. (Inr (Forgot removed), h)) h
      else if action = ''prune'' then
        hbind (index_dir env) (\<lambda>_. hbind prune (\<lambda>removed h. (Inr (Pruned removed), h))) h
      else (Inl ValueError, h))"

section \<open>The index as a map\<close>

text \<open>
  What the operations above rely on: an index maps names to store paths that exist, a link to such
  a path is found under its name at once, and removing an entry hides its name alone.
\<close>

locale path_index =
  fixes put :: "'n \<Rightarrow> 'v \<Rightarrow> 's \<Rightarrow> 's"
    and get :: "'n \<Rightarrow> 's \<Rightarrow> 'v option"
    and wipe :: "'n \<Rightarrow> 's \<Rightarrow> 's"
    and valid :: "'v \<Rightarrow> 's \<Rightarrow> bool"
  assumes get_put: "valid v s \<Longrightarrow> get n' (put n v s) = (if n' = n then Some v else get n' s)"
    and get_wipe: "get n' (wipe n s) = (if n' = n then None else get n' s)"
    and valid_put: "valid u (put n v s) = valid u s"
    and valid_wipe: "valid u (wipe n s) = valid u s"
    and get_valid: "get n s = Some v \<Longrightarrow> valid v s"
begin

lemma put_found: "valid v s \<Longrightarrow> get n (put n v s) = Some v"
  by (simp add: get_put)

lemma put_swap:
  "valid u s \<Longrightarrow> valid v s \<Longrightarrow> m \<noteq> n \<Longrightarrow> get k (put m u (put n v s)) = get k (put n v (put m u s))"
  by (simp add: get_put valid_put)

lemma wipe_put: "valid v s \<Longrightarrow> get k (wipe n (put n v s)) = get k (wipe n s)"
  by (simp add: get_put get_wipe)

lemma wipe_all: "get k (fold wipe ns s) = (if k \<in> set ns then None else get k s)"
  by (induction ns arbitrary: s) (auto simp: get_wipe)

end

definition put_link :: "string \<Rightarrow> string \<Rightarrow> host \<Rightarrow> host" where
  "put_link n v h = h\<lparr>h_index := dict_set n (Link v (h_now h)) (h_index h), h_now := h_now h + 1\<rparr>"

definition lookup_live :: "string \<Rightarrow> host \<Rightarrow> string option" where
  "lookup_live n h = (case dict_get (h_index h) n of
     Some (Link t _) \<Rightarrow> (if t \<in> set (h_live h) then Some t else None) | _ \<Rightarrow> None)"

definition drop_entry :: "string \<Rightarrow> host \<Rightarrow> host" where
  "drop_entry n h = h\<lparr>h_index := dict_del n (h_index h)\<rparr>"

definition is_live :: "string \<Rightarrow> host \<Rightarrow> bool" where
  "is_live v h = (v \<in> set (h_live h))"

interpretation store: path_index put_link lookup_live drop_entry is_live
  by unfold_locales
    (auto simp: put_link_def lookup_live_def drop_entry_def is_live_def split: option.splits entry.splits if_splits)

lemma local_path_lookup: "store_index_dir env = Inr d \<Longrightarrow> local_path env n h = lookup_live n h"
  by (simp add: local_path_def lookup_live_def)

lemma out_link_ok:
  "out_link name sp h = (Inr (), h') \<longleftrightarrow>
    is_live sp h \<and> dict_get (h_index h) name \<noteq> Some Other \<and> h' = put_link name sp h"
  by (auto simp: out_link_def is_live_def put_link_def)

lemma hbind_ok: "hbind m f h = (Inr y, h') \<longleftrightarrow> (\<exists>x h1. m h = (Inr x, h1) \<and> f x h1 = (Inr y, h'))"
  by (auto simp: hbind_def split: prod.splits sum.splits)

lemma link_local_ok:
  "link_local env name sp h = (Inr (), h') \<longleftrightarrow>
    (\<exists>d. store_index_dir env = Inr d) \<and> is_live sp h \<and> dict_get (h_index h) name \<noteq> Some Other
    \<and> h' = put_link name sp h"
  by (auto simp: link_local_def hbind_ok index_dir_def out_link_ok split: sum.splits)

text \<open>Making a path exist hides no entry.\<close>

definition more_live :: "string \<Rightarrow> host \<Rightarrow> host" where
  "more_live sp h = h\<lparr>h_live := dedup (h_live h @ [sp])\<rparr>"

lemma is_live_more [simp]: "is_live v (more_live sp h) = (v = sp \<or> is_live v h)"
  by (auto simp: is_live_def more_live_def)

lemma lookup_more: "lookup_live n h = Some t \<Longrightarrow> lookup_live n (more_live sp h) = Some t"
  by (auto simp: lookup_live_def more_live_def split: option.splits entry.splits if_splits)

lemma publish_ok:
  "publish env add name tree h = (Inr sp, h') \<longleftrightarrow>
    (\<exists>txt. add tree name = Some txt \<and> sp = strip txt) \<and> (\<exists>d. store_index_dir env = Inr d)
    \<and> dict_get (h_index h) name \<noteq> Some Other \<and> h' = put_link name sp (more_live sp h)"
  by (auto simp: publish_def hbind_ok link_local_ok more_live_def [symmetric] split: option.splits)
    (auto simp: more_live_def)

lemma pull_ok:
  "pull env net remote name sp h = (Inr (), h') \<longleftrightarrow>
    pn_copy net remote sp \<and> (\<exists>d. store_index_dir env = Inr d)
    \<and> dict_get (h_index h) name \<noteq> Some Other \<and> h' = put_link name sp (more_live sp h)"
  by (auto simp: pull_def hbind_ok fetch_def link_local_ok more_live_def [symmetric])
    (auto simp: more_live_def)

lemma list_index_mem:
  assumes "store_index_dir env = Inr d" and "distinct (keys (h_index h))"
  shows "n \<in> set (list_index env pre h) \<longleftrightarrow> prefix pre n \<and> local_path env n h \<noteq> None"
proof -
  have "n \<in> set (list_index env pre h) \<longleftrightarrow> (\<exists>e. (n, e) \<in> set (h_index h) \<and> prefix pre n \<and> live_link h e)"
    using assms(1) by (force simp: list_index_def)
  also have "\<dots> \<longleftrightarrow> prefix pre n \<and> (\<exists>e. dict_get (h_index h) n = Some e \<and> live_link h e)"
    using assms(2) by auto
  also have "\<dots> \<longleftrightarrow> prefix pre n \<and> local_path env n h \<noteq> None"
    using assms(1) by (auto simp: local_path_def live_link_def split: option.splits entry.splits)
  finally show ?thesis .
qed

lemma keys_put_link: "distinct (keys (h_index h)) \<Longrightarrow> distinct (keys (h_index (put_link n v h)))"
  by (simp add: put_link_def)

lemma newest_spec:
  "newest best t xs = Some n \<Longrightarrow>
    \<exists>u. (best = Some n \<and> u = t \<or> (n, u) \<in> set xs) \<and> t \<le> u \<and> (\<forall>p \<in> set xs. snd p \<le> u)"
proof (induction best t xs rule: newest.induct)
  case (1 best t)
  then show ?case by simp
next
  case (2 best t m u xs)
  show ?case
  proof (cases "u > t")
    case True
    with 2 obtain v where "(Some m = Some n \<and> v = u \<or> (n, v) \<in> set xs) \<and> u \<le> v \<and> (\<forall>p \<in> set xs. snd p \<le> v)"
      by auto
    with True show ?thesis by (intro exI [of _ v]) auto
  next
    case False
    with 2 obtain v where "(best = Some n \<and> v = t \<or> (n, v) \<in> set xs) \<and> t \<le> v \<and> (\<forall>p \<in> set xs. snd p \<le> v)"
      by auto
    with False show ?thesis by (intro exI [of _ v]) auto
  qed
qed

lemma newest_Some_not_None: "newest (Some b) t xs \<noteq> None"
  by (induction xs arbitrary: b t) auto

lemma newest_None: "newest None t xs = None \<Longrightarrow> p \<in> set xs \<Longrightarrow> snd p \<le> t"
  by (induction xs) (auto simp: newest_Some_not_None split: if_splits)

lemma run_layer_mem:
  assumes "store_index_dir env = Inr d" and "distinct (keys (h_index h))"
  shows "n \<in> set (list_run_layers env project h) \<longleftrightarrow>
    prefix (project @ ''-'') n \<and> \<not> prefix (project @ ''-devel-'') n \<and> local_path env n h \<noteq> None"
  by (auto simp: list_run_layers_def list_index_mem [OF assms])

lemma lookup_filter:
  assumes "distinct (keys (h_index h))"
  shows "lookup_live n (h\<lparr>h_index := filter (\<lambda>(n, e). \<not> dangling h e) (h_index h)\<rparr>) = lookup_live n h"
proof -
  have get: "map_of (filter (\<lambda>(n, e). P e) xs) n = (case map_of xs n of Some e \<Rightarrow> if P e then Some e else None | None \<Rightarrow> None)"
    if "distinct (map fst xs)" for P and xs :: "(string \<times> entry) list"
    using that by (induction xs) (auto split: option.splits simp: map_of_eq_None_iff)
  show ?thesis
    by (auto simp: lookup_live_def get [OF assms] dangling_def split: option.splits entry.splits)
qed

lemma forget_each_fold: "snd (forget_each ns h) = fold drop_entry ns h"
  by (induction ns h rule: forget_each.induct) (auto simp: drop_entry_def Let_def split: prod.splits)

section \<open>Properties\<close>

text \<open>
  A published identity is found at once: \<open>local_path\<close> returns the path it was published at,
  every listing by a prefix of its name holds it, and no entry that was live before is hidden.
\<close>

theorem publish_found:
  assumes "publish env add name tree h = (Inr sp, h')" and "distinct (keys (h_index h))"
  shows "local_path env name h' = Some sp
    \<and> (\<forall>pre. prefix pre name \<longrightarrow> name \<in> set (list_index env pre h'))
    \<and> (\<forall>n t. n \<noteq> name \<and> local_path env n h = Some t \<longrightarrow> local_path env n h' = Some t)"
proof -
  from assms(1) obtain d where d: "store_index_dir env = Inr d" and h': "h' = put_link name sp (more_live sp h)"
    by (auto simp: publish_ok)
  have found: "local_path env name h' = Some sp"
    unfolding h' local_path_lookup [OF d] by (rule store.put_found) simp
  have "distinct (keys (h_index h'))"
    unfolding h' using assms(2) by (intro keys_put_link) (simp add: more_live_def)
  then have "prefix pre name \<Longrightarrow> name \<in> set (list_index env pre h')" for pre
    using list_index_mem [OF d] found by simp
  moreover have "local_path env n h' = Some t" if "n \<noteq> name" "local_path env n h = Some t" for n t
    using that lookup_more [of n h t sp]
    by (simp add: h' local_path_lookup [OF d] store.get_put)
  ultimately show ?thesis using found by blast
qed

definition demo_env :: environ where
  "demo_env = [(''STORE_INDEX_DIR'', ''/sys/store-index'')]"

definition demo_host :: host where
  "demo_host = \<lparr>h_index = [(''kernel-devel-7'', Link ''/nix/store/d'' 9), (''kernel-7'', Link ''/nix/store/k'' 5),
       (''kernel-6'', Link ''/nix/store/gone'' 7)],
     h_live = [''/nix/store/d'', ''/nix/store/k''], h_now = 10\<rparr>"

theorem publish_found_witness:
  "local_path demo_env ''qemu-11'' (snd (publish demo_env (\<lambda>_ _. Some ''/nix/store/q'') ''qemu-11'' ''/t'' demo_host))
     = Some ''/nix/store/q''"
proof -
  let ?p = "publish demo_env (\<lambda>_ _. Some ''/nix/store/q'') ''qemu-11'' ''/t'' demo_host"
  have "fst ?p = Inr ''/nix/store/q''" by code_simp
  then have "?p = (Inr ''/nix/store/q'', snd ?p)" by (metis prod.collapse)
  moreover have "distinct (keys (h_index demo_host))" by (simp add: demo_host_def)
  ultimately show ?thesis using publish_found by blast
qed

text \<open>
  The cascade of \<open>resolve\<close>: a local hit is returned without touching the host; without a
  remote nothing is fetched; and a path pulled from the peer is the one the peer names, was
  copied, and is from then on this host's own answer for the name.
\<close>

theorem resolve_cascade:
  assumes "resolve env net name remote remote_index h = (Inr r, h')" and "store_index_dir env = Inr d"
  shows "(case local_path env name h of
      Some sp \<Rightarrow> r = Some sp \<and> h' = h
    | None \<Rightarrow>
        (case r of
           None \<Rightarrow> h' = h \<and> local_path env name h' = None
         | Some sp \<Rightarrow> remote \<noteq> [] \<and> peer_path net remote remote_index name = Some sp
             \<and> pn_copy net remote sp \<and> local_path env name h' = Some sp))
    \<and> (remote = [] \<longrightarrow> h' = h)"
proof (cases "local_path env name h")
  case (Some sp)
  with assms have "r = Some sp" "h' = h" by (auto simp: resolve_def)
  with Some show ?thesis by simp
next
  case None
  show ?thesis
  proof (cases r)
    case None': None
    have "h' = h"
      using assms(1) None None' by (auto simp: resolve_def hbind_def split: if_splits option.splits prod.splits sum.splits)
    with None None' show ?thesis by simp
  next
    case (Some sp)
    then have "remote \<noteq> []" "peer_path net remote remote_index name = Some sp"
      and "pull env net remote name sp h = (Inr (), h')"
      using assms(1) None by (auto simp: resolve_def hbind_ok split: if_splits option.splits)
    moreover from this(3) have "pn_copy net remote sp" and h': "h' = put_link name sp (more_live sp h)"
      by (simp_all add: pull_ok)
    moreover have "local_path env name h' = Some sp"
      unfolding h' local_path_lookup [OF assms(2)] by (rule store.put_found) simp
    ultimately show ?thesis using None Some by simp
  qed
qed

definition demo_net :: peers_net where
  "demo_net = \<lparr>pn_readlink = (\<lambda>h p. if h = ''b'' \<and> p = ''/idx/kernel-6'' then ''/nix/store/k6'' @ nl else []),
     pn_copy = (\<lambda>_ _. True)\<rparr>"

theorem resolve_cascade_witness:
  "resolve demo_env demo_net ''kernel-6'' ''b'' ''/idx/'' demo_host
     = (Inr (Some ''/nix/store/k6''), snd (resolve demo_env demo_net ''kernel-6'' ''b'' ''/idx/'' demo_host))
   \<and> local_path demo_env ''kernel-6'' (snd (resolve demo_env demo_net ''kernel-6'' ''b'' ''/idx/'' demo_host))
     = Some ''/nix/store/k6''"
proof -
  let ?p = "resolve demo_env demo_net ''kernel-6'' ''b'' ''/idx/'' demo_host"
  have eval: "fst ?p = Inr (Some ''/nix/store/k6'')" "store_index_dir demo_env = Inr [''sys'', ''store-index'']"
    "local_path demo_env ''kernel-6'' demo_host = None"
    by code_simp+
  then have p: "?p = (Inr (Some ''/nix/store/k6''), snd ?p)" by (metis prod.collapse)
  from resolve_cascade [OF p eval(2)] eval(3) p show ?thesis by simp
qed

text \<open>
  What a consumer is offered to run is always runnable: a run layer of a project is a live
  index entry that is none of its devel layers, and the latest one is the entry of the greatest
  time among them all, missing only when there is none.
\<close>

theorem run_layers_runnable:
  assumes "store_index_dir env = Inr d" and "distinct (keys (h_index h))"
    and "\<forall>n \<in> set (list_run_layers env project h). mtime_of h n \<ge> 0"
  shows "(n \<in> set (list_run_layers env project h) \<longleftrightarrow>
      prefix (project @ ''-'') n \<and> \<not> prefix (project @ ''-devel-'') n \<and> local_path env n h \<noteq> None)
    \<and> (case latest_run_layer env project h of
         None \<Rightarrow> list_run_layers env project h = []
       | Some b \<Rightarrow> b \<in> set (list_run_layers env project h)
           \<and> (\<forall>m \<in> set (list_run_layers env project h). mtime_of h m \<le> mtime_of h b))"
proof (cases "latest_run_layer env project h")
  case None
  then have "mtime_of h n \<le> -1" if "n \<in> set (list_run_layers env project h)" for n
    using newest_None [of "-1" "map (\<lambda>n. (n, mtime_of h n)) (list_run_layers env project h)" "(n, mtime_of h n)"] that
    by (simp add: latest_run_layer_def)
  with assms(3) have "n \<notin> set (list_run_layers env project h)" for n by fastforce
  then have "list_run_layers env project h = []" by (meson ex_in_conv set_empty)
  with None show ?thesis using run_layer_mem [OF assms(1,2), of n project] by auto
next
  case (Some b)
  from newest_spec [OF Some [unfolded latest_run_layer_def]] show ?thesis
    using run_layer_mem [OF assms(1,2), of n project] Some by auto
qed

theorem run_layers_runnable_witness:
  "list_run_layers demo_env ''kernel'' demo_host = [''kernel-7'']
   \<and> latest_run_layer demo_env ''kernel'' demo_host \<noteq> None"
proof -
  have eval: "list_run_layers demo_env ''kernel'' demo_host = [''kernel-7'']"
    "store_index_dir demo_env = Inr [''sys'', ''store-index'']" "mtime_of demo_host ''kernel-7'' = 5"
    by code_simp+
  have "distinct (keys (h_index demo_host))" by (simp add: demo_host_def)
  from run_layers_runnable [OF eval(2) this, of "''kernel''" "''x''"] eval show ?thesis
    by (auto split: option.splits)
qed

text \<open>
  Pruning and forgetting touch what they say and nothing else: \<open>prune\<close> leaves every name's
  answer as it was and no dangling entry behind; \<open>forget\<close> hides exactly the selected names, and
  without confirmation changes nothing.
\<close>

theorem prune_forget_exact:
  assumes "distinct (keys (h_index h))" and "prune h = (Inr removed, h1)"
    and "forget env names confirm h = (Inr gone, h2)"
  shows "local_path env n h1 = local_path env n h
    \<and> (\<forall>e. (n, e) \<in> set (h_index h1) \<longrightarrow> \<not> dangling h1 e)
    \<and> (n \<in> set removed \<longleftrightarrow> (\<exists>e. (n, e) \<in> set (h_index h) \<and> dangling h e))
    \<and> local_path env n h2 = (if confirm \<and> n \<in> set names then None else local_path env n h)
    \<and> map fst gone = (if confirm then names else [])"
proof -
  have h1: "h1 = h\<lparr>h_index := filter (\<lambda>(n, e). \<not> dangling h e) (h_index h)\<rparr>"
    and removed: "removed = map fst (filter (\<lambda>(n, e). dangling h e) (h_index h))"
    using assms(2) by (auto simp: prune_def)
  have same: "local_path env n h1 = local_path env n h"
    using lookup_filter [OF assms(1), of n] local_path_lookup
    by (cases "store_index_dir env") (simp_all add: h1 local_path_def lookup_live_def)
  have forgot: "local_path env n h2 = (if confirm \<and> n \<in> set names then None else local_path env n h)
      \<and> map fst gone = (if confirm then names else [])"
  proof (cases confirm)
    case True
    have fst_gone: "map fst (fst (forget_each ns h)) = ns" for ns h
      by (induction ns h rule: forget_each.induct) (auto simp: Let_def split: prod.splits)
    from assms(3) True obtain d where d: "store_index_dir env = Inr d" and each: "forget_each names h = (gone, h2)"
      by (auto simp: forget_def hbind_ok index_dir_def Let_def split: if_splits sum.splits prod.splits)
    then have "h2 = fold drop_entry names h" "map fst gone = names"
      using forget_each_fold [of names h] fst_gone [of names h] by simp_all
    with True show ?thesis by (simp add: local_path_lookup [OF d] store.wipe_all)
  next
    case False
    with assms(3) show ?thesis by (auto simp: forget_def split: if_splits)
  qed
  have "dangling h1 = dangling h" by (rule ext) (simp add: h1 dangling_def split: entry.splits)
  then have "(n, e) \<in> set (h_index h1) \<Longrightarrow> \<not> dangling h1 e" for e by (auto simp: h1)
  moreover have "n \<in> set removed \<longleftrightarrow> (\<exists>e. (n, e) \<in> set (h_index h) \<and> dangling h e)"
    by (force simp: removed)
  ultimately show ?thesis using same forgot by blast
qed

theorem prune_forget_exact_witness:
  "local_path demo_env ''kernel-7'' (snd (forget demo_env [''kernel-6''] True demo_host)) = Some ''/nix/store/k''"
proof -
  have eval: "fst (forget demo_env [''kernel-6''] True demo_host) = Inr [(''kernel-6'', Some ''/nix/store/gone'')]"
    "fst (prune demo_host) = Inr [''kernel-6'']"
    "local_path demo_env ''kernel-7'' demo_host = Some ''/nix/store/k''"
    by code_simp+
  then have runs: "prune demo_host = (Inr [''kernel-6''], snd (prune demo_host))"
    "forget demo_env [''kernel-6''] True demo_host
       = (Inr [(''kernel-6'', Some ''/nix/store/gone'')], snd (forget demo_env [''kernel-6''] True demo_host))"
    by (metis prod.collapse)+
  have "distinct (keys (h_index demo_host))" by (simp add: demo_host_def)
  from prune_forget_exact [OF this runs, of "''kernel-7''"] eval(3) show ?thesis by simp
qed

section \<open>The peer registry\<close>

definition token_ok :: "string \<Rightarrow> bool" where
  "token_ok s = (s \<noteq> [] \<and> (\<forall>c \<in> set s. \<not> is_space c))"

lemma split_ws_token: "token_ok s \<Longrightarrow> t = [] \<or> is_space (hd t) \<Longrightarrow> split_ws (s @ t) = s # split_ws t"
proof -
  assume s: "token_ok s" and t: "t = [] \<or> is_space (hd t)"
  then obtain c cs where c: "s = c # cs" "\<not> is_space c" by (cases s) (auto simp: token_ok_def)
  have take: "takeWhile (\<lambda>c. \<not> is_space c) (s @ t) = s" "dropWhile (\<lambda>c. \<not> is_space c) (s @ t) = t"
    using s t by (auto simp: token_ok_def takeWhile_append2 dropWhile_append2) (cases t; simp)+
  have "dropWhile is_space (s @ t) = s @ t" using c by simp
  then show ?thesis
    using c take by (subst split_ws.simps) (simp add: Let_def)
qed

lemma split_ws_blank: "is_space c \<Longrightarrow> split_ws (c # s) = split_ws s"
  by (subst (1 2) split_ws.simps) simp

lemma split_ws_Nil [simp]: "split_ws [] = []"
  by (subst split_ws.simps) simp

lemma peer_line_render:
  assumes "token_ok (p_host p)" and "token_ok (p_index p)"
  shows "peer_line (render_peer p) = Some p"
proof -
  have tab: "is_space (CHR 0x09)" by (simp add: is_space_def)
  have "split_ws (render_peer p) = p_host p # split_ws (p_index p @ [])"
    using split_ws_token [OF assms(1), of "[CHR 0x09] @ p_index p"] tab
    by (simp add: render_peer_def split_ws_blank)
  also have "\<dots> = [p_host p, p_index p]"
    using split_ws_token [OF assms(2), of "[]"] by simp
  finally show ?thesis by (simp add: peer_line_def)
qed

lemma render_peer_line: "token_ok (p_host p) \<Longrightarrow> token_ok (p_index p) \<Longrightarrow> line_ok (render_peer p)"
  using newline_space by (auto simp: token_ok_def line_ok_def render_peer_def is_newline_def)

lemma map_filter_all: "\<forall>x \<in> set xs. f (g x) = Some x \<Longrightarrow> List.map_filter f (map g xs) = xs"
  by (induction xs) (auto simp: List.map_filter_def)

text \<open>
  The peer registry survives its file: what \<open>f/workbench/fetch.py\<close> writes for peers whose host
  and index hold no white space is what every reader gets back, in order.
\<close>

theorem registry_roundtrip:
  assumes "\<forall>p \<in> set ps. token_ok (p_host p) \<and> token_ok (p_index p)"
  shows "registered_peers (Some (render_peers ps)) = ps"
proof -
  have "splitlines (render_peers ps) = map render_peer ps"
    unfolding render_peers_def by (rule splitlines_unlines) (use assms render_peer_line in auto)
  with assms show ?thesis by (simp add: registered_peers_def map_filter_all peer_line_render)
qed

theorem registry_roundtrip_witness:
  "registered_peers (Some (render_peers [\<lparr>p_host = ''hetzie'', p_index = ''/sys/store-index''\<rparr>,
      \<lparr>p_host = ''b'', p_index = DEFAULT_PEER_INDEX\<rparr>]))
   = [\<lparr>p_host = ''hetzie'', p_index = ''/sys/store-index''\<rparr>, \<lparr>p_host = ''b'', p_index = DEFAULT_PEER_INDEX\<rparr>]"
  by (rule registry_roundtrip) (simp add: token_ok_def is_space_def DEFAULT_PEER_INDEX_def)

text \<open>
  The sweep of the registry takes the first peer that names the identity and stops there: no
  peer before it has it, the path was copied from it, and this host then answers for the name
  itself; when no peer has it, nothing changes.
\<close>

theorem fetch_from_peers_first:
  assumes "fetch_from_peers env net registry name h = (Inr r, h')" and "store_index_dir env = Inr d"
  shows "case List.find (\<lambda>p. peer_path net (p_host p) (p_index p) name \<noteq> None) (registered_peers registry) of
      None \<Rightarrow> r = None \<and> h' = h
    | Some p \<Rightarrow> (\<exists>sp. r = Some (p_host p, sp) \<and> peer_path net (p_host p) (p_index p) name = Some sp
        \<and> pn_copy net (p_host p) sp \<and> local_path env name h' = Some sp)"
proof -
  have found: "local_path env name (put_link name sp g) = Some sp" if "is_live sp g" for sp g
    unfolding local_path_lookup [OF assms(2)] using that by (rule store.put_found)
  have "case List.find (\<lambda>p. peer_path net (p_host p) (p_index p) name \<noteq> None) ps of
      None \<Rightarrow> r = None \<and> h' = h
    | Some p \<Rightarrow> (\<exists>sp. r = Some (p_host p, sp) \<and> peer_path net (p_host p) (p_index p) name = Some sp
        \<and> pn_copy net (p_host p) sp \<and> local_path env name h' = Some sp)"
    if "fetch_from env net name ps h = (Inr r, h')" for ps
    using that
  proof (induction ps)
    case Nil
    then show ?case by simp
  next
    case (Cons p ps)
    then show ?case
      by (cases "peer_path net (p_host p) (p_index p) name") (auto simp: hbind_ok pull_ok found)
  qed
  with assms(1) show ?thesis by (simp add: fetch_from_peers_def)
qed

theorem fetch_from_peers_first_witness:
  "local_path demo_env ''kernel-6''
     (snd (fetch_from_peers demo_env demo_net (Some (render_peers [\<lparr>p_host = ''a'', p_index = ''/idx''\<rparr>,
        \<lparr>p_host = ''b'', p_index = ''/idx''\<rparr>])) ''kernel-6'' demo_host)) = Some ''/nix/store/k6''"
proof -
  let ?p = "fetch_from_peers demo_env demo_net (Some (render_peers [\<lparr>p_host = ''a'', p_index = ''/idx''\<rparr>,
        \<lparr>p_host = ''b'', p_index = ''/idx''\<rparr>])) ''kernel-6'' demo_host"
  have eval: "fst ?p = Inr (Some (''b'', ''/nix/store/k6''))"
    "store_index_dir demo_env = Inr [''sys'', ''store-index'']"
    by code_simp+
  then have p: "?p = (Inr (Some (''b'', ''/nix/store/k6'')), snd ?p)" by (metis prod.collapse)
  from fetch_from_peers_first [OF p eval(2)] show ?thesis by (auto split: option.splits)
qed

end
