(* ===== verification/FstestsConfig.thy ===== *)
theory FstestsConfig
  imports PyRegex
begin

text \<open>
  The xfstests configuration half of \<open>f/fstests/common.py\<close>: the matrix of XFS profiles, the
  catalogue text rendered from it, the parser of \<open>local.config\<close> sections, and the injection of a
  guest's devices into one section.
\<close>

section \<open>The XFS profiles\<close>

definition XFS_BLOCK_SIZES :: "nat list" where
  "XFS_BLOCK_SIZES = [512, 1024, 2048, 4096, 8192, 16384, 32768, 65536]"

definition XFS_SECTOR_SIZES :: "nat list" where
  "XFS_SECTOR_SIZES = [512, 1024, 2048, 4096, 8192, 16384, 32768]"

definition XFS_MIN_CRC_BLOCKSIZE :: nat where "XFS_MIN_CRC_BLOCKSIZE = 1024"

definition GUEST_PAGE_SIZE :: nat where "GUEST_PAGE_SIZE = 4096"

definition XFS_MIN_RTEXTSIZE :: nat where "XFS_MIN_RTEXTSIZE = 4096"

record feature =
  f_mkfs :: string
  f_mount :: string
  f_v4 :: bool
  f_needs :: "string option"
  f_min_block :: "nat option"
  f_rt_mult :: "nat option"

definition plain :: "string \<Rightarrow> string \<Rightarrow> feature" where
  "plain mkfs mount = \<lparr>f_mkfs = mkfs, f_mount = mount, f_v4 = False, f_needs = None,
     f_min_block = None, f_rt_mult = None\<rparr>"

definition XFS_FEATURES :: "(string, feature) dict" where
  "XFS_FEATURES =
    [([], plain [] []),
     (''full'', plain ''-m metadir=1'' ''-o usrquota,grpquota,prjquota''),
     (''nofeat'', plain
        ''-m reflink=0,rmapbt=0,finobt=0,inobtcount=0,bigtime=0 -i sparse=0,nrext64=0'' []),
     (''quota'', plain [] ''-o usrquota,grpquota''),
     (''prjquota'', plain [] ''-o prjquota''),
     (''noreflink'', plain ''-m reflink=0'' []),
     (''normapbt'', plain ''-m rmapbt=0'' []),
     (''metadir'', plain ''-m metadir=1'' []),
     (''nofinobt'', plain ''-m finobt=0,inobtcount=0'' []),
     (''noinobtcount'', plain ''-m inobtcount=0'' []),
     (''nosparse'', plain ''-i sparse=0'' []),
     (''nobigtime'', plain ''-m bigtime=0'' []),
     (''nonrext64'', plain ''-i nrext64=0'' []),
     (''asciici'', plain ''-n version=ci'' []),
     (''logdev'', (plain [] [])\<lparr>f_needs := Some ''logdev''\<rparr>),
     (''realtime'', (plain ''-m reflink=0 -d rtinherit=1'' [])\<lparr>f_needs := Some ''rtdev''\<rparr>),
     (''realtime_rtx2'', (plain ''-d rtinherit=1'' [])\<lparr>f_needs := Some ''rtdev'', f_rt_mult := Some 2\<rparr>),
     (''realtime_rtx4'', (plain ''-d rtinherit=1'' [])\<lparr>f_needs := Some ''rtdev'', f_rt_mult := Some 4\<rparr>),
     (''realtime_reflink'', (plain ''-m metadir=1 -d rtinherit=1'' [])
        \<lparr>f_needs := Some ''rtdev'', f_min_block := Some 4096\<rparr>),
     (''nocrc'', (plain ''-m crc=0'' [])\<lparr>f_v4 := True\<rparr>)]"

definition size_tag :: "nat \<Rightarrow> string" where
  "size_tag n = (if n = 512 then ''512'' else show_nat (n div 1024) @ ''k'')"

definition xfs_feature_names :: "string list" where
  "xfs_feature_names = [''all'', ''default''] @ filter (\<lambda>f. f \<noteq> []) (keys XFS_FEATURES)"

definition feature_keys :: "string option \<Rightarrow> string list result" where
  "feature_keys feature = (case feature of
     None \<Rightarrow> Inr (keys XFS_FEATURES)
   | Some f \<Rightarrow>
       (if f = [] \<or> f = ''all'' then Inr (keys XFS_FEATURES)
        else (let key = (if f = ''default'' then [] else f) in
              if key \<in> set (keys XFS_FEATURES) then Inr [key] else Inl ValueError)))"

record profile =
  p_mkfs :: string
  p_mount :: string
  p_needs :: "string option"

text \<open>The guards of the matrix loop, on the block size alone and on the pair.\<close>

definition block_ok :: "feature \<Rightarrow> nat \<Rightarrow> bool" where
  "block_ok f block =
     (\<not> (\<not> f_v4 f \<and> block < XFS_MIN_CRC_BLOCKSIZE)
      \<and> \<not> (f_v4 f \<and> block > GUEST_PAGE_SIZE)
      \<and> (case f_min_block f of None \<Rightarrow> True | Some b \<Rightarrow> \<not> block < b)
      \<and> (case f_rt_mult f of None \<Rightarrow> True | Some m \<Rightarrow> \<not> m * block < XFS_MIN_RTEXTSIZE))"

definition section_name :: "string \<Rightarrow> nat \<Rightarrow> nat \<Rightarrow> string" where
  "section_name feat block sector =
     ''xfs_'' @ (if feat \<noteq> [] then feat @ ''_'' else []) @ ''bs'' @ size_tag block @ ''_ss'' @ size_tag sector"

definition matrix_mkfs :: "feature \<Rightarrow> nat \<Rightarrow> nat \<Rightarrow> string" where
  "matrix_mkfs f block sector =
     join '' '' (filter (\<lambda>p. p \<noteq> [])
       ([f_mkfs f, ''-b size='' @ show_nat block, ''-s size='' @ show_nat sector]
        @ (case f_rt_mult f of None \<Rightarrow> [] | Some m \<Rightarrow> [''-r extsize='' @ show_nat (m * block)])))"

definition feature_matrix :: "string \<Rightarrow> feature \<Rightarrow> (string \<times> profile) list" where
  "feature_matrix feat f =
     concat (map (\<lambda>block. map (\<lambda>sector.
         (section_name feat block sector,
          \<lparr>p_mkfs = matrix_mkfs f block sector, p_mount = f_mount f, p_needs = f_needs f\<rparr>))
       (filter (\<lambda>sector. \<not> sector > block) XFS_SECTOR_SIZES))
     (filter (block_ok f) XFS_BLOCK_SIZES))"

definition default_profile :: "string \<Rightarrow> feature \<Rightarrow> string \<times> profile" where
  "default_profile feat f =
     (''xfs'' @ (if feat \<noteq> [] then ''_'' @ feat else []),
      \<lparr>p_mkfs = f_mkfs f, p_mount = f_mount f, p_needs = f_needs f\<rparr>)"

text \<open>\<open>matrix[name] = value\<close>, over the features selected.\<close>

definition xfs_profiles_matrix :: "string option \<Rightarrow> string \<Rightarrow> (string, profile) dict result" where
  "xfs_profiles_matrix feature geometry =
     (if geometry \<notin> {''matrix'', ''default''} then Inl ValueError
      else andthen (feature_keys feature) (\<lambda>feats.
        Inr (foldl (\<lambda>d (n, p). dict_set n p d) []
          (concat (map (\<lambda>feat.
             let f = the (dict_get XFS_FEATURES feat) in
             if geometry = ''default'' then [default_profile feat f] else feature_matrix feat f) feats)))))"

section \<open>The catalogue text\<close>

definition profile_lines :: "string \<times> profile \<Rightarrow> string list" where
  "profile_lines np = (let (name, p) = np in
     [''['' @ name @ '']'', ''FSTYP=xfs'']
     @ (if p_mkfs p \<noteq> [] then [''MKFS_OPTIONS=\"'' @ p_mkfs p @ ''\"''] else [])
     @ (if p_mount p \<noteq> [] then [''MOUNT_OPTIONS=\"'' @ p_mount p @ ''\"''] else [])
     @ (case p_needs p of
          None \<Rightarrow> []
        | Some n \<Rightarrow>
            (let suffix = (if n = ''logdev'' then ''LOGDEV'' else ''RTDEV'') in
             [''USE_EXTERNAL=yes'', ''TEST_'' @ suffix @ ''='', ''SCRATCH_'' @ suffix @ ''=''])))"

definition catalog_text :: "(string, profile) dict \<Rightarrow> string" where
  "catalog_text profiles = join (nl @ nl) (map (\<lambda>np. join nl (profile_lines np)) profiles) @ nl"

definition xfs_catalog_text :: "string option \<Rightarrow> string \<Rightarrow> string result" where
  "xfs_catalog_text feature geometry =
     andthen (xfs_profiles_matrix feature geometry) (\<lambda>ps. Inr (catalog_text ps))"

section \<open>Reading a config\<close>

definition SECTION_RE :: re where
  "SECTION_RE = RSeqs [RBol, RLit ''['', RGrp ''1'' (RPlus (RCls (\<lambda>c. c \<noteq> CHR '']''))), RLit '']'']"

definition header_name :: "string \<Rightarrow> string option" where
  "header_name l = map_option (\<lambda>m. strip (grp0 m ''1'')) (re_match SECTION_RE (strip l))"

fun sections_from :: "string list \<Rightarrow> string list \<Rightarrow> string list" where
  "sections_from seen [] = seen"
| "sections_from seen (l # ls) =
     (case header_name l of
        None \<Rightarrow> sections_from seen ls
      | Some n \<Rightarrow> sections_from (if n \<noteq> [] \<and> n \<notin> set seen then seen @ [n] else seen) ls)"

definition parse_sections :: "string \<Rightarrow> string list" where
  "parse_sections text = sections_from [] (splitlines text)"

definition strip_quotes :: "string \<Rightarrow> string" where
  "strip_quotes v0 =
     (let v = strip v0 in
      if length v \<ge> 2 \<and> hd v = last v \<and> hd v \<in> {CHR 0x27, CHR 0x22} then butlast (tl v) else v)"

text \<open>One line of \<open>section_vars\<close>: the section it is in, and the variables so far.\<close>

definition vars_line ::
  "bool \<Rightarrow> string \<Rightarrow> string option \<times> (string, string) dict \<Rightarrow> string
    \<Rightarrow> string option \<times> (string, string) dict" where
  "vars_line has_sections section acc raw =
     (let (current, d) = acc; line = strip raw in
      if line = [] \<or> prefix ''#'' line then acc
      else (case re_match SECTION_RE line of
        Some m \<Rightarrow> (Some (strip (grp0 m ''1'')), d)
      | None \<Rightarrow>
          (if CHR ''='' \<notin> set line then acc
           else (let key = strip (before_chr (CHR ''='') line);
                     value = strip_quotes (after_chr (CHR ''='') line) in
                 if key = [] then acc
                 else if \<not> has_sections \<and> current = None \<or> current = Some section
                 then (current, dict_set key value d) else acc))))"

definition section_vars :: "string \<Rightarrow> string \<Rightarrow> (string, string) dict" where
  "section_vars config_text section =
     snd (foldl (vars_line (parse_sections config_text \<noteq> []) section) (None, []) (splitlines config_text))"

fun block_lines :: "string \<Rightarrow> bool \<Rightarrow> string list \<Rightarrow> string list" where
  "block_lines section grabbing [] = []"
| "block_lines section grabbing (l # ls) =
     (case header_name l of
        Some n \<Rightarrow>
          (if grabbing then []
           else if n = section then l # block_lines section True ls else block_lines section False ls)
      | None \<Rightarrow> (if grabbing then l # block_lines section grabbing ls else block_lines section grabbing ls))"

definition section_block :: "string \<Rightarrow> string \<Rightarrow> string" where
  "section_block config_text section =
     (let ls = block_lines section False (splitlines config_text) in
      if ls = [] then [] else rstrip (join nl ls) @ nl)"

definition var_or_empty :: "(string, string) dict \<Rightarrow> string \<Rightarrow> string" where
  "var_or_empty d k = (case dict_get d k of None \<Rightarrow> [] | Some v \<Rightarrow> v)"

definition BLOCK_SIZE_RE :: re where
  "BLOCK_SIZE_RE = RSeqs [RLit ''-b'', RPlus RSpace, RLit ''size='', RGrp ''1'' (RPlus RDigit)]"

definition SECTOR_SIZE_RE :: re where
  "SECTOR_SIZE_RE = RSeqs [RLit ''-s'', RPlus RSpace, RLit ''size='', RGrp ''1'' (RPlus RDigit)]"

definition section_block_size :: "string \<Rightarrow> string \<Rightarrow> nat" where
  "section_block_size block section =
     (case re_search BLOCK_SIZE_RE (var_or_empty (section_vars block section) ''MKFS_OPTIONS'') of
        None \<Rightarrow> 4096 | Some (_, m) \<Rightarrow> read_nat (grp0 m ''1''))"

definition section_sector_size :: "string \<Rightarrow> string \<Rightarrow> nat option" where
  "section_sector_size block section =
     (case re_search SECTOR_SIZE_RE (var_or_empty (section_vars block section) ''MKFS_OPTIONS'') of
        None \<Rightarrow> None | Some (_, m) \<Rightarrow> Some (read_nat (grp0 m ''1'')))"

definition section_is_v4 :: "string \<Rightarrow> string \<Rightarrow> bool" where
  "section_is_v4 block section =
     contains ''crc=0'' (var_or_empty (section_vars block section) ''MKFS_OPTIONS'')"

definition DEVICE_KEYS :: "string list" where
  "DEVICE_KEYS = [''TEST_DEV'', ''SCRATCH_DEV'', ''SCRATCH_DEV_POOL'', ''TEST_RTDEV'', ''SCRATCH_RTDEV'',
     ''TEST_LOGDEV'', ''SCRATCH_LOGDEV'', ''LOGWRITES_DEV'']"

definition section_device_map :: "string \<Rightarrow> string \<Rightarrow> (string, string) dict" where
  "section_device_map config_text section =
     (let v = section_vars config_text section in
      map (\<lambda>k. (k, var_or_empty v k)) (filter (\<lambda>k. var_or_empty v k \<noteq> []) DEVICE_KEYS))"

section \<open>Binding the devices\<close>

datatype device =
    Node string "nat option"
  | Plain string

definition device_name :: "device \<Rightarrow> string" where
  "device_name d = (case d of Node n _ \<Rightarrow> n | Plain n \<Rightarrow> n)"

definition log_secs :: "device list \<Rightarrow> nat list" where
  "log_secs = List.map_filter (\<lambda>d. case d of Node _ s \<Rightarrow> s | Plain _ \<Rightarrow> None)"

definition device_sector :: "device list \<Rightarrow> nat" where
  "device_sector ds = (if log_secs ds = [] then 512 else Max (set (log_secs ds)))"

definition EXTERNAL_DEV_KEYS :: "string list" where
  "EXTERNAL_DEV_KEYS = [''TEST_RTDEV'', ''SCRATCH_RTDEV'', ''TEST_LOGDEV'', ''SCRATCH_LOGDEV'']"

definition EMPTY_DEV_RE :: "string \<Rightarrow> re" where
  "EMPTY_DEV_RE key = RSeqs [RMBol, RStar RSpace, RLit (key @ ''=''), RStar RSpace, RMEol]"

definition section_external_devs :: "string \<Rightarrow> string list" where
  "section_external_devs block = filter (\<lambda>key. re_search (EMPTY_DEV_RE key) block \<noteq> None) EXTERNAL_DEV_KEYS"

text \<open>\<open>rx.sub(repl, body, count=1)\<close>, for a replacement without a backslash.\<close>

definition sub_first :: "re \<Rightarrow> string \<Rightarrow> string \<Rightarrow> string" where
  "sub_first r repl s = (case re_search r s of None \<Rightarrow> s | Some (before, m) \<Rightarrow> before @ repl @ m_rest m)"

fun fill_externals :: "(string \<times> string) list \<Rightarrow> string \<Rightarrow> string" where
  "fill_externals [] body = body"
| "fill_externals ((key, dev) # ks) body =
     fill_externals ks (sub_first (EMPTY_DEV_RE key) (key @ ''='' @ dev) body)"

definition assign :: "string \<Rightarrow> string \<Rightarrow> string \<times> string" where
  "assign key value = (key @ ''='', key @ ''='' @ value)"

definition scratch_free :: "string \<Rightarrow> bool" where
  "scratch_free block = (\<not> contains ''SCRATCH_DEV='' block \<and> \<not> contains ''SCRATCH_DEV_POOL='' block)"

definition scratch_base :: "string list \<Rightarrow> string \<times> string" where
  "scratch_base devs =
     (if length devs > 2 then assign ''SCRATCH_DEV_POOL'' (''\"'' @ join '' '' (tl devs) @ ''\"'')
      else assign ''SCRATCH_DEV'' (devs ! 1))"

definition mount_base :: "string list \<Rightarrow> (string \<times> string) list" where
  "mount_base devs = [assign ''TEST_DEV'' (hd devs), assign ''TEST_DIR'' ''/media/test'',
     assign ''SCRATCH_MNT'' ''/media/scratch'']"

text \<open>The body with the base lines whose key the block does not mention.\<close>

definition with_base :: "string \<Rightarrow> string \<Rightarrow> (string \<times> string) list \<Rightarrow> string" where
  "with_base block body base =
     (let added = map snd (filter (\<lambda>(key, _). \<not> contains key block) base) in
      (if added = [] then body else body @ nl @ join nl added) @ nl)"

definition no_newlines_end :: "string \<Rightarrow> string" where
  "no_newlines_end s = rstrip_by (\<lambda>c. c = CHR 0x0A) s"

definition logwrites_split :: "string \<Rightarrow> bool \<Rightarrow> nat \<Rightarrow> string list \<Rightarrow> ((string \<times> string) list \<times> string list) result" where
  "logwrites_split block logwrites externals devs =
     (if logwrites \<and> \<not> contains ''LOGWRITES_DEV='' block
      then (if length devs < 2 + externals + 1 then Inl ValueError
            else Inr ([assign ''LOGWRITES_DEV'' (last devs)], butlast devs))
      else Inr ([], devs))"

definition inject_device_base :: "string \<Rightarrow> device list \<Rightarrow> bool \<Rightarrow> string result" where
  "inject_device_base block devices logwrites =
     (let externals = section_external_devs block in
      andthen (logwrites_split block logwrites (length externals) (map device_name devices)) (\<lambda>(log, devs).
      if externals \<noteq> [] then
        (if length devs < 2 + length externals then Inl ValueError
         else Inr (with_base block
           (fill_externals (zip externals (drop 2 devs)) (no_newlines_end block))
           (mount_base devs @ (if scratch_free block then [assign ''SCRATCH_DEV'' (devs ! 1)] else []) @ log)))
      else if length devs < 2 then Inl ValueError
      else Inr (with_base block (no_newlines_end block)
        (mount_base devs @ (if scratch_free block then [scratch_base devs] else []) @ log))))"

text \<open>\<open>render_local_config\<close>, on the device paths.\<close>

definition render_local_config :: "string \<Rightarrow> string list \<Rightarrow> string result" where
  "render_local_config local_config devs =
     (let text = strip local_config in
      if text \<noteq> [] then Inr (if suffix nl text then text else text @ nl)
      else if devs = [] then Inl ValueError
      else Inr (join nl
        ([''[default]'', ''FSTYP=xfs'', ''TEST_DEV='' @ hd devs, ''TEST_DIR=/media/test'']
         @ (if length devs = 2 then [''SCRATCH_DEV='' @ devs ! 1] else [])
         @ [''SCRATCH_MNT=/media/scratch'']
         @ (if length devs > 2 then [''SCRATCH_DEV_POOL=\"'' @ join '' '' (tl devs) @ ''\"''] else [])) @ nl))"

section \<open>The matrix is exact\<close>

definition profile_of :: "feature \<Rightarrow> nat \<Rightarrow> nat \<Rightarrow> profile" where
  "profile_of f block sector =
     \<lparr>p_mkfs = matrix_mkfs f block sector, p_mount = f_mount f, p_needs = f_needs f\<rparr>"

lemma append_chr_eq:
  assumes "c \<notin> set s" "c \<notin> set t"
  shows "a @ c # s = b @ c # (t :: 'a list) \<longleftrightarrow> a = b \<and> s = t"
proof
  assume eq: "a @ c # s = b @ c # t"
  have "rev s @ c # rev a = rev t @ c # rev b" using arg_cong [OF eq, of rev] by simp
  then have "takeWhile (\<lambda>x. x \<noteq> c) (rev s @ c # rev a) = takeWhile (\<lambda>x. x \<noteq> c) (rev t @ c # rev b)" by simp
  moreover have "takeWhile (\<lambda>x. x \<noteq> c) (rev u @ c # w) = rev u" if "c \<notin> set u" for u w :: "'a list"
    using that by (subst takeWhile_append2) auto
  ultimately have "rev s = rev t" using assms by metis
  with eq show "a = b \<and> s = t" by simp
qed simp

lemma size_tag_plain: "CHR ''_'' \<notin> set (size_tag n)"
proof -
  have "CHR ''_'' \<notin> set (show_nat (n div 1024))"
    using show_nat_digits [of "n div 1024"] by (auto simp: is_digit_def)
  then show ?thesis by (simp add: size_tag_def)
qed

lemma size_tag_eq:
  "size_tag m = size_tag n \<longleftrightarrow> (if m = 512 \<or> n = 512 then m = n else m div 1024 = n div 1024)"
proof -
  have "''512'' \<noteq> show_nat k @ ''k''" for k
  proof
    assume "''512'' = show_nat k @ ''k''"
    from arg_cong [OF this, of last] show False by simp
  qed
  then show ?thesis by (auto simp: size_tag_def simp del: show_nat.simps)
qed

lemma block_tags: "inj_on size_tag (set XFS_BLOCK_SIZES)"
  by (simp add: inj_on_def size_tag_eq XFS_BLOCK_SIZES_def)

lemma sectors_are_blocks: "set XFS_SECTOR_SIZES \<subseteq> set XFS_BLOCK_SIZES"
  by (simp add: XFS_SECTOR_SIZES_def XFS_BLOCK_SIZES_def)

definition base_name :: "string \<Rightarrow> string" where
  "base_name feat = ''xfs'' @ (if feat \<noteq> [] then ''_'' @ feat else [])"

lemma base_name_inject [simp]: "base_name a = base_name b \<longleftrightarrow> a = b"
  by (simp add: base_name_def)

lemma section_name_split:
  "section_name feat b s =
     (base_name feat @ CHR ''_'' # ''bs'' @ size_tag b) @ CHR ''_'' # ''ss'' @ size_tag s"
  by (simp add: section_name_def base_name_def)

lemma section_name_inject:
  assumes "b \<in> set XFS_BLOCK_SIZES" "b' \<in> set XFS_BLOCK_SIZES" "s \<in> set XFS_SECTOR_SIZES" "s' \<in> set XFS_SECTOR_SIZES"
  shows "section_name feat b s = section_name feat' b' s' \<longleftrightarrow> feat = feat' \<and> b = b' \<and> s = s'"
proof -
  have plain: "CHR ''_'' \<notin> set (''ss'' @ size_tag n)" "CHR ''_'' \<notin> set (''bs'' @ size_tag n)" for n
    using size_tag_plain [of n] by auto
  have tags: "size_tag b = size_tag b' \<longleftrightarrow> b = b'" "size_tag s = size_tag s' \<longleftrightarrow> s = s'"
    using assms block_tags sectors_are_blocks by (auto simp: inj_on_def subset_iff)
  show ?thesis
    unfolding section_name_split append_chr_eq [OF plain(1) plain(1)] append_chr_eq [OF plain(2) plain(2)]
    by (auto simp: tags)
qed

lemma feature_matrix_set:
  "set (feature_matrix feat f) =
     {(section_name feat b s, profile_of f b s) | b s.
        b \<in> set XFS_BLOCK_SIZES \<and> block_ok f b \<and> s \<in> set XFS_SECTOR_SIZES \<and> s \<le> b}"
  by (fastforce simp: feature_matrix_def profile_of_def not_less)

lemma distinct_sizes: "distinct XFS_BLOCK_SIZES" "distinct XFS_SECTOR_SIZES"
  by (simp_all add: XFS_BLOCK_SIZES_def XFS_SECTOR_SIZES_def)

lemma distinct_concat_map:
  "distinct xs \<Longrightarrow> (\<And>x. x \<in> set xs \<Longrightarrow> distinct (f x)) \<Longrightarrow>
   (\<And>x y. x \<in> set xs \<Longrightarrow> y \<in> set xs \<Longrightarrow> x \<noteq> y \<Longrightarrow> set (f x) \<inter> set (f y) = {}) \<Longrightarrow>
   distinct (concat (map f xs))"
  by (induction xs) fastforce+

lemma distinct_feature_matrix: "distinct (keys (feature_matrix feat f))"
proof -
  have "keys (feature_matrix feat f) =
    concat (map (\<lambda>b. map (section_name feat b) (filter (\<lambda>s. \<not> s > b) XFS_SECTOR_SIZES))
      (filter (block_ok f) XFS_BLOCK_SIZES))"
    by (simp add: feature_matrix_def map_concat comp_def)
  moreover have "distinct \<dots>"
    by (rule distinct_concat_map)
       (auto simp: distinct_sizes distinct_map inj_on_def section_name_inject)
  ultimately show ?thesis by simp
qed

lemma distinct_features: "distinct (keys XFS_FEATURES)"
  by code_simp

lemma feature_keys_known: "feature_keys feature = Inr feats \<Longrightarrow> distinct feats \<and> set feats \<subseteq> set (keys XFS_FEATURES)"
  using distinct_features
  by (auto simp: feature_keys_def Let_def image_iff split: option.splits if_splits) (metis fst_conv)+

lemma foldl_dict_set:
  "distinct (keys d @ keys xs) \<Longrightarrow> foldl (\<lambda>d (k, v). dict_set k v d) d xs = d @ xs"
proof (induction xs arbitrary: d)
  case (Cons x xs)
  obtain k v where x: "x = (k, v)" by (cases x)
  have "dict_set k v d = d @ [(k, v)]" using Cons.prems
    by (induction d) (auto simp: x)
  with Cons x show ?case by auto
qed simp

definition feature_rows :: "string \<Rightarrow> string \<Rightarrow> (string \<times> profile) list" where
  "feature_rows geometry feat =
     (let f = the (dict_get XFS_FEATURES feat) in
      if geometry = ''default'' then [default_profile feat f] else feature_matrix feat f)"

lemma distinct_feature_rows:
  assumes "distinct feats"
  shows "distinct (keys (concat (map (feature_rows geometry) feats)))"
proof -
  have keys: "keys (concat (map (feature_rows geometry) feats)) = concat (map (\<lambda>x. keys (feature_rows geometry x)) feats)"
    by (simp add: map_concat comp_def)
  have dflt: "fst (default_profile feat f) = base_name feat" for feat f
    by (simp add: default_profile_def base_name_def)
  show ?thesis
  proof (cases "geometry = ''default''")
    case True
    show ?thesis unfolding keys
      by (rule distinct_concat_map) (use assms in \<open>auto simp: feature_rows_def True dflt\<close>)
  next
    case False
    show ?thesis unfolding keys
    proof (rule distinct_concat_map)
      fix x y assume xy: "x \<in> set feats" "y \<in> set feats" "x \<noteq> y"
      show "set (keys (feature_rows geometry x)) \<inter> set (keys (feature_rows geometry y)) = {}"
        using xy(3) by (auto simp: feature_rows_def False Let_def feature_matrix_set section_name_inject)
    qed (simp_all add: assms feature_rows_def False Let_def distinct_feature_matrix)
  qed
qed

lemma matrix_rows:
  assumes "feature_keys feature = Inr feats" "geometry \<in> {''matrix'', ''default''}"
  shows "xfs_profiles_matrix feature geometry = Inr (concat (map (feature_rows geometry) feats))"
proof -
  have "foldl (\<lambda>d (n, p). dict_set n p d) [] (concat (map (feature_rows geometry) feats)) =
    concat (map (feature_rows geometry) feats)"
    by (subst foldl_dict_set)
       (use feature_keys_known [OF assms(1)] in \<open>simp_all add: distinct_feature_rows del: map_concat\<close>)
  then show ?thesis using assms
    by (auto simp: xfs_profiles_matrix_def feature_rows_def [abs_def])
qed

text \<open>
  The geometry matrix is exact: it has one section per admissible combination of a selected
  feature, a block size and a sector size, under distinct names, and no other. Admissible is what
  mkfs and the kernel accept: the sector fits the block, a V5 file system has blocks of at least
  1024 bytes, a V4 one blocks of at most the guest's page, and a feature's minimal block and
  realtime extent are met.
\<close>

theorem profiles_exact:
  assumes "feature_keys feature = Inr feats"
  shows "\<exists>m. xfs_profiles_matrix feature ''matrix'' = Inr m \<and> distinct (keys m) \<and>
    set m = {(section_name feat b s, profile_of f b s) | feat f b s.
      feat \<in> set feats \<and> dict_get XFS_FEATURES feat = Some f \<and>
      b \<in> set XFS_BLOCK_SIZES \<and> s \<in> set XFS_SECTOR_SIZES \<and> s \<le> b \<and>
      (if f_v4 f then b \<le> 4096 else 1024 \<le> b) \<and>
      (case f_min_block f of None \<Rightarrow> True | Some k \<Rightarrow> k \<le> b) \<and>
      (case f_rt_mult f of None \<Rightarrow> True | Some k \<Rightarrow> 4096 \<le> k * b)}"
proof -
  have ok: "block_ok f b \<longleftrightarrow> (if f_v4 f then b \<le> 4096 else 1024 \<le> b) \<and>
      (case f_min_block f of None \<Rightarrow> True | Some k \<Rightarrow> k \<le> b) \<and>
      (case f_rt_mult f of None \<Rightarrow> True | Some k \<Rightarrow> 4096 \<le> k * b)" for f b
    by (auto simp: block_ok_def XFS_MIN_CRC_BLOCKSIZE_def GUEST_PAGE_SIZE_def XFS_MIN_RTEXTSIZE_def
        split: option.splits)
  have known: "distinct feats" "feat \<in> set feats \<Longrightarrow> \<exists>f. dict_get XFS_FEATURES feat = Some f" for feat
    using feature_keys_known [OF assms] map_of_eq_None_iff [of XFS_FEATURES feat] by (auto simp: subset_iff)
  let ?m = "concat (map (feature_rows ''matrix'') feats)"
  have "set ?m = {(section_name feat b s, profile_of f b s) | feat f b s.
      feat \<in> set feats \<and> dict_get XFS_FEATURES feat = Some f \<and>
      b \<in> set XFS_BLOCK_SIZES \<and> s \<in> set XFS_SECTOR_SIZES \<and> s \<le> b \<and> block_ok f b}"
    using known(2) by (fastforce simp: feature_rows_def Let_def feature_matrix_set)
  with matrix_rows [OF assms, of "''matrix''"] distinct_feature_rows [OF known(1), of "''matrix''"]
  show ?thesis by (simp add: ok)
qed

theorem profiles_exact_witness:
  "\<exists>m. xfs_profiles_matrix (Some ''nocrc'') ''matrix'' = Inr m \<and> distinct (keys m) \<and>
     (''xfs_nocrc_bs512_ss512'', profile_of ((plain ''-m crc=0'' [])\<lparr>f_v4 := True\<rparr>) 512 512) \<in> set m"
proof -
  have keys: "feature_keys (Some ''nocrc'') = Inr [''nocrc'']" by code_simp
  obtain m where m: "xfs_profiles_matrix (Some ''nocrc'') ''matrix'' = Inr m" "distinct (keys m)"
    and s: "set m = {(section_name feat b s, profile_of f b s) | feat f b s.
      feat \<in> set [''nocrc''] \<and> dict_get XFS_FEATURES feat = Some f \<and>
      b \<in> set XFS_BLOCK_SIZES \<and> s \<in> set XFS_SECTOR_SIZES \<and> s \<le> b \<and>
      (if f_v4 f then b \<le> 4096 else 1024 \<le> b) \<and>
      (case f_min_block f of None \<Rightarrow> True | Some k \<Rightarrow> k \<le> b) \<and>
      (case f_rt_mult f of None \<Rightarrow> True | Some k \<Rightarrow> 4096 \<le> k * b)}"
    using profiles_exact [OF keys] by blast
  have "''xfs_nocrc_bs512_ss512'' = section_name ''nocrc'' 512 512" by code_simp
  then have "(''xfs_nocrc_bs512_ss512'', profile_of ((plain ''-m crc=0'' [])\<lparr>f_v4 := True\<rparr>) 512 512) \<in> set m"
    unfolding s
    by (auto simp: XFS_FEATURES_def plain_def XFS_BLOCK_SIZES_def XFS_SECTOR_SIZES_def
        intro!: exI [of _ "''nocrc''"] exI [of _ "512::nat"])
  with m show ?thesis by blast
qed

end
