(* ===== verification/FstestsCatalog.thy ===== *)
theory FstestsCatalog
  imports FstestsConfig
begin

text \<open>
  The catalogue of XFS profiles as a text: what \<open>xfs_catalog_text\<close> renders is read back by
  \<open>parse_sections\<close>, \<open>section_block\<close>, \<open>section_vars\<close> and the size readers of
  \<open>f/fstests/common.py\<close> as the profiles it was rendered from.
\<close>

section \<open>Headers and assignments\<close>

definition name_ok :: "string \<Rightarrow> bool" where
  "name_ok n = (n \<noteq> [] \<and> CHR '']'' \<notin> set n \<and> line_ok n \<and> strip n = n)"

definition profile_ok :: "profile \<Rightarrow> bool" where
  "profile_ok p = (line_ok (p_mkfs p) \<and> line_ok (p_mount p))"

lemma section_re_header:
  assumes "w \<noteq> []" "CHR '']'' \<notin> set w"
  shows "\<exists>m. re_match SECTION_RE (''['' @ w @ '']'' @ rest) = Some m \<and> grp0 m ''1'' = w"
proof -
  let ?p = "\<lambda>c. c \<noteq> CHR '']''"
  have all: "\<forall>c\<in>set w. ?p c" using assms(2) by auto
  obtain rs where rs: "run (RGrp ''1'' (RPlus (RCls ?p))) (''['', w @ '']'' @ rest, []) =
      (rev w @ ''['', '']'' @ rest, [(''1'', w)]) # rs"
    using grp_plus_cls_first [OF all, of "'']'' @ rest" "''1''" "''[''" "[]"] assms(1) by auto
  have "run (RLit '']'') (rev w @ ''['', '']'' @ rest, [(''1'', w)]) =
      [('']'' @ rev w @ ''['', rest, [(''1'', w)])]"
    by (simp add: run_RLit)
  then have "\<exists>ys. run SECTION_RE ([], ''['' @ w @ '']'' @ rest, []) = ('']'' @ rev w @ ''['', rest, [(''1'', w)]) # ys"
    using rs by (simp add: SECTION_RE_def run_RLit)
  then show ?thesis by (auto simp: re_match_def first_match_def grp0_def grp_def)
qed

lemma section_re_other: "l = [] \<or> hd l \<noteq> CHR ''['' \<Longrightarrow> re_match SECTION_RE l = None"
  by (cases l) (auto simp: SECTION_RE_def re_match_def first_match_def run_RLit)

lemma bracket_strip: "strip (''['' @ w @ '']'') = ''['' @ w @ '']''"
  by (rule strip_by_id) (simp add: is_space_def)

lemma header_name_bracket: "name_ok n \<Longrightarrow> header_name (''['' @ n @ '']'') = Some n"
  using section_re_header [of n "[]"] by (auto simp: header_name_def bracket_strip [simplified] name_ok_def)

definition key_ok :: "string \<Rightarrow> bool" where
  "key_ok k = (k \<noteq> [] \<and> hd k \<noteq> CHR ''['' \<and> hd k \<noteq> CHR ''#'' \<and> list_all (\<lambda>c. \<not> is_space c \<and> c \<noteq> CHR ''='') k)"

definition assignment :: "string \<times> string \<Rightarrow> string" where
  "assignment kv = fst kv @ ''='' @ snd kv"

definition kv_ok :: "string \<times> string \<Rightarrow> bool" where
  "kv_ok kv = (key_ok (fst kv) \<and> (snd kv = [] \<or> \<not> is_space (last (snd kv))))"

lemma assignment_strip:
  assumes "kv_ok kv"
  shows "strip (assignment kv) = assignment kv"
proof -
  have "\<not> is_space (hd (assignment kv))"
    using assms by (cases "fst kv") (auto simp: kv_ok_def key_ok_def assignment_def)
  moreover have "\<not> is_space (last (assignment kv))"
    using assms by (cases "snd kv = []") (auto simp: kv_ok_def assignment_def is_space_def)
  ultimately show ?thesis by (intro strip_by_id) simp
qed

lemma assignment_header: "kv_ok kv \<Longrightarrow> header_name (assignment kv) = None"
  unfolding header_name_def
  by (simp add: assignment_strip section_re_other)
     (auto simp: assignment_def kv_ok_def key_ok_def intro!: section_re_other)

lemma blank_header [simp]: "header_name [] = None"
  by (simp add: header_name_def strip_by_def lstrip_by_def rstrip_by_def section_re_other)

lemma vars_line_blank [simp]: "vars_line h sec acc [] = acc"
  by (simp add: vars_line_def Let_def strip_by_def lstrip_by_def rstrip_by_def split: prod.splits)

lemma vars_line_header:
  assumes "name_ok n"
  shows "vars_line h sec (cur, d) (''['' @ n @ '']'') = (Some n, d)"
proof -
  obtain m where "re_match SECTION_RE (''['' @ n @ '']'' @ []) = Some m" "grp0 m ''1'' = n"
    using section_re_header [of n "[]"] assms by (auto simp: name_ok_def)
  then show ?thesis
    using assms by (simp add: vars_line_def Let_def bracket_strip [simplified] name_ok_def)
qed

definition active :: "bool \<Rightarrow> string \<Rightarrow> string option \<Rightarrow> bool" where
  "active h sec cur = (\<not> h \<and> cur = None \<or> cur = Some sec)"

lemma vars_line_assign:
  assumes ok: "kv_ok kv"
  shows "vars_line h sec (cur, d) (assignment kv) =
    (cur, if active h sec cur then dict_set (fst kv) (strip_quotes (snd kv)) d else d)"
proof -
  obtain k v where kv: "kv = (k, v)" by (cases kv)
  from ok have k: "k \<noteq> []" "hd k \<noteq> CHR ''[''" "hd k \<noteq> CHR ''#''"
    "\<forall>c\<in>set k. \<not> is_space c \<and> c \<noteq> CHR ''=''"
    by (auto simp: kv kv_ok_def key_ok_def list_all_iff)
  have line: "assignment kv = k @ CHR ''='' # v" by (simp add: kv assignment_def)
  have re: "re_match SECTION_RE (k @ CHR ''='' # v) = None"
    using k by (intro section_re_other) simp
  have "strip k = k" using k by (intro strip_by_id) auto
  moreover have "before_chr (CHR ''='') (k @ CHR ''='' # v) = k"
    "after_chr (CHR ''='') (k @ CHR ''='' # v) = v"
    using k by (simp_all add: before_chr_def after_chr_def takeWhile_append2 dropWhile_append2)
  moreover have "\<not> prefix ''#'' (k @ CHR ''='' # v)" using k by (cases k) auto
  ultimately show ?thesis
    using assignment_strip [OF ok] k(1) re
    by (simp add: vars_line_def Let_def line [unfolded kv] active_def kv)
qed

lemma vars_line_assigns:
  "list_all kv_ok kvs \<Longrightarrow>
   foldl (vars_line h sec) (cur, d) (map assignment kvs) =
     (cur, if active h sec cur then foldl (\<lambda>d kv. dict_set (fst kv) (strip_quotes (snd kv)) d) d kvs else d)"
  by (induction kvs arbitrary: d) (simp_all add: vars_line_assign)

section \<open>A profile's lines\<close>

definition needs_suffix :: "string \<Rightarrow> string" where
  "needs_suffix n = (if n = ''logdev'' then ''LOGDEV'' else ''RTDEV'')"

text \<open>The variables a profile sets, and the assignments its block has.\<close>

definition profile_vars :: "profile \<Rightarrow> (string, string) dict" where
  "profile_vars p =
     [(''FSTYP'', ''xfs'')]
     @ (if p_mkfs p \<noteq> [] then [(''MKFS_OPTIONS'', p_mkfs p)] else [])
     @ (if p_mount p \<noteq> [] then [(''MOUNT_OPTIONS'', p_mount p)] else [])
     @ (case p_needs p of None \<Rightarrow> []
        | Some n \<Rightarrow> [(''USE_EXTERNAL'', ''yes''), (''TEST_'' @ needs_suffix n, []), (''SCRATCH_'' @ needs_suffix n, [])])"

definition quoted :: "string \<Rightarrow> string" where
  "quoted v = ''\"'' @ v @ ''\"''"

definition raw_vars :: "profile \<Rightarrow> (string \<times> string) list" where
  "raw_vars p = map (\<lambda>(k, v). (k, if k = ''MKFS_OPTIONS'' \<or> k = ''MOUNT_OPTIONS'' then quoted v else v)) (profile_vars p)"

lemma profile_lines_eq: "profile_lines (n, p) = (''['' @ n @ '']'') # map assignment (raw_vars p)"
  by (simp add: profile_lines_def Let_def raw_vars_def profile_vars_def assignment_def quoted_def
      needs_suffix_def split: option.split)

lemma needs_suffix_keys:
  "needs_suffix n = ''LOGDEV'' \<or> needs_suffix n = ''RTDEV''"
  by (simp add: needs_suffix_def)

lemma needs_cases:
  obtains (none) "p_needs p = None"
    | (log) n where "p_needs p = Some n" "needs_suffix n = ''LOGDEV''"
    | (rt) n where "p_needs p = Some n" "needs_suffix n = ''RTDEV''"
  using needs_suffix_keys by (cases "p_needs p") auto

lemma raw_vars_ok: "list_all kv_ok (raw_vars p)"
  by (cases p rule: needs_cases)
     (simp_all add: raw_vars_def profile_vars_def kv_ok_def key_ok_def quoted_def is_space_def)

lemma strip_quotes_quoted [simp]: "strip_quotes (quoted v) = v"
proof -
  have "strip (quoted v) = quoted v"
    by (rule strip_by_id) (simp add: quoted_def is_space_def)
  then show ?thesis by (simp add: strip_quotes_def Let_def quoted_def butlast_append)
qed

lemma strip_quotes_plain: "strip_quotes ''xfs'' = ''xfs''" "strip_quotes ''yes'' = ''yes''" "strip_quotes [] = []"
  by (code_simp, code_simp, code_simp)

lemma raw_vars_values: "map (\<lambda>kv. (fst kv, strip_quotes (snd kv))) (raw_vars p) = profile_vars p"
  by (cases p rule: needs_cases) (simp_all add: raw_vars_def profile_vars_def strip_quotes_plain)

lemma distinct_profile_vars: "distinct (keys (profile_vars p))"
  by (cases p rule: needs_cases) (simp_all add: profile_vars_def)

lemma foldl_raw_vars:
  "foldl (\<lambda>d kv. dict_set (fst kv) (strip_quotes (snd kv)) d) [] (raw_vars p) = profile_vars p"
proof -
  have "foldl (\<lambda>d kv. dict_set (fst kv) (strip_quotes (snd kv)) d) [] (raw_vars p) =
    foldl (\<lambda>d (k, v). dict_set k v d) [] (map (\<lambda>kv. (fst kv, strip_quotes (snd kv))) (raw_vars p))"
    by (simp add: foldl_map)
  then show ?thesis by (simp add: raw_vars_values foldl_dict_set distinct_profile_vars)
qed

lemma vars_of_profile:
  assumes "name_ok n"
  shows "foldl (vars_line True sec) (cur, d) (profile_lines (n, p)) =
    (Some n, if n = sec then foldl (\<lambda>d kv. dict_set (fst kv) (strip_quotes (snd kv)) d) d (raw_vars p) else d)"
  using assms vars_line_header [OF assms, simplified]
  by (simp add: profile_lines_eq vars_line_assigns raw_vars_ok active_def)

lemma profile_lines_ok: "name_ok n \<Longrightarrow> profile_ok p \<Longrightarrow> l \<in> set (profile_lines (n, p)) \<Longrightarrow> line_ok l"
  by (cases p rule: needs_cases)
     (auto simp: profile_lines_eq raw_vars_def profile_vars_def assignment_def quoted_def name_ok_def
      profile_ok_def line_ok_def is_newline_def split: if_splits)

section \<open>The whole text\<close>

definition catalog_ok :: "(string, profile) dict \<Rightarrow> bool" where
  "catalog_ok ps = (distinct (keys ps) \<and> list_all (\<lambda>(n, p). name_ok n \<and> profile_ok p) ps)"

lemma splitlines_unlines_append:
  "\<forall>l\<in>set ls. line_ok l \<Longrightarrow> splitlines (unlines ls @ rest) = ls @ splitlines rest"
proof (induction ls)
  case (Cons l ls)
  then show ?case using splitlines_line [of l "unlines ls @ rest"] by (simp add: unlines_def)
qed (simp add: unlines_def)

lemma catalog_text_one: "catalog_text [np] = unlines (profile_lines np)"
  using join_nl [of "profile_lines np"]
  by (cases np) (simp add: catalog_text_def unlines_def profile_lines_eq)

lemma catalog_text_Cons: "ps \<noteq> [] \<Longrightarrow> catalog_text (np # ps) = unlines (profile_lines np) @ nl @ catalog_text ps"
  using join_nl [of "profile_lines np"]
  by (cases np) (simp add: catalog_text_def join_Cons unlines_def profile_lines_eq)

lemma catalog_lines:
  "catalog_ok ps \<Longrightarrow> ps \<noteq> [] \<Longrightarrow>
   [] # splitlines (catalog_text ps) = concat (map (\<lambda>np. [] # profile_lines np) ps)"
proof (induction ps)
  case (Cons np ps)
  have ok: "\<forall>l\<in>set (profile_lines np). line_ok l"
    using Cons.prems profile_lines_ok by (cases np) (auto simp: catalog_ok_def)
  show ?case
  proof (cases "ps = []")
    case True
    then show ?thesis
      using splitlines_unlines [OF ok] by (simp add: catalog_text_one)
  next
    case False
    have "splitlines (nl @ catalog_text ps) = [] # splitlines (catalog_text ps)"
      using splitlines_line [of "[]" "catalog_text ps"] by (simp add: line_ok_def)
    moreover have "catalog_ok ps" using Cons.prems by (simp add: catalog_ok_def)
    ultimately show ?thesis using False Cons.IH
      by (simp add: catalog_text_Cons splitlines_unlines_append [OF ok])
  qed
qed simp

lemma sections_from_blank: "sections_from seen ([] # ls) = sections_from seen ls"
  by simp

lemma vars_blank: "foldl (vars_line h sec) acc ([] # ls) = foldl (vars_line h sec) acc ls"
  by simp

lemma block_lines_blank: "block_lines sec False ([] # ls) = block_lines sec False ls"
  by simp

lemma assignment_sections:
  "list_all kv_ok kvs \<Longrightarrow> sections_from seen (map assignment kvs @ ls) = sections_from seen ls"
  by (induction kvs) (simp_all add: assignment_header)

lemma assignment_block:
  "list_all kv_ok kvs \<Longrightarrow>
   block_lines sec g (map assignment kvs @ ls) = (if g then map assignment kvs else []) @ block_lines sec g ls"
  by (cases g; induction kvs) (simp_all add: assignment_header)

lemma sections_of_blocks:
  "list_all (\<lambda>(n, p). name_ok n \<and> profile_ok p) ps \<Longrightarrow> distinct (seen @ keys ps) \<Longrightarrow>
   sections_from seen (concat (map (\<lambda>np. [] # profile_lines np) ps)) = seen @ keys ps"
proof (induction ps arbitrary: seen)
  case (Cons np ps)
  obtain n p where np: "np = (n, p)" by (cases np)
  have n: "name_ok n" "n \<noteq> []" "n \<notin> set seen" using Cons.prems by (auto simp: np name_ok_def)
  have "distinct ((seen @ [n]) @ keys ps)" using Cons.prems(2) by (simp add: np)
  with Cons n show ?case
    by (simp add: np profile_lines_eq header_name_bracket [simplified] assignment_sections raw_vars_ok)
qed simp

lemma vars_of_blocks_other:
  "list_all (\<lambda>(n, p). name_ok n \<and> profile_ok p) ps \<Longrightarrow> sec \<notin> set (keys ps) \<Longrightarrow>
   snd (foldl (vars_line True sec) (cur, d) (concat (map (\<lambda>np. [] # profile_lines np) ps))) = d"
proof (induction ps arbitrary: cur)
  case (Cons np ps)
  then show ?case by (cases np) (auto simp: vars_of_profile)
qed simp

lemma vars_of_blocks:
  assumes "catalog_ok (as @ (n, p) # bs)"
  shows "snd (foldl (vars_line True n) (cur, []) (concat (map (\<lambda>np. [] # profile_lines np) (as @ (n, p) # bs))))
    = profile_vars p"
proof -
  let ?blocks = "\<lambda>ps. concat (map (\<lambda>np. [] # profile_lines np) ps)"
  from assms have ok: "list_all (\<lambda>(n, p). name_ok n \<and> profile_ok p) as"
    "list_all (\<lambda>(n, p). name_ok n \<and> profile_ok p) bs" "name_ok n" "n \<notin> set (keys as)" "n \<notin> set (keys bs)"
    by (auto simp: catalog_ok_def)
  obtain cur' where a: "foldl (vars_line True n) (cur, []) (?blocks as) = (cur', [])"
    using vars_of_blocks_other [OF ok(1,4)] by (metis prod.collapse)
  have "foldl (vars_line True n) (cur, []) (?blocks (as @ (n, p) # bs)) =
    foldl (vars_line True n) (foldl (vars_line True n) (cur', []) (profile_lines (n, p))) (?blocks bs)"
    by (simp add: a)
  then show ?thesis
    by (simp add: vars_of_profile ok(3) foldl_raw_vars vars_of_blocks_other [OF ok(2,5)])
qed

lemma block_of_blocks:
  assumes "catalog_ok (as @ (n, p) # bs)"
  shows "block_lines n False (concat (map (\<lambda>np. [] # profile_lines np) (as @ (n, p) # bs)))
    = profile_lines (n, p) @ (if bs = [] then [] else [[]])"
proof -
  have skip: "block_lines n False (concat (map (\<lambda>np. [] # profile_lines np) ps) @ ls) = block_lines n False ls"
    if "list_all (\<lambda>(n, p). name_ok n \<and> profile_ok p) ps" "n \<notin> set (keys ps)" for ps ls
    using that
  proof (induction ps)
    case (Cons np ps)
    obtain k q where np: "np = (k, q)" by (cases np)
    with Cons show ?case
      by (auto simp: profile_lines_eq header_name_bracket [simplified] assignment_block raw_vars_ok)
  qed simp
  from assms have ok: "list_all (\<lambda>(n, p). name_ok n \<and> profile_ok p) as" "n \<notin> set (keys as)" "name_ok n"
    by (auto simp: catalog_ok_def)
  have rest: "block_lines n True (concat (map (\<lambda>np. [] # profile_lines np) bs)) = (if bs = [] then [] else [[]])"
    using assms by (cases bs) (auto simp: catalog_ok_def profile_lines_eq header_name_bracket [simplified])
  show ?thesis
    using skip [OF ok(1,2), of "concat (map (\<lambda>np. [] # profile_lines np) ((n, p) # bs))"] ok(3) rest
    by (simp add: profile_lines_eq header_name_bracket [simplified] assignment_block raw_vars_ok)
qed

lemma last_profile_line:
  "profile_lines (n, p) \<noteq> []" "last (profile_lines (n, p)) \<noteq> []" "\<not> is_space (last (last (profile_lines (n, p))))"
  by (cases p rule: needs_cases,
      auto simp: profile_lines_eq raw_vars_def profile_vars_def assignment_def quoted_def is_space_def)+

lemma join_last: "ls \<noteq> [] \<Longrightarrow> last ls \<noteq> [] \<Longrightarrow> join nl ls \<noteq> [] \<and> last (join nl ls) = last (last ls)"
proof (induction ls)
  case (Cons l ls)
  then show ?case by (cases "ls = []") (auto simp: join_Cons)
qed simp

lemma rstrip_profile_lines: "rstrip (join nl (profile_lines (n, p))) = join nl (profile_lines (n, p))"
  using join_last [OF last_profile_line(1,2)] last_profile_line(3) by (intro rstrip_by_id) auto

lemma rstrip_nl: "rstrip (s @ nl) = rstrip s"
  by (simp add: rstrip_by_def is_space_def)

lemma catalog_readback:
  assumes ok: "catalog_ok ps" and "(n, p) \<in> set ps"
  shows "parse_sections (catalog_text ps) = keys ps"
    and "section_vars (catalog_text ps) n = profile_vars p"
    and "section_block (catalog_text ps) n = catalog_text [(n, p)]"
proof -
  obtain as bs where ps: "ps = as @ (n, p) # bs" using assms(2) by (meson split_list)
  have ne: "ps \<noteq> []" by (simp add: ps)
  note lines = catalog_lines [OF ok ne]
  show sections: "parse_sections (catalog_text ps) = keys ps"
    using sections_of_blocks [of ps "[]"] ok
    by (simp add: parse_sections_def catalog_ok_def lines [symmetric])
  have "parse_sections (catalog_text ps) \<noteq> []" using sections ne by simp
  then have "section_vars (catalog_text ps) n =
      snd (foldl (vars_line True n) (None, []) ([] # splitlines (catalog_text ps)))"
    by (simp add: section_vars_def)
  also have "\<dots> = profile_vars p"
    unfolding lines unfolding ps by (rule vars_of_blocks [OF ok [unfolded ps]])
  finally show "section_vars (catalog_text ps) n = profile_vars p" .
  have "block_lines n False (splitlines (catalog_text ps)) =
      block_lines n False ([] # splitlines (catalog_text ps))"
    by simp
  also have "\<dots> = profile_lines (n, p) @ (if bs = [] then [] else [[]])"
    unfolding lines unfolding ps by (rule block_of_blocks [OF ok [unfolded ps]])
  finally have block: "block_lines n False (splitlines (catalog_text ps)) =
      profile_lines (n, p) @ (if bs = [] then [] else [[]])" .
  have "join nl (profile_lines (n, p) @ [[]]) = join nl (profile_lines (n, p)) @ nl"
    using join_append [of "profile_lines (n, p)" "[[]]" nl] last_profile_line(1) by simp
  then have "section_block (catalog_text ps) n = join nl (profile_lines (n, p)) @ nl"
    using last_profile_line(1) [of n p]
    by (simp add: section_block_def block Let_def rstrip_nl rstrip_profile_lines)
  then show "section_block (catalog_text ps) n = catalog_text [(n, p)]"
    by (simp add: catalog_text_def)
qed

section \<open>The shipped catalogue\<close>

definition plain_char :: "char \<Rightarrow> bool" where
  "plain_char c = (is_alnum_ascii c \<or> c = CHR ''_'')"

lemma plain_name_ok: "n \<noteq> [] \<Longrightarrow> list_all plain_char n \<Longrightarrow> name_ok n"
proof -
  assume n: "n \<noteq> []" "list_all plain_char n"
  have "\<not> is_space c \<and> \<not> is_newline c \<and> c \<noteq> CHR '']''" if "plain_char c" for c
  proof -
    have "48 \<le> ord_of c \<and> ord_of c \<le> 122 \<and> ord_of c \<noteq> 93"
      using that unfolding plain_char_def is_alnum_ascii_def is_digit_def
        is_lower_ascii_def is_upper_ascii_def Let_def by (elim disjE) simp_all
    then show ?thesis unfolding is_space_def is_newline_def Let_def by auto
  qed
  then have all: "\<forall>c\<in>set n. \<not> is_space c \<and> \<not> is_newline c \<and> c \<noteq> CHR '']''"
    using n(2) by (simp add: list_all_iff)
  then have "strip n = n" using n(1) by (intro strip_by_id) simp
  with n all show "name_ok n" unfolding name_ok_def line_ok_def by blast
qed

lemma digits_plain: "list_all plain_char (show_nat n)"
  using show_nat_digits [of n] by (auto simp: list_all_iff plain_char_def is_alnum_ascii_def)

lemma size_tag_plain_chars: "list_all plain_char (size_tag n)"
proof -
  have "list_all plain_char ''512''" "list_all plain_char ''k''" by code_simp+
  then show ?thesis using digits_plain by (simp add: size_tag_def)
qed

lemma features_plain: "list_all (\<lambda>(n, f). list_all plain_char n \<and> line_ok (f_mkfs f) \<and> line_ok (f_mount f)) XFS_FEATURES"
  by code_simp

lemma line_ok_join: "line_ok sep \<Longrightarrow> (\<And>l. l \<in> set ls \<Longrightarrow> line_ok l) \<Longrightarrow> line_ok (join sep ls)"
proof (induction ls)
  case (Cons l ls)
  then show ?case by (cases "ls = []") (auto simp: join_Cons)
qed simp

lemma matrix_mkfs_line: "line_ok (f_mkfs f) \<Longrightarrow> line_ok (matrix_mkfs f b s)"
  unfolding matrix_mkfs_def
  by (rule line_ok_join) (auto simp: is_newline_def simp del: show_nat.simps split: option.splits if_splits)

lemma feature_rows_ok:
  assumes "feat \<in> set (keys XFS_FEATURES)" "(n, p) \<in> set (feature_rows geometry feat)"
  shows "name_ok n \<and> profile_ok p"
proof -
  obtain f where f: "dict_get XFS_FEATURES feat = Some f"
    using assms(1) map_of_eq_None_iff [of XFS_FEATURES feat] by auto
  then have ok: "list_all plain_char feat" "line_ok (f_mkfs f)" "line_ok (f_mount f)"
    using features_plain map_of_SomeD [OF f] by (auto simp: list_all_iff)
  have chars: "list_all plain_char ''xfs''" "list_all plain_char ''_''" "list_all plain_char ''bs''" "list_all plain_char ''ss''"
    by code_simp+
  show ?thesis
  proof (cases "geometry = ''default''")
    case True
    with assms(2) f have "n = base_name feat" "p_mkfs p = f_mkfs f" "p_mount p = f_mount f"
      by (auto simp: feature_rows_def default_profile_def base_name_def)
    with ok chars show ?thesis
      by (auto simp: profile_ok_def base_name_def intro!: plain_name_ok)
  next
    case False
    with assms(2) f obtain b s where "n = section_name feat b s" "p = profile_of f b s"
      by (auto simp: feature_rows_def feature_matrix_set)
    with ok chars size_tag_plain_chars show ?thesis
      by (auto simp: profile_ok_def section_name_def profile_of_def matrix_mkfs_line intro!: plain_name_ok)
  qed
qed

lemma matrix_ok:
  assumes "xfs_profiles_matrix feature geometry = Inr m"
  shows "catalog_ok m"
proof -
  have geo: "geometry \<in> {''matrix'', ''default''}" using assms by (simp add: xfs_profiles_matrix_def split: if_splits)
  obtain feats where feats: "feature_keys feature = Inr feats"
    using assms geo by (auto simp: xfs_profiles_matrix_def andthen_Inr split: if_splits)
  have m: "m = concat (map (feature_rows geometry) feats)"
    using matrix_rows [OF feats geo] assms by simp
  have known: "distinct feats" "set feats \<subseteq> set (keys XFS_FEATURES)" using feature_keys_known [OF feats] by auto
  have "name_ok n \<and> profile_ok p" if "(n, p) \<in> set m" for n p
  proof -
    from that obtain feat where "feat \<in> set feats" "(n, p) \<in> set (feature_rows geometry feat)" by (auto simp: m)
    with known(2) show ?thesis by (intro feature_rows_ok) auto
  qed
  then show ?thesis
    using distinct_feature_rows [OF known(1), of geometry] by (auto simp: catalog_ok_def m list_all_iff)
qed

text \<open>
  C36: The generated \<open>local.config\<close> reads back: its section list is the list of profiles, the
  block of each section is exactly that profile rendered alone, and both in the whole text and in
  its block a section has its profile's mkfs and mount options (and, for an external feature,
  the empty device variables), nothing of another section.
\<close>

theorem catalog_roundtrip:
  assumes "xfs_catalog_text feature geometry = Inr t"
  shows "\<exists>m. xfs_profiles_matrix feature geometry = Inr m \<and> (m = [] \<or> parse_sections t = keys m) \<and>
    (\<forall>(n, p)\<in>set m. section_block t n = catalog_text [(n, p)] \<and>
       section_vars t n = profile_vars p \<and> section_vars (section_block t n) n = profile_vars p)"
proof -
  obtain m where m: "xfs_profiles_matrix feature geometry = Inr m" and t: "t = catalog_text m"
    using assms by (auto simp: xfs_catalog_text_def andthen_Inr)
  note ok = matrix_ok [OF m]
  have "section_block t n = catalog_text [(n, p)] \<and>
       section_vars t n = profile_vars p \<and> section_vars (section_block t n) n = profile_vars p"
    if "(n, p) \<in> set m" for n p
  proof -
    have "catalog_ok [(n, p)]" using ok that by (auto simp: catalog_ok_def list_all_iff)
    from catalog_readback(2) [OF this, of n p] show ?thesis
      using catalog_readback [OF ok that] by (simp add: t)
  qed
  moreover have "m = [] \<or> parse_sections t = keys m"
    using catalog_readback(1) [OF ok] by (cases m) (auto simp: t)
  ultimately show ?thesis using m by auto
qed

theorem catalog_roundtrip_witness:
  "\<exists>t m. xfs_catalog_text (Some ''logdev'') ''default'' = Inr t \<and>
     xfs_profiles_matrix (Some ''logdev'') ''default'' = Inr m \<and>
     m = [(''xfs_logdev'', \<lparr>p_mkfs = [], p_mount = [], p_needs = Some ''logdev''\<rparr>)] \<and>
     parse_sections t = [''xfs_logdev''] \<and> dict_get (section_vars t ''xfs_logdev'') ''USE_EXTERNAL'' = Some ''yes''"
proof -
  have m: "xfs_profiles_matrix (Some ''logdev'') ''default'' =
      Inr [(''xfs_logdev'', \<lparr>p_mkfs = [], p_mount = [], p_needs = Some ''logdev''\<rparr>)]"
    by code_simp
  then obtain t where t: "xfs_catalog_text (Some ''logdev'') ''default'' = Inr t"
    by (simp add: xfs_catalog_text_def)
  show ?thesis
    using catalog_roundtrip [OF t] m t by (auto simp: profile_vars_def)
qed

end
