(* ===== verification/FstestsDevices.thy ===== *)
theory FstestsDevices
  imports FstestsCatalog
begin

text \<open>
  What the catalogue's sections mean once they are run: the sizes read back from a section are the
  ones its profile was generated with, and \<open>inject_device_base\<close> of \<open>f/fstests/common.py\<close> binds the
  discovered devices of the guest to the section's variables.
\<close>

section \<open>Substrings and searches\<close>

lemma prefix_before: "x \<notin> set sub \<Longrightarrow> prefix sub (u @ x # s) \<longleftrightarrow> prefix sub u"
proof (induction sub arbitrary: u)
  case (Cons a sub)
  then show ?case by (cases u) auto
qed simp

lemma contains_sep: "x \<notin> set sub \<Longrightarrow> sub \<noteq> [] \<Longrightarrow> contains sub (a @ x # t) \<longleftrightarrow> contains sub a \<or> contains sub t"
proof (induction a)
  case Nil
  then show ?case by (cases sub) auto
next
  case (Cons c a)
  then show ?case using prefix_before [of x sub "c # a" t] by auto
qed

lemma contains_unlines:
  "CHR 0x0A \<notin> set sub \<Longrightarrow> sub \<noteq> [] \<Longrightarrow> contains sub (unlines ls) \<longleftrightarrow> (\<exists>l\<in>set ls. contains sub l)"
  by (induction ls) (auto simp: unlines_def contains_sep)

lemma not_contains_drop: "\<not> contains sub w \<Longrightarrow> \<not> prefix sub (drop i w) \<or> sub = []"
proof (induction w arbitrary: i)
  case (Cons c w)
  then show ?case by (cases i) auto
qed auto

lemma search_from_skip:
  "(\<And>i. i < length w \<Longrightarrow> first_match r (rev (take i w) @ pre) (drop i w @ s) = None) \<Longrightarrow>
   search_from r pre (w @ s) = search_from r (rev w @ pre) s"
proof (induction w arbitrary: pre)
  case (Cons c w)
  have "first_match r pre (c # w @ s) = None" using Cons.prems [of 0] by simp
  moreover have "first_match r (rev (take i w) @ c # pre) (drop i w @ s) = None" if "i < length w" for i
    using Cons.prems [of "Suc i"] that by simp
  ultimately show ?case using Cons.IH [of "c # pre"] by simp
qed simp

lemma run_REps_all [simp]: "concat (map (run REps) sts) = sts"
  by (induction sts) auto

section \<open>The sizes read back\<close>

definition size_re :: "char \<Rightarrow> re" where
  "size_re c = RSeqs [RLit [CHR ''-'', c], RPlus RSpace, RLit ''size='', RGrp ''1'' (RPlus RDigit)]"

lemma size_res: "BLOCK_SIZE_RE = size_re (CHR ''b'')" "SECTOR_SIZE_RE = size_re (CHR ''s'')"
  by (simp_all add: BLOCK_SIZE_RE_def SECTOR_SIZE_RE_def size_re_def)

lemma size_re_hit:
  assumes "rest = [] \<or> \<not> is_digit (hd rest)"
  shows "\<exists>m. first_match (size_re c) pre ([CHR ''-'', c] @ '' size='' @ show_nat n @ rest) = Some m \<and>
    grp0 m ''1'' = show_nat n"
proof -
  let ?pre = "CHR '' '' # c # CHR ''-'' # pre"
  obtain rs where "run (RGrp ''1'' (RPlus RDigit)) (rev ''size='' @ ?pre, show_nat n @ rest, []) =
      (rev (show_nat n) @ rev ''size='' @ ?pre, rest, [(''1'', show_nat n)]) # rs"
    using grp_plus_cls_first [OF show_nat_digits assms show_nat_nonempty] by blast
  then have "run (RSeqs [RLit ''size='', RGrp ''1'' (RPlus RDigit)]) (?pre, ''size='' @ show_nat n @ rest, []) =
      (rev (show_nat n) @ rev ''size='' @ ?pre, rest, [(''1'', show_nat n)]) # rs"
    by (simp add: run_RLit del: show_nat.simps)
  then have K: "run (RSeqs [RLit ''size='', RGrp ''1'' (RPlus RDigit)]) (rev [] @ ?pre, ''size='' @ show_nat n @ rest, []) =
      (rev (show_nat n) @ rev ''size='' @ ?pre, rest, [(''1'', show_nat n)]) # rs"
    by (simp only: rev.simps append_Nil)
  have "\<exists>ys. run (RSeq (RStar RSpace) (RSeqs [RLit ''size='', RGrp ''1'' (RPlus RDigit)]))
      (?pre, [] @ ''size='' @ show_nat n @ rest, []) =
      (rev (show_nat n) @ rev ''size='' @ ?pre, rest, [(''1'', show_nat n)]) # ys"
    by (rule seq_star_cls [OF _ _ K]) (simp_all add: is_space_def del: show_nat.simps)
  then obtain ys where "run (RSeq (RStar RSpace) (RSeqs [RLit ''size='', RGrp ''1'' (RPlus RDigit)]))
      (?pre, ''size='' @ show_nat n @ rest, []) =
      (rev (show_nat n) @ rev ''size='' @ ?pre, rest, [(''1'', show_nat n)]) # ys"
    by (auto simp del: show_nat.simps)
  then have "run (size_re c) (pre, [CHR ''-'', c] @ '' size='' @ show_nat n @ rest, []) =
      (rev (show_nat n) @ rev ''size='' @ ?pre, rest, [(''1'', show_nat n)]) # ys"
    by (simp add: size_re_def run_RLit is_space_def del: show_nat.simps)
  then show ?thesis by (simp add: first_match_def grp0_def grp_def del: show_nat.simps)
qed

lemma size_re_miss: "\<not> prefix [CHR ''-'', c] s \<Longrightarrow> first_match (size_re c) pre s = None"
  by (simp add: first_match_def size_re_def run_RLit)

lemma size_re_search:
  assumes "rest = [] \<or> \<not> is_digit (hd rest)" and c: "c \<noteq> CHR '' ''"
    and "w = [] \<or> (\<exists>u. w = u @ '' '' \<and> \<not> contains [CHR ''-'', c] u)"
  shows "\<exists>a m. re_search (size_re c) (w @ [CHR ''-'', c] @ '' size='' @ show_nat n @ rest) = Some (a, m) \<and>
    grp0 m ''1'' = show_nat n"
proof -
  let ?s = "[CHR ''-'', c] @ '' size='' @ show_nat n @ rest"
  have "first_match (size_re c) (rev (take i w) @ []) (drop i w @ ?s) = None" if "i < length w" for i
  proof (rule size_re_miss)
    from that assms(3) obtain u where w: "w = u @ '' ''" and u: "\<not> contains [CHR ''-'', c] u" by auto
    with that have "drop i w @ ?s = drop i u @ CHR '' '' # ?s" by simp
    moreover have sep: "CHR '' '' \<notin> set [CHR ''-'', c]" using c by auto
    ultimately show "\<not> prefix [CHR ''-'', c] (drop i w @ ?s)"
      using not_contains_drop [OF u, of i] by (simp only: prefix_before [OF sep]) simp
  qed
  from search_from_skip [OF this] have
    "re_search (size_re c) (w @ ?s) = search_from (size_re c) (rev w) ?s" by (simp add: re_search_def)
  moreover obtain m where m: "first_match (size_re c) (rev w) ?s = Some m" "grp0 m ''1'' = show_nat n"
    using size_re_hit [OF assms(1)] by blast
  have "search_from (size_re c) (rev w) ?s = Some (w, m)"
    using m(1) by (simp del: show_nat.simps)
  ultimately show ?thesis using m(2) by auto
qed

lemma features_unsized:
  "list_all (\<lambda>(n, f). \<not> contains ''-b'' (f_mkfs f) \<and> \<not> contains ''-s'' (f_mkfs f)
     \<and> contains ''crc=0'' (f_mkfs f) = f_v4 f \<and> CHR ''T'' \<notin> set (f_mkfs f) \<and> CHR ''T'' \<notin> set (f_mount f)) XFS_FEATURES"
  by code_simp

definition extsize :: "feature \<Rightarrow> nat \<Rightarrow> string" where
  "extsize f b = (case f_rt_mult f of None \<Rightarrow> [] | Some k \<Rightarrow> '' -r extsize='' @ show_nat (k * b))"

lemma matrix_mkfs_eq:
  "matrix_mkfs f b s = (if f_mkfs f = [] then [] else f_mkfs f @ '' '') @
     ''-b size='' @ show_nat b @ '' -s size='' @ show_nat s @ extsize f b"
  by (simp add: matrix_mkfs_def extsize_def join_Cons del: show_nat.simps split: option.split)

lemma extsize_start: "extsize f b = [] \<or> \<not> is_digit (hd (extsize f b))"
  by (simp add: extsize_def is_digit_def split: option.split)

lemma not_in_digits: "\<not> is_digit c \<Longrightarrow> c \<notin> set (show_nat n)"
  using show_nat_digits by blast

text \<open>
  The gate on a guest's devices reads the right sizes: from the rendered block of every section
  of the matrix, the block size, the sector size and the V4 layout read back are those the profile
  was generated for.
\<close>

theorem sizes_readback:
  assumes "dict_get XFS_FEATURES feat = Some f"
  shows "let n = section_name feat b s; t = catalog_text [(n, profile_of f b s)] in
    section_block_size t n = b \<and> section_sector_size t n = Some s \<and> section_is_v4 t n = f_v4 f"
proof -
  let ?n = "section_name feat b s" and ?p = "profile_of f b s"
  let ?t = "catalog_text [(?n, ?p)]"
  have feat: "list_all plain_char feat" "line_ok (f_mkfs f)" "line_ok (f_mount f)"
    "\<not> contains ''-b'' (f_mkfs f)" "\<not> contains ''-s'' (f_mkfs f)" "contains ''crc=0'' (f_mkfs f) = f_v4 f"
    using features_plain features_unsized map_of_SomeD [OF assms] by (auto simp: list_all_iff)
  have chars: "list_all plain_char ''xfs''" "list_all plain_char ''_''" "list_all plain_char ''bs''" "list_all plain_char ''ss''"
    by code_simp+
  have "name_ok ?n" using feat(1) chars size_tag_plain_chars by (auto simp: section_name_def intro!: plain_name_ok)
  moreover have "profile_ok ?p" using feat by (simp add: profile_ok_def profile_of_def matrix_mkfs_line)
  ultimately have "section_vars ?t ?n = profile_vars ?p"
    using catalog_readback(2) [of "[(?n, ?p)]" ?n ?p] by (simp add: catalog_ok_def)
  then have mkfs: "var_or_empty (section_vars ?t ?n) ''MKFS_OPTIONS'' = matrix_mkfs f b s"
    by (simp add: var_or_empty_def profile_vars_def profile_of_def matrix_mkfs_eq)
  have bsplit: "matrix_mkfs f b s = (if f_mkfs f = [] then [] else f_mkfs f @ '' '') @
      [CHR ''-'', CHR ''b''] @ '' size='' @ show_nat b @ ('' -s size='' @ show_nat s @ extsize f b)"
    by (simp add: matrix_mkfs_eq)
  have "\<exists>a m. re_search (size_re (CHR ''b'')) (matrix_mkfs f b s) = Some (a, m) \<and> grp0 m ''1'' = show_nat b"
    unfolding bsplit by (rule size_re_search) (use feat(4) in \<open>simp_all add: is_digit_def\<close>)
  then have block: "section_block_size ?t ?n = b"
    by (auto simp: section_block_size_def mkfs size_res simp del: show_nat.simps)
  let ?u = "(if f_mkfs f = [] then [] else f_mkfs f @ '' '') @ ''-b size='' @ show_nat b"
  have ssplit: "matrix_mkfs f b s = (?u @ '' '') @
      [CHR ''-'', CHR ''s''] @ '' size='' @ show_nat s @ extsize f b"
    by (simp add: matrix_mkfs_eq)
  have "\<not> contains ''-s'' (''size='' @ show_nat b)"
    using contains_set [of "''-s''" "''size='' @ show_nat b"] not_in_digits [of "CHR ''-''" b] by (auto simp: is_digit_def)
  then have bpart: "\<not> contains ''-s'' (''-b size='' @ show_nat b)"
    using contains_sep [of "CHR '' ''" "''-s''" "''-b''" "''size='' @ show_nat b"] by simp
  have "\<not> contains ''-s'' ?u"
    using bpart feat(5) contains_sep [of "CHR '' ''" "''-s''" "f_mkfs f" "''-b size='' @ show_nat b"]
    by (simp del: show_nat.simps)
  then have "\<exists>w. ?u @ '' '' = w @ '' '' \<and> \<not> contains [CHR ''-'', CHR ''s''] w" by blast
  then have "\<exists>a m. re_search (size_re (CHR ''s'')) (matrix_mkfs f b s) = Some (a, m) \<and> grp0 m ''1'' = show_nat s"
    unfolding ssplit by (intro size_re_search [OF extsize_start] disjI2) simp_all
  then have sector: "section_sector_size ?t ?n = Some s"
    by (auto simp: section_sector_size_def mkfs size_res simp del: show_nat.simps)
  let ?tail = "''-b size='' @ show_nat b @ '' -s size='' @ show_nat s @ extsize f b"
  have "\<not> contains ''crc=0'' ?tail"
    using contains_set [of "''crc=0''" ?tail] not_in_digits [of "CHR ''c''"]
    by (auto simp: is_digit_def extsize_def simp del: show_nat.simps split: option.splits)
  then have "contains ''crc=0'' (matrix_mkfs f b s) = f_v4 f"
    using contains_sep [of "CHR '' ''" "''crc=0''" "f_mkfs f" ?tail] feat(6)
    by (cases "f_mkfs f = []") (simp_all add: matrix_mkfs_eq del: show_nat.simps)
  then show ?thesis
    using block sector by (simp add: section_is_v4_def mkfs Let_def)
qed

theorem sizes_readback_witness:
  "section_sector_size (catalog_text [(section_name ''nocrc'' 512 512,
     profile_of ((plain ''-m crc=0'' [])\<lparr>f_v4 := True\<rparr>) 512 512)]) (section_name ''nocrc'' 512 512) = Some 512"
proof -
  have "dict_get XFS_FEATURES ''nocrc'' = Some ((plain ''-m crc=0'' [])\<lparr>f_v4 := True\<rparr>)" by code_simp
  from sizes_readback [OF this, of 512 512] show ?thesis by (simp only: Let_def)
qed

section \<open>Finding an empty device variable\<close>

text \<open>A line the search for \<open>^\s*KEY=\s*$\<close> passes over: non-blank, not indented, another key.\<close>

definition skips :: "string \<Rightarrow> string \<Rightarrow> bool" where
  "skips key l = (l \<noteq> [] \<and> \<not> is_space (hd l) \<and> CHR 0x0A \<notin> set l \<and> CHR 0x0A \<notin> set key
     \<and> \<not> prefix (key @ ''='') l)"

definition at_line_start :: "string \<Rightarrow> bool" where
  "at_line_start pre = (pre = [] \<or> hd pre = CHR 0x0A)"

lemma empty_re_inside: "\<not> at_line_start pre \<Longrightarrow> first_match (EMPTY_DEV_RE key) pre s = None"
  by (simp add: first_match_def EMPTY_DEV_RE_def at_line_start_def)

lemma star_space_none: "s = [] \<or> \<not> is_space (hd s) \<Longrightarrow> run (RStar RSpace) (pre, s, caps) = [(pre, s, caps)]"
  by (cases s) (simp_all add: run_star_cls_Nil run_star_cls_Cons)

lemma empty_re_miss:
  assumes "s = [] \<or> \<not> is_space (hd s)" "\<not> prefix (key @ ''='') s"
  shows "first_match (EMPTY_DEV_RE key) pre s = None"
  using assms(2) by (simp add: first_match_def EMPTY_DEV_RE_def star_space_none [OF assms(1)])

lemma empty_re_skip_line:
  assumes "skips key l"
  shows "search_from (EMPTY_DEV_RE key) pre (l @ nl @ s) = search_from (EMPTY_DEV_RE key) (nl @ rev l @ pre) s"
proof -
  have l: "l \<noteq> []" "\<not> is_space (hd l)" "CHR 0x0A \<notin> set l" "\<not> prefix (key @ ''='') l"
    using assms by (auto simp: skips_def)
  have "first_match (EMPTY_DEV_RE key) (rev (take i (l @ nl)) @ pre) (drop i (l @ nl) @ s) = None"
    if i: "i < length (l @ nl)" for i
  proof (cases "i = 0")
    case True
    have "\<not> prefix (key @ ''='') (l @ nl @ s)"
      using prefix_before [of "CHR 0x0A" "key @ ''=''" l s] assms by (simp add: skips_def)
    with l(1,2) True show ?thesis by (intro empty_re_miss) auto
  next
    case False
    then obtain j where j: "i = Suc j" by (cases i) auto
    with i have "j < length l" by simp
    then have "hd (rev (take i (l @ nl)) @ pre) = l ! j" "rev (take i (l @ nl)) \<noteq> []"
      by (simp_all add: j take_Suc_conv_app_nth hd_append)
    moreover have "l ! j \<noteq> CHR 0x0A" using l(3) \<open>j < length l\<close> nth_mem by metis
    ultimately show ?thesis by (intro empty_re_inside) (auto simp: at_line_start_def)
  qed
  from search_from_skip [OF this] show ?thesis by simp
qed

lemma empty_re_hit:
  assumes "at_line_start pre" "key \<noteq> []" "\<not> is_space (hd key)"
    and u: "u = [] \<or> (\<exists>c v. u = nl @ c # v \<and> \<not> is_space c)"
  shows "\<exists>m. first_match (EMPTY_DEV_RE key) pre (key @ ''='' @ u) = Some m \<and> m_rest m = u"
proof -
  let ?k = "rev (key @ ''='') @ pre"
  have "\<exists>ys. run (RSeqs [RStar RSpace, RMEol]) (?k, u, []) = (?k, u, []) # ys"
  proof (cases "u = []")
    case True
    then show ?thesis by (simp add: run_star_cls_Nil)
  next
    case False
    then obtain c v where uv: "u = nl @ c # v" "\<not> is_space c" using u by auto
    then have "c \<noteq> CHR 0x0A" by (auto simp: is_space_def)
    with uv show ?thesis
      by (simp add: run_star_cls_Cons is_space_def)
  qed
  then have "\<exists>ys. run (EMPTY_DEV_RE key) (pre, key @ ''='' @ u, []) = (?k, u, []) # ys"
    using assms(1-3) star_space_none [of "key @ ''='' @ u" pre "[]"]
    by (auto simp: EMPTY_DEV_RE_def at_line_start_def run_RLit_same [of "key @ ''=''", simplified])
  then show ?thesis by (auto simp: first_match_def)
qed

lemma empty_re_hit_end:
  assumes "at_line_start pre" "key \<noteq> []" "\<not> is_space (hd key)"
  shows "first_match (EMPTY_DEV_RE key) pre (key @ ''='' @ nl) \<noteq> None"
proof -
  let ?k = "rev (key @ ''='') @ pre"
  have "run (RSeqs [RStar RSpace, RMEol]) (?k, nl, []) \<noteq> []"
    by (simp add: run_star_cls_Cons run_star_cls_Nil is_space_def)
  then have "run (EMPTY_DEV_RE key) (pre, key @ ''='' @ nl, []) \<noteq> []"
    using assms star_space_none [of "key @ ''='' @ nl" pre "[]"]
    by (auto simp: EMPTY_DEV_RE_def at_line_start_def run_RLit_same [of "key @ ''=''", simplified])
  then show ?thesis by (auto simp: first_match_def split: list.splits)
qed

lemma search_lines:
  "\<forall>l\<in>set ls. skips key l \<Longrightarrow>
   search_from (EMPTY_DEV_RE key) pre (unlines ls @ s) =
     search_from (EMPTY_DEV_RE key) (rev (unlines ls) @ pre) s"
proof (induction ls arbitrary: pre)
  case (Cons l ls)
  have "search_from (EMPTY_DEV_RE key) pre (l @ nl @ unlines ls @ s) =
      search_from (EMPTY_DEV_RE key) (nl @ rev l @ pre) (unlines ls @ s)"
    by (rule empty_re_skip_line) (use Cons.prems in simp)
  with Cons show ?case by (simp add: unlines_def)
qed (simp add: unlines_def)

lemma line_start_unlines: "at_line_start (rev (unlines ls))"
  by (induction ls rule: rev_induct) (simp_all add: at_line_start_def unlines_def)

lemma search_none:
  assumes "\<forall>l\<in>set ls. skips key l" "key \<noteq> []"
  shows "re_search (EMPTY_DEV_RE key) (unlines ls) = None"
  using search_lines [OF assms(1), of "[]" "[]"] empty_re_miss [of "[]" key]
  by (simp add: re_search_def)

lemma search_from_first: "first_match r pre s \<noteq> None \<Longrightarrow> search_from r pre s = map_option (Pair (rev pre)) (first_match r pre s)"
  by (cases s) auto

lemma search_hit:
  assumes "\<forall>l\<in>set ls. skips key l" "key \<noteq> []" "\<not> is_space (hd key)"
    and "u = [] \<or> (\<exists>c v. u = nl @ c # v \<and> \<not> is_space c)"
  shows "sub_first (EMPTY_DEV_RE key) repl (unlines ls @ key @ ''='' @ u) = unlines ls @ repl @ u"
    and "re_search (EMPTY_DEV_RE key) (unlines ls @ key @ ''='' @ u) \<noteq> None"
proof -
  obtain m where m: "first_match (EMPTY_DEV_RE key) (rev (unlines ls)) (key @ ''='' @ u) = Some m" "m_rest m = u"
    using empty_re_hit [OF line_start_unlines assms(2-4)] by blast
  then have "re_search (EMPTY_DEV_RE key) (unlines ls @ key @ ''='' @ u) = Some (unlines ls, m)"
    using search_lines [OF assms(1), of "[]" "key @ ''='' @ u"]
      search_from_first [of "EMPTY_DEV_RE key" "rev (unlines ls)" "key @ ''='' @ u"]
    by (simp add: re_search_def)
  with m(2) show "sub_first (EMPTY_DEV_RE key) repl (unlines ls @ key @ ''='' @ u) = unlines ls @ repl @ u"
    and "re_search (EMPTY_DEV_RE key) (unlines ls @ key @ ''='' @ u) \<noteq> None"
    by (simp_all add: sub_first_def)
qed

lemma search_hit_end:
  assumes "\<forall>l\<in>set ls. skips key l" "key \<noteq> []" "\<not> is_space (hd key)"
  shows "re_search (EMPTY_DEV_RE key) (unlines ls @ key @ ''='' @ nl) \<noteq> None"
  using empty_re_hit_end [OF line_start_unlines assms(2,3), of ls]
    search_lines [OF assms(1), of "[]" "key @ ''='' @ nl"]
    search_from_first [of "EMPTY_DEV_RE key" "rev (unlines ls)" "key @ ''='' @ nl"]
  by (simp add: re_search_def)

section \<open>Binding a catalogue section\<close>

declare contains.simps [simp del]

definition ext_keys :: "profile \<Rightarrow> string list" where
  "ext_keys p = (case p_needs p of None \<Rightarrow> [] | Some n \<Rightarrow> [''TEST_'' @ needs_suffix n, ''SCRATCH_'' @ needs_suffix n])"

definition own_vars :: "profile \<Rightarrow> (string, string) dict" where
  "own_vars p =
     [(''FSTYP'', ''xfs'')]
     @ (if p_mkfs p \<noteq> [] then [(''MKFS_OPTIONS'', p_mkfs p)] else [])
     @ (if p_mount p \<noteq> [] then [(''MOUNT_OPTIONS'', p_mount p)] else [])
     @ (if p_needs p = None then [] else [(''USE_EXTERNAL'', ''yes'')])"

text \<open>The variables of a section once its devices are bound.\<close>

definition bound_vars :: "profile \<Rightarrow> string list \<Rightarrow> (string, string) dict" where
  "bound_vars p ds =
     own_vars p @ zip (ext_keys p) (drop 2 ds)
     @ [(''TEST_DEV'', ds ! 0), (''TEST_DIR'', ''/media/test''), (''SCRATCH_MNT'', ''/media/scratch'')]
     @ (if p_needs p = None \<and> length ds > 2 then [(''SCRATCH_DEV_POOL'', join '' '' (tl ds))]
        else [(''SCRATCH_DEV'', ds ! 1)])"

definition dev_ok :: "string \<Rightarrow> bool" where
  "dev_ok d = (d \<noteq> [] \<and> list_all (\<lambda>c. \<not> is_space c \<and> \<not> is_newline c \<and> c \<noteq> CHR 0x22 \<and> c \<noteq> CHR 0x27) d)"

definition clean_profile :: "string \<Rightarrow> profile \<Rightarrow> bool" where
  "clean_profile n p = (n \<noteq> [] \<and> list_all plain_char n \<and> profile_ok p
     \<and> CHR ''T'' \<notin> set (p_mkfs p) \<and> CHR ''T'' \<notin> set (p_mount p))"

definition plain_lines :: "string \<Rightarrow> profile \<Rightarrow> string list" where
  "plain_lines n p = (''['' @ n @ '']'') # map (\<lambda>(k, v). assignment (k, if k = ''MKFS_OPTIONS'' \<or> k = ''MOUNT_OPTIONS'' then quoted v else v)) (own_vars p)"

lemma profile_lines_split: "profile_lines (n, p) = plain_lines n p @ map (\<lambda>k. k @ ''='') (ext_keys p)"
  by (cases p rule: needs_cases)
     (simp_all add: profile_lines_eq raw_vars_def profile_vars_def plain_lines_def own_vars_def ext_keys_def
       assignment_def quoted_def)

lemma plain_chars_not: "list_all plain_char n \<Longrightarrow> \<not> plain_char c \<Longrightarrow> c \<notin> set n"
  by (auto simp: list_all_iff)

lemma skips_by_head:
  assumes "key \<in> set EXTERNAL_DEV_KEYS" "l \<noteq> []" "\<not> is_space (hd l)" "hd l \<noteq> CHR ''T''" "hd l \<noteq> CHR ''S''"
    "CHR 0x0A \<notin> set l"
  shows "skips key l"
proof -
  have "CHR 0x0A \<notin> set key" "hd key = CHR ''T'' \<or> hd key = CHR ''S''" "key \<noteq> []"
    using assms(1) by (auto simp: EXTERNAL_DEV_KEYS_def)
  then show ?thesis using assms(2-) by (cases key; cases l) (auto simp: skips_def)
qed

lemma plain_name: "list_all plain_char n \<Longrightarrow> line_ok n"
  using plain_name_ok [of n] by (cases "n = []") (simp_all add: name_ok_def)

lemma plain_lines_skip:
  assumes "clean_profile n p" "key \<in> set EXTERNAL_DEV_KEYS" "l \<in> set (plain_lines n p)"
  shows "skips key l"
proof -
  have nl: "CHR 0x0A \<notin> set n" "CHR 0x0A \<notin> set (p_mkfs p)" "CHR 0x0A \<notin> set (p_mount p)"
    using assms(1) no_nl plain_name by (auto simp: clean_profile_def profile_ok_def)
  have "l \<noteq> [] \<and> hd l \<in> {CHR ''['', CHR ''F'', CHR ''M'', CHR ''U''} \<and> CHR 0x0A \<notin> set l"
    using assms(3) nl
    by (auto simp: plain_lines_def own_vars_def assignment_def quoted_def split: if_splits)
  then show ?thesis by (intro skips_by_head [OF assms(2)]) (auto simp: is_space_def)
qed

lemma key_of_line:
  assumes "x \<notin> set a" "x \<notin> set b" "prefix (a @ [x]) (b @ x # v)"
  shows "a = b"
proof -
  obtain w where "b @ x # v = a @ x # w" using assms(3) by (auto simp: prefix_def)
  then have "takeWhile (\<lambda>c. c \<noteq> x) (b @ x # v) = takeWhile (\<lambda>c. c \<noteq> x) (a @ x # w)" by simp
  moreover have "takeWhile (\<lambda>c. c \<noteq> x) (u @ x # s) = u" if "x \<notin> set u" for u s
    using that by (subst takeWhile_append2) auto
  ultimately show ?thesis using assms(1,2) by metis
qed

lemma external_key_chars:
  "key \<in> set EXTERNAL_DEV_KEYS \<Longrightarrow> key \<noteq> [] \<and> \<not> is_space (hd key) \<and> CHR ''='' \<notin> set key \<and> CHR 0x0A \<notin> set key"
  by (auto simp: EXTERNAL_DEV_KEYS_def is_space_def)

lemma ext_line_skip:
  assumes "key \<in> set EXTERNAL_DEV_KEYS" "k \<in> set EXTERNAL_DEV_KEYS" "key \<noteq> k" "CHR 0x0A \<notin> set v"
  shows "skips key (k @ ''='' @ v)"
  using external_key_chars [OF assms(1)] external_key_chars [OF assms(2)] assms(3,4)
    key_of_line [of "CHR ''=''" key k v]
  by (auto simp: skips_def)

lemma ext_keys_known: "set (ext_keys p) \<subseteq> set EXTERNAL_DEV_KEYS"
  by (cases p rule: needs_cases) (auto simp: ext_keys_def EXTERNAL_DEV_KEYS_def)

lemma ext_key_start: "key \<in> set EXTERNAL_DEV_KEYS \<Longrightarrow> key \<noteq> [] \<and> \<not> is_space (hd key)"
  by (auto simp: EXTERNAL_DEV_KEYS_def is_space_def)

lemma unlines_append: "unlines (a @ b) = unlines a @ unlines b"
  by (simp add: unlines_def)

lemma externals_of_section:
  assumes "clean_profile n p"
  shows "section_external_devs (catalog_text [(n, p)]) = ext_keys p"
proof -
  let ?t = "catalog_text [(n, p)]"
  have skip: "skips key l" if "key \<in> set EXTERNAL_DEV_KEYS" "l \<in> set (plain_lines n p)" for key l
    using plain_lines_skip [OF assms that] .
  have found: "(re_search (EMPTY_DEV_RE key) ?t \<noteq> None) = (key \<in> set (ext_keys p))"
    if key: "key \<in> set EXTERNAL_DEV_KEYS" for key
  proof (cases "p_needs p")
    case None
    then have "?t = unlines (plain_lines n p)" by (simp add: catalog_text_one profile_lines_split ext_keys_def)
    with None search_none [of "plain_lines n p" key] skip [OF key] ext_key_start [OF key]
    show ?thesis by (simp add: ext_keys_def)
  next
    case (Some x)
    define k1 k2 where "k1 = ''TEST_'' @ needs_suffix x" and "k2 = ''SCRATCH_'' @ needs_suffix x"
    have ext: "ext_keys p = [k1, k2]" using Some by (simp add: ext_keys_def k1_def k2_def)
    then have known: "k1 \<in> set EXTERNAL_DEV_KEYS" "k2 \<in> set EXTERNAL_DEV_KEYS" "k1 \<noteq> k2"
      using ext_keys_known [of p] by (auto simp: k1_def k2_def)
    have t: "?t = unlines (plain_lines n p) @ k1 @ ''='' @ nl @ k2 @ ''='' @ nl"
      by (simp add: catalog_text_one profile_lines_split ext unlines_append) (simp add: unlines_def)
    consider "key = k1" | "key = k2" | "key \<noteq> k1" "key \<noteq> k2" by blast
    then show ?thesis
    proof cases
      case 1
      have "k2 \<noteq> []" "\<not> is_space (hd k2)" using ext_key_start [OF known(2)] by auto
      then have "\<exists>c v. nl @ k2 @ ''='' @ nl = nl @ c # v \<and> \<not> is_space c" by (cases k2) auto
      then have "re_search (EMPTY_DEV_RE key) ?t \<noteq> None"
        using t 1 skip [OF key] ext_key_start [OF key]
          search_hit(2) [of "plain_lines n p" key "nl @ k2 @ ''='' @ nl"] by auto
      with 1 show ?thesis by (simp add: ext)
    next
      case 2
      have "skips k2 (k1 @ ''='' @ [])" using known by (intro ext_line_skip) auto
      then have "\<forall>l\<in>set (plain_lines n p @ [k1 @ ''='']). skips key l" using 2 skip [OF key] by auto
      moreover have "?t = unlines (plain_lines n p @ [k1 @ ''='']) @ key @ ''='' @ nl"
        by (simp add: t 2 unlines_append) (simp add: unlines_def)
      ultimately have "re_search (EMPTY_DEV_RE key) ?t \<noteq> None"
        using ext_key_start [OF key] search_hit_end by metis
      with 2 show ?thesis by (simp add: ext)
    next
      case 3
      have "skips key (k1 @ ''='' @ [])" "skips key (k2 @ ''='' @ [])"
        using known 3 key ext_line_skip [of key k1 "[]"] ext_line_skip [of key k2 "[]"] by auto
      then have "\<forall>l\<in>set (plain_lines n p @ [k1 @ ''='', k2 @ ''='']). skips key l" using skip [OF key] by auto
      moreover have "?t = unlines (plain_lines n p @ [k1 @ ''='', k2 @ ''=''])"
        by (simp add: t unlines_append) (simp add: unlines_def)
      ultimately have "re_search (EMPTY_DEV_RE key) ?t = None"
        using search_none ext_key_start [OF key] by metis
      with 3 show ?thesis by (simp add: ext)
    qed
  qed
  then have "section_external_devs ?t = filter (\<lambda>key. key \<in> set (ext_keys p)) EXTERNAL_DEV_KEYS"
    unfolding section_external_devs_def by (intro filter_cong) auto
  also have "\<dots> = ext_keys p"
    by (cases p rule: needs_cases) (simp_all add: ext_keys_def EXTERNAL_DEV_KEYS_def)
  finally show ?thesis .
qed

lemma no_newlines_end_unlines: "no_newlines_end (s @ c # nl) = (if c = CHR 0x0A then no_newlines_end s else s @ [c])"
  by (simp add: no_newlines_end_def rstrip_by_def)

lemma body_of_section:
  "no_newlines_end (catalog_text [(n, p)]) = join nl (profile_lines (n, p))"
proof -
  let ?b = "join nl (profile_lines (n, p))"
  have "?b \<noteq> []" "\<not> is_space (last ?b)"
    using join_last [OF last_profile_line(1,2), of n p] last_profile_line(3) [of n p] by auto
  then have "last ?b \<noteq> CHR 0x0A" "?b = butlast ?b @ [last ?b]" by (auto simp: is_space_def)
  then show ?thesis
    using no_newlines_end_unlines [of "butlast ?b" "last ?b"]
    by (simp add: catalog_text_def) (metis append.assoc append_Cons append_Nil)
qed

lemma join_unlines: "ls \<noteq> [] \<Longrightarrow> join nl ls @ nl = unlines ls"
  by (simp add: join_nl unlines_def)

lemma fill_section:
  assumes p: "clean_profile n p" "p_needs p \<noteq> None" and d: "dev_ok d1" "dev_ok d2"
  shows "fill_externals (zip (ext_keys p) [d1, d2]) (join nl (profile_lines (n, p))) =
    join nl (plain_lines n p @ map assignment (zip (ext_keys p) [d1, d2]))"
proof -
  obtain k1 k2 where ext: "ext_keys p = [k1, k2]" and ne: "k1 \<noteq> k2"
    using p(2) by (auto simp: ext_keys_def)
  then have known: "k1 \<in> set EXTERNAL_DEV_KEYS" "k2 \<in> set EXTERNAL_DEV_KEYS"
    using ext_keys_known [of p] by auto
  have skip: "\<forall>l\<in>set (plain_lines n p). skips k l" if "k \<in> set EXTERNAL_DEV_KEYS" for k
    using plain_lines_skip [OF p(1) that] by blast
  have pl: "plain_lines n p \<noteq> []" by (simp add: plain_lines_def)
  have j: "join nl (plain_lines n p @ [a, b]) = unlines (plain_lines n p) @ a @ nl @ b" for a b
    using pl by (simp add: join_append join_unlines [symmetric])
  obtain c cs where k2: "k2 = c # cs" "\<not> is_space c" using external_key_chars [OF known(2)] by (cases k2) auto
  have one: "sub_first (EMPTY_DEV_RE k1) (k1 @ ''='' @ d1) (unlines (plain_lines n p) @ k1 @ ''='' @ nl @ k2 @ ''='') =
      unlines (plain_lines n p) @ (k1 @ ''='' @ d1) @ nl @ k2 @ ''=''"
  proof (rule search_hit(1) [OF skip [OF known(1)]])
    show "nl @ k2 @ ''='' = [] \<or> (\<exists>c v. nl @ k2 @ ''='' = nl @ c # v \<and> \<not> is_space c)"
      using k2(2) by (simp add: k2(1))
  qed (simp_all add: external_key_chars [OF known(1)])
  have "line_ok d1" using d(1) by (simp add: dev_ok_def list_all_iff line_ok_def)
  then have "CHR 0x0A \<notin> set d1" by (rule no_nl)
  then have "skips k2 (k1 @ ''='' @ d1)" using known ne by (intro ext_line_skip) auto
  then have all: "\<forall>l\<in>set (plain_lines n p @ [k1 @ ''='' @ d1]). skips k2 l" using skip [OF known(2)] by auto
  have two: "sub_first (EMPTY_DEV_RE k2) (k2 @ ''='' @ d2)
      (unlines (plain_lines n p @ [k1 @ ''='' @ d1]) @ k2 @ ''='' @ []) =
      unlines (plain_lines n p @ [k1 @ ''='' @ d1]) @ (k2 @ ''='' @ d2) @ []"
    using external_key_chars [OF known(2)] by (intro search_hit(1) all) auto
  have body: "join nl (profile_lines (n, p)) = unlines (plain_lines n p) @ k1 @ ''='' @ nl @ k2 @ ''=''"
    by (simp only: profile_lines_split ext list.map j append_assoc)
  have step: "unlines (plain_lines n p @ [k1 @ ''='' @ d1]) @ s = unlines (plain_lines n p) @ (k1 @ ''='' @ d1) @ nl @ s" for s
    by (simp add: unlines_def)
  have lines: "map assignment [(k1, d1), (k2, d2)] = [k1 @ ''='' @ d1, k2 @ ''='' @ d2]"
    by (simp add: assignment_def)
  have "zip (ext_keys p) [d1, d2] = [(k1, d1), (k2, d2)]" by (simp add: ext)
  then show ?thesis
    by (simp only: fill_externals.simps body one two [unfolded step append_Nil2] lines j)
qed

text \<open>No base key occurs in a catalogue section.\<close>

definition BASE_KEYS :: "string list" where
  "BASE_KEYS = [''TEST_DEV='', ''TEST_DIR='', ''SCRATCH_MNT='', ''SCRATCH_DEV='', ''SCRATCH_DEV_POOL='', ''LOGWRITES_DEV='']"

lemma base_key_free_texts:
  "list_all (\<lambda>key. list_all (\<lambda>l. \<not> contains key l)
     [''FSTYP=xfs'', ''USE_EXTERNAL=yes'', ''MKFS_OPTIONS='', ''MOUNT_OPTIONS='', ''TEST_LOGDEV='', ''SCRATCH_LOGDEV='',
      ''TEST_RTDEV='', ''SCRATCH_RTDEV='']
     \<and> CHR ''T'' \<in> set key \<and> CHR ''='' \<in> set key \<and> CHR 0x22 \<notin> set key \<and> CHR 0x0A \<notin> set key) BASE_KEYS"
  by code_simp

lemma base_key_free:
  assumes p: "clean_profile n p" and key: "key \<in> set BASE_KEYS"
  shows "\<not> contains key (catalog_text [(n, p)])"
proof -
  have texts: "\<not> contains key ''FSTYP=xfs''" "\<not> contains key ''USE_EXTERNAL=yes''" "\<not> contains key ''MKFS_OPTIONS=''"
      "\<not> contains key ''MOUNT_OPTIONS=''" "\<not> contains key ''TEST_LOGDEV=''" "\<not> contains key ''SCRATCH_LOGDEV=''"
      "\<not> contains key ''TEST_RTDEV=''" "\<not> contains key ''SCRATCH_RTDEV=''"
    and k: "CHR ''T'' \<in> set key" "CHR ''='' \<in> set key" "CHR 0x22 \<notin> set key" "CHR 0x0A \<notin> set key"
    using base_key_free_texts key by (simp_all add: list_all_iff)
  then have ne: "key \<noteq> []" by auto
  have quoted: "contains key (w @ quoted v) \<longleftrightarrow> contains key w \<or> contains key v" for w v
    using contains_sep [OF k(3) ne, of w "v @ [CHR 0x22]"] contains_sep [OF k(3) ne, of v "[]"] ne
    by (simp add: quoted_def contains.simps)
  have "CHR ''='' \<notin> set (''['' @ n @ '']'')"
    using p plain_chars_not [of n "CHR ''=''"]
    by (auto simp: clean_profile_def plain_char_def is_alnum_ascii_def is_digit_def is_lower_ascii_def is_upper_ascii_def)
  then have header: "\<not> contains key (''['' @ n @ '']'')"
    using contains_set [of key "''['' @ n @ '']''"] k(2) by blast
  have "\<not> contains key (p_mkfs p)" "\<not> contains key (p_mount p)"
    using p k(1) contains_set [of key] by (auto simp: clean_profile_def)
  then have opts: "\<not> contains key (''MKFS_OPTIONS='' @ quoted (p_mkfs p))" "\<not> contains key (''MOUNT_OPTIONS='' @ quoted (p_mount p))"
    using texts by (simp_all only: quoted simp_thms)
  have "list_all (\<lambda>l. \<not> contains key l) (profile_lines (n, p))"
    using texts header opts
    by (cases p rule: needs_cases)
       (simp_all add: profile_lines_split plain_lines_def own_vars_def ext_keys_def assignment_def)
  then show ?thesis
    using contains_unlines [OF k(4) ne] by (simp add: catalog_text_one list_all_iff)
qed

section \<open>The bound section\<close>

text \<open>Assignments with a value the reader takes as it is.\<close>

definition plain_kv :: "string \<times> string \<Rightarrow> bool" where
  "plain_kv kv = (kv_ok kv \<and> line_ok (assignment kv) \<and> strip_quotes (snd kv) = snd kv)"

lemma section_vars_assigned:
  assumes "name_ok n" "list_all kv_ok kvs" "\<forall>kv\<in>set kvs. line_ok (assignment kv)"
  shows "section_vars (unlines ((''['' @ n @ '']'') # map assignment kvs)) n =
    foldl (\<lambda>d kv. dict_set (fst kv) (strip_quotes (snd kv)) d) [] kvs"
proof -
  let ?ls = "(''['' @ n @ '']'') # map assignment kvs"
  have "line_ok (''['' @ n @ '']'')" using assms(1) by (simp add: name_ok_def is_newline_def)
  then have lines: "splitlines (unlines ?ls) = ?ls"
    using assms(3) by (intro splitlines_unlines) auto
  have "parse_sections (unlines ?ls) = [n]"
    using assms(1) assignment_sections [OF assms(2), of "[n]" "[]"]
    by (simp add: parse_sections_def lines [simplified] header_name_bracket [simplified] name_ok_def)
  then show ?thesis
    using vars_line_assigns [OF assms(2), of True n "Some n" "[]"] vars_line_header [OF assms(1), of True n None "[]"]
    by (simp add: section_vars_def lines [simplified] active_def)
qed

lemma strip_quotes_id: "strip v = v \<Longrightarrow> v = [] \<or> hd v \<notin> {CHR 0x27, CHR 0x22} \<Longrightarrow> strip_quotes v = v"
  by (auto simp: strip_quotes_def Let_def)

lemma dev_ok_parts:
  assumes "dev_ok d"
  shows "d \<noteq> []" "line_ok d" "strip d = d" "strip_quotes d = d" "\<not> is_space (last d)" "\<not> is_space (hd d)"
    "hd d \<noteq> CHR 0x22"
proof -
  have all: "\<forall>c\<in>set d. \<not> is_space c \<and> \<not> is_newline c \<and> c \<noteq> CHR 0x22 \<and> c \<noteq> CHR 0x27" and ne: "d \<noteq> []"
    using assms by (auto simp: dev_ok_def list_all_iff)
  show "d \<noteq> []" "line_ok d" "\<not> is_space (last d)" "\<not> is_space (hd d)" "hd d \<noteq> CHR 0x22"
    using all ne by (simp_all add: line_ok_def)
  then show s: "strip d = d" by (intro strip_by_id) simp
  show "strip_quotes d = d" using all ne by (intro strip_quotes_id s) auto
qed

lemma foldl_assigns:
  assumes "distinct (keys (map (\<lambda>kv. (fst kv, strip_quotes (snd kv))) kvs))"
  shows "foldl (\<lambda>d kv. dict_set (fst kv) (strip_quotes (snd kv)) d) [] kvs = map (\<lambda>kv. (fst kv, strip_quotes (snd kv))) kvs"
proof -
  have "foldl (\<lambda>d kv. dict_set (fst kv) (strip_quotes (snd kv)) d) [] kvs =
    foldl (\<lambda>d (k, v). dict_set k v d) [] (map (\<lambda>kv. (fst kv, strip_quotes (snd kv))) kvs)"
    by (simp add: foldl_map)
  then show ?thesis using assms by (simp add: foldl_dict_set)
qed

text \<open>The base lines as assignments.\<close>

definition base_kvs :: "profile \<Rightarrow> string list \<Rightarrow> string option \<Rightarrow> (string \<times> string) list" where
  "base_kvs p ds log =
     [(''TEST_DEV'', ds ! 0), (''TEST_DIR'', ''/media/test''), (''SCRATCH_MNT'', ''/media/scratch'')]
     @ (if p_needs p = None \<and> length ds > 2 then [(''SCRATCH_DEV_POOL'', quoted (join '' '' (tl ds)))]
        else [(''SCRATCH_DEV'', ds ! 1)])
     @ (case log of None \<Rightarrow> [] | Some d \<Rightarrow> [(''LOGWRITES_DEV'', d)])"

definition own_raw :: "profile \<Rightarrow> (string \<times> string) list" where
  "own_raw p = map (\<lambda>(k, v). (k, if k = ''MKFS_OPTIONS'' \<or> k = ''MOUNT_OPTIONS'' then quoted v else v)) (own_vars p)"

lemma plain_lines_assign: "plain_lines n p = (''['' @ n @ '']'') # map assignment (own_raw p)"
  by (simp add: plain_lines_def own_raw_def comp_def case_prod_beta)

definition kv_line_ok :: "string \<times> string \<Rightarrow> bool" where
  "kv_line_ok kv = (kv_ok kv \<and> line_ok (assignment kv))"

lemma kv_device: "key_ok k \<Longrightarrow> line_ok k \<Longrightarrow> dev_ok d \<Longrightarrow> kv_line_ok (k, d)"
  using dev_ok_parts [of d] by (simp add: kv_line_ok_def kv_ok_def assignment_def is_newline_def)

lemma kv_quoted: "key_ok k \<Longrightarrow> line_ok k \<Longrightarrow> line_ok v \<Longrightarrow> kv_line_ok (k, quoted v)"
  by (simp add: kv_line_ok_def kv_ok_def assignment_def quoted_def is_newline_def is_space_def)

lemma key_texts:
  "list_all (\<lambda>k. key_ok k \<and> line_ok k) [''MKFS_OPTIONS'', ''MOUNT_OPTIONS'', ''TEST_DEV'', ''SCRATCH_DEV'',
     ''SCRATCH_DEV_POOL'', ''LOGWRITES_DEV'', ''TEST_RTDEV'', ''SCRATCH_RTDEV'', ''TEST_LOGDEV'', ''SCRATCH_LOGDEV'']"
  "list_all kv_line_ok [(''FSTYP'', ''xfs''), (''USE_EXTERNAL'', ''yes''), (''TEST_DIR'', ''/media/test''), (''SCRATCH_MNT'', ''/media/scratch'')]"
  by code_simp+

lemma own_raw_ok: "profile_ok p \<Longrightarrow> list_all kv_line_ok (own_raw p)"
  using key_texts by (auto simp: own_raw_def own_vars_def profile_ok_def intro!: kv_quoted)

lemma base_kvs_ok:
  assumes "dev_ok (ds ! 0)" "dev_ok (ds ! 1)" "line_ok (join '' '' (tl ds))" "log = None \<or> (\<exists>d. log = Some d \<and> dev_ok d)"
  shows "list_all kv_line_ok (base_kvs p ds log)"
  using assms key_texts by (cases log) (simp_all add: base_kvs_def kv_device kv_quoted)

lemma devices_lines:
  assumes p: "clean_profile n p" and ds: "\<forall>d\<in>set ds. dev_ok d" "length ds \<ge> 2 + length (ext_keys p)"
    and log: "log = None \<or> (\<exists>d. log = Some d \<and> dev_ok d)"
  defines "kvs \<equiv> own_raw p @ zip (ext_keys p) (drop 2 ds) @ base_kvs p ds log"
  shows "section_vars (unlines ((''['' @ n @ '']'') # map assignment kvs)) n =
    bound_vars p ds @ (case log of None \<Rightarrow> [] | Some d \<Rightarrow> [(''LOGWRITES_DEV'', d)])"
proof -
  have name: "name_ok n" and lines: "line_ok (p_mkfs p)" "line_ok (p_mount p)"
    using p plain_name_ok by (auto simp: clean_profile_def profile_ok_def)
  have l: "0 < length ds" "1 < length ds" using ds(2) by auto
  have d: "dev_ok (ds ! 0)" "dev_ok (ds ! 1)" using ds(1) nth_mem [OF l(1)] nth_mem [OF l(2)] by blast+
  have pool: "line_ok (join '' '' (tl ds))"
  proof (rule line_ok_join)
    show "line_ok x" if "x \<in> set (tl ds)" for x
      using that ds(1) dev_ok_parts(2) by (cases ds) auto
  qed (simp add: is_newline_def)
  have ext: "dev_ok (ds ! 2)" "dev_ok (ds ! 3)" "zip (ext_keys p) (drop 2 ds) = [(ext_keys p ! 0, ds ! 2), (ext_keys p ! 1, ds ! 3)]"
    if "p_needs p \<noteq> None"
  proof -
    have l: "length ds \<ge> 4" using ds(2) that by (auto simp: ext_keys_def)
    then show "dev_ok (ds ! 2)" "dev_ok (ds ! 3)" using ds(1) by auto
    have "drop 2 ds = ds ! 2 # ds ! 3 # drop 4 ds"
      using l Cons_nth_drop_Suc [of 2 ds] Cons_nth_drop_Suc [of 3 ds] by simp
    then show "zip (ext_keys p) (drop 2 ds) = [(ext_keys p ! 0, ds ! 2), (ext_keys p ! 1, ds ! 3)]"
      using that by (auto simp: ext_keys_def)
  qed
  note dev = dev_ok_parts
  have texts: "strip_quotes ''/media/test'' = ''/media/test''" "strip_quotes ''/media/scratch'' = ''/media/scratch''"
    by code_simp+
  have "list_all kv_line_ok (zip (ext_keys p) (drop 2 ds))"
    using ext key_texts by (cases p rule: needs_cases) (simp_all add: ext_keys_def kv_device)
  with own_raw_ok [of p] base_kvs_ok [OF d pool log] lines have "list_all kv_line_ok kvs"
    by (simp add: kvs_def profile_ok_def)
  then have ok: "list_all kv_ok kvs" "\<forall>kv\<in>set kvs. line_ok (assignment kv)"
    by (auto simp: list_all_iff kv_line_ok_def)
  have vals: "map (\<lambda>kv. (fst kv, strip_quotes (snd kv))) kvs =
      bound_vars p ds @ (case log of None \<Rightarrow> [] | Some d \<Rightarrow> [(''LOGWRITES_DEV'', d)])"
    using d ext log
    by (cases p rule: needs_cases)
       (auto simp: kvs_def own_raw_def own_vars_def base_kvs_def bound_vars_def ext_keys_def texts strip_quotes_plain dev)
  moreover have "distinct (keys (bound_vars p ds @ (case log of None \<Rightarrow> [] | Some d \<Rightarrow> [(''LOGWRITES_DEV'', d)])))"
    using ext by (cases p rule: needs_cases)
      (auto simp: bound_vars_def own_vars_def ext_keys_def split: option.splits)
  ultimately have "foldl (\<lambda>d kv. dict_set (fst kv) (strip_quotes (snd kv)) d) [] kvs =
      bound_vars p ds @ (case log of None \<Rightarrow> [] | Some d \<Rightarrow> [(''LOGWRITES_DEV'', d)])"
    using foldl_assigns [of kvs] by simp
  then show ?thesis using section_vars_assigned [OF name ok] by simp
qed

lemma matrix_mkfs_no_T: "CHR ''T'' \<notin> set (f_mkfs f) \<Longrightarrow> CHR ''T'' \<notin> set (matrix_mkfs f b s)"
  using not_in_digits [of "CHR ''T''"]
  by (auto simp: matrix_mkfs_eq extsize_def is_digit_def simp del: show_nat.simps split: option.splits)

lemma matrix_clean:
  assumes "xfs_profiles_matrix feature geometry = Inr m" "(n, p) \<in> set m"
  shows "clean_profile n p"
proof -
  have geo: "geometry \<in> {''matrix'', ''default''}" using assms(1) by (simp add: xfs_profiles_matrix_def split: if_splits)
  obtain feats where feats: "feature_keys feature = Inr feats"
    using assms(1) geo by (auto simp: xfs_profiles_matrix_def andthen_Inr split: if_splits)
  have "m = concat (map (feature_rows geometry) feats)" using matrix_rows [OF feats geo] assms(1) by simp
  with assms(2) obtain feat where feat: "feat \<in> set feats" "(n, p) \<in> set (feature_rows geometry feat)" by auto
  then have key: "feat \<in> set (keys XFS_FEATURES)" using feature_keys_known [OF feats] by auto
  then obtain f where f: "dict_get XFS_FEATURES feat = Some f"
    using map_of_eq_None_iff [of XFS_FEATURES feat] by auto
  then have ok: "list_all plain_char feat" "CHR ''T'' \<notin> set (f_mkfs f)" "CHR ''T'' \<notin> set (f_mount f)"
    using features_plain features_unsized map_of_SomeD [OF f] by (auto simp: list_all_iff)
  have chars: "list_all plain_char ''xfs''" "list_all plain_char ''_''" "list_all plain_char ''bs''" "list_all plain_char ''ss''"
    by code_simp+
  have profile: "profile_ok p" using feature_rows_ok [OF key feat(2)] by simp
  show ?thesis
  proof (cases "geometry = ''default''")
    case True
    with feat(2) f have "n = base_name feat" "p_mkfs p = f_mkfs f" "p_mount p = f_mount f"
      by (auto simp: feature_rows_def default_profile_def base_name_def)
    with ok chars profile show ?thesis by (auto simp: clean_profile_def base_name_def)
  next
    case False
    with feat(2) f obtain b s where "n = section_name feat b s" "p = profile_of f b s"
      by (auto simp: feature_rows_def feature_matrix_set)
    with ok chars profile size_tag_plain_chars matrix_mkfs_no_T [of f] show ?thesis
      by (auto simp: clean_profile_def section_name_def profile_of_def)
  qed
qed

lemma with_base_all:
  assumes "list_all (\<lambda>(key, _). \<not> contains key block) base" "base \<noteq> []" "ls \<noteq> []"
  shows "with_base block (join nl ls) base = unlines (ls @ map snd base)"
proof -
  have "filter (\<lambda>(key, _). \<not> contains key block) base = base"
    using assms(1) by (auto simp: list_all_iff filter_id_conv)
  then have "with_base block (join nl ls) base = join nl ls @ nl @ join nl (map snd base) @ nl"
    using assms(2) by (simp add: with_base_def)
  also have "\<dots> = unlines (ls @ map snd base)"
    using assms(2,3) by (simp add: unlines_append flip: join_unlines)
  finally show ?thesis .
qed

lemma assign_snd: "snd (assign k v) = assignment (k, v)"
  by (simp add: assign_def assignment_def)

text \<open>The base of a catalogue section: each entry's line is the assignment of \<open>base_kvs\<close>.\<close>

lemma section_base:
  assumes "clean_profile n p"
    and "base = mount_base ds @ [if p_needs p = None then scratch_base ds else assign ''SCRATCH_DEV'' (ds ! 1)]
      @ (case log of None \<Rightarrow> [] | Some d \<Rightarrow> [assign ''LOGWRITES_DEV'' d])"
    and "ds \<noteq> []"
  shows "list_all (\<lambda>(key, _). \<not> contains key (catalog_text [(n, p)])) base" "map snd base = map assignment (base_kvs p ds log)"
    "scratch_free (catalog_text [(n, p)])" "\<not> contains ''LOGWRITES_DEV='' (catalog_text [(n, p)])"
proof -
  note free = base_key_free [OF assms(1)]
  have keys: "\<not> contains ''TEST_DEV='' (catalog_text [(n, p)])" "\<not> contains ''TEST_DIR='' (catalog_text [(n, p)])"
    "\<not> contains ''SCRATCH_MNT='' (catalog_text [(n, p)])" "\<not> contains ''SCRATCH_DEV='' (catalog_text [(n, p)])"
    "\<not> contains ''SCRATCH_DEV_POOL='' (catalog_text [(n, p)])" "\<not> contains ''LOGWRITES_DEV='' (catalog_text [(n, p)])"
    by (rule free, simp add: BASE_KEYS_def)+
  from keys show "scratch_free (catalog_text [(n, p)])" "\<not> contains ''LOGWRITES_DEV='' (catalog_text [(n, p)])"
    by (simp_all add: scratch_free_def)
  from keys show "list_all (\<lambda>(key, _). \<not> contains key (catalog_text [(n, p)])) base"
    by (cases log) (simp_all add: assms(2) mount_base_def assign_def scratch_base_def)
  show "map snd base = map assignment (base_kvs p ds log)"
    using assms(3)
    by (cases log) (simp_all add: assms(2) mount_base_def assign_snd scratch_base_def base_kvs_def quoted_def hd_conv_nth)
qed

text \<open>
  Binding the guest's devices to a section of the generated catalogue: with too few devices it
  is an error, otherwise the section keeps its FSTYP, mkfs and mount options and gets \<open>TEST_DEV\<close>
  from the first device, for a realtime or log-device section \<open>SCRATCH_DEV\<close> and its two external
  devices from the next three, for any other one \<open>SCRATCH_DEV\<close> or, with more than two devices, the
  pool of all the rest (never both), and with logwrites the last device as \<open>LOGWRITES_DEV\<close>, reserved before the others.
\<close>

theorem catalog_binds:
  fixes logwrites :: bool
  assumes m: "xfs_profiles_matrix feature geometry = Inr m" "(n, p) \<in> set m"
    and devs: "\<forall>d\<in>set devices. dev_ok (device_name d)"
  defines "ds \<equiv> if logwrites then butlast (map device_name devices) else map device_name devices"
  shows "if length ds < 2 + length (ext_keys p)
    then inject_device_base (catalog_text [(n, p)]) devices logwrites = Inl ValueError
    else \<exists>out. inject_device_base (catalog_text [(n, p)]) devices logwrites = Inr out \<and>
      section_vars out n = bound_vars p ds
        @ (if logwrites then [(''LOGWRITES_DEV'', device_name (last devices))] else [])"
proof -
  let ?t = "catalog_text [(n, p)]" and ?all = "map device_name devices"
  note clean = matrix_clean [OF m]
  note ext = externals_of_section [OF clean]
  have free: "scratch_free ?t" "\<not> contains ''LOGWRITES_DEV='' ?t"
    using section_base(3,4) [OF clean refl, of "[[]]"] by auto
  define log where "log = (if logwrites then Some (last ?all) else None)"
  have split: "logwrites_split ?t logwrites (length (ext_keys p)) ?all =
    (if logwrites \<and> length ds < 2 + length (ext_keys p) then Inl ValueError
     else Inr (case log of None \<Rightarrow> [] | Some d \<Rightarrow> [assign ''LOGWRITES_DEV'' d], ds))"
    using free(2) by (auto simp: logwrites_split_def ds_def log_def)
  show ?thesis
  proof (cases "length ds < 2 + length (ext_keys p)")
    case True
    then show ?thesis
      by (auto simp: inject_device_base_def ext split Let_def)
  next
    case False
    then have "length ds > 0" by linarith
    then have ne: "ds \<noteq> []" "devices \<noteq> []" by (auto simp: ds_def split: if_splits)
    have "set ds \<subseteq> set ?all" using in_set_butlastD [of _ ?all] by (simp add: ds_def subset_iff)
    then have ok: "\<forall>d\<in>set ds. dev_ok d" using devs by auto
    have log: "log = None \<or> (\<exists>d. log = Some d \<and> dev_ok d)" using devs ne(2) by (auto simp: log_def last_map)
    define base where "base = mount_base ds @ [if p_needs p = None then scratch_base ds else assign ''SCRATCH_DEV'' (ds ! 1)]
      @ (case log of None \<Rightarrow> [] | Some d \<Rightarrow> [assign ''LOGWRITES_DEV'' d])"
    note base_facts = section_base(1,2) [OF clean base_def ne(1)]
    have filled: "fill_externals (zip (ext_keys p) (drop 2 ds)) (no_newlines_end ?t) =
        join nl (plain_lines n p @ map assignment (zip (ext_keys p) (drop 2 ds)))"
    proof (cases "p_needs p = None")
      case True
      then show ?thesis by (simp add: ext_keys_def body_of_section profile_lines_split)
    next
      case some: False
      then have l: "length (ext_keys p) = 2" "4 \<le> length ds" using False by (auto simp: ext_keys_def)
      have d: "drop 2 ds = ds ! 2 # ds ! 3 # drop 4 ds"
        using l(2) Cons_nth_drop_Suc [of 2 ds] Cons_nth_drop_Suc [of 3 ds] by simp
      have z: "zip (ext_keys p) (drop 2 ds) = zip (ext_keys p) [ds ! 2, ds ! 3]"
        using l(1) by (cases "ext_keys p"; cases "tl (ext_keys p)") (auto simp: d)
      have "dev_ok (ds ! 2)" "dev_ok (ds ! 3)" using ok l(2) by auto
      then show ?thesis unfolding z body_of_section by (rule fill_section [OF clean some])
    qed
    have "inject_device_base ?t devices logwrites =
        Inr (with_base ?t (fill_externals (zip (ext_keys p) (drop 2 ds)) (no_newlines_end ?t)) base)"
      using False free(1)
      by (cases "p_needs p = None")
         (simp_all add: inject_device_base_def ext split Let_def base_def, auto simp: ext_keys_def)
    also have "\<dots> = Inr (unlines ((''['' @ n @ '']'') # map assignment (own_raw p @ zip (ext_keys p) (drop 2 ds) @ base_kvs p ds log)))"
      unfolding filled
      by (subst with_base_all [OF base_facts(1)])
         (simp_all add: base_facts(2) plain_lines_assign, simp add: base_def)
    finally have "inject_device_base ?t devices logwrites = \<dots>" .
    moreover have "(case log of None \<Rightarrow> [] | Some d \<Rightarrow> [(''LOGWRITES_DEV'', d)]) =
        (if logwrites then [(''LOGWRITES_DEV'', device_name (last devices))] else [])"
      using ne(2) by (simp add: log_def last_map)
    ultimately show ?thesis
      using devices_lines [OF clean ok _ log] False by auto
  qed
qed

theorem catalog_binds_witness:
  "\<exists>out. inject_device_base (catalog_text [(''xfs_logdev'', \<lparr>p_mkfs = [], p_mount = [], p_needs = Some ''logdev''\<rparr>)])
       (map Plain [''/dev/vdb'', ''/dev/vdc'', ''/dev/vdd'', ''/dev/vde'', ''/dev/vdf'']) True = Inr out \<and>
     dict_get (section_vars out ''xfs_logdev'') ''SCRATCH_LOGDEV'' = Some ''/dev/vde''
     \<and> dict_get (section_vars out ''xfs_logdev'') ''LOGWRITES_DEV'' = Some ''/dev/vdf''"
proof -
  let ?p = "\<lparr>p_mkfs = [], p_mount = [], p_needs = Some ''logdev''\<rparr>"
  let ?d = "map Plain [''/dev/vdb'', ''/dev/vdc'', ''/dev/vdd'', ''/dev/vde'', ''/dev/vdf'']"
  have m: "xfs_profiles_matrix (Some ''logdev'') ''default'' = Inr [(''xfs_logdev'', ?p)]" by code_simp
  have "list_all (\<lambda>d. dev_ok (device_name d)) ?d" by code_simp
  then have d: "\<forall>d\<in>set ?d. dev_ok (device_name d)" by (simp add: list_all_iff)
  obtain out where "inject_device_base (catalog_text [(''xfs_logdev'', ?p)]) ?d True = Inr out"
    "section_vars out ''xfs_logdev'' = bound_vars ?p (butlast (map device_name ?d)) @ [(''LOGWRITES_DEV'', device_name (last ?d))]"
    using catalog_binds [OF m _ d, of "''xfs_logdev''" ?p True] by (auto simp: ext_keys_def)
  then show ?thesis
    by (simp add: ext_keys_def device_name_def bound_vars_def own_vars_def needs_suffix_def numeral_eq_Suc)
qed

end
