(* ===== verification/FstestsRun.thy ===== *)
theory FstestsRun
  imports FstestsConfig Paths Json Verdict "HOL-Library.Product_Lexorder" "HOL-Library.Multiset"
begin

text \<open>
  One xfstests run, the rest of \<open>f/fstests/common.py\<close> and \<open>f/fstests/collect.py\<close>: where a section's
  results live, the \<open>./check\<close> flags and the unit's environment file, the xunit report aggregated
  over its passes, the group registry's picker, and the result a section is collected to.

  The XML and JSON parsers, the file system's contents and Python's floats are parameters: a report
  is the element tree its parser returns, and \<open>floats\<close> holds the operations on a test's time.
\<close>

section \<open>Where the results live\<close>

definition fstests_share_dir :: "path \<Rightarrow> string \<Rightarrow> path result" where
  "fstests_share_dir workers vm_name = under (workers @ [''shared'', ''fstests'']) vm_name"

definition safe_kver :: "string \<Rightarrow> string result" where
  "safe_kver kernel_version =
     (let kv = strip kernel_version in
      if kv = [] \<or> CHR ''/'' \<in> set kv \<or> kv \<in> {''.'', ''..''} then Inl ValueError else Inr kv)"

definition section_results_dir :: "path \<Rightarrow> string \<Rightarrow> string \<Rightarrow> string \<Rightarrow> path result" where
  "section_results_dir workers vm_name kernel_version section =
     andthen (safe_kver kernel_version) (\<lambda>kv.
     andthen (fstests_share_dir workers vm_name) (\<lambda>share.
       let base = resolve_path (path_join (path_join share kv) ''results'');
           p = resolve_path (path_join base section) in
       if p \<noteq> base \<and> \<not> in_parents base p then Inl ValueError else Inr p))"

section \<open>The flags of the check script\<close>

record check_args =
  test_selection :: string
  ca_groups :: "string list option"
  exclude_group :: string
  ca_exclude :: string
  ca_report :: string
  randomize :: bool
  ca_tests :: string
  iterations :: int
  loop_on_fail :: int
  stop_on_fail :: bool

definition in_tests_mode :: "check_args \<Rightarrow> bool" where
  "in_tests_mode a = (test_selection a = ''tests'')"

definition group_arg :: "check_args \<Rightarrow> string" where
  "group_arg a =
     (if in_tests_mode a then []
      else join '','' (filter (\<lambda>g. g \<noteq> []) (case ca_groups a of None \<Rightarrow> [] | Some gs \<Rightarrow> gs)))"

definition check_argv :: "check_args \<Rightarrow> string list" where
  "check_argv a =
     (if group_arg a \<noteq> [] then [''-g'', group_arg a] else [])
     @ (if exclude_group a \<noteq> [] \<and> \<not> in_tests_mode a then [''-x'', exclude_group a] else [])
     @ (if ca_exclude a \<noteq> [] then [''-X'', ca_exclude a] else [])
     @ (if ca_report a \<noteq> [] then [''-R'', ca_report a] else [])
     @ (if randomize a then [''-r''] else [])
     @ (if iterations a \<noteq> 0 \<and> iterations a > 1
        then [if stop_on_fail a then ''-I'' else ''-i'', show_int (iterations a)] else [])
     @ (if loop_on_fail a \<noteq> 0 \<and> loop_on_fail a > 0 then [''-L'', show_int (loop_on_fail a)] else [])
     @ (if in_tests_mode a \<and> ca_tests a \<noteq> [] then split_ws (ca_tests a) else [])"

definition build_check_args :: "check_args \<Rightarrow> string" where
  "build_check_args a = join '' '' (check_argv a)"

definition timeout_pairs :: "(string, int) dict \<Rightarrow> string" where
  "timeout_pairs d =
     join '' '' (map (\<lambda>(k, v). k @ '':'' @ show_int v) (filter (\<lambda>(k, v). k \<noteq> [] \<and> v \<noteq> 0) d))"

definition section_env_lines ::
  "string \<Rightarrow> string \<Rightarrow> int \<Rightarrow> (string, int) dict option \<Rightarrow> bool \<Rightarrow> string list" where
  "section_env_lines host_options check_args test_timeout test_timeouts recreate_test_dev =
     (let pairs = timeout_pairs (case test_timeouts of None \<Rightarrow> [] | Some d \<Rightarrow> d) in
      [''HOST_OPTIONS='' @ host_options, ''XFSTESTS_CHECK_ARGS='' @ check_args,
       ''RECREATE_TEST_DEV='' @ (if recreate_test_dev then ''true'' else ''false'')]
      @ (if test_timeout \<noteq> 0 then [''TEST_TIMEOUT='' @ show_int test_timeout] else [])
      @ (if pairs \<noteq> [] then [''TEST_TIMEOUTS='' @ pairs] else []))"

definition render_section_env ::
  "string \<Rightarrow> string \<Rightarrow> int \<Rightarrow> (string, int) dict option \<Rightarrow> bool \<Rightarrow> string" where
  "render_section_env host_options check_args test_timeout test_timeouts recreate_test_dev =
     join nl (section_env_lines host_options check_args test_timeout test_timeouts recreate_test_dev) @ nl"

section \<open>The xunit report\<close>

datatype xml = Elem (tag: string) (attrs: "(string, string) dict") (children: "xml list")

fun iter :: "xml \<Rightarrow> xml list" where
  "iter (Elem t a cs) = Elem t a cs # concat (map iter cs)"

definition local_tag :: "xml \<Rightarrow> string" where
  "local_tag e = after_last_chr (CHR ''}'') (tag e)"

definition attr_or :: "xml \<Rightarrow> string \<Rightarrow> string \<Rightarrow> string" where
  "attr_or e k d = (case dict_get (attrs e) k of None \<Rightarrow> d | Some v \<Rightarrow> v)"

definition testcase_name :: "xml \<Rightarrow> string" where
  "testcase_name e =
     (let n = attr_or e ''name'' []; c = attr_or e ''classname'' [] in
      if n \<noteq> [] then n else if c \<noteq> [] then c else ''?'')"

text \<open>\<open>float(s)\<close> (None for the \<open>ValueError\<close>), \<open>0.0\<close>, \<open>+\<close> and \<open>round\<close>.\<close>

record 'f floats =
  fl_read :: "string \<Rightarrow> 'f option"
  fl_zero :: 'f
  fl_add :: "'f \<Rightarrow> 'f \<Rightarrow> 'f"
  fl_round :: "'f \<Rightarrow> int"

record failure =
  fa_name :: string
  fa_message :: string
  fa_type :: string
  fa_fails :: nat

record 'f totals =
  fail_agg :: "(string, failure) dict"
  tot_runs :: "(string, nat) dict"
  tot_skips :: "(string, nat) dict"
  tot_times :: "(string, 'f) dict"

definition get_or :: "('k, 'v) dict \<Rightarrow> 'k \<Rightarrow> 'v \<Rightarrow> 'v" where
  "get_or d k v = (case dict_get d k of None \<Rightarrow> v | Some x \<Rightarrow> x)"

definition bump :: "string \<Rightarrow> (string, nat) dict \<Rightarrow> (string, nat) dict" where
  "bump n d = dict_set n (get_or d n 0 + 1) d"

definition add_time :: "'f floats \<Rightarrow> xml \<Rightarrow> (string, 'f) dict \<Rightarrow> (string, 'f) dict" where
  "add_time fl e d =
     (let t = attr_or e ''time'' []; n = testcase_name e in
      case (if t = [] then Some (fl_zero fl) else fl_read fl t) of
        None \<Rightarrow> d
      | Some x \<Rightarrow> dict_set n (fl_add fl (get_or d n (fl_zero fl)) x) d)"

definition add_failure :: "string \<Rightarrow> xml \<Rightarrow> (string, failure) dict \<Rightarrow> (string, failure) dict" where
  "add_failure n e d =
     (case dict_get d n of
        Some f \<Rightarrow> dict_set n (f\<lparr>fa_fails := fa_fails f + 1\<rparr>) d
      | None \<Rightarrow> dict_set n \<lparr>fa_name = n, fa_message = attr_or e ''message'' [],
                           fa_type = attr_or e ''type'' [], fa_fails = 1\<rparr> d)"

text \<open>The loop over a test case's children: the flags and the failures.\<close>

fun case_children ::
  "string \<Rightarrow> xml list \<Rightarrow> bool \<Rightarrow> bool \<Rightarrow> (string, failure) dict \<Rightarrow> bool \<times> bool \<times> (string, failure) dict" where
  "case_children n [] cf sk d = (cf, sk, d)"
| "case_children n (c # cs) cf sk d =
     (if local_tag c = ''failure'' then case_children n cs True sk (add_failure n c d)
      else if local_tag c = ''skipped'' then case_children n cs cf True d
      else case_children n cs cf sk d)"

definition add_case :: "'f floats \<Rightarrow> 'f totals \<Rightarrow> xml \<Rightarrow> 'f totals" where
  "add_case fl t e =
     (if local_tag e \<noteq> ''testcase'' then t
      else (let n = testcase_name e;
                (case_failed, case_skipped, d) = case_children n (children e) False False (fail_agg t) in
            \<lparr>fail_agg = d, tot_runs = bump n (tot_runs t),
             tot_skips = (if case_skipped \<and> \<not> case_failed then bump n (tot_skips t) else tot_skips t),
             tot_times = add_time fl e (tot_times t)\<rparr>))"

definition no_totals :: "'f totals" where
  "no_totals = \<lparr>fail_agg = [], tot_runs = [], tot_skips = [], tot_times = []\<rparr>"

definition totals_of :: "'f floats \<Rightarrow> xml \<Rightarrow> 'f totals" where
  "totals_of fl root = foldl (add_case fl) no_totals (iter root)"

datatype test_status = TFailed | TNotrun | TPassed

fun rank :: "test_status \<Rightarrow> nat" where
  "rank TFailed = 0"
| "rank TNotrun = 1"
| "rank TPassed = 2"

record test_row =
  r_test :: string
  r_status :: test_status
  r_runs :: nat
  r_fails :: nat
  r_time :: int
  r_message :: string

definition is_notrun :: "'f totals \<Rightarrow> string \<Rightarrow> bool" where
  "is_notrun t n =
     (n \<notin> set (keys (fail_agg t)) \<and> get_or (tot_skips t) n 0 = the (dict_get (tot_runs t) n))"

definition row_of :: "'f floats \<Rightarrow> 'f totals \<Rightarrow> string \<Rightarrow> test_row" where
  "row_of fl t n =
     (let (status, fails, message) =
        (case dict_get (fail_agg t) n of
           Some f \<Rightarrow> (TFailed, fa_fails f, fa_message f)
         | None \<Rightarrow> (if is_notrun t n then TNotrun else TPassed, 0, [])) in
      \<lparr>r_test = n, r_status = status, r_runs = the (dict_get (tot_runs t) n), r_fails = fails,
       r_time = fl_round fl (get_or (tot_times t) n (fl_zero fl)), r_message = message\<rparr>)"

record xunit =
  x_present :: bool
  x_error :: bool
  x_passed :: nat
  x_failed :: nat
  x_skipped :: nat
  x_tests :: nat
  x_iterations :: nat
  x_failures :: "failure list"
  x_notruns :: "string list"
  x_per_test :: "test_row list"

text \<open>What is at \<open>result.xml\<close>: nothing, a file the parser refuses, or an element tree.\<close>

datatype report_file = Absent | Unparseable | Report xml

definition no_results :: "bool \<Rightarrow> bool \<Rightarrow> xunit" where
  "no_results present err = \<lparr>x_present = present, x_error = err, x_passed = 0, x_failed = 0, x_skipped = 0,
     x_tests = 0, x_iterations = 0, x_failures = [], x_notruns = [], x_per_test = []\<rparr>"

definition max_runs :: "nat list \<Rightarrow> nat" where
  "max_runs ns = fold max ns 0"

definition parse_xunit :: "'f floats \<Rightarrow> report_file \<Rightarrow> xunit" where
  "parse_xunit fl file = (case file of
     Absent \<Rightarrow> no_results False True
   | Unparseable \<Rightarrow> no_results True True
   | Report root \<Rightarrow>
       (let t = totals_of fl root;
            names = keys (tot_runs t);
            notrun_names = sort (filter (is_notrun t) names);
            tests = length names;
            failed = length (fail_agg t);
            skipped = length notrun_names in
        \<lparr>x_present = True, x_error = False, x_passed = tests - failed - skipped, x_failed = failed,
         x_skipped = skipped, x_tests = tests, x_iterations = max_runs (map snd (tot_runs t)),
         x_failures = map snd (fail_agg t), x_notruns = notrun_names,
         x_per_test = sort_key (\<lambda>r. (rank (r_status r), r_test r)) (map (row_of fl t) names)\<rparr>))"

definition ROTATED_OUT_BAD :: re where
  "ROTATED_OUT_BAD = RSeqs [RLit ''.'', RPlus RDigit, RLit ''.out.bad'', REol]"

text \<open>The \<open>.out.bad\<close> files below the results directory, as \<open>(path, name)\<close>.\<close>

definition out_bad :: "(string \<times> string) list \<Rightarrow> string list" where
  "out_bad files = sort (map fst (filter (\<lambda>(_, name). re_search ROTATED_OUT_BAD name = None) files))"

section \<open>The check script's header and the geometry\<close>

definition CHECK_HEADER_RE :: re where
  "CHECK_HEADER_RE = RSeqs [RMBol, RGrp ''1'' (RAlt (RLit ''MKFS_OPTIONS'') (RLit ''MOUNT_OPTIONS'')),
     RPlus RSpace, RLit ''--'', RPlus RSpace, RGrp ''2'' (RStar RDot), RMEol]"

text \<open>\<open>mkfs_options\<close> and \<open>mount_options\<close>; the last occurrence wins.\<close>

definition parse_check_header :: "string \<Rightarrow> string \<times> string" where
  "parse_check_header body =
     foldl (\<lambda>(mkfs, mount) m.
        if grp0 m ''1'' = ''MKFS_OPTIONS'' then (strip (grp0 m ''2''), mount) else (mkfs, strip (grp0 m ''2'')))
       ([], []) (re_findall CHECK_HEADER_RE body)"

definition XFS_INFO_RE :: re where
  "XFS_INFO_RE = RSeqs [RGrp ''1'' (RPlus (RCls (\<lambda>c. is_word c \<or> c = CHR ''-''))), RLit ''='',
     RGrp ''2'' (RPlus (RCls (\<lambda>c. \<not> is_space c \<and> c \<noteq> CHR '','')))]"

definition parse_xfs_info :: "string \<Rightarrow> (string, string) dict" where
  "parse_xfs_info body = foldl (\<lambda>d m. dict_set (grp0 m ''1'') (grp0 m ''2'') d) [] (re_findall XFS_INFO_RE body)"

record geometry =
  g_fstype :: string
  g_mkfs_options :: string
  g_mount_options :: string
  g_bsize :: nat
  g_sectsize :: "nat option"

text \<open>\<open>section_config\<close> on the rendered config, None when it is absent.\<close>

definition section_config :: "string option \<Rightarrow> string \<Rightarrow> geometry option" where
  "section_config config section =
     map_option (\<lambda>t. let v = section_vars t section in
       \<lparr>g_fstype = var_or_empty v ''FSTYP'', g_mkfs_options = var_or_empty v ''MKFS_OPTIONS'',
        g_mount_options = var_or_empty v ''MOUNT_OPTIONS'', g_bsize = section_block_size t section,
        g_sectsize = section_sector_size t section\<rparr>) config"

text \<open>\<open>read_section_geometry\<close>, on the value of the file (None: absent or no JSON).\<close>

definition read_section_geometry :: "json option \<Rightarrow> (string, json) dict" where
  "read_section_geometry file = (case file of Some (JObj d) \<Rightarrow> d | _ \<Rightarrow> [])"

record realized =
  re_devices :: json
  re_mkfs :: json
  re_mount :: json
  re_features :: "(string, string) dict option"

definition realized_geometry :: "(string, json) dict \<Rightarrow> realized option result" where
  "realized_geometry d =
     (if d = [] then Inr None
      else (let devices = get_or_json d ''devices'' (JObj []) in
        andthen (members AttributeError devices) (\<lambda>devs.
        andthen (members AttributeError (get_or_json devs ''TEST_DEV'' (JObj []))) (\<lambda>test_dev.
        let info = get_or test_dev ''xfs_info'' (JStr []);
            known = \<lparr>re_devices = devices, re_mkfs = get_or d ''mkfs_options'' (JStr []),
                     re_mount = get_or d ''mount_options'' (JStr []), re_features = None\<rparr> in
        if \<not> truthy info then Inr (Some known)
        else (case info of
                JStr s \<Rightarrow> Inr (Some (known\<lparr>re_features := Some (parse_xfs_info s)\<rparr>))
              | _ \<Rightarrow> Inl TypeError)))))"

section \<open>Collecting a section\<close>

record section_in =
  si_section :: string
  si_report :: report_file
  si_config :: "string option"
  si_realized :: "json option"
  si_crashed :: bool
  si_timed_out :: bool

record section_out =
  so_fstype :: string
  so_status :: item_status
  so_tests :: nat
  so_passed :: nat
  so_failed :: nat
  so_notrun :: nat
  so_iterations :: nat
  so_per_test :: "test_row list"
  so_failures :: "failure list"
  so_notruns :: "string list"
  so_geometry :: "geometry option \<times> realized option"
  so_error :: bool

definition section_ok :: "section_in \<Rightarrow> xunit \<Rightarrow> bool" where
  "section_ok i x = (x_present x \<and> x_failed x = 0 \<and> \<not> si_crashed i \<and> \<not> si_timed_out i)"

definition fstests_collect :: "'f floats \<Rightarrow> section_in \<Rightarrow> section_out result" where
  "fstests_collect fl i =
     (let x = parse_xunit fl (si_report i); g = section_config (si_config i) (si_section i) in
      andthen (realized_geometry (read_section_geometry (si_realized i))) (\<lambda>realized.
      Inr \<lparr>so_fstype = (case g of None \<Rightarrow> [] | Some g \<Rightarrow> g_fstype g),
           so_status = (if section_ok i x then Passed else Failed),
           so_tests = x_tests x, so_passed = x_passed x, so_failed = x_failed x, so_notrun = x_skipped x,
           so_iterations = x_iterations x, so_per_test = x_per_test x, so_failures = x_failures x,
           so_notruns = x_notruns x, so_geometry = (g, realized), so_error = x_error x\<rparr>))"

section \<open>The group registry\<close>

definition split_first :: "string \<Rightarrow> string \<times> string" where
  "split_first s = (let t = lstrip_by is_space s in
     (takeWhile (\<lambda>c. \<not> is_space c) t, lstrip_by is_space (dropWhile (\<lambda>c. \<not> is_space c) t)))"

text \<open>One line of the table: \<open>line.split(None, 1)\<close> of a line that starts in column one.\<close>

definition group_line :: "(string \<times> string) list \<Rightarrow> string \<Rightarrow> (string \<times> string) list" where
  "group_line groups raw =
     (let line = rstrip raw in
      if strip line = [] \<or> set (strip line) \<subseteq> {CHR ''='', CHR '' ''} then groups
      else if is_space (hd line)
      then (if groups = [] then groups
            else butlast groups @ [(fst (last groups), strip (snd (last groups) @ '' '' @ strip line))])
      else (let (name, rest) = split_first line in
            if name = ''Group'' \<and> prefix ''Name:'' (strip rest) then groups
            else groups @ [(name, strip rest)]))"

definition parse_group_names :: "string \<Rightarrow> (string \<times> string) list" where
  "parse_group_names s = foldl group_line [] (splitlines s)"

definition pin :: "string \<Rightarrow> nat" where
  "pin n = (if n = ''auto'' then 0 else if n = ''quick'' then 1 else 2)"

definition group_label :: "string \<times> string \<Rightarrow> string" where
  "group_label g = (let (name, desc) = g in
     if desc = [] then name
     else name @ '': '' @ (if length desc \<le> 80 then desc else rstrip (take 77 desc) @ ''...''))"

definition group_matches :: "string \<Rightarrow> string \<times> string \<Rightarrow> bool" where
  "group_matches filterText g =
     (let needle = lower filterText in
      needle = [] \<or> contains needle (lower (fst g)) \<or> contains needle (lower (snd g)))"

definition group_options :: "(string \<times> string) list \<Rightarrow> string \<Rightarrow> (string \<times> string) list" where
  "group_options groups filterText =
     map (\<lambda>g. (group_label g, fst g))
       (filter (group_matches filterText) (sort_key (\<lambda>g. (pin (fst g), fst g)) groups))"

definition GROUPS_FALLBACK :: "(string \<times> string) list" where
  "GROUPS_FALLBACK = [(''auto: run automatically (~5 min cap)'', ''auto''), (''quick: under 30s each'', ''quick'')]"

text \<open>
  \<open>_guest_group_registry\<close>: \<open>sidecar\<close> is the VM's variables file (None when there is none),
  \<open>requisites\<close> the lines nix prints for a closure, \<open>doc\<close> the registry file below a store path.
\<close>

fun first_doc :: "(string \<Rightarrow> string option) \<Rightarrow> string list \<Rightarrow> string option" where
  "first_doc doc [] = None"
| "first_doc doc (l # ls) =
     (let p = strip l in
      if contains ''xfstests'' (after_last_chr (CHR ''/'') p) \<and> doc p \<noteq> None then doc p
      else first_doc doc ls)"

definition guest_group_registry ::
  "(string \<Rightarrow> json option result) \<Rightarrow> (json \<Rightarrow> string result) \<Rightarrow> (string \<Rightarrow> string option)
    \<Rightarrow> string \<Rightarrow> string option result" where
  "guest_group_registry sidecar requisites doc vm_name =
     (if vm_name = [] \<or> CHR ''/'' \<in> set vm_name \<or> vm_name \<in> {''.'', ''..''} then Inr None
      else andthen (sidecar vm_name) (\<lambda>file. case file of
        None \<Rightarrow> Inr None
      | Some v \<Rightarrow>
          andthen (members AttributeError v) (\<lambda>d.
          andthen (members AttributeError (get_or_json d ''closure'' (JObj []))) (\<lambda>c.
          let toplevel = get_or c ''toplevel'' JNull in
          if \<not> truthy toplevel then Inr None
          else andthen (requisites toplevel) (\<lambda>out. Inr (first_doc doc (splitlines out)))))))"

definition list_groups ::
  "(string \<Rightarrow> json option result) \<Rightarrow> (json \<Rightarrow> string result) \<Rightarrow> (string \<Rightarrow> string option)
    \<Rightarrow> string \<Rightarrow> string \<Rightarrow> (string \<times> string) list" where
  "list_groups sidecar requisites doc vm_name filterText =
     (case guest_group_registry sidecar requisites doc (strip vm_name) of
        Inr (Some s) \<Rightarrow>
          (let opts = group_options (parse_group_names s) filterText in
           if s \<noteq> [] \<and> opts \<noteq> [] then opts else GROUPS_FALLBACK)
      | _ \<Rightarrow> GROUPS_FALLBACK)"

section \<open>What a report says\<close>

text \<open>The test cases of a report, and what one of them says of its test.\<close>

definition cases_of :: "xml \<Rightarrow> xml list" where
  "cases_of root = filter (\<lambda>e. local_tag e = ''testcase'') (iter root)"

definition case_fails :: "xml \<Rightarrow> bool" where
  "case_fails e = (\<exists>c\<in>set (children e). local_tag c = ''failure'')"

definition case_skips :: "xml \<Rightarrow> bool" where
  "case_skips e = (\<not> case_fails e \<and> (\<exists>c\<in>set (children e). local_tag c = ''skipped''))"

text \<open>A test's status over all its passes: failed in one, skipped in every one, or passed.\<close>

definition status_of :: "xml list \<Rightarrow> string \<Rightarrow> test_status" where
  "status_of cs n =
     (if \<exists>e\<in>set cs. testcase_name e = n \<and> case_fails e then TFailed
      else if \<forall>e\<in>set cs. testcase_name e = n \<longrightarrow> case_skips e then TNotrun else TPassed)"

definition of_name :: "string \<Rightarrow> xml list \<Rightarrow> xml list" where
  "of_name n cs = filter (\<lambda>e. testcase_name e = n) cs"

text \<open>The accumulators of the loop say exactly that of the cases seen.\<close>

definition aggregates :: "xml list \<Rightarrow> 'f totals \<Rightarrow> bool" where
  "aggregates cs t =
     (distinct (keys (tot_runs t)) \<and> set (keys (tot_runs t)) = testcase_name ` set cs
      \<and> (\<forall>n. get_or (tot_runs t) n 0 = length (of_name n cs))
      \<and> (\<forall>n. get_or (tot_skips t) n 0 = length (filter case_skips (of_name n cs)))
      \<and> distinct (keys (fail_agg t))
      \<and> set (keys (fail_agg t)) = testcase_name ` {e \<in> set cs. case_fails e})"

lemma keys_add_failure:
  "keys (add_failure n e d) = (if n \<in> set (keys d) then keys d else keys d @ [n])"
  by (simp add: add_failure_def keys_dict_set split: option.split)

lemma case_children_keys:
  assumes "distinct (keys d)" "case_children n cs f s d = (f', s', d')"
  shows "f' = (f \<or> (\<exists>c\<in>set cs. local_tag c = ''failure'')) \<and> s' = (s \<or> (\<exists>c\<in>set cs. local_tag c = ''skipped''))
    \<and> distinct (keys d') \<and> set (keys d') = set (keys d) \<union> (if \<exists>c\<in>set cs. local_tag c = ''failure'' then {n} else {})"
  using assms
proof (induction n cs f s d rule: case_children.induct)
  case (2 n c cs f s d)
  show ?case
  proof (cases "local_tag c = ''failure''")
    case True
    have "distinct (keys (add_failure n c d))" using 2(4) by (simp add: keys_add_failure)
    moreover have "case_children n cs True s (add_failure n c d) = (f', s', d')" using 2(5) True by simp
    ultimately show ?thesis using 2(1) [OF True] True by (auto simp: keys_add_failure split: if_splits)
  next
    case False
    show ?thesis
    proof (cases "local_tag c = ''skipped''")
      case True
      with 2(2) [OF False True 2(4)] 2(5) False show ?thesis by simp
    next
      case skip: False
      with 2(3) [OF False skip 2(4)] 2(5) False show ?thesis by simp
    qed
  qed
qed simp

lemma get_or_bump: "get_or (bump n d) m 0 = get_or d m 0 + (if m = n then 1 else 0)"
  by (simp add: bump_def get_or_def)

lemma keys_bump: "keys (bump n d) = (if n \<in> set (keys d) then keys d else keys d @ [n])"
  by (simp add: bump_def keys_dict_set)

lemma aggregates_step:
  assumes agg: "aggregates cs t" and e: "local_tag e = ''testcase''"
  shows "aggregates (cs @ [e]) (add_case fl t e)"
proof -
  let ?n = "testcase_name e"
  obtain f s d where c: "case_children ?n (children e) False False (fail_agg t) = (f, s, d)"
    by (metis prod_cases3)
  have d: "f = case_fails e" "s = (\<exists>c\<in>set (children e). local_tag c = ''skipped'')" "distinct (keys d)"
    "set (keys d) = set (keys (fail_agg t)) \<union> (if case_fails e then {?n} else {})"
    using case_children_keys [OF _ c] agg by (auto simp: aggregates_def case_fails_def)
  have skip: "(s \<and> \<not> f) = case_skips e" using d(1,2) by (auto simp: case_skips_def)
  have t: "fail_agg (add_case fl t e) = d" "tot_runs (add_case fl t e) = bump ?n (tot_runs t)"
    "tot_skips (add_case fl t e) = (if case_skips e then bump ?n (tot_skips t) else tot_skips t)"
    using e c skip by (simp_all add: add_case_def Let_def)
  have a: "distinct (keys (tot_runs t))" "set (keys (tot_runs t)) = testcase_name ` set cs"
    "\<And>n. get_or (tot_runs t) n 0 = length (of_name n cs)"
    "\<And>n. get_or (tot_skips t) n 0 = length (filter case_skips (of_name n cs))"
    "set (keys (fail_agg t)) = testcase_name ` {e \<in> set cs. case_fails e}"
    using agg by (auto simp: aggregates_def)
  have "set (keys d) = testcase_name ` {x \<in> set (cs @ [e]). case_fails x}"
    unfolding d(4) a(5) by auto
  moreover have "set (keys (bump ?n (tot_runs t))) = testcase_name ` set (cs @ [e])"
    using a(2) by (auto simp: keys_bump)
  moreover have "distinct (keys (bump ?n (tot_runs t)))" using a(1) by (simp add: keys_bump)
  moreover have "get_or (bump ?n (tot_runs t)) n 0 = length (of_name n (cs @ [e]))" for n
    using a(3) by (simp add: get_or_bump of_name_def)
  moreover have "get_or (if case_skips e then bump ?n (tot_skips t) else tot_skips t) n 0 =
      length (filter case_skips (of_name n (cs @ [e])))" for n
    using a(4) by (simp add: get_or_bump of_name_def)
  ultimately show ?thesis using d(3) unfolding aggregates_def t by blast
qed

lemma aggregates_totals: "aggregates (cases_of root) (totals_of fl root)"
proof -
  have "aggregates (filter (\<lambda>e. local_tag e = ''testcase'') es) (foldl (add_case fl) no_totals es)" for es
  proof (induction es rule: rev_induct)
    case Nil
    show ?case by (simp add: aggregates_def no_totals_def of_name_def get_or_def)
  next
    case (snoc e es)
    then show ?case
      using aggregates_step [OF snoc] by (cases "local_tag e = ''testcase''") (simp_all add: add_case_def)
  qed
  then show ?thesis by (simp add: cases_of_def totals_of_def)
qed

lemma length_filter_all: "length (filter P xs) = length xs \<longleftrightarrow> (\<forall>x\<in>set xs. P x)"
  using length_filter_less [of _ xs P] by (metis filter_True nat_neq_iff)

lemma aggregates_status:
  assumes "aggregates cs t" "n \<in> testcase_name ` set cs"
  shows "(n \<in> set (keys (fail_agg t))) = (status_of cs n = TFailed)"
    and "is_notrun t n = (status_of cs n = TNotrun)"
    and "the (dict_get (tot_runs t) n) = length (of_name n cs)"
    and "r_status (row_of fl t n) = status_of cs n"
proof -
  have f: "n \<in> set (keys (fail_agg t)) \<longleftrightarrow> (\<exists>e\<in>set cs. testcase_name e = n \<and> case_fails e)"
    using assms(1) by (auto simp: aggregates_def)
  then show fail: "(n \<in> set (keys (fail_agg t))) = (status_of cs n = TFailed)"
    by (auto simp: status_of_def)
  have "n \<in> set (keys (tot_runs t))" using assms by (simp add: aggregates_def)
  then obtain k where k: "dict_get (tot_runs t) n = Some k"
    by (metis map_of_eq_None_iff not_None_eq set_map)
  then show runs: "the (dict_get (tot_runs t) n) = length (of_name n cs)"
    using assms(1) by (metis aggregates_def get_or_def option.sel option.simps(5))
  have "get_or (tot_skips t) n 0 = length (of_name n cs) \<longleftrightarrow> (\<forall>e\<in>set cs. testcase_name e = n \<longrightarrow> case_skips e)"
    using assms(1) length_filter_all [of case_skips "of_name n cs"] by (auto simp: aggregates_def of_name_def)
  then show notrun: "is_notrun t n = (status_of cs n = TNotrun)"
    unfolding is_notrun_def runs using f by (auto simp: status_of_def)
  show "r_status (row_of fl t n) = status_of cs n"
  proof (cases "dict_get (fail_agg t) n")
    case None
    then have "n \<notin> set (keys (fail_agg t))" by (simp add: map_of_eq_None_iff)
    with fail notrun None show ?thesis by (cases "status_of cs n") (auto simp: row_of_def)
  next
    case (Some f)
    then have "n \<in> set (keys (fail_agg t))" by (metis map_of_eq_None_iff option.simps(3) set_map)
    with fail Some show ?thesis by (simp add: row_of_def)
  qed
qed

lemma r_test_row [simp]: "r_test (row_of fl t n) = n"
  by (simp add: row_of_def Let_def split: prod.split)

lemma max_runs_ge: "n \<in> set ns \<Longrightarrow> n \<le> max_runs ns"
proof -
  have "m \<le> fold max ns m \<and> (\<forall>n\<in>set ns. n \<le> fold max ns m)" for m
    by (induction ns arbitrary: m) (simp, simp, metis max.bounded_iff)
  then show "n \<in> set ns \<Longrightarrow> n \<le> max_runs ns" by (simp add: max_runs_def)
qed

text \<open>
  The xunit summary is exact over all passes of a run. Its rows are the distinct tests of the
  report, each once, sorted with the failed ones first; a test is failed when one of its passes
  failed, not run when every pass skipped it, and passed otherwise; the counters are the numbers
  of such tests and add up to the number of tests, and no test ran more often than \<open>iterations\<close>.
\<close>

theorem parse_xunit_exact:
  fixes fl :: "'f floats" and root :: xml
  defines "x \<equiv> parse_xunit fl (Report root)" and "cs \<equiv> cases_of root"
  shows "distinct (map r_test (x_per_test x)) \<and> set (map r_test (x_per_test x)) = testcase_name ` set cs
    \<and> list_all (\<lambda>r. r_status r = status_of cs (r_test r) \<and> r_runs r = length (of_name (r_test r) cs)
        \<and> r_runs r \<le> x_iterations x) (x_per_test x)
    \<and> sorted (map (\<lambda>r. (rank (r_status r), r_test r)) (x_per_test x))
    \<and> x_tests x = length (x_per_test x)
    \<and> x_failed x = length (filter (\<lambda>r. r_status r = TFailed) (x_per_test x))
    \<and> x_skipped x = length (filter (\<lambda>r. r_status r = TNotrun) (x_per_test x))
    \<and> x_passed x = length (filter (\<lambda>r. r_status r = TPassed) (x_per_test x))"
proof -
  define t where "t = totals_of fl root"
  define names where "names = keys (tot_runs t)"
  have agg: "aggregates cs t" unfolding cs_def t_def by (rule aggregates_totals)
  have names: "distinct names" "set names = testcase_name ` set cs"
    using agg by (auto simp: aggregates_def names_def)
  note st = aggregates_status [OF agg]
  define rows where "rows = sort_key (\<lambda>r. (rank (r_status r), r_test r)) (map (row_of fl t) names)"
  have ms: "mset rows = mset (map (row_of fl t) names)" by (simp add: rows_def)
  have count: "length (filter P rows) = length (filter (\<lambda>n. P (row_of fl t n)) names)" for P
  proof -
    have "size (mset (filter P rows)) = size (mset (filter P (map (row_of fl t) names)))"
      unfolding mset_filter ms ..
    then show ?thesis unfolding size_mset by (simp add: filter_map comp_def)
  qed
  have per: "x_per_test x = rows" "x_tests x = length names" "x_failed x = length (fail_agg t)"
    "x_skipped x = length (filter (is_notrun t) names)"
    "x_passed x = length names - length (fail_agg t) - length (filter (is_notrun t) names)"
    "x_iterations x = max_runs (map snd (tot_runs t))"
    by (simp_all add: x_def parse_xunit_def t_def names_def rows_def Let_def)
  have tests: "mset (map r_test rows) = mset names"
    unfolding mset_map ms by (simp add: multiset.map_comp comp_def)
  have fsub: "set (keys (fail_agg t)) = set (filter (\<lambda>n. status_of cs n = TFailed) names)"
    using agg st(1) names(2) by (fastforce simp: aggregates_def)
  have fcount: "length (fail_agg t) = length (filter (\<lambda>n. status_of cs n = TFailed) names)"
    using agg names(1) fsub distinct_card [of "keys (fail_agg t)"] distinct_card [of "filter (\<lambda>n. status_of cs n = TFailed) names"]
    by (simp add: aggregates_def)
  have stat: "length (filter (\<lambda>r. r_status r = s) rows) = length (filter (\<lambda>n. status_of cs n = s) names)" for s
    unfolding count using st(4) names(2) by (intro arg_cong [where f = length] filter_cong) auto
  have ncount: "length (filter (is_notrun t) names) = length (filter (\<lambda>n. status_of cs n = TNotrun) names)"
    using st(2) names(2) by (intro arg_cong [where f = length] filter_cong) auto
  have total: "length names = length (filter (\<lambda>n. status_of cs n = TFailed) names)
      + length (filter (\<lambda>n. status_of cs n = TNotrun) names) + length (filter (\<lambda>n. status_of cs n = TPassed) names)"
  proof (induction names)
    case (Cons a names)
    then show ?case by (cases "status_of cs a") simp_all
  qed simp
  have row: "r_status r = status_of cs (r_test r) \<and> r_runs r = length (of_name (r_test r) cs) \<and> r_runs r \<le> x_iterations x"
    if "r \<in> set rows" for r
  proof -
    from that obtain n where n: "n \<in> set names" "r = row_of fl t n" by (auto simp: rows_def)
    then have m: "n \<in> testcase_name ` set cs" using names(2) by simp
    have runs: "r_runs r = the (dict_get (tot_runs t) n)" using n(2) by (simp add: row_of_def Let_def split: prod.split)
    have "the (dict_get (tot_runs t) n) \<in> set (map snd (tot_runs t))"
      using n(1) unfolding names_def
      by (metis (no_types, lifting) map_of_SomeD map_of_eq_None_iff not_None_eq option.sel set_map image_eqI snd_conv)
    then have "r_runs r \<le> x_iterations x" unfolding runs per by (rule max_runs_ge)
    with st(3,4) [OF m] runs n(2) show ?thesis by simp
  qed
  have len: "length rows = length names" by (simp add: rows_def)
  have all: "list_all (\<lambda>r. r_status r = status_of cs (r_test r) \<and> r_runs r = length (of_name (r_test r) cs)
      \<and> r_runs r \<le> x_iterations x) rows"
    unfolding list_all_iff using row by blast
  have "distinct (map r_test rows)" "set (map r_test rows) = set names"
    using tests names(1) by (metis mset_eq_imp_distinct_iff, metis mset_eq_setD)
  moreover have "sorted (map (\<lambda>r. (rank (r_status r), r_test r)) rows)"
    unfolding rows_def by (rule sorted_sort_key)
  ultimately show ?thesis
    unfolding per(1-5) stat fcount ncount len using all total names(2) by simp
qed

section \<open>The verdict of a section and of a run\<close>

lemma failed_zero: "x_failed (parse_xunit fl (Report root)) = 0 \<longleftrightarrow> (\<forall>e\<in>set (cases_of root). \<not> case_fails e)"
proof -
  have "x_failed (parse_xunit fl (Report root)) = length (fail_agg (totals_of fl root))"
    by (simp add: parse_xunit_def Let_def)
  also have "\<dots> = 0 \<longleftrightarrow> set (keys (fail_agg (totals_of fl root))) = {}" by simp
  also have "\<dots> \<longleftrightarrow> (\<forall>e\<in>set (cases_of root). \<not> case_fails e)"
  proof -
    have "set (keys (fail_agg (totals_of fl root))) = testcase_name ` {e \<in> set (cases_of root). case_fails e}"
      using aggregates_totals [of root fl] by (simp add: aggregates_def)
    then show ?thesis by auto
  qed
  finally show ?thesis .
qed

lemma collect_passed_iff:
  assumes "fstests_collect fl i = Inr out"
  shows "so_status out = Passed \<longleftrightarrow> \<not> si_crashed i \<and> \<not> si_timed_out i \<and>
    (case si_report i of Absent \<Rightarrow> False | Unparseable \<Rightarrow> True
     | Report root \<Rightarrow> list_all (\<lambda>e. \<not> case_fails e) (cases_of root))"
proof -
  have "so_status out = (if section_ok i (parse_xunit fl (si_report i)) then Passed else Failed)"
    using assms by (auto simp: fstests_collect_def Let_def andthen_Inr)
  moreover have "section_ok i (parse_xunit fl (si_report i)) \<longleftrightarrow> \<not> si_crashed i \<and> \<not> si_timed_out i \<and>
    (case si_report i of Absent \<Rightarrow> False | Unparseable \<Rightarrow> True
     | Report root \<Rightarrow> list_all (\<lambda>e. \<not> case_fails e) (cases_of root))"
    using failed_zero [of fl]
    by (cases "si_report i") (auto simp: section_ok_def parse_xunit_def no_results_def Let_def list_all_iff)
  ultimately show ?thesis by simp
qed

text \<open>
  C34: The status of a collected section, exactly: it passes when its guest neither crashed nor was
  cut off and a report is there with no failed test case in any pass. A report that is there but
  cannot be parsed counts as one without a failure: such a section passes.
\<close>

theorem collect_status:
  assumes "fstests_collect fl i = Inr out"
  shows "so_status out = (if \<not> si_crashed i \<and> \<not> si_timed_out i \<and>
    (case si_report i of Absent \<Rightarrow> False | Unparseable \<Rightarrow> True
     | Report root \<Rightarrow> list_all (\<lambda>e. \<not> case_fails e) (cases_of root)) then Passed else Failed)"
proof -
  have "so_status out = Passed \<or> so_status out = Failed"
    using assms by (cases "section_ok i (parse_xunit fl (si_report i))")
      (auto simp: fstests_collect_def Let_def andthen_Inr)
  then show ?thesis using collect_passed_iff [OF assms] by (simp only: split: if_splits) blast
qed

definition unit_floats :: "unit floats" where
  "unit_floats = \<lparr>fl_read = (\<lambda>_. None), fl_zero = (), fl_add = (\<lambda>_ _. ()), fl_round = (\<lambda>_. 0)\<rparr>"

definition broken_section :: section_in where
  "broken_section = \<lparr>si_section = ''xfs'', si_report = Unparseable, si_config = None, si_realized = None,
     si_crashed = False, si_timed_out = False\<rparr>"

theorem collect_status_witness:
  "\<exists>out. fstests_collect unit_floats broken_section = Inr out \<and> so_status out = Passed \<and> so_error out"
proof -
  obtain out where out: "fstests_collect unit_floats broken_section = Inr out"
    by (simp add: fstests_collect_def broken_section_def Let_def realized_geometry_def read_section_geometry_def)
  have "so_error out"
    using out by (auto simp: fstests_collect_def broken_section_def Let_def realized_geometry_def
        read_section_geometry_def parse_xunit_def no_results_def)
  with collect_status [OF out] out show ?thesis by (simp add: broken_section_def)
qed

text \<open>
  A green xfstests run, end to end: when the judge lets the sections of a run through, there was
  at least one, and of every section the report is there, no pass of any test failed, and the
  guest neither crashed nor ran into the time limit.
\<close>

theorem fstests_green_run:
  assumes "traverse (fstests_collect fl) sections = Inr outs"
    and "fstests_judge (Some (map (\<lambda>c. Result (so_status c)) outs)) report = Inr report'"
  shows "sections \<noteq> [] \<and> report' = report \<and>
    list_all (\<lambda>i. si_report i \<noteq> Absent \<and> \<not> si_crashed i \<and> \<not> si_timed_out i) sections \<and>
    (\<forall>i\<in>set sections. \<forall>root. si_report i = Report root \<longrightarrow> (\<forall>e\<in>set (cases_of root). \<not> case_fails e))"
proof -
  have collected: "list_all2 (\<lambda>i c. fstests_collect fl i = Inr c) sections outs"
    using assms(1) by (simp add: traverse_Inr_iff)
  have judged: "outs \<noteq> []" "report' = report" "\<forall>c\<in>set outs. so_status c = Passed"
    using assms(2) by (auto simp: fstests_judge_ok)
  have each: "\<not> si_crashed i \<and> \<not> si_timed_out i \<and> (case si_report i of Absent \<Rightarrow> False | Unparseable \<Rightarrow> True
     | Report root \<Rightarrow> list_all (\<lambda>e. \<not> case_fails e) (cases_of root))" if i: "i \<in> set sections" for i
  proof -
    from i collected obtain c where "c \<in> set outs" "fstests_collect fl i = Inr c"
      by (auto simp: list_all2_conv_all_nth in_set_conv_nth) (metis nth_mem)
    with judged(3) collect_passed_iff show ?thesis by blast
  qed
  then have "list_all (\<lambda>i. si_report i \<noteq> Absent \<and> \<not> si_crashed i \<and> \<not> si_timed_out i) sections"
    by (force simp: list_all_iff)
  moreover have "\<not> case_fails e" if "i \<in> set sections" "si_report i = Report root" "e \<in> set (cases_of root)" for i root e
    using each [OF that(1)] that(2,3) by (simp add: list_all_iff)
  moreover have "sections \<noteq> []" using judged(1) collected by auto
  ultimately show ?thesis using judged(2) by blast
qed

definition good_section :: section_in where
  "good_section = broken_section\<lparr>si_report := Report (Elem ''testsuite'' []
     [Elem ''testcase'' [(''name'', ''xfs/001''), (''time'', ''3'')] []])\<rparr>"

theorem fstests_green_run_witness:
  "\<exists>outs. traverse (fstests_collect unit_floats) [good_section] = Inr outs
     \<and> fstests_judge (Some (map (\<lambda>c. Result (so_status c)) outs)) (Some ''report'') = Inr (Some ''report'')
     \<and> \<not> si_crashed good_section"
proof -
  obtain out where out: "fstests_collect unit_floats good_section = Inr out"
    by (simp add: fstests_collect_def good_section_def broken_section_def Let_def realized_geometry_def read_section_geometry_def)
  have "list_all (\<lambda>e. \<not> case_fails e) (cases_of (Elem ''testsuite'' []
     [Elem ''testcase'' [(''name'', ''xfs/001''), (''time'', ''3'')] []]))"
    by (simp add: cases_of_def local_tag_def after_last_chr_def case_fails_def)
  then have "so_status out = Passed"
    using collect_passed_iff [OF out] by (simp add: good_section_def broken_section_def)
  then have "traverse (fstests_collect unit_floats) [good_section] = Inr [out]"
    "fstests_judge (Some (map (\<lambda>c. Result (so_status c)) [out])) (Some ''report'') = Inr (Some ''report'')"
    using out by (simp_all add: fstests_judge_ok traverse_Inr_iff)
  with fstests_green_run [OF this] show ?thesis by (intro exI [of _ "[out]"]) simp
qed

section \<open>Results of different kernels\<close>

lemma results_dir_shape:
  assumes "section_results_dir workers vm k s = Inr p"
  obtains share where "fstests_share_dir workers vm = Inr share" "prefix (share @ [strip k, ''results'']) p"
proof -
  obtain kv share where kv: "safe_kver k = Inr kv" and share: "fstests_share_dir workers vm = Inr share"
    and p: "(let base = resolve_path (path_join (path_join share kv) ''results'');
           p = resolve_path (path_join base s) in
       if p \<noteq> base \<and> \<not> in_parents base p then Inl ValueError else Inr p) = Inr p"
    using assms by (auto simp: section_results_dir_def andthen_Inr)
  have k: "kv = strip k" "kv \<noteq> []" "CHR ''/'' \<notin> set kv" "kv \<noteq> ''.''" "kv \<noteq> ''..''"
    using kv by (auto simp: safe_kver_def Let_def split: if_splits)
  have "\<not> is_absolute kv" using k(3) by (auto simp: is_absolute_def prefix_def)
  then have "path_join share kv = share @ [kv]"
    using k by (simp add: path_join_def parts_plain)
  moreover have "path_join q ''results'' = q @ [''results'']" for q
    by (simp add: path_join_def is_absolute_def parts_plain)
  moreover have "''..'' \<notin> set share" using share under_inside by (auto simp: fstests_share_dir_def)
  then have "resolve_path (share @ [kv, ''results'']) = share @ [kv, ''results'']"
    using k(5) by (intro resolve_clean) auto
  ultimately have "prefix (share @ [kv, ''results'']) p"
    using p by (auto simp: Let_def in_parents_def strict_prefix_def split: if_splits)
  with share k(1) show ?thesis by (intro that) simp_all
qed

text \<open>
  The results of a guest's kernels never mix, whatever the section names are: the results
  directory of a section lies below the directory of its own kernel release, so for two releases
  neither of the directories contains the other, and cleaning one leaves the other alone.
\<close>

theorem results_isolated:
  assumes "section_results_dir workers vm k s = Inr p" "section_results_dir workers vm k' s' = Inr p'"
    and "strip k \<noteq> strip k'"
  shows "\<not> prefix p p' \<and> \<not> prefix p' p"
proof -
  obtain share where s: "fstests_share_dir workers vm = Inr share" "prefix (share @ [strip k, ''results'']) p"
    using results_dir_shape [OF assms(1)] .
  obtain share' where s': "fstests_share_dir workers vm = Inr share'" "prefix (share' @ [strip k', ''results'']) p'"
    using results_dir_shape [OF assms(2)] .
  have eq: "share' = share" using s(1) s'(1) by simp
  have apart: "\<not> prefix q r" if q: "prefix (share @ [a, ''results'']) q" and r: "prefix (share @ [b, ''results'']) r" and ab: "a \<noteq> b"
    for a b q r
  proof
    assume "prefix q r"
    with q have "prefix (share @ [a, ''results'']) r" by (rule prefix_order.trans)
    from this r have "prefix (share @ [a, ''results'']) (share @ [b, ''results''])
        \<or> prefix (share @ [b, ''results'']) (share @ [a, ''results''])"
      by (rule prefix_same_cases)
    with ab show False by simp
  qed
  show ?thesis
    using apart [OF s(2) s'(2) [unfolded eq] assms(3)] apart [OF s'(2) [unfolded eq] s(2) assms(3) [symmetric]] by blast
qed

theorem results_isolated_witness:
  "section_results_dir [''w''] ''vm1'' ''6.12.0'' ''../../6.13.0/results/xfs'' = Inl ValueError
   \<and> \<not> prefix [''w'', ''shared'', ''fstests'', ''vm1'', ''6.12.0'', ''results'', ''xfs'']
       [''w'', ''shared'', ''fstests'', ''vm1'', ''6.13.0'', ''results'', ''xfs'']"
proof -
  have "section_results_dir [''w''] ''vm1'' ''6.12.0'' ''xfs'' = Inr [''w'', ''shared'', ''fstests'', ''vm1'', ''6.12.0'', ''results'', ''xfs'']"
    "section_results_dir [''w''] ''vm1'' ''6.13.0'' ''xfs'' = Inr [''w'', ''shared'', ''fstests'', ''vm1'', ''6.13.0'', ''results'', ''xfs'']"
    "section_results_dir [''w''] ''vm1'' ''6.12.0'' ''../../6.13.0/results/xfs'' = Inl ValueError"
    "strip ''6.12.0'' \<noteq> strip ''6.13.0''"
    by code_simp+
  with results_isolated [OF this(1,2,4)] show ?thesis by blast
qed

section \<open>The picker of groups\<close>

lemma group_options_mem:
  "set (map snd (group_options gs filterText)) = fst ` {g \<in> set gs. group_matches filterText g}"
  by (simp add: group_options_def image_image)

lemma group_options_sorted: "sorted (map (\<lambda>n. (pin n, n)) (map snd (group_options gs filterText)))"
proof -
  have "sorted (map (\<lambda>g. (pin (fst g), fst g)) (filter (group_matches filterText) (sort_key (\<lambda>g. (pin (fst g), fst g)) gs)))"
    by (rule sorted_filter) simp
  then show ?thesis by (simp add: group_options_def comp_def)
qed

lemma list_groups_nonempty: "list_groups sidecar requisites doc vm_name filterText \<noteq> []"
  by (simp add: list_groups_def GROUPS_FALLBACK_def Let_def split: sum.split option.split)

end
