(* ===== verification/Kunit.thy ===== *)
theory Kunit
  imports Selftests
begin

text \<open>
  The KUnit suite (\<open>f/kunit/common.py\<close>, \<open>f/kunit/collect.py\<close>): the parser of the nested KTAP a
  suite leaves in the journal, the verdict of one suite, and the picker of suites. The lists of
  cached names and the helpers of the pickers are those of \<open>Selftests\<close>, whose code is the same.
\<close>

section \<open>The patterns\<close>

definition U_RESULT_RE :: re where
  "U_RESULT_RE = RSeqs [RBol, RGrp ''indent'' (RStar RSpace),
     RGrp ''status'' (RAlt (RLit ''ok'') (RLit ''not ok'')), RLit '' '',
     RGrp ''num'' (RPlus RDigit), ROpt (RLit '' ''),
     ROpt (RGrp ''sep'' (RSeq (ROpt (RLit '':'')) (RLit ''- ''))),
     RGrp ''name'' (RStar (RCls (\<lambda>c. c \<noteq> CHR ''#''))),
     ROpt (RGrp ''directive'' (RSeq (RLit '' # '') (RStar RDot))), REol]"

definition U_SUBTEST_RE :: re where
  "U_SUBTEST_RE = RSeqs [RBol, RGrp ''indent'' (RStar RSpace), RLit ''# Subtest:'', RStar RSpace,
     RGrp ''name'' (RLazyPlus RDot), RStar RSpace, REol]"

definition U_PLAN_RE :: re where
  "U_PLAN_RE = RSeqs [RBol, RGrp ''indent'' (RStar RSpace), RLit ''1..'', RGrp ''count'' (RPlus RDigit),
     RStar RSpace, REol]"

definition U_SKIP_RE :: re where
  "U_SKIP_RE = RSeqs [RLit ''#'', RStar RSpace, RLitI ''SKIP'', RWordB]"

definition U_STATS_RE :: re where
  "U_STATS_RE = RSeqs [RBol, RStar RSpace, RLit ''# '', RGrp ''name'' (RPlus (RCls (\<lambda>c. c \<noteq> CHR '':''))),
     RLit '': pass:'', RGrp ''passed'' (RPlus RDigit), RLit '' fail:'', RGrp ''failed'' (RPlus RDigit),
     RLit '' skip:'', RGrp ''skipped'' (RPlus RDigit), RLit '' total:'', RPlus RDigit, RStar RSpace, REol]"

section \<open>The parser\<close>

record utest =
  u_name :: string
  u_status :: item_status
  u_message :: string

record usummary =
  u_tests :: "utest list"
  u_passed :: nat
  u_failed :: nat
  u_skipped :: nat
  u_plan :: "nat option"
  u_complete :: bool
  u_present :: bool

definition u_empty :: usummary where
  "u_empty = \<lparr>u_tests = [], u_passed = 0, u_failed = 0, u_skipped = 0, u_plan = None,
     u_complete = False, u_present = False\<rparr>"

text \<open>The indent of a \<open># Subtest\<close> header of the suite, and what follows the last one.\<close>

definition header_indent :: "string \<Rightarrow> string \<Rightarrow> nat option" where
  "header_indent suite ln =
     (case re_match U_SUBTEST_RE ln of
        None \<Rightarrow> None
      | Some m \<Rightarrow> (if strip (grp0 m ''name'') = suite then Some (length (grp0 m ''indent'')) else None))"

fun last_header :: "string \<Rightarrow> string list \<Rightarrow> (nat \<times> string list) option" where
  "last_header suite [] = None"
| "last_header suite (l # ls) =
     (case last_header suite ls of
        Some r \<Rightarrow> Some r
      | None \<Rightarrow> map_option (\<lambda>i. (i, ls)) (header_indent suite l))"

definition indent_of :: "mtch \<Rightarrow> nat" where
  "indent_of m = length (grp0 m ''indent'')"

definition u_directive :: "mtch \<Rightarrow> string" where
  "u_directive m = grp0 m ''directive''"

definition u_test :: "mtch \<Rightarrow> utest" where
  "u_test m =
     \<lparr>u_name = strip (grp0 m ''name''),
      u_status = (if re_search U_SKIP_RE (u_directive m) \<noteq> None then Notrun
                  else if grp m ''status'' = Some ''ok'' then Passed else Failed),
      u_message = strip (lstrip_by (\<lambda>c. c = CHR '' '' \<or> c = CHR ''#'') (u_directive m))\<rparr>"

definition u_add :: "usummary \<Rightarrow> utest \<Rightarrow> usummary" where
  "u_add s t =
     (case u_status t of
        Notrun \<Rightarrow> s\<lparr>u_tests := u_tests s @ [t], u_skipped := u_skipped s + 1\<rparr>
      | Passed \<Rightarrow> s\<lparr>u_tests := u_tests s @ [t], u_passed := u_passed s + 1\<rparr>
      | Failed \<Rightarrow> s\<lparr>u_tests := u_tests s @ [t], u_failed := u_failed s + 1\<rparr>)"

text \<open>One turn of the loop over the lines below the header; None is the \<open>break\<close>.\<close>

definition suite_line :: "nat \<Rightarrow> usummary \<Rightarrow> string \<Rightarrow> usummary option" where
  "suite_line sub s ln =
     (let p = re_match U_PLAN_RE ln in
      if p \<noteq> None \<and> u_plan s = None \<and> indent_of (the p) = sub
      then Some (s\<lparr>u_plan := Some (read_nat (grp0 (the p) ''count''))\<rparr>)
      else (case re_match U_RESULT_RE ln of
              None \<Rightarrow> Some s
            | Some m \<Rightarrow>
                (if indent_of m < sub then None
                 else if indent_of m > sub then Some s
                 else Some (u_add s (u_test m)))))"

fun suite_scan :: "nat \<Rightarrow> usummary \<Rightarrow> string list \<Rightarrow> usummary" where
  "suite_scan sub s [] = s"
| "suite_scan sub s (l # ls) =
     (case suite_line sub s l of None \<Rightarrow> s | Some s' \<Rightarrow> suite_scan sub s' ls)"

definition suite_stats :: "string \<Rightarrow> string \<Rightarrow> mtch option" where
  "suite_stats suite ln =
     (case re_match U_STATS_RE ln of
        None \<Rightarrow> None
      | Some m \<Rightarrow> (if strip (grp0 m ''name'') = suite then Some m else None))"

definition last_stats :: "string \<Rightarrow> string list \<Rightarrow> mtch option" where
  "last_stats suite body =
     (case List.map_filter (suite_stats suite) (rev body) of [] \<Rightarrow> None | m # _ \<Rightarrow> Some m)"

definition stats_ok :: "mtch option \<Rightarrow> usummary \<Rightarrow> bool" where
  "stats_ok stats s =
     (case stats of
        None \<Rightarrow> True
      | Some m \<Rightarrow> read_nat (grp0 m ''passed'') = u_passed s \<and> read_nat (grp0 m ''failed'') = u_failed s
                  \<and> read_nat (grp0 m ''skipped'') = u_skipped s)"

definition suite_body :: "string \<Rightarrow> nat \<Rightarrow> string list \<Rightarrow> usummary" where
  "suite_body suite sub body =
     (let s = suite_scan sub (u_empty\<lparr>u_present := True\<rparr>) body in
      s\<lparr>u_complete := u_plan s \<noteq> None \<and> u_plan s = Some (length (u_tests s))
         \<and> stats_ok (last_stats suite body) s\<rparr>)"

definition kunit_lines :: "string list \<Rightarrow> string \<Rightarrow> usummary" where
  "kunit_lines lines suite =
     (case last_header suite lines of None \<Rightarrow> u_empty | Some (sub, body) \<Rightarrow> suite_body suite sub body)"

definition parse_suite :: "string \<Rightarrow> string \<Rightarrow> usummary" where
  "parse_suite ktap suite = kunit_lines (splitlines ktap) suite"

section \<open>One suite: the collect step\<close>

record kunit_in =
  ki_suite :: string
  ki_ktap :: string
  ki_result :: string
  ki_exec_status :: string
  ki_crashed :: bool
  ki_timed_out :: bool

record kunit_out =
  ko_suite :: string
  ko_status :: item_status
  ko_present :: bool
  ko_tests :: nat
  ko_passed :: nat
  ko_failed :: nat
  ko_notrun :: nat
  ko_per_test :: "utest list"
  ko_failures :: "utest list"

definition kunit_plumbing_ok :: "kunit_in \<Rightarrow> bool" where
  "kunit_plumbing_ok i =
     (ki_result i = ''done'' \<and> ki_exec_status i \<in> {[], ''0''} \<and> \<not> ki_crashed i \<and> \<not> ki_timed_out i)"

definition kunit_collect :: "kunit_in \<Rightarrow> kunit_out" where
  "kunit_collect i =
     (let s = parse_suite (ki_ktap i) (ki_suite i) in
      \<lparr>ko_suite = ki_suite i,
       ko_status = (if \<not> kunit_plumbing_ok i \<or> \<not> u_complete s \<or> u_failed s \<noteq> 0 then Failed
                    else if u_passed s = 0 then Notrun else Passed),
       ko_present = u_present s, ko_tests = length (u_tests s), ko_passed = u_passed s,
       ko_failed = u_failed s, ko_notrun = u_skipped s, ko_per_test = u_tests s,
       ko_failures = filter (\<lambda>t. u_status t = Failed) (u_tests s)\<rparr>)"

section \<open>The picker\<close>

definition CURATED_SUITES :: "(string, string) dict" where
  "CURATED_SUITES = [(''rust_rxarray'', ''rxarray (Rust XArray)''), (''rust_doctests_kernel'', ''Rust kernel crate doctests'')]"

definition list_suites :: "string list \<Rightarrow> string list list \<Rightarrow> string \<Rightarrow> (string \<times> string) list" where
  "list_suites cached caches filterText =
     (let names = (if cached \<noteq> [] then cached
                   else if cached_union caches \<noteq> [] then cached_union caches
                   else keys CURATED_SUITES);
          needle = lower filterText in
      map (\<lambda>c. (c, picker_label CURATED_SUITES c))
        (filter (\<lambda>c. contains needle (lower c) \<or> contains needle (lower (picker_label CURATED_SUITES c)))
          (ordered_names CURATED_SUITES names)))"

definition kunit_share_dir :: "path \<Rightarrow> string \<Rightarrow> path result" where
  "kunit_share_dir workers vm_name = under (workers @ [''shared'', ''kunit'']) vm_name"

section \<open>What a suite's document says\<close>

text \<open>A plan line and a result line are told apart by their first character that is no blank.\<close>

definition first_char :: "string \<Rightarrow> char option" where
  "first_char s = (case lstrip_by is_space s of [] \<Rightarrow> None | c # _ \<Rightarrow> Some c)"

lemma takeWhile_drop: "n \<le> length (takeWhile p s) \<Longrightarrow> n < length (takeWhile p s) \<Longrightarrow> \<exists>c cs. drop n s = c # cs \<and> p c"
proof -
  assume n: "n < length (takeWhile p s)"
  then have "n < length s" by (meson length_takeWhile_le less_le_trans)
  then have "drop n s = s ! n # drop (Suc n) s" by (simp add: Cons_nth_drop_Suc)
  moreover have "p (s ! n)" using n by (metis nth_mem set_takeWhileD takeWhile_nth)
  ultimately show ?thesis by blast
qed

lemma indent_then:
  assumes "run (RSeq (RGrp g (RStar RSpace)) k) (pre, s, caps) \<noteq> []"
    and k: "\<And>u pre caps. run k (pre, u, caps) \<noteq> [] \<Longrightarrow> \<exists>c cs. u = c # cs \<and> c \<in> A"
    and A: "\<And>c. c \<in> A \<Longrightarrow> \<not> is_space c"
  shows "\<exists>c\<in>A. first_char s = Some c"
proof -
  let ?w = "takeWhile is_space s"
  obtain n where n: "n < Suc (length ?w)"
      "run k (rev (take n s) @ pre, drop n s, (g, take (length s - length (drop n s)) s) # caps) \<noteq> []"
    using assms(1) by (auto simp: run_grp star_cls_results comp_def simp del: upt_Suc)
  from k [OF n(2)] obtain c cs where c: "drop n s = c # cs" "c \<in> A" by blast
  have "n = length ?w"
    using n(1) c A takeWhile_drop [of n is_space s] by (metis less_Suc_eq less_imp_le list.inject)
  then have "drop n s = dropWhile is_space s" by (simp add: dropWhile_eq_drop)
  with c show ?thesis by (auto simp: first_char_def lstrip_by_def)
qed

lemma plan_starts: "re_match U_PLAN_RE l \<noteq> None \<Longrightarrow> first_char l = Some (CHR ''1'')"
proof -
  assume "re_match U_PLAN_RE l \<noteq> None"
  then have "run U_PLAN_RE ([], l, []) \<noteq> []" by (auto simp: re_match_def first_match_def split: list.splits)
  then have "run (RSeq (RGrp ''indent'' (RStar RSpace))
      (RSeqs [RLit ''1..'', RGrp ''count'' (RPlus RDigit), RStar RSpace, REol])) ([], l, []) \<noteq> []"
    by (simp add: U_PLAN_RE_def)
  then have "\<exists>c\<in>{CHR ''1''}. first_char l = Some c"
    by (rule indent_then) (auto simp: run_RLit is_space_def prefix_def split: if_splits)
  then show ?thesis by simp
qed

lemma result_starts: "re_match U_RESULT_RE l \<noteq> None \<Longrightarrow> first_char l \<in> {Some (CHR ''o''), Some (CHR ''n'')}"
proof -
  let ?status = "RGrp ''status'' (RAlt (RLit ''ok'') (RLit ''not ok''))"
  assume "re_match U_RESULT_RE l \<noteq> None"
  then have "run U_RESULT_RE ([], l, []) \<noteq> []" by (auto simp: re_match_def first_match_def split: list.splits)
  then have "run (RSeq (RGrp ''indent'' (RStar RSpace)) (RSeq ?status (RSeqs [RLit '' '',
     RGrp ''num'' (RPlus RDigit), ROpt (RLit '' ''),
     ROpt (RGrp ''sep'' (RSeq (ROpt (RLit '':'')) (RLit ''- ''))),
     RGrp ''name'' (RStar (RCls (\<lambda>c. c \<noteq> CHR ''#''))),
     ROpt (RGrp ''directive'' (RSeq (RLit '' # '') (RStar RDot))), REol]))) ([], l, []) \<noteq> []"
    by (simp add: U_RESULT_RE_def)
  then have "\<exists>c\<in>{CHR ''o'', CHR ''n''}. first_char l = Some c"
    by (rule indent_then) (auto simp: run_grp run_RLit is_space_def prefix_def split: if_splits)
  then show ?thesis by auto
qed

lemma not_plan_and_result: "re_match U_PLAN_RE l = None \<or> re_match U_RESULT_RE l = None"
  using plan_starts [of l] result_starts [of l] by fastforce

text \<open>
  The reference reading: of the lines below the last header, those before the first result line of
  a smaller indent are the suite's own; its results are the result lines at the header's indent,
  its plan is the first plan line there.
\<close>

definition closes :: "nat \<Rightarrow> string \<Rightarrow> bool" where
  "closes sub l = (case re_match U_RESULT_RE l of None \<Rightarrow> False | Some m \<Rightarrow> indent_of m < sub)"

definition result_of :: "nat \<Rightarrow> string \<Rightarrow> utest option" where
  "result_of sub l =
     (case re_match U_RESULT_RE l of None \<Rightarrow> None | Some m \<Rightarrow> (if indent_of m = sub then Some (u_test m) else None))"

definition plan_of :: "nat \<Rightarrow> string \<Rightarrow> nat option" where
  "plan_of sub l =
     (case re_match U_PLAN_RE l of
        None \<Rightarrow> None | Some p \<Rightarrow> (if indent_of p = sub then Some (read_nat (grp0 p ''count'')) else None))"

definition own_lines :: "nat \<Rightarrow> string list \<Rightarrow> string list" where
  "own_lines sub body = takeWhile (\<lambda>l. \<not> closes sub l) body"

lemma own_lines_simps [simp]:
  "own_lines sub [] = []" "own_lines sub (l # ls) = (if closes sub l then [] else l # own_lines sub ls)"
  by (simp_all add: own_lines_def)

fun first_some :: "('a \<Rightarrow> 'b option) \<Rightarrow> 'a list \<Rightarrow> 'b option" where
  "first_some f [] = None"
| "first_some f (x # xs) = (case f x of Some y \<Rightarrow> Some y | None \<Rightarrow> first_some f xs)"

definition of_status :: "item_status \<Rightarrow> utest list \<Rightarrow> nat" where
  "of_status st ts = length (filter (\<lambda>t. u_status t = st) ts)"

definition u_counted :: "usummary \<Rightarrow> bool" where
  "u_counted s = (u_passed s = of_status Passed (u_tests s) \<and> u_failed s = of_status Failed (u_tests s)
     \<and> u_skipped s = of_status Notrun (u_tests s))"

lemma u_add_fields [simp]:
  "u_tests (u_add s t) = u_tests s @ [t]" "u_plan (u_add s t) = u_plan s" "u_present (u_add s t) = u_present s"
  by (cases "u_status t"; simp add: u_add_def)+

lemma u_add_counted: "u_counted s \<Longrightarrow> u_counted (u_add s t)"
  by (cases "u_status t") (auto simp: u_counted_def u_add_def of_status_def)

lemma suite_line_cases:
  obtains (close) "closes sub l" "suite_line sub s l = None"
  | (plan) n where "\<not> closes sub l" "result_of sub l = None" "plan_of sub l = Some n" "u_plan s = None"
      "suite_line sub s l = Some (s\<lparr>u_plan := Some n\<rparr>)"
  | (result) t where "\<not> closes sub l" "result_of sub l = Some t" "plan_of sub l = None"
      "suite_line sub s l = Some (u_add s t)"
  | (other) "\<not> closes sub l" "result_of sub l = None" "plan_of sub l = None \<or> u_plan s \<noteq> None"
      "suite_line sub s l = Some s"
proof (cases "re_match U_RESULT_RE l")
  case None
  show ?thesis
  proof (cases "plan_of sub l \<noteq> None \<and> u_plan s = None")
    case True
    with None show ?thesis
      by (intro plan [of "the (plan_of sub l)"])
         (auto simp: closes_def result_of_def plan_of_def suite_line_def split: option.splits if_splits)
  next
    case False
    with None show ?thesis
      by (intro other) (auto simp: closes_def result_of_def plan_of_def suite_line_def Let_def split: option.splits if_splits)
  qed
next
  case (Some m)
  then have no_plan: "re_match U_PLAN_RE l = None" using not_plan_and_result [of l] by simp
  consider "indent_of m < sub" | "indent_of m > sub" | "indent_of m = sub" by linarith
  then show ?thesis
  proof cases
    case 1
    with Some no_plan show ?thesis by (intro close) (simp_all add: closes_def suite_line_def)
  next
    case 2
    with Some no_plan show ?thesis
      by (intro other) (simp_all add: closes_def result_of_def plan_of_def suite_line_def)
  next
    case 3
    with Some no_plan show ?thesis
      by (intro result) (simp_all add: closes_def result_of_def plan_of_def suite_line_def)
  qed
qed

lemma suite_scan_exact:
  "u_tests (suite_scan sub s body) = u_tests s @ List.map_filter (result_of sub) (own_lines sub body)
   \<and> u_plan (suite_scan sub s body) =
       (case u_plan s of Some n \<Rightarrow> Some n | None \<Rightarrow> first_some (plan_of sub) (own_lines sub body))
   \<and> u_present (suite_scan sub s body) = u_present s
   \<and> (u_counted s \<longrightarrow> u_counted (suite_scan sub s body))"
proof (induction sub s body rule: suite_scan.induct)
  case (1 sub s)
  show ?case by (simp add: map_filter_simps split: option.split)
next
  case (2 sub s l ls)
  show ?case
  proof (rule suite_line_cases [of sub l s])
    assume "closes sub l" "suite_line sub s l = None"
    then show ?thesis by (simp add: map_filter_simps split: option.split)
  next
    fix n
    assume plan: "\<not> closes sub l" "result_of sub l = None" "plan_of sub l = Some n" "u_plan s = None"
      "suite_line sub s l = Some (s\<lparr>u_plan := Some n\<rparr>)"
    have "u_counted s \<Longrightarrow> u_counted (s\<lparr>u_plan := Some n\<rparr>)" by (simp add: u_counted_def)
    with plan 2 [OF plan(5)] show ?thesis by (simp add: map_filter_simps)
  next
    fix t
    assume result: "\<not> closes sub l" "result_of sub l = Some t" "plan_of sub l = None"
      "suite_line sub s l = Some (u_add s t)"
    with 2 [OF result(4)] u_add_counted [of s t] show ?thesis
      by (cases "u_plan s") (auto simp: map_filter_simps)
  next
    assume other: "\<not> closes sub l" "result_of sub l = None" "plan_of sub l = None \<or> u_plan s \<noteq> None"
      "suite_line sub s l = Some s"
    with 2 [OF other(4)] show ?thesis by (cases "u_plan s") (auto simp: map_filter_simps)
  qed
qed

lemma suite_body_exact:
  "u_tests (suite_body suite sub body) = List.map_filter (result_of sub) (own_lines sub body)
   \<and> u_plan (suite_body suite sub body) = first_some (plan_of sub) (own_lines sub body)
   \<and> u_present (suite_body suite sub body) \<and> u_counted (suite_body suite sub body)
   \<and> u_complete (suite_body suite sub body) =
       (u_plan (suite_body suite sub body) = Some (length (u_tests (suite_body suite sub body)))
        \<and> stats_ok (last_stats suite body) (suite_body suite sub body))"
  using suite_scan_exact [of sub "u_empty\<lparr>u_present := True\<rparr>" body]
  by (auto simp: suite_body_def Let_def u_empty_def u_counted_def of_status_def stats_ok_def split: option.splits)

section \<open>Properties\<close>

text \<open>
  C35: Reading a KUnit journal equals its declarative reading: the results are exactly the result
  lines at the suite's own indent, between its last header and the first result line of a smaller
  indent, nested and foreign lines left out; the counters are the numbers of these results, and
  the suite is complete just when its plan was met and the kernel's own statistics agree.
\<close>

theorem parse_suite_exact:
  assumes "last_header suite (splitlines ktap) = Some (sub, body)"
  shows "u_tests (parse_suite ktap suite) = List.map_filter (result_of sub) (own_lines sub body)
   \<and> u_plan (parse_suite ktap suite) = first_some (plan_of sub) (own_lines sub body)
   \<and> u_present (parse_suite ktap suite) \<and> u_counted (parse_suite ktap suite)
   \<and> u_complete (parse_suite ktap suite) =
       (u_plan (parse_suite ktap suite) = Some (length (u_tests (parse_suite ktap suite)))
        \<and> stats_ok (last_stats suite body) (parse_suite ktap suite))"
  using suite_body_exact [of suite sub body] by (simp add: parse_suite_def kunit_lines_def assms)

definition kunit_example :: "string list" where
  "kunit_example = [''# Subtest: rx'', ''1..1'', ''ok 1 a'', ''# rx: pass:1 fail:0 skip:0 total:1'']"

lemma kunit_example_header:
  "last_header ''rx'' kunit_example = Some (0, tl kunit_example)"
  by code_simp

lemma kunit_example_lines: "splitlines (unlines kunit_example) = kunit_example"
  by (rule splitlines_unlines) (simp add: kunit_example_def is_newline_def)

theorem parse_suite_exact_witness:
  "u_present (parse_suite (unlines kunit_example) ''rx'') \<and>
   u_plan (parse_suite (unlines kunit_example) ''rx'') = first_some (plan_of 0) (own_lines 0 (tl kunit_example))"
  using parse_suite_exact [of "''rx''" "unlines kunit_example" 0 "tl kunit_example"] kunit_example_header
  by (simp add: kunit_example_lines)

lemma kunit_status_passed:
  "ko_status (kunit_collect i) = Passed \<longleftrightarrow>
    kunit_plumbing_ok i \<and> u_complete (parse_suite (ki_ktap i) (ki_suite i))
    \<and> u_failed (parse_suite (ki_ktap i) (ki_suite i)) = 0 \<and> u_passed (parse_suite (ki_ktap i) (ki_suite i)) \<noteq> 0"
  by (simp add: kunit_collect_def Let_def)

text \<open>
  A green KUnit run, end to end: when the judge lets the suites of a run through, there was at
  least one, and each suite's job ended cleanly on a guest that neither crashed nor timed out and
  left a document with a header, a plan met exactly, and every case passed or skipped, at least
  one of them passed.
\<close>

theorem kunit_green_run:
  assumes "kunit_judge (Some (map (\<lambda>i. Result (ko_status (kunit_collect i))) suites)) report = Inr report'"
  shows "suites \<noteq> [] \<and> report' = report \<and>
    (\<forall>i\<in>set suites. kunit_plumbing_ok i \<and>
       (let s = parse_suite (ki_ktap i) (ki_suite i) in
        u_present s \<and> u_plan s = Some (length (u_tests s)) \<and>
        (\<forall>t\<in>set (u_tests s). u_status t \<in> {Passed, Notrun}) \<and> (\<exists>t\<in>set (u_tests s). u_status t = Passed)))"
proof -
  have judged: "suites \<noteq> []" "report' = report" "\<forall>i\<in>set suites. ko_status (kunit_collect i) = Passed"
    using assms by (auto simp: kunit_judge_ok)
  have "let s = parse_suite (ki_ktap i) (ki_suite i) in
        u_present s \<and> u_plan s = Some (length (u_tests s)) \<and>
        (\<forall>t\<in>set (u_tests s). u_status t \<in> {Passed, Notrun}) \<and> (\<exists>t\<in>set (u_tests s). u_status t = Passed)"
    if "ko_status (kunit_collect i) = Passed" for i
  proof -
    let ?s = "parse_suite (ki_ktap i) (ki_suite i)"
    have s: "u_complete ?s" "u_failed ?s = 0" "u_passed ?s \<noteq> 0" using that by (simp_all add: kunit_status_passed)
    then obtain sub body where "last_header (ki_suite i) (splitlines (ki_ktap i)) = Some (sub, body)"
      by (auto simp: parse_suite_def kunit_lines_def u_empty_def split: option.splits)
    then have body: "?s = suite_body (ki_suite i) sub body" by (simp add: parse_suite_def kunit_lines_def)
    have facts: "u_present ?s" "u_counted ?s" "u_plan ?s = Some (length (u_tests ?s))"
      using suite_body_exact [of "ki_suite i" sub body] s(1) unfolding body by blast+
    have "of_status Failed (u_tests ?s) = 0" "of_status Passed (u_tests ?s) \<noteq> 0"
      using facts(2) s by (simp_all add: u_counted_def)
    then have "\<forall>t\<in>set (u_tests ?s). u_status t \<noteq> Failed" "\<exists>t\<in>set (u_tests ?s). u_status t = Passed"
      by (auto simp: of_status_def filter_empty_conv)
    moreover from this(1) have "\<forall>t\<in>set (u_tests ?s). u_status t \<in> {Passed, Notrun}"
      by (metis insert_iff item_status.exhaust)
    ultimately show ?thesis using facts by (simp add: Let_def)
  qed
  with judged show ?thesis by (auto simp: kunit_status_passed)
qed

definition kunit_run_example :: kunit_in where
  "kunit_run_example = \<lparr>ki_suite = ''rx'', ki_ktap = unlines kunit_example, ki_result = ''done'',
     ki_exec_status = [], ki_crashed = False, ki_timed_out = False\<rparr>"

theorem kunit_green_run_witness:
  "kunit_judge (Some (map (\<lambda>i. Result (ko_status (kunit_collect i))) [kunit_run_example])) (Some ''report'')
     = Inr (Some ''report'') \<and> kunit_plumbing_ok kunit_run_example"
proof -
  have "kunit_lines kunit_example ''rx'' = \<lparr>u_tests = [\<lparr>u_name = ''a'', u_status = Passed, u_message = []\<rparr>],
     u_passed = 1, u_failed = 0, u_skipped = 0, u_plan = Some 1, u_complete = True, u_present = True\<rparr>"
    by code_simp
  then have "ko_status (kunit_collect kunit_run_example) = Passed"
    by (simp add: kunit_status_passed kunit_run_example_def kunit_plumbing_ok_def parse_suite_def kunit_example_lines)
  then have judge: "kunit_judge (Some (map (\<lambda>i. Result (ko_status (kunit_collect i))) [kunit_run_example])) (Some ''report'')
     = Inr (Some ''report'')"
    by (simp add: kunit_judge_ok)
  with kunit_green_run [OF judge] show ?thesis by simp
qed

end
