(* ===== verification/Identity.thy ===== *)
theory Identity
  imports Labels Effects
begin

text \<open>
  Build identities: \<open>bake_identity\<close> of \<open>f/kernel/identity.py\<close>, which writes a label and a digest of
  the build's inputs into \<open>CONFIG_LOCALVERSION\<close> of the \<open>.config\<close>, the run layers of
  \<open>f/common/run_layer.py\<close>, and \<open>f/kernel/reuse_check.py\<close>, which looks one up before a build.

  The hash (\<open>hashlib.sha256(...).hexdigest()\<close>) is a parameter.
\<close>

section \<open>The config's lines\<close>

definition LOCALVERSION :: string where "LOCALVERSION = ''CONFIG_LOCALVERSION=''"

definition AUTO_OFF :: string where "AUTO_OFF = ''# CONFIG_LOCALVERSION_AUTO is not set''"

definition is_quote :: "char \<Rightarrow> bool" where "is_quote c = (c = CHR 0x22)"

fun localversion_of :: "string list \<Rightarrow> string" where
  "localversion_of [] = []"
| "localversion_of (l # ls) =
     (if prefix LOCALVERSION l then strip_by is_quote (strip (after_chr (CHR ''='') l)) else localversion_of ls)"

definition localversion :: "string \<Rightarrow> string" where
  "localversion config_text = localversion_of (splitlines config_text)"

text \<open>Rewriting the lines that satisfy \<open>p\<close>, or adding the line at the end when there is none.\<close>

definition put_line :: "(string \<Rightarrow> bool) \<Rightarrow> string \<Rightarrow> string list \<Rightarrow> string list" where
  "put_line p new ls =
     (if \<exists>l\<in>set ls. p l then map (\<lambda>l. if p l then new else l) ls
      else map (\<lambda>l. if p l then new else l) ls @ [new])"

definition localversion_line :: "string \<Rightarrow> string" where
  "localversion_line value = LOCALVERSION @ ''\"'' @ value @ ''\"''"

definition set_localversion :: "string \<Rightarrow> string \<Rightarrow> string" where
  "set_localversion value text =
     join nl (put_line (prefix LOCALVERSION) (localversion_line value) (splitlines text)) @ nl"

definition is_auto_line :: "string \<Rightarrow> bool" where
  "is_auto_line l = (prefix ''CONFIG_LOCALVERSION_AUTO='' l \<or> l = AUTO_OFF)"

definition disable_localversion_auto :: "string \<Rightarrow> string" where
  "disable_localversion_auto text = join nl (put_line is_auto_line AUTO_OFF (splitlines text)) @ nl"

section \<open>The digest\<close>

definition hashed_config :: "string \<Rightarrow> string" where
  "hashed_config config_text = join nl (filter (\<lambda>l. \<not> prefix LOCALVERSION l) (splitlines config_text))"

definition PREFIX_MAP :: string where "PREFIX_MAP = ''-fdebug-prefix-map=''"

definition PREFIX_MAP_RE :: re where "PREFIX_MAP_RE = RSeq (RLit PREFIX_MAP) (RStar RNonSpace)"

definition host_free_flags :: "string \<Rightarrow> string" where
  "host_free_flags make_flags = re_sub PREFIX_MAP_RE PREFIX_MAP make_flags"

definition digest :: "(string \<Rightarrow> string) \<Rightarrow> string \<Rightarrow> string \<Rightarrow> string \<Rightarrow> string \<Rightarrow> string" where
  "digest sha toolchain tree make_flags config_text =
     take 12 (sha (join [CHR 0x00] [hashed_config config_text, toolchain, host_free_flags make_flags, tree]))"

section \<open>Baking\<close>

definition is_hex :: "char \<Rightarrow> bool" where
  "is_hex c = (is_digit c \<or> (let n = ord_of c in 97 \<le> n \<and> n \<le> 102))"

definition DIGEST_RE :: re where
  "DIGEST_RE = RSeqs [RLit ''-'', RTimes 12 (RCls is_hex), REol]"

definition prior_version :: "string \<Rightarrow> string \<Rightarrow> string" where
  "prior_version label text =
     (let prior = re_sub DIGEST_RE [] (localversion text) in
      if label \<noteq> [] \<and> suffix (CHR ''-'' # label) prior then take (length prior - length label - 1) prior else prior)"

definition baked_version :: "string \<Rightarrow> string \<Rightarrow> string \<Rightarrow> string" where
  "baked_version label dig text =
     prior_version label text @ (if label \<noteq> [] then CHR ''-'' # label else []) @ CHR ''-'' # dig"

text \<open>The new text of the \<open>.config\<close>, from the fitted label and the digest of its text.\<close>

definition bake_config :: "string \<Rightarrow> (string \<Rightarrow> string) \<Rightarrow> string \<Rightarrow> string" where
  "bake_config label dig text =
     disable_localversion_auto (set_localversion (baked_version label (dig text) text) text)"

definition label_budget :: "string \<Rightarrow> int" where
  "label_budget version = 64 - int (length version) - 14"

text \<open>
  The step: \<open>flags\<close> is \<open>shlex.split(make_flags)\<close>, \<open>flake\<close> and \<open>machine\<close> name the toolchain, \<open>config\<close> is
  the path of the \<open>.config\<close>.
\<close>

definition toolchain_attr :: "string \<Rightarrow> string \<Rightarrow> string" where
  "toolchain_attr flake machine = ''path:'' @ flake @ ''#devShells.'' @ machine @ ''-linux.build-kernel.drvPath''"

definition make_base :: "string \<Rightarrow> string \<Rightarrow> string list" where
  "make_base worktree build_dir = [''make'', ''--directory='' @ worktree, ''O='' @ build_dir]"

definition bake_identity ::
  "(string \<Rightarrow> string) \<Rightarrow> string \<Rightarrow> string \<Rightarrow> string \<Rightarrow> string \<Rightarrow> string \<Rightarrow> path
    \<Rightarrow> string \<Rightarrow> string list \<Rightarrow> string \<Rightarrow> string prog" where
  "bake_identity sha flake machine shell worktree build_dir config make_flags flags label =
     (let base = make_base worktree build_dir in
      bind (read_text config) (\<lambda>text.
      bind (git_capture_checked [''-C'', worktree, ''rev-parse'', ''HEAD^{tree}'']) (\<lambda>tree.
      bind (nix_capture [''eval'', ''--raw'', toolchain_attr flake machine]) (\<lambda>toolchain.
      let dig = digest sha (strip toolchain) (strip tree) make_flags text in
      bind (dev_capture shell (base @ [''--silent''] @ flags @ [''kernelversion''])) (\<lambda>version.
      let fitted = fit_label label (label_budget (strip version)) in
      bind (read_text config) (\<lambda>text1.
      bind (act (WriteText config (set_localversion (baked_version fitted dig text) text1))) (\<lambda>_.
      bind (read_text config) (\<lambda>text2.
      bind (act (WriteText config (disable_localversion_auto text2))) (\<lambda>_.
      bind (dev_run shell (base @ flags @ [''syncconfig''])) (\<lambda>_.
      bind (dev_capture shell (base @ [''--silent''] @ flags @ [''kernelrelease''])) (\<lambda>release.
      Ret (strip release))))))))))))"

section \<open>Run layers and the reuse check\<close>

text \<open>The file tree below an install root: what is a directory, a file, and the names in a directory.\<close>

record install_fs =
  fs_dir :: "string \<Rightarrow> bool"
  fs_file :: "string \<Rightarrow> bool"
  fs_names :: "string \<Rightarrow> string list"

definition kernel_run_layer :: "install_fs \<Rightarrow> string \<Rightarrow> string \<Rightarrow> string option \<times> bool" where
  "kernel_run_layer fs root release =
     (let boot = root @ ''/boot'';
          images = (if fs_dir fs boot
            then filter (\<lambda>n. \<not> prefix ''System.map'' n \<and> \<not> prefix ''config'' n)
              (sort (filter (suffix (CHR ''-'' # release)) (fs_names fs boot)))
            else []) in
      (case images of [] \<Rightarrow> None | n # _ \<Rightarrow> Some (boot @ ''/'' @ n),
       fs_dir fs (root @ ''/lib/modules/'' @ release)))"

definition qemu_emulators :: "install_fs \<Rightarrow> string \<Rightarrow> string list" where
  "qemu_emulators fs root =
     (let bindir = root @ ''/bin'' in
      if fs_dir fs bindir
      then map (\<lambda>n. bindir @ ''/'' @ n) (sort (filter (prefix ''qemu-system-'') (fs_names fs bindir))) else [])"

record reuse =
  ru_present :: bool
  ru_devel_present :: bool
  ru_uts_release :: string
  ru_image :: "string option"
  ru_boot :: "string option"
  ru_modules :: "string option"
  ru_destdir :: string

text \<open>\<open>local_path name\<close> is the store index's answer (\<open>local_path\<close> of \<open>Store\<close>).\<close>

definition reuse_check :: "install_fs \<Rightarrow> (string \<Rightarrow> string option) \<Rightarrow> string \<Rightarrow> string \<Rightarrow> reuse" where
  "reuse_check fs local_path destdir release =
     (let (image, has_modules) = kernel_run_layer fs destdir release;
          (root, image, has_modules) =
            (if image \<noteq> None \<and> has_modules then (destdir, image, has_modules)
             else (case local_path (''kernel-'' @ release) of
                     None \<Rightarrow> (destdir, image, has_modules)
                   | Some sp \<Rightarrow>
                       (let (sp_image, sp_modules) = kernel_run_layer fs sp release in
                        if sp_image \<noteq> None \<and> sp_modules then (sp, sp_image, sp_modules)
                        else (destdir, image, has_modules))));
          devel = local_path (''kernel-devel-'' @ release) in
      \<lparr>ru_present = (image \<noteq> None \<and> has_modules),
       ru_devel_present = (case devel of None \<Rightarrow> False | Some d \<Rightarrow> fs_file fs (d @ ''/.config'')),
       ru_uts_release = release,
       ru_image = image,
       ru_boot = (if fs_dir fs (root @ ''/boot'') then Some (root @ ''/boot'') else None),
       ru_modules = (if has_modules then Some (root @ ''/lib/modules'') else None),
       ru_destdir = destdir\<rparr>)"

section \<open>Stripping the digest\<close>

lemma run_RTimes_cls:
  "run (RTimes n (RCls p)) (pre, s, caps) =
     (if n \<le> length s \<and> (\<forall>c\<in>set (take n s). p c) then [(rev (take n s) @ pre, drop n s, caps)] else [])"
proof (induction n arbitrary: pre s)
  case (Suc n)
  then show ?case by (cases s) auto
qed simp

lemma digest_match:
  assumes "CHR 0x0A \<notin> set s"
  shows "first_match DIGEST_RE pre s =
    (if length s = 13 \<and> hd s = CHR ''-'' \<and> (\<forall>c\<in>set (tl s). is_hex c)
     then Some \<lparr>m_text = s, m_rest = [], m_caps = []\<rparr> else None)"
proof (cases s)
  case Nil
  then show ?thesis by (simp add: first_match_def DIGEST_RE_def)
next
  case (Cons c cs)
  have no_nl_end: "drop 12 cs \<noteq> nl" using assms Cons by (metis in_set_dropD list.set_intros(1) list.set_intros(2))
  show ?thesis
  proof (cases "c = CHR ''-'' \<and> 12 \<le> length cs \<and> (\<forall>x\<in>set (take 12 cs). is_hex x) \<and> drop 12 cs = []")
    case True
    then have "length cs = 12" by simp
    with True Cons show ?thesis by (simp add: first_match_def DIGEST_RE_def run_RTimes_cls)
  next
    case False
    then have "run DIGEST_RE (pre, s, []) = []"
      using Cons no_nl_end by (auto simp: DIGEST_RE_def run_RTimes_cls)
    moreover have "\<not> (length s = 13 \<and> hd s = CHR ''-'' \<and> (\<forall>c\<in>set (tl s). is_hex c))"
      using False Cons by auto
    ultimately show ?thesis by (simp add: first_match_def)
  qed
qed

definition strip_digest :: "string \<Rightarrow> string" where
  "strip_digest s = re_sub DIGEST_RE [] s"

lemma sub_digest:
  assumes "CHR 0x0A \<notin> set s"
  shows "sub_from DIGEST_RE [] pre s =
    (if \<exists>u h. s = u @ CHR ''-'' # h \<and> length h = 12 \<and> (\<forall>c\<in>set h. is_hex c) then take (length s - 13) s else s)"
  using assms
proof (induction s arbitrary: pre)
  case (Cons c cs)
  show ?case
  proof (cases "length (c # cs) = 13 \<and> c = CHR ''-'' \<and> (\<forall>x\<in>set cs. is_hex x)")
    case True
    then have "\<exists>u h. c # cs = u @ CHR ''-'' # h \<and> length h = 12 \<and> (\<forall>x\<in>set h. is_hex x)"
      by (intro exI [of _ "[]"] exI [of _ cs]) simp
    with True show ?thesis using digest_match [OF Cons.prems, of pre] by (simp del: not_ex)
  next
    case False
    then have step: "sub_from DIGEST_RE [] pre (c # cs) = c # sub_from DIGEST_RE [] (c # pre) cs"
      using digest_match [OF Cons.prems, of pre] by auto
    have same: "(\<exists>u h. c # cs = u @ CHR ''-'' # h \<and> length h = 12 \<and> (\<forall>x\<in>set h. is_hex x)) =
        (\<exists>u h. cs = u @ CHR ''-'' # h \<and> length h = 12 \<and> (\<forall>x\<in>set h. is_hex x))"
      using False by (auto simp: Cons_eq_append_conv)
    have "length cs \<ge> 13" if "\<exists>u h. cs = u @ CHR ''-'' # h \<and> length h = 12 \<and> (\<forall>x\<in>set h. is_hex x)"
      using that by auto
    then show ?thesis using Cons.IH [of "c # pre"] Cons.prems unfolding step same
      by (auto simp: Suc_diff_le)
  qed
qed simp

lemma strip_digest_dig:
  assumes "CHR 0x0A \<notin> set u" "length h = 12" "\<forall>c\<in>set h. is_hex c"
  shows "strip_digest (u @ CHR ''-'' # h) = u"
proof -
  have "CHR 0x0A \<notin> set h" using assms(3) by (auto simp: is_hex_def is_digit_def)
  then have "CHR 0x0A \<notin> set (u @ CHR ''-'' # h)" using assms(1) by simp
  from sub_digest [OF this] assms(2,3) show ?thesis
    unfolding strip_digest_def re_sub_def by (simp split: if_splits)
qed

lemma strip_digest_prefix:
  "CHR 0x0A \<notin> set s \<Longrightarrow> prefix (strip_digest s) s"
  using sub_digest [of s "[]"] by (auto simp: strip_digest_def re_sub_def take_is_prefix)

section \<open>Writing and reading the config\<close>

lemma put_line_ok: "\<forall>l\<in>set ls. line_ok l \<Longrightarrow> line_ok new \<Longrightarrow> \<forall>l\<in>set (put_line p new ls). line_ok l"
  by (auto simp: put_line_def)

lemma put_line_ne: "put_line p new ls \<noteq> []"
  by (auto simp: put_line_def)

lemma put_line_fixed:
  assumes "\<exists>l\<in>set ls. p l" "\<And>l. l \<in> set ls \<Longrightarrow> p l \<Longrightarrow> l = new"
  shows "put_line p new ls = ls"
proof -
  have "map (\<lambda>l. if p l then new else l) ls = ls"
    by (rule map_idI) (use assms(2) in auto)
  with assms(1) show ?thesis by (simp add: put_line_def)
qed

lemma put_line_new: "p new \<Longrightarrow> \<exists>l\<in>set (put_line p new ls). p l"
  by (auto simp: put_line_def)

lemma put_line_only: "l \<in> set (put_line p new ls) \<Longrightarrow> p l \<Longrightarrow> l = new"
  by (auto simp: put_line_def split: if_splits)

lemma put_line_mem: "l \<in> set (put_line p new ls) \<Longrightarrow> l = new \<or> l \<in> set ls"
  by (auto simp: put_line_def split: if_splits)

lemma put_line_idem: "p new \<Longrightarrow> put_line p new (put_line p new ls) = put_line p new ls"
  using put_line_new [of p new ls] put_line_only [of _ p new ls] by (intro put_line_fixed) auto

lemma written_lines:
  "line_ok new \<Longrightarrow> splitlines (join nl (put_line p new (splitlines text)) @ nl) = put_line p new (splitlines text)"
  by (rule splitlines_join_nl [OF put_line_ne put_line_ok]) (simp_all add: splitlines_ok)

lemma auto_not_version: "is_auto_line l \<Longrightarrow> \<not> prefix LOCALVERSION l"
  by (auto simp: is_auto_line_def LOCALVERSION_def AUTO_OFF_def prefix_def)

lemma auto_off_line [simp]: "is_auto_line AUTO_OFF" "line_ok AUTO_OFF" "\<not> prefix LOCALVERSION AUTO_OFF"
  by (simp_all add: is_auto_line_def AUTO_OFF_def LOCALVERSION_def is_newline_def)

lemma version_line [simp]: "prefix LOCALVERSION (localversion_line v)" "\<not> is_auto_line (localversion_line v)"
  using auto_not_version [of "localversion_line v"] by (auto simp: localversion_line_def)

lemma version_line_ok: "line_ok v \<Longrightarrow> line_ok (localversion_line v)"
  by (simp add: localversion_line_def LOCALVERSION_def is_newline_def)

lemma localversion_put_auto: "localversion_of (put_line is_auto_line AUTO_OFF ls) = localversion_of ls"
proof -
  have "localversion_of (map (\<lambda>l. if is_auto_line l then AUTO_OFF else l) ls @ ends) = localversion_of ls"
    if "ends \<in> {[], [AUTO_OFF]}" for ends
    using that by (induction ls) (auto simp: auto_not_version)
  from this [of "[]"] this [of "[AUTO_OFF]"] show ?thesis by (simp add: put_line_def)
qed

lemma localversion_put_version:
  "localversion_of (put_line (prefix LOCALVERSION) (localversion_line v) ls) = strip_by is_quote (strip (''\"'' @ v @ ''\"''))"
proof -
  have line: "strip_by is_quote (strip (after_chr (CHR ''='') (localversion_line v))) = strip_by is_quote (strip (''\"'' @ v @ ''\"''))"
    by (simp add: localversion_line_def LOCALVERSION_def after_chr_def)
  have new: "localversion_of (localversion_line v # xs) = strip_by is_quote (strip (''\"'' @ v @ ''\"''))" for xs
    using line by simp
  have "(\<exists>l\<in>set ls. prefix LOCALVERSION l) \<Longrightarrow>
      localversion_of (map (\<lambda>l. if prefix LOCALVERSION l then localversion_line v else l) ls) =
        strip_by is_quote (strip (''\"'' @ v @ ''\"''))"
    by (induction ls) (use new in auto)
  moreover have "\<not> (\<exists>l\<in>set ls. prefix LOCALVERSION l) \<Longrightarrow>
      localversion_of (map (\<lambda>l. if prefix LOCALVERSION l then localversion_line v else l) ls @ [localversion_line v]) =
        strip_by is_quote (strip (''\"'' @ v @ ''\"''))"
    by (induction ls) (use new in auto)
  ultimately show ?thesis by (simp add: put_line_def)
qed

lemma strip_quoted:
  assumes "v \<noteq> []" "\<not> is_quote (hd v)" "\<not> is_quote (last v)"
  shows "strip_by is_quote (strip (''\"'' @ v @ ''\"'')) = v"
proof -
  have s: "strip (''\"'' @ v @ ''\"'') = ''\"'' @ v @ ''\"''" by (rule strip_by_id) (simp add: is_space_def)
  have "lstrip_by is_quote (''\"'' @ v @ ''\"'') = v @ ''\"''"
    using assms(1,2) by (cases v) (auto simp: lstrip_by_def is_quote_def)
  moreover have "rstrip_by is_quote (v @ ''\"'') = v"
    using rstrip_by_id [of v is_quote] assms(3) by (simp add: rstrip_by_def is_quote_def)
  ultimately show ?thesis unfolding s by (simp add: strip_by_def)
qed

lemma localversion_of_ends: "localversion_of ls = [] \<or> \<not> is_quote (hd (localversion_of ls))"
  by (induction ls) (use strip_by_ends in \<open>auto\<close>)

lemma set_after_chr: "set (after_chr c s) \<subseteq> set s"
proof -
  have "set (tl xs) \<subseteq> set xs" for xs :: string by (cases xs) auto
  then show ?thesis unfolding after_chr_def using set_dropWhileD by fastforce
qed

lemma localversion_of_line: "\<forall>l\<in>set ls. line_ok l \<Longrightarrow> line_ok (localversion_of ls)"
proof (induction ls)
  case (Cons l ls)
  have "set (strip_by is_quote (strip (after_chr (CHR ''='') l))) \<subseteq> set l"
    using set_strip_by [of is_quote "strip (after_chr (CHR ''='') l)"] set_strip_by [of is_space "after_chr (CHR ''='') l"]
      set_after_chr [of "CHR ''=''" l] by (meson order_trans)
  with Cons show ?case by (auto simp: line_ok_def)
qed simp

section \<open>The baked version\<close>

lemma prior_version_prefix:
  assumes "line_ok (localversion text)"
  shows "prefix (prior_version label text) (localversion text)"
proof -
  have "CHR 0x0A \<notin> set (localversion text)" using assms by (auto simp: line_ok_def is_newline_def)
  from strip_digest_prefix [OF this] show ?thesis
    by (auto simp: prior_version_def Let_def simp flip: strip_digest_def intro: prefix_order.trans take_is_prefix)
qed

definition dig_ok :: "string \<Rightarrow> bool" where
  "dig_ok d = (length d = 12 \<and> (\<forall>c\<in>set d. is_hex c))"

lemma dig_ok_facts:
  assumes "dig_ok d"
  shows "d \<noteq> []" "line_ok d" "\<not> is_quote (last d)" "CHR 0x0A \<notin> set d"
proof -
  have hex: "is_hex c \<Longrightarrow> \<not> is_newline c \<and> \<not> is_quote c" for c
    by (auto simp: is_hex_def is_digit_def is_newline_def is_quote_def Let_def)
  show ne: "d \<noteq> []" using assms by (auto simp: dig_ok_def)
  show "line_ok d" using assms hex by (auto simp: dig_ok_def line_ok_def)
  then show "CHR 0x0A \<notin> set d" by (auto simp: line_ok_def is_newline_def)
  show "\<not> is_quote (last d)" using assms hex ne by (auto simp: dig_ok_def)
qed

lemma baked_version_facts:
  assumes "line_ok label" "dig_ok d" "line_ok (localversion text)"
    and start: "localversion text = [] \<or> \<not> is_quote (hd (localversion text))"
  shows "line_ok (baked_version label d text)" "baked_version label d text \<noteq> []"
    "\<not> is_quote (hd (baked_version label d text))" "\<not> is_quote (last (baked_version label d text))"
proof -
  let ?p = "prior_version label text"
  have p: "prefix ?p (localversion text)" by (rule prior_version_prefix [OF assms(3)])
  then have "line_ok ?p" using assms(3) set_mono_prefix by (fastforce simp: line_ok_def)
  then show "line_ok (baked_version label d text)"
    using assms(1) dig_ok_facts [OF assms(2)] by (simp add: baked_version_def is_newline_def)
  show "baked_version label d text \<noteq> []" by (simp add: baked_version_def)
  show "\<not> is_quote (last (baked_version label d text))"
    using dig_ok_facts [OF assms(2)] by (simp add: baked_version_def)
  show "\<not> is_quote (hd (baked_version label d text))"
  proof (cases ?p)
    case Nil
    then show ?thesis by (simp add: baked_version_def is_quote_def)
  next
    case (Cons c cs)
    then have "localversion text \<noteq> []" "hd (localversion text) = c" using p by (auto simp: prefix_def)
    with start Cons show ?thesis by (simp add: baked_version_def)
  qed
qed

lemma prior_version_of_baked:
  assumes "dig_ok d" "line_ok label" "line_ok (prior_version label text)"
    and "localversion text' = baked_version label d text"
  shows "prior_version label text' = prior_version label text"
proof -
  let ?p = "prior_version label text" and ?l = "if label \<noteq> [] then CHR ''-'' # label else []"
  have "CHR 0x0A \<notin> set (?p @ ?l)" using assms(2,3) by (auto simp: line_ok_def is_newline_def)
  then have "strip_digest ((?p @ ?l) @ CHR ''-'' # d) = ?p @ ?l"
    using assms(1) by (intro strip_digest_dig) (auto simp: dig_ok_def)
  then have "re_sub DIGEST_RE [] (localversion text') = ?p @ ?l"
    by (simp add: assms(4) baked_version_def strip_digest_def)
  then show ?thesis by (cases "label = []") (auto simp: prior_version_def Let_def suffix_def)
qed

section \<open>Baking twice\<close>

definition auto_settled :: "string \<Rightarrow> bool" where
  "auto_settled text = (list_ex is_auto_line (splitlines text)
     \<and> list_all (\<lambda>l. is_auto_line l \<longrightarrow> l = AUTO_OFF) (splitlines text))"

lemma filter_put_version:
  "filter (\<lambda>l. \<not> prefix LOCALVERSION l) (put_line (prefix LOCALVERSION) (localversion_line v) ls) =
   filter (\<lambda>l. \<not> prefix LOCALVERSION l) ls"
proof -
  have "filter (\<lambda>l. \<not> prefix LOCALVERSION l) (map (\<lambda>l. if prefix LOCALVERSION l then localversion_line v else l) ls) =
      filter (\<lambda>l. \<not> prefix LOCALVERSION l) ls"
    by (induction ls) auto
  then show ?thesis by (simp add: put_line_def)
qed

lemma filter_put_auto:
  "filter (\<lambda>l. \<not> prefix LOCALVERSION l) (put_line is_auto_line AUTO_OFF ls) =
   put_line is_auto_line AUTO_OFF (filter (\<lambda>l. \<not> prefix LOCALVERSION l) ls)"
proof -
  have "filter (\<lambda>l. \<not> prefix LOCALVERSION l) (map (\<lambda>l. if is_auto_line l then AUTO_OFF else l) ls) =
      map (\<lambda>l. if is_auto_line l then AUTO_OFF else l) (filter (\<lambda>l. \<not> prefix LOCALVERSION l) ls)"
    by (induction ls) (auto simp: auto_not_version)
  moreover have "(\<exists>l\<in>set (filter (\<lambda>l. \<not> prefix LOCALVERSION l) ls). is_auto_line l) = (\<exists>l\<in>set ls. is_auto_line l)"
    using auto_not_version by auto
  ultimately show ?thesis by (simp add: put_line_def)
qed

lemma bake_lines:
  assumes "line_ok (baked_version label (dig text) text)"
  shows "splitlines (bake_config label dig text) =
    put_line is_auto_line AUTO_OFF (put_line (prefix LOCALVERSION) (localversion_line (baked_version label (dig text) text)) (splitlines text))"
proof -
  have "splitlines (set_localversion (baked_version label (dig text) text) text) =
      put_line (prefix LOCALVERSION) (localversion_line (baked_version label (dig text) text)) (splitlines text)"
    unfolding set_localversion_def by (rule written_lines) (rule version_line_ok [OF assms])
  moreover have "splitlines (disable_localversion_auto t) = put_line is_auto_line AUTO_OFF (splitlines t)" for t
    unfolding disable_localversion_auto_def by (rule written_lines) simp
  ultimately show ?thesis by (simp add: bake_config_def)
qed

lemma bake_hashed:
  assumes "line_ok (baked_version label (dig text) text)"
  shows "hashed_config (bake_config label dig text) =
    join nl (put_line is_auto_line AUTO_OFF (filter (\<lambda>l. \<not> prefix LOCALVERSION l) (splitlines text)))"
  by (simp add: hashed_config_def bake_lines [where dig = dig, OF assms] filter_put_auto filter_put_version)

lemma join_nl_inject:
  assumes "\<forall>l\<in>set ls. line_ok l" "\<forall>l\<in>set ms. line_ok l" "ls \<noteq> []" "ms \<noteq> []" "join nl ls = join nl ms"
  shows "ls = ms"
proof -
  have "ls = split_chr (CHR 0x0A) (join nl ls)"
    by (rule split_chr_join [symmetric, OF assms(3) ballI [OF no_nl [OF bspec [OF assms(1)]]]])
  also have "\<dots> = split_chr (CHR 0x0A) (join nl ms)" by (simp only: assms(5))
  also have "\<dots> = ms"
    by (rule split_chr_join [OF assms(4) ballI [OF no_nl [OF bspec [OF assms(2)]]]])
  finally show ?thesis .
qed

lemma bake_hashed_iff:
  assumes "line_ok (baked_version label (dig text) text)"
  shows "hashed_config (bake_config label dig text) = hashed_config text \<longleftrightarrow> auto_settled text"
proof -
  let ?F = "filter (\<lambda>l. \<not> prefix LOCALVERSION l) (splitlines text)"
  have lines: "\<forall>l\<in>set ?F. line_ok l"
  proof
    fix l
    assume "l \<in> set ?F"
    then have "l \<in> set (splitlines text)" by simp
    then show "line_ok l" by (rule splitlines_ok)
  qed
  have put_lines: "\<forall>l\<in>set (put_line is_auto_line AUTO_OFF ?F). line_ok l"
    by (rule put_line_ok [OF lines]) simp
  have auto: "l \<in> set ?F \<longleftrightarrow> l \<in> set (splitlines text)" if "is_auto_line l" for l
    using auto_not_version [OF that] by simp
  have settled: "auto_settled text \<longleftrightarrow> put_line is_auto_line AUTO_OFF ?F = ?F"
  proof
    assume "auto_settled text"
    then show "put_line is_auto_line AUTO_OFF ?F = ?F"
      using auto by (intro put_line_fixed) (auto simp: auto_settled_def list_ex_iff list_all_iff)
  next
    assume "put_line is_auto_line AUTO_OFF ?F = ?F"
    then have "\<exists>l\<in>set ?F. is_auto_line l" "\<forall>l\<in>set ?F. is_auto_line l \<longrightarrow> l = AUTO_OFF"
      using put_line_new [of is_auto_line AUTO_OFF ?F] put_line_only [of _ is_auto_line AUTO_OFF ?F] by auto
    then show "auto_settled text" using auto unfolding auto_settled_def list_ex_iff list_all_iff by blast
  qed
  have "join nl (put_line is_auto_line AUTO_OFF ?F) = join nl ?F \<longleftrightarrow> put_line is_auto_line AUTO_OFF ?F = ?F"
  proof (cases "?F = []")
    case True
    have "put_line is_auto_line AUTO_OFF [] = [AUTO_OFF]" by (simp add: put_line_def)
    then show ?thesis by (simp add: True AUTO_OFF_def)
  next
    case False
    show ?thesis by (rule iffI) (rule join_nl_inject [OF put_lines lines put_line_ne False], assumption, simp only:)
  qed
  then show ?thesis unfolding bake_hashed [where dig = dig, OF assms] settled by (simp add: hashed_config_def)
qed

lemma bake_step:
  assumes dig: "\<And>t. dig_ok (dig t)" and label: "line_ok label"
  shows "line_ok (baked_version label (dig text) text)"
    and "localversion (bake_config label dig text) = baked_version label (dig text) text"
    and "prior_version label (bake_config label dig text) = prior_version label text"
    and "auto_settled (bake_config label dig text)"
proof -
  have lv: "line_ok (localversion text)" "localversion text = [] \<or> \<not> is_quote (hd (localversion text))"
    using localversion_of_line [of "splitlines text"] localversion_of_ends [of "splitlines text"] splitlines_ok
    by (auto simp: localversion_def)
  note facts = baked_version_facts [OF label dig lv, of "text"]
  show ok: "line_ok (baked_version label (dig text) text)" by (rule facts(1))
  have baked: "splitlines (bake_config label dig text) =
    put_line is_auto_line AUTO_OFF (put_line (prefix LOCALVERSION) (localversion_line (baked_version label (dig text) text)) (splitlines text))"
    by (rule bake_lines) (rule ok)
  show reads: "localversion (bake_config label dig text) = baked_version label (dig text) text"
    using strip_quoted [OF facts(2-4)]
    by (simp only: localversion_def baked localversion_put_auto localversion_put_version)
  have "line_ok (prior_version label text)"
    using prior_version_prefix [OF lv(1), of label] lv(1) set_mono_prefix by (fastforce simp: line_ok_def)
  from prior_version_of_baked [OF dig label this reads]
  show "prior_version label (bake_config label dig text) = prior_version label text" .
  show "auto_settled (bake_config label dig text)"
    unfolding auto_settled_def list_ex_iff list_all_iff baked
    using put_line_new [of is_auto_line AUTO_OFF] put_line_only [of _ is_auto_line AUTO_OFF] auto_off_line(1) by blast
qed

lemma bake_again:
  assumes dig: "\<And>t. dig_ok (dig t)" and label: "line_ok label"
    and hash: "\<And>a b. hashed_config a = hashed_config b \<Longrightarrow> dig a = dig b" and settled: "auto_settled text"
  shows "bake_config label dig (bake_config label dig text) = bake_config label dig text"
proof -
  let ?t = "bake_config label dig text" and ?v = "baked_version label (dig text) text"
  note step = bake_step [of dig, OF dig label]
  have "dig ?t = dig text"
    using hash bake_hashed_iff [where dig = dig, OF step(1)] settled by blast
  then have v: "baked_version label (dig ?t) ?t = ?v" by (simp add: baked_version_def step(3))
  let ?ls = "put_line is_auto_line AUTO_OFF (put_line (prefix LOCALVERSION) (localversion_line ?v) (splitlines text))"
  have lines: "splitlines ?t = ?ls" by (rule bake_lines) (rule step(1))
  have only: "l = localversion_line ?v" if "l \<in> set ?ls" "prefix LOCALVERSION l" for l
  proof -
    have "l \<noteq> AUTO_OFF" using that(2) auto_off_line(3) by blast
    with put_line_mem [OF that(1)] show ?thesis using that(2) put_line_only by blast
  qed
  have ex: "\<exists>l\<in>set ?ls. prefix LOCALVERSION l"
  proof -
    obtain l where l: "l \<in> set (put_line (prefix LOCALVERSION) (localversion_line ?v) (splitlines text))" "prefix LOCALVERSION l"
      using put_line_new [of "prefix LOCALVERSION" "localversion_line ?v"] by auto
    then have "\<not> is_auto_line l" using auto_not_version by blast
    then have "l \<in> set ?ls" using l(1) by (auto simp: put_line_def)
    with l(2) show ?thesis by blast
  qed
  have "put_line (prefix LOCALVERSION) (localversion_line ?v) ?ls = ?ls" by (rule put_line_fixed [OF ex only])
  then have again: "splitlines (bake_config label dig ?t) = ?ls"
    using bake_lines [of label dig ?t] step(1) by (simp add: v lines put_line_idem)
  have whole: "bake_config label dig x = join nl (splitlines (bake_config label dig x)) @ nl" for x
    by (simp add: bake_config_def disable_localversion_auto_def written_lines)
  show ?thesis using whole [of ?t] whole [of "text"] again lines by simp
qed

section \<open>Properties\<close>


definition demo_sha :: "string \<Rightarrow> string" where
  "demo_sha b = replicate 64 (if CHR ''y'' \<in> set b then CHR ''a'' else CHR ''b'')"

lemma demo_sha_hex: "\<forall>b. 12 \<le> length (demo_sha b) \<and> (\<forall>c\<in>set (demo_sha b). is_hex c)"
  by (simp add: demo_sha_def is_hex_def is_digit_def)



definition demo_machine :: "path \<Rightarrow> string machine" where
  "demo_machine config w c =
     (let say = (\<lambda>s. \<lparr>rc = 0, out = s, entries = []\<rparr>) in
      case c of
        ReadText p \<Rightarrow> (say w, w)
      | WriteText p s \<Rightarrow> (say [], if p = config then s else w)
      | Dev sh args \<Rightarrow> (say (if last args = ''kernelversion'' then unlines [''6.12.0''] else localversion w), w)
      | _ \<Rightarrow> (say ''t'', w))"

lemma demo_machine_facts:
  "out (fst (demo_machine config v (ReadText config))) = v"
  "snd (demo_machine config v (WriteText config s)) = s"
  "\<forall>s. c \<noteq> WriteText config s \<Longrightarrow> snd (demo_machine config v c) = v"
  by (cases c; simp add: demo_machine_def Let_def)+


text \<open>
  The release fits the kernel's 64 characters: for a config that holds no version of its own,
  the kernel version followed by the baked one is at most 64 characters long, as long as the
  label's revision suffix fits the budget the step computes.
\<close>

theorem release_fits:
  assumes "length version \<le> 51" and "dig_ok dig"
    and "prior_version (fit_label label (label_budget version)) text = []"
    and "int (length (snd (split_trailing_version label))) \<le> max 0 (label_budget version) + 1"
  shows "length (version @ baked_version (fit_label label (label_budget version)) dig text) \<le> 64"
proof -
  let ?l = "fit_label label (label_budget version)"
  have "int (length ?l) \<le> max 0 (label_budget version)"
  proof (cases "0 < label_budget version")
    case False
    then show ?thesis by (simp add: fit_label_def)
  next
    case True
    show ?thesis
    proof (cases rule: fit_label_cases [OF True, of label])
      case 1
      then show ?thesis using fit_head_length [of label "label_budget version"] by simp
    next
      case (2 h ds)
      then have "0 < int (length (fit_head h (label_budget version - int (length ds) - 2)))" by simp
      then show ?thesis
        using 2 fit_head_length [of h "label_budget version - int (length ds) - 2"]
        by (simp only: length_append length_Cons list.size of_nat_add)
    next
      case (3 h ds)
      then show ?thesis using assms(4) by simp
    qed
  qed
  then have "?l = [] \<or> int (length version) + int (length ?l) \<le> 50"
    by (cases ?l) (auto simp: label_budget_def max_def split: if_splits)
  moreover have "length dig = 12" using assms(2) by (simp add: dig_ok_def)
  ultimately show ?thesis
    using assms(1,3) by (auto simp: baked_version_def)
qed

theorem release_fits_witness:
  "length (''6.12.0-rc1'' @ baked_version (fit_label ''iomap-consolidate-v3'' (label_budget ''6.12.0-rc1''))
     ''0123456789ab'' []) \<le> 64"
  by (rule release_fits) code_simp+

end
