(* ===== verification/Wait.thy ===== *)
theory Wait
  imports Selftests Kunit
begin

text \<open>
  Waiting for a test run on a guest: the six \<open>wait.py\<close> steps (\<open>f/selftests\<close>, \<open>f/kunit\<close>,
  \<open>f/usertests\<close>, \<open>f/runtime_tests\<close>, \<open>f/fstests\<close>, \<open>f/blktests\<close>) and the parts of
  \<open>f/common/remote.py\<close> they read a guest through.

  A step polls: what one poll meets (the answer of the host's \<open>systemctl is-active\<close>, the answer of
  the guest, the monotonic clock when the deadline is checked) is a \<open>tick\<close>, a run of the step meets
  a sequence of them. The loop is the code's \<open>while True\<close>: it is a partial function, and
  \<open>wait_returns\<close> shows when it ends.

  Output to the job log (\<open>drain_logs\<close>, the journal tails) and the geometry snapshot of the fstests
  wait are not modelled; \<open>runtime\<close> is kept in microseconds, before it is rounded to seconds.
\<close>

section \<open>Reading a guest's journal\<close>

definition MSG_UNIT_STARTING :: string where "MSG_UNIT_STARTING = ''7d4958e842da4a758f6c1cdc7b36dcc5''"
definition MSG_UNIT_STARTED :: string where "MSG_UNIT_STARTED = ''39f53479d3a045ac8e11786248231fbf''"
definition MSG_UNIT_FAILED :: string where "MSG_UNIT_FAILED = ''be02cf6855d2428ba40df7e9d022f03d''"
definition MSG_UNIT_STOPPED :: string where "MSG_UNIT_STOPPED = ''9d1aaa27d60140bd96365438aad20286''"
definition MSG_UNIT_PROCESS_EXIT :: string where "MSG_UNIT_PROCESS_EXIT = ''98e322203f7a4ed290d09fe03c09fe15''"
definition MSG_UNIT_SKIPPED :: string where "MSG_UNIT_SKIPPED = ''0e4284a0caca4bfc81c0bb6786972673''"

lemmas msg_defs = MSG_UNIT_STARTING_def MSG_UNIT_STARTED_def MSG_UNIT_FAILED_def MSG_UNIT_STOPPED_def
  MSG_UNIT_PROCESS_EXIT_def MSG_UNIT_SKIPPED_def

lemma msg_distinct [simp]:
  "distinct [MSG_UNIT_STARTING, MSG_UNIT_STARTED, MSG_UNIT_FAILED, MSG_UNIT_STOPPED, MSG_UNIT_PROCESS_EXIT,
    MSG_UNIT_SKIPPED, []]"
  by (simp add: msg_defs)

text \<open>
  A journal record: the fields the steps read. \<open>j_text\<close> is \<open>journal_message\<close> of the record; the
  timestamps are microseconds, \<open>None\<close> where the field is absent or no number.
\<close>

record jrec =
  j_unit :: "string option"
  j_message_id :: "string option"
  j_exit_status :: "string option"
  j_text :: string
  j_monotonic :: "int option"
  j_realtime :: "int option"

definition monotonic_us :: "jrec \<Rightarrow> int option" where
  "monotonic_us r = j_monotonic r"

definition realtime_ms :: "jrec \<Rightarrow> int option" where
  "realtime_ms r = map_option (\<lambda>us. us div 1000) (j_realtime r)"

definition mid :: "jrec \<Rightarrow> string" where
  "mid r = (case j_message_id r of None \<Rightarrow> [] | Some m \<Rightarrow> m)"

text \<open>What a wait has folded out of the records so far.\<close>

record wstate =
  w_result :: string
  w_exec_status :: string
  w_started_at :: "int option"
  w_ended_at :: "int option"
  w_started_ms :: "int option"
  w_ended_ms :: "int option"
  w_lines :: "string list"

definition wait_start :: wstate where
  "wait_start = \<lparr>w_result = [], w_exec_status = [], w_started_at = None, w_ended_at = None,
     w_started_ms = None, w_ended_ms = None, w_lines = []\<rparr>"

definition ended :: "string \<Rightarrow> jrec \<Rightarrow> wstate \<Rightarrow> wstate" where
  "ended outcome r s = s\<lparr>w_result := outcome, w_ended_at := monotonic_us r, w_ended_ms := realtime_ms r\<rparr>"

definition started :: "jrec \<Rightarrow> wstate \<Rightarrow> wstate" where
  "started r s =
     (if w_started_at s = None
      then s\<lparr>w_started_at := monotonic_us r, w_started_ms := realtime_ms r\<rparr> else s)"

definition exited :: "jrec \<Rightarrow> wstate \<Rightarrow> wstate" where
  "exited r s = s\<lparr>w_exec_status := (case j_exit_status r of None \<Rightarrow> [] | Some e \<Rightarrow> e)\<rparr>"

text \<open>\<open>scan\<close>, one record: of the kselftest, KUnit and usertests waits, and of the runtime-test wait.\<close>

definition scan_unit :: "string \<Rightarrow> jrec \<Rightarrow> wstate \<Rightarrow> wstate" where
  "scan_unit unit r s0 =
     (let s = (if j_unit r = Some unit then s0\<lparr>w_lines := w_lines s0 @ [j_text r]\<rparr> else s0); m = mid r in
      if m = MSG_UNIT_STARTING then started r s
      else if m = MSG_UNIT_PROCESS_EXIT then exited r s
      else if m = MSG_UNIT_STARTED then ended ''done'' r s
      else if m = MSG_UNIT_FAILED then ended ''failed'' r s
      else if m = MSG_UNIT_STOPPED \<and> w_result s = [] then ended ''stopped'' r s
      else s)"

definition scan_module :: "jrec \<Rightarrow> wstate \<Rightarrow> wstate" where
  "scan_module r s =
     (let m = mid r in
      if m = MSG_UNIT_STARTING then started r s
      else if m = MSG_UNIT_PROCESS_EXIT then exited r s
      else if m = MSG_UNIT_STARTED then ended ''done'' r s
      else if m = MSG_UNIT_FAILED then ended ''failed'' r s
      else if m = MSG_UNIT_SKIPPED then ended ''skipped'' r s
      else if m = MSG_UNIT_STOPPED \<and> w_result s = [] then ended ''stopped'' r s
      else s)"

definition wait_runtime :: "wstate \<Rightarrow> int option" where
  "wait_runtime s = (case (w_started_at s, w_ended_at s) of (Some a, Some b) \<Rightarrow> Some (b - a) | _ \<Rightarrow> None)"

section \<open>The poll loop\<close>

record 'a tick =
  t_host :: string
  t_answer :: 'a
  t_now :: int

definition ALIVE :: "string list" where
  "ALIVE = [''active'', ''activating'', ''reloading'', ''refreshing'']"

text \<open>
  \<open>attempt\<close> is the \<open>try\<close> block, with whether it raised; \<open>is_done\<close> the exit test after a poll that did
  not; \<open>budget\<close> the number of failed polls in a row that count as a crash, where there is one. The loop
  returns the state, \<open>crashed\<close>, \<open>timed_out\<close> and how many polls it made of the guest.
\<close>

partial_function (option) poll_loop ::
  "('a \<Rightarrow> 's \<Rightarrow> bool \<times> 's) \<Rightarrow> ('s \<Rightarrow> bool) \<Rightarrow> nat option \<Rightarrow> int \<Rightarrow> (nat \<Rightarrow> 'a tick) \<Rightarrow> nat \<Rightarrow> 's \<Rightarrow> nat
    \<Rightarrow> ('s \<times> bool \<times> bool \<times> nat) option" where
  "poll_loop attempt is_done budget deadline ticks k s poll_errors =
     (let t = ticks k in
      if strip (t_host t) \<notin> set ALIVE then Some (s, True, False, k)
      else (let (raised, s') = attempt (t_answer t) s in
        if raised then
          (if budget \<noteq> None \<and> the budget \<le> Suc poll_errors then Some (s', True, False, Suc k)
           else if deadline \<le> t_now t then Some (s', False, True, Suc k)
           else poll_loop attempt is_done budget deadline ticks (Suc k) s' (Suc poll_errors))
        else if is_done s' then Some (s', False, False, Suc k)
        else if deadline \<le> t_now t then Some (s', False, True, Suc k)
        else poll_loop attempt is_done budget deadline ticks (Suc k) s' 0))"

declare poll_loop.simps [code]

section \<open>The steps that follow the journal\<close>

text \<open>
  \<open>remote.journal_unit\<close> past a cursor: the next cursor and the records, or nothing where it raises.
\<close>

type_synonym 'c fetch = "'c \<Rightarrow> ('c \<times> jrec list) option"

definition fetch_unit :: "(jrec \<Rightarrow> wstate \<Rightarrow> wstate) \<Rightarrow> 'c fetch \<Rightarrow> 'c \<times> wstate \<Rightarrow> bool \<times> 'c \<times> wstate" where
  "fetch_unit scan f = (\<lambda>(c, s). case f c of
     None \<Rightarrow> (True, c, s)
   | Some (c', records) \<Rightarrow> (False, c', fold scan records s))"

definition has_result :: "'c \<times> wstate \<Rightarrow> bool" where
  "has_result s = (w_result (snd s) \<noteq> [])"

text \<open>The loop, then after a time-out the stop of the unit and one more fetch.\<close>

definition unit_wait ::
  "string \<Rightarrow> 'c \<Rightarrow> int \<Rightarrow> int \<Rightarrow> (nat \<Rightarrow> 'c fetch tick) \<Rightarrow> (wstate \<times> bool \<times> bool \<times> nat) option" where
  "unit_wait unit cursor now timeout ticks =
     map_option (\<lambda>(s, crashed, timed_out, k).
         (snd (if timed_out then snd (fetch_unit (scan_unit unit) (t_answer (ticks k)) s) else s), crashed, timed_out, k))
       (poll_loop (fetch_unit (scan_unit unit)) has_result None (now + timeout) ticks 0 (cursor, wait_start) 0)"

record wait_out =
  wo_vm :: string
  wo_item :: string
  wo_unit :: string
  wo_result :: string
  wo_exec_status :: string
  wo_ktap :: string
  wo_crashed :: bool
  wo_timed_out :: bool
  wo_runtime :: "int option"
  wo_started_ms :: "int option"
  wo_ended_ms :: "int option"

definition wait_out_of :: "string \<Rightarrow> string \<Rightarrow> string \<Rightarrow> wstate \<times> bool \<times> bool \<times> nat \<Rightarrow> wait_out" where
  "wait_out_of vm item unit = (\<lambda>(s, crashed, timed_out, _).
     \<lparr>wo_vm = vm, wo_item = item, wo_unit = unit, wo_result = w_result s, wo_exec_status = w_exec_status s,
      wo_ktap = join nl (w_lines s), wo_crashed = crashed, wo_timed_out = timed_out,
      wo_runtime = wait_runtime s, wo_started_ms = w_started_ms s, wo_ended_ms = w_ended_ms s\<rparr>)"

definition kunit_wait ::
  "string \<Rightarrow> string \<Rightarrow> string \<Rightarrow> 'c \<Rightarrow> int \<Rightarrow> int \<Rightarrow> (nat \<Rightarrow> 'c fetch tick) \<Rightarrow> wait_out option" where
  "kunit_wait vm suite unit cursor now timeout ticks =
     map_option (wait_out_of vm suite unit) (unit_wait unit cursor now timeout ticks)"

definition usertests_wait ::
  "string \<Rightarrow> string \<Rightarrow> string \<Rightarrow> 'c \<Rightarrow> int \<Rightarrow> int \<Rightarrow> (nat \<Rightarrow> 'c fetch tick) \<Rightarrow> wait_out option" where
  "usertests_wait vm item unit cursor now timeout ticks =
     map_option (wait_out_of vm item unit) (unit_wait unit cursor now timeout ticks)"

text \<open>
  The kselftest wait ends with one look at the kernel's crash lines, \<open>scan_crashes\<close>: the texts of the
  matching records past the run's cursor, nothing where the fetch raises.
\<close>

record selftests_out = wait_out +
  so_user_crashes :: "string list"
  so_user_crash_count :: "nat option"

definition CRASH_LINES :: nat where "CRASH_LINES = 20"

definition user_crashes :: "string list option \<Rightarrow> string list \<times> nat option" where
  "user_crashes found = (case found of
     None \<Rightarrow> ([], None)
   | Some lines \<Rightarrow> (take CRASH_LINES lines, Some (length lines)))"

definition selftests_wait ::
  "string \<Rightarrow> string \<Rightarrow> string \<Rightarrow> 'c \<Rightarrow> int \<Rightarrow> int \<Rightarrow> (nat \<Rightarrow> 'c fetch tick) \<Rightarrow> string list option
    \<Rightarrow> selftests_out option" where
  "selftests_wait vm item unit cursor now timeout ticks found =
     map_option (\<lambda>w.
         let r = wait_out_of vm item unit w;
             (crashes, count) = (if wo_crashed r then ([], None) else user_crashes found) in
         wait_out.extend r \<lparr>so_user_crashes = crashes, so_user_crash_count = count\<rparr>)
       (unit_wait unit cursor now timeout ticks)"

text \<open>
  The runtime-test wait reads the unit's records and then the kernel's messages past a second cursor; a
  raise of the second fetch leaves what the first one brought.
\<close>

type_synonym 'c module_fetch = "'c fetch \<times> ('c \<Rightarrow> ('c \<times> string list) option)"

definition fetch_module ::
  "'c module_fetch \<Rightarrow> ('c \<times> 'c) \<times> wstate \<Rightarrow> bool \<times> ('c \<times> 'c) \<times> wstate" where
  "fetch_module f = (\<lambda>((c, kc), s). case fst f c of
     None \<Rightarrow> (True, (c, kc), s)
   | Some (c', records) \<Rightarrow>
       (let s' = fold scan_module records s in
        case snd f kc of
          None \<Rightarrow> (True, (c', kc), s')
        | Some (kc', lines) \<Rightarrow> (False, (c', kc'), s'\<lparr>w_lines := w_lines s' @ lines\<rparr>)))"

record module_out = wait_out +
  mo_loaded :: bool

text \<open>\<open>probe\<close>: whether \<open>/sys/module/<module>\<close> exists; false where the probe raises.\<close>

definition runtime_wait ::
  "string \<Rightarrow> string \<Rightarrow> string \<Rightarrow> 'c \<Rightarrow> int \<Rightarrow> int \<Rightarrow> (nat \<Rightarrow> 'c module_fetch tick) \<Rightarrow> bool \<Rightarrow> module_out option" where
  "runtime_wait vm module unit cursor now timeout ticks probe =
     map_option (\<lambda>(s, crashed, timed_out, k).
         let s' = snd (if timed_out then snd (fetch_module (t_answer (ticks k)) s) else s) in
         wait_out.extend (wait_out_of vm module unit (s', crashed, timed_out, k))
           \<lparr>mo_loaded = (\<not> crashed \<and> probe)\<rparr>)
       (poll_loop fetch_module has_result None (now + timeout) ticks 0 ((cursor, cursor), wait_start) 0)"

section \<open>The steps that ask for the unit's state\<close>

text \<open>\<open>RemoteSystemd.show\<close>: the \<open>KEY=VALUE\<close> lines of the answer.\<close>

definition parse_show :: "string \<Rightarrow> (string, string) dict" where
  "parse_show text =
     fold (\<lambda>line d. if CHR ''='' \<in> set line then dict_set (before_chr (CHR ''='') line) (after_chr (CHR ''='') line) d else d)
       (splitlines text) []"

record shown =
  sh_state :: "(string, string) dict"
  sh_active :: string
  sh_invocation :: string

definition get_str :: "(string, string) dict \<Rightarrow> string \<Rightarrow> string" where
  "get_str d key = (case dict_get d key of None \<Rightarrow> [] | Some v \<Rightarrow> v)"

definition fetch_state :: "string option \<Rightarrow> shown \<Rightarrow> bool \<times> shown" where
  "fetch_state answer s = (case answer of
     None \<Rightarrow> (True, s)
   | Some text \<Rightarrow>
       (let d = parse_show text; inv = get_str d ''InvocationID'' in
        (False, \<lparr>sh_state = d, sh_active = get_str d ''ActiveState'',
          sh_invocation = (if inv \<noteq> [] then inv else sh_invocation s)\<rparr>)))"

definition is_over :: "shown \<Rightarrow> bool" where
  "is_over s = (sh_active s = ''inactive'' \<or> sh_active s = ''failed'')"

definition TRANSPORT_BUDGET :: nat where "TRANSPORT_BUDGET = 20"

record state_out =
  st_vm :: string
  st_item :: string
  st_result :: string
  st_exec_status :: string
  st_active_state :: string
  st_crashed :: bool
  st_timed_out :: bool

definition state_out_of :: "string \<Rightarrow> string \<Rightarrow> shown \<times> bool \<times> bool \<times> nat \<Rightarrow> state_out" where
  "state_out_of vm item = (\<lambda>(s, crashed, timed_out, _).
     \<lparr>st_vm = vm, st_item = item, st_result = get_str (sh_state s) ''Result'',
      st_exec_status = get_str (sh_state s) ''ExecMainStatus'', st_active_state = sh_active s,
      st_crashed = crashed, st_timed_out = timed_out\<rparr>)"

definition no_state :: shown where
  "no_state = \<lparr>sh_state = [], sh_active = [], sh_invocation = []\<rparr>"

definition fstests_wait ::
  "string \<Rightarrow> string \<Rightarrow> int \<Rightarrow> int \<Rightarrow> (nat \<Rightarrow> string option tick) \<Rightarrow> state_out option" where
  "fstests_wait vm section now timeout ticks =
     map_option (state_out_of vm section) (poll_loop fetch_state is_over None (now + timeout) ticks 0 no_state 0)"

definition blktests_wait ::
  "string \<Rightarrow> string \<Rightarrow> int \<Rightarrow> int \<Rightarrow> (nat \<Rightarrow> string option tick) \<Rightarrow> state_out option" where
  "blktests_wait vm test_group now timeout ticks =
     map_option (state_out_of vm test_group)
       (poll_loop fetch_state is_over (Some TRANSPORT_BUDGET) (now + timeout) ticks 0 no_state 0)"

section \<open>What the loop does\<close>

lemma ALIVE_active [simp]: "''active'' \<in> set ALIVE" "[] \<notin> set ALIVE"
  by (simp_all add: ALIVE_def)

text \<open>Induction over the polls of a loop that returned, one case per exit and one per retry.\<close>

lemma poll_loop_induct [consumes 1, case_names down spent late_err retry over late again]:
  assumes run: "poll_loop attempt is_done budget deadline ticks k s e = Some r"
    and down: "\<And>k s e. strip (t_host (ticks k)) \<notin> set ALIVE \<Longrightarrow> P k s e (s, True, False, k)"
    and spent: "\<And>k s e s' b. attempt (t_answer (ticks k)) s = (True, s') \<Longrightarrow> budget = Some b \<Longrightarrow> b \<le> Suc e
      \<Longrightarrow> P k s e (s', True, False, Suc k)"
    and late_err: "\<And>k s e s'. attempt (t_answer (ticks k)) s = (True, s') \<Longrightarrow> deadline \<le> t_now (ticks k)
      \<Longrightarrow> P k s e (s', False, True, Suc k)"
    and retry: "\<And>k s e s' r. attempt (t_answer (ticks k)) s = (True, s') \<Longrightarrow> t_now (ticks k) < deadline
      \<Longrightarrow> P (Suc k) s' (Suc e) r \<Longrightarrow> P k s e r"
    and over: "\<And>k s e s'. strip (t_host (ticks k)) \<in> set ALIVE \<Longrightarrow> attempt (t_answer (ticks k)) s = (False, s') \<Longrightarrow> is_done s'
      \<Longrightarrow> P k s e (s', False, False, Suc k)"
    and late: "\<And>k s e s'. attempt (t_answer (ticks k)) s = (False, s') \<Longrightarrow> \<not> is_done s' \<Longrightarrow> deadline \<le> t_now (ticks k)
      \<Longrightarrow> P k s e (s', False, True, Suc k)"
    and again: "\<And>k s e s' r. attempt (t_answer (ticks k)) s = (False, s') \<Longrightarrow> \<not> is_done s' \<Longrightarrow> t_now (ticks k) < deadline
      \<Longrightarrow> P (Suc k) s' 0 r \<Longrightarrow> P k s e r"
  shows "P k s e r"
proof -
  let ?P = "\<lambda>a d b dl t k s e r. a = attempt \<and> d = is_done \<and> b = budget \<and> dl = deadline \<and> t = ticks \<longrightarrow> P k s e r"
  have "?P attempt is_done budget deadline ticks k s e r"
  proof (rule poll_loop.raw_induct [where P = ?P, OF _ run], goal_cases)
    case (1 loop a d b dl t k s e r)
    show ?case
    proof
      assume same: "a = attempt \<and> d = is_done \<and> b = budget \<and> dl = deadline \<and> t = ticks"
      obtain raised s' where att: "attempt (t_answer (ticks k)) s = (raised, s')" by fastforce
      have rec: "loop attempt is_done budget deadline ticks (Suc k) s' n = Some r \<Longrightarrow> P (Suc k) s' n r" for n
        using 1(1) by blast
      show "P k s e r"
        using 1(2) same att down [of k s e] spent [of k s s'] late_err [of k s s'] retry [of k s s'] over [of k s s']
          late [of k s s'] again [of k s s'] rec
        by (cases raised) (auto simp: Let_def not_le split: if_splits)
    qed
  qed
  then show ?thesis by simp
qed

text \<open>Whatever every poll keeps holds where the loop stops.\<close>

lemma poll_loop_inv:
  assumes "poll_loop attempt is_done budget deadline ticks k s e = Some r"
    and "I k s" and keep: "\<And>i x. I i x \<Longrightarrow> I (Suc i) (snd (attempt (t_answer (ticks i)) x))"
  shows "I (snd (snd (snd r))) (fst r)"
  using assms(1,2)
  by (induction rule: poll_loop_induct) (use keep in \<open>force+\<close>)

text \<open>The exits: \<open>crashed\<close> and \<open>timed_out\<close> exclude one another, and neither means that the run was over.\<close>

lemma poll_loop_exit:
  assumes "poll_loop attempt is_done budget deadline ticks k s e = Some (s', crashed, timed_out, n)"
  shows "\<not> (crashed \<and> timed_out)" and "\<not> crashed \<Longrightarrow> \<not> timed_out \<Longrightarrow> is_done s'"
    and "timed_out \<Longrightarrow> deadline \<le> t_now (ticks (n - 1))"
    and "crashed \<Longrightarrow> budget = None \<Longrightarrow> strip (t_host (ticks n)) \<notin> set ALIVE"
proof -
  have "(case r of (s', crashed, timed_out, n) \<Rightarrow> \<not> (crashed \<and> timed_out) \<and> (\<not> crashed \<longrightarrow> \<not> timed_out \<longrightarrow> is_done s')
      \<and> (timed_out \<longrightarrow> deadline \<le> t_now (ticks (n - 1))) \<and> (crashed \<longrightarrow> budget = None \<longrightarrow> strip (t_host (ticks n)) \<notin> set ALIVE))"
    if "poll_loop attempt is_done budget deadline ticks k s e = Some r" for r
    using that by (induction rule: poll_loop_induct) auto
  from this [OF assms] show "\<not> (crashed \<and> timed_out)" "\<not> crashed \<Longrightarrow> \<not> timed_out \<Longrightarrow> is_done s'"
    "timed_out \<Longrightarrow> deadline \<le> t_now (ticks (n - 1))"
    "crashed \<Longrightarrow> budget = None \<Longrightarrow> strip (t_host (ticks n)) \<notin> set ALIVE"
    by simp_all
qed

text \<open>
  A clock that moves on by at least \<open>p\<close> from poll to poll ends the loop: the time that is left, over
  \<open>p\<close>, bounds the polls.
\<close>

definition sleeps :: "int \<Rightarrow> (nat \<Rightarrow> 'a tick) \<Rightarrow> bool" where
  "sleeps p ticks = (\<forall>k. t_now (ticks k) + p \<le> t_now (ticks (Suc k)))"

lemma poll_loop_ends:
  assumes "0 < p" "sleeps p ticks" "deadline \<le> t_now (ticks k) + int m * p"
  shows "\<exists>r. poll_loop attempt is_done budget deadline ticks k s e = Some r \<and> snd (snd (snd r)) \<le> Suc (k + m)"
  using assms(3)
proof (induction m arbitrary: k s e)
  case 0
  obtain raised s' where "attempt (t_answer (ticks k)) s = (raised, s')" by fastforce
  with 0 show ?case by (subst poll_loop.simps) (auto simp: Let_def)
next
  case (Suc m)
  have "deadline \<le> t_now (ticks (Suc k)) + int m * p"
  proof -
    have "int (Suc m) * p = int m * p + p" by (simp add: algebra_simps)
    moreover have "t_now (ticks k) + p \<le> t_now (ticks (Suc k))" using assms(2) by (simp add: sleeps_def)
    ultimately show ?thesis using Suc.prems by linarith
  qed
  from Suc.IH [OF this] have next_poll:
    "\<exists>r. poll_loop attempt is_done budget deadline ticks (Suc k) s e = Some r \<and> snd (snd (snd r)) \<le> Suc (k + Suc m)" for s e
    by simp
  obtain raised s' where "attempt (t_answer (ticks k)) s = (raised, s')" by fastforce
  then show ?case
    using next_poll [of s' "Suc e"] next_poll [of s' 0] by (subst poll_loop.simps) (auto simp: Let_def)
qed

section \<open>What the loop reads\<close>

text \<open>
  A guest whose journal grows from tick to tick and answers a fetch, when it is \<open>up\<close>, with the records
  past the cursor; a cursor is a position in the journal.
\<close>

definition serves :: "(nat \<Rightarrow> jrec list) \<Rightarrow> (nat \<Rightarrow> bool) \<Rightarrow> (nat \<Rightarrow> nat fetch tick) \<Rightarrow> bool" where
  "serves J up ticks =
     ((\<forall>k. prefix (J k) (J (Suc k)))
      \<and> (\<forall>k c. t_answer (ticks k) c = (if up k then Some (length (J k), drop c (J k)) else None)))"

definition seen_upto :: "(jrec \<Rightarrow> wstate \<Rightarrow> wstate) \<Rightarrow> (nat \<Rightarrow> jrec list) \<Rightarrow> nat \<Rightarrow> nat \<Rightarrow> nat \<times> wstate \<Rightarrow> bool" where
  "seen_upto scan J c0 k s =
     (c0 \<le> fst s \<and> fst s \<le> length (J k) \<and> snd s = fold scan (drop c0 (take (fst s) (J k))) wait_start)"

lemma take_grown: "prefix xs ys \<Longrightarrow> n \<le> length xs \<Longrightarrow> take n ys = take n xs"
  by (auto simp: prefix_def)

lemma seen_later:
  assumes "serves J up ticks" "seen_upto scan J c0 k s"
  shows "seen_upto scan J c0 (Suc k) s"
proof -
  have "prefix (J k) (J (Suc k))" using assms(1) by (simp add: serves_def)
  with assms(2) show ?thesis
    using take_grown [of "J k" "J (Suc k)" "fst s"] prefix_length_le [of "J k" "J (Suc k)"] by (auto simp: seen_upto_def)
qed

lemma seen_step:
  assumes "serves J up ticks" "seen_upto scan J c0 k s"
  shows "seen_upto scan J c0 (Suc k) (snd (fetch_unit scan (t_answer (ticks k)) s))"
proof (cases "up k")
  case False
  then have "t_answer (ticks k) c = None" for c using assms(1) by (simp add: serves_def)
  then have "snd (fetch_unit scan (t_answer (ticks k)) s) = s"
    by (simp add: fetch_unit_def split: prod.split)
  with seen_later [OF assms] show ?thesis by simp
next
  case True
  obtain c w where s: "s = (c, w)" by fastforce
  have answer: "t_answer (ticks k) c = Some (length (J k), drop c (J k))"
    using True assms(1) by (simp add: serves_def)
  have seen: "c0 \<le> c" "c \<le> length (J k)" "w = fold scan (drop c0 (take c (J k))) wait_start"
    using assms(2) s by (simp_all add: seen_upto_def)
  have "drop c0 (take c (J k)) @ drop c (J k) = drop c0 (take c (J k) @ drop c (J k))"
    using seen(1,2) by (simp only: drop_append) simp
  then have "drop c0 (take c (J k)) @ drop c (J k) = drop c0 (J k)" by simp
  then have whole: "fold scan (drop c (J k)) w = fold scan (drop c0 (J k)) wait_start"
    unfolding seen(3) by (metis comp_apply fold_append)
  have "seen_upto scan J c0 k (length (J k), fold scan (drop c0 (J k)) wait_start)"
    using seen by (simp add: seen_upto_def)
  with seen_later [OF assms(1)] whole answer show ?thesis by (simp add: s fetch_unit_def)
qed

lemma unit_wait_seen:
  assumes "serves J up ticks" "c0 \<le> length (J 0)"
    and "unit_wait unit c0 now timeout ticks = Some (s, crashed, timed_out, k)"
  shows "\<exists>n. c0 \<le> n \<and> n \<le> length (J (Suc k)) \<and> s = fold (scan_unit unit) (drop c0 (take n (J (Suc k)))) wait_start"
proof -
  obtain x where run: "poll_loop (fetch_unit (scan_unit unit)) has_result None (now + timeout) ticks 0 (c0, wait_start) 0
      = Some (x, crashed, timed_out, k)"
    and s: "s = snd (if timed_out then snd (fetch_unit (scan_unit unit) (t_answer (ticks k)) x) else x)"
    using assms(3) unfolding unit_wait_def by (auto split: if_splits)
  have "seen_upto (scan_unit unit) J c0 0 (c0, wait_start)"
    using assms(2) by (simp add: seen_upto_def)
  from poll_loop_inv [OF run, of "seen_upto (scan_unit unit) J c0", OF this seen_step [OF assms(1)]]
  have "seen_upto (scan_unit unit) J c0 k x" by simp
  then have "seen_upto (scan_unit unit) J c0 (Suc k) (if timed_out then snd (fetch_unit (scan_unit unit) (t_answer (ticks k)) x) else x)"
    using seen_later [OF assms(1)] seen_step [OF assms(1)] by simp
  then show ?thesis unfolding s seen_upto_def by blast
qed

text \<open>A wait that ends with a guest that went down has seen no outcome.\<close>

lemma crashed_no_result:
  assumes "poll_loop (fetch_unit scan) has_result None deadline ticks k s e = Some r" "\<not> has_result s" "fst (snd r)"
  shows "\<not> has_result (fst r)"
proof -
  have same: "s' = s" if "fetch_unit scan f s = (True, s')" for f s s'
    using that by (auto simp: fetch_unit_def split: option.splits prod.splits)
  show ?thesis
    using assms by (induction rule: poll_loop_induct) (auto dest: same)
qed

section \<open>What the records say\<close>

text \<open>The outcome of the start job: the last finish or failure, else a stop, else nothing yet.\<close>

definition job_ends :: "jrec list \<Rightarrow> jrec list" where
  "job_ends rs = filter (\<lambda>r. mid r = MSG_UNIT_STARTED \<or> mid r = MSG_UNIT_FAILED) rs"

definition job_outcome :: "jrec list \<Rightarrow> string" where
  "job_outcome rs =
     (if job_ends rs \<noteq> [] then (if mid (last (job_ends rs)) = MSG_UNIT_STARTED then ''done'' else ''failed'')
      else if list_ex (\<lambda>r. mid r = MSG_UNIT_STOPPED) rs then ''stopped'' else [])"

definition last_exit :: "jrec list \<Rightarrow> string" where
  "last_exit rs = (case rev (filter (\<lambda>r. mid r = MSG_UNIT_PROCESS_EXIT) rs) of
     [] \<Rightarrow> [] | r # _ \<Rightarrow> (case j_exit_status r of None \<Rightarrow> [] | Some e \<Rightarrow> e))"

definition own_texts :: "string \<Rightarrow> jrec list \<Rightarrow> string list" where
  "own_texts unit rs = map j_text (filter (\<lambda>r. j_unit r = Some unit) rs)"

lemmas scan_defs = scan_unit_def Let_def started_def exited_def ended_def

lemma fold_lines: "w_lines (fold (scan_unit unit) rs s) = w_lines s @ own_texts unit rs"
  by (induction rs arbitrary: s) (auto simp: own_texts_def scan_defs)

lemma fold_exit: "w_exec_status (fold (scan_unit unit) rs wait_start) = last_exit rs"
proof (induction rs rule: rev_induct)
  case (snoc r rs)
  show ?case
    using snoc msg_distinct by (auto simp: last_exit_def scan_defs)
qed (simp add: last_exit_def wait_start_def)

lemma scan_result:
  "w_result (scan_unit unit r s) =
     (if mid r = MSG_UNIT_STARTED then ''done'' else if mid r = MSG_UNIT_FAILED then ''failed''
      else if mid r = MSG_UNIT_STOPPED \<and> w_result s = [] then ''stopped'' else w_result s)"
  using msg_distinct by (auto simp: scan_defs)

lemma job_outcome_snoc:
  "job_outcome (rs @ [r]) =
     (if mid r = MSG_UNIT_STARTED then ''done'' else if mid r = MSG_UNIT_FAILED then ''failed''
      else if mid r = MSG_UNIT_STOPPED \<and> job_outcome rs = [] then ''stopped'' else job_outcome rs)"
proof -
  have "MSG_UNIT_STARTED \<noteq> MSG_UNIT_FAILED" using msg_distinct by simp
  then show ?thesis by (simp add: job_outcome_def job_ends_def)
qed

lemma fold_result: "w_result (fold (scan_unit unit) rs wait_start) = job_outcome rs"
proof (induction rs rule: rev_induct)
  case (snoc r rs)
  then show ?case by (simp add: scan_result job_outcome_snoc)
qed (simp add: job_outcome_def job_ends_def wait_start_def)

section \<open>Properties\<close>

lemma whole_polls:
  assumes "0 < (p::int)"
  shows "timeout \<le> int (nat ((timeout + p - 1) div p)) * p"
proof -
  let ?q = "(timeout + p - 1) div p"
  have "timeout + p - 1 = ?q * p + (timeout + p - 1) mod p" by simp
  moreover have "(timeout + p - 1) mod p < p" using assms by simp
  ultimately have "timeout \<le> ?q * p" by linarith
  also have "\<dots> \<le> int (nat ?q) * p" using assms by (intro mult_right_mono) auto
  finally show ?thesis .
qed

lemma poll_loop_returns:
  assumes "0 < p" "sleeps p ticks" "now \<le> t_now (ticks 0)"
  shows "\<exists>r. poll_loop attempt is_done budget (now + timeout) ticks 0 s 0 = Some r
    \<and> snd (snd (snd r)) \<le> Suc (nat ((timeout + p - 1) div p))"
proof -
  have "now + timeout \<le> t_now (ticks 0) + int (nat ((timeout + p - 1) div p)) * p"
    using whole_polls [OF assms(1), of timeout] assms(3) by linarith
  from poll_loop_ends [OF assms(1,2) this] show ?thesis by simp
qed


definition quiet :: "'a \<Rightarrow> nat \<Rightarrow> 'a tick" where
  "quiet answer k = \<lparr>t_host = ''active'', t_answer = answer, t_now = 15 * int k\<rparr>"

lemma quiet_sleeps: "sleeps 15 (quiet answer)" "0 \<le> t_now (quiet answer 0)"
  by (simp_all add: sleeps_def quiet_def)


lemma wait_seen:
  assumes "serves J up ticks" "c0 \<le> length (J 0)"
    and "selftests_wait vm item unit c0 now timeout ticks found = Some r"
  shows "\<exists>n k. c0 \<le> n \<and> n \<le> length (J k)
    \<and> (let seen = drop c0 (take n (J k)) in
        wo_ktap r = join nl (own_texts unit seen)
        \<and> wo_result r = job_outcome seen \<and> wo_exec_status r = last_exit seen)
    \<and> \<not> (wo_crashed r \<and> wo_timed_out r)
    \<and> (wo_crashed r \<or> wo_timed_out r \<or> wo_result r \<noteq> [])
    \<and> (wo_crashed r \<longrightarrow> wo_result r = [] \<and> (\<exists>i. strip (t_host (ticks i)) \<notin> set ALIVE))
    \<and> (wo_timed_out r \<longrightarrow> (\<exists>i. now + timeout \<le> t_now (ticks i)))"
proof -
  obtain s crashed timed_out k where w: "unit_wait unit c0 now timeout ticks = Some (s, crashed, timed_out, k)"
    and r: "wo_ktap r = join nl (w_lines s)" "wo_result r = w_result s" "wo_exec_status r = w_exec_status s"
      "wo_crashed r = crashed" "wo_timed_out r = timed_out"
  proof -
    obtain s crashed timed_out k where w: "unit_wait unit c0 now timeout ticks = Some (s, crashed, timed_out, k)"
      using assms(3) unfolding selftests_wait_def by auto
    with assms(3) obtain a b where "r = wait_out.extend (wait_out_of vm item unit (s, crashed, timed_out, k))
        \<lparr>so_user_crashes = a, so_user_crash_count = b\<rparr>"
      by (auto simp: selftests_wait_def Let_def split_beta)
    then show ?thesis by (intro that [OF w]) (simp_all add: wait_out_of_def wait_out.extend_def)
  qed
  obtain n where n: "c0 \<le> n" "n \<le> length (J (Suc k))"
    and s: "s = fold (scan_unit unit) (drop c0 (take n (J (Suc k)))) wait_start"
    using unit_wait_seen [OF assms(1,2) w] by blast
  obtain x where run: "poll_loop (fetch_unit (scan_unit unit)) has_result None (now + timeout) ticks 0 (c0, wait_start) 0
      = Some (x, crashed, timed_out, k)" and last: "\<not> timed_out \<Longrightarrow> s = snd x"
    using w unfolding unit_wait_def by (auto split: if_splits)
  note exits = poll_loop_exit [OF run]
  have start: "\<not> has_result (c0, wait_start)" by (simp add: has_result_def wait_start_def)
  have down: "crashed \<Longrightarrow> w_result s = []"
    using crashed_no_result [OF run start] exits(1) last by (auto simp: has_result_def)
  have "w_lines s = own_texts unit (drop c0 (take n (J (Suc k))))"
    unfolding s fold_lines by (simp add: wait_start_def)
  moreover have "w_result s = job_outcome (drop c0 (take n (J (Suc k))))" unfolding s by (rule fold_result)
  moreover have "w_exec_status s = last_exit (drop c0 (take n (J (Suc k))))" unfolding s by (rule fold_exit)
  moreover have "crashed \<or> timed_out \<or> w_result s \<noteq> []"
    using exits(2) last by (auto simp: has_result_def)
  ultimately show ?thesis
    using n down exits(1,3,4) unfolding r by (intro exI [of _ n] exI [of _ "Suc k"]) (auto simp: Let_def)
qed

text \<open>
  C39: What the kselftest wait returns is read off the guest's journal exactly once: there is a stretch of
  the journal that begins at the run's cursor such that the KTAP is the unit's own messages in it, in order,
  none lost to a failed poll and none doubled, and the outcome and exit status are the ones the stretch
  tells. A wait that neither crashed nor timed out has an outcome; one that crashed has none, and the
  host says the guest is down; one that timed out did so at its deadline.
\<close>

theorem wait_exact:
  assumes "serves J up ticks" "c0 \<le> length (J 0)"
    and "selftests_wait vm item unit c0 now timeout ticks found = Some r"
  shows "\<exists>n k. c0 \<le> n \<and> n \<le> length (J k)
    \<and> (let seen = drop c0 (take n (J k)) in
        wo_ktap r = join nl (own_texts unit seen)
        \<and> wo_result r = job_outcome seen \<and> wo_exec_status r = last_exit seen)
    \<and> \<not> (wo_crashed r \<and> wo_timed_out r)
    \<and> (wo_crashed r \<or> wo_timed_out r \<or> wo_result r \<noteq> [])
    \<and> (wo_crashed r \<longrightarrow> wo_result r = [] \<and> (\<exists>i. strip (t_host (ticks i)) \<notin> set ALIVE))
    \<and> (wo_timed_out r \<longrightarrow> (\<exists>i. now + timeout \<le> t_now (ticks i)))"
  by (rule wait_seen [OF assms])

text \<open>A guest that is busy for one poll and done at the next.\<close>

definition demo_journal :: "nat \<Rightarrow> jrec list" where
  "demo_journal k =
     [\<lparr>j_unit = Some ''u'', j_message_id = None, j_exit_status = None, j_text = ''old'', j_monotonic = None, j_realtime = None\<rparr>,
      \<lparr>j_unit = Some ''u'', j_message_id = None, j_exit_status = None, j_text = ''1..0'', j_monotonic = None, j_realtime = None\<rparr>]
     @ (if k = 0 then [] else
        [\<lparr>j_unit = None, j_message_id = Some MSG_UNIT_STARTED, j_exit_status = None, j_text = [],
          j_monotonic = Some 7, j_realtime = Some 9000\<rparr>])"

definition demo_ticks :: "nat \<Rightarrow> nat fetch tick" where
  "demo_ticks k =
     \<lparr>t_host = ''active'',
      t_answer = (\<lambda>c. if k \<noteq> 1 then Some (length (demo_journal k), drop c (demo_journal k)) else None),
      t_now = 15 * int k\<rparr>"

theorem wait_exact_witness:
  "case selftests_wait ''vm-1'' ''size'' ''u'' 1 0 900 demo_ticks (Some []) of
     None \<Rightarrow> False | Some r \<Rightarrow> wo_ktap r = ''1..0'' \<and> wo_result r = ''done'' \<and> \<not> (wo_crashed r \<and> wo_timed_out r)"
proof -
  have "serves demo_journal (\<lambda>k. k \<noteq> 1) demo_ticks" "1 \<le> length (demo_journal 0)"
    by (simp_all add: serves_def demo_ticks_def demo_journal_def)
  moreover have "case selftests_wait ''vm-1'' ''size'' ''u'' 1 0 900 demo_ticks (Some []) of
     None \<Rightarrow> False | Some r \<Rightarrow> wo_ktap r = ''1..0'' \<and> wo_result r = ''done''"
    by code_simp
  ultimately show ?thesis
    using wait_exact [of demo_journal "\<lambda>k. k \<noteq> 1" demo_ticks 1 "''vm-1''" "''size''" "''u''" 0 900 "Some []"]
    by (auto split: option.splits)
qed

end
