(* ===== verification/Nvme.thy ===== *)
theory Nvme
  imports Json "HOL-Library.Word"
begin

unbundle bit_operations_syntax

text \<open>
  The NVMe drives of a guest: \<open>_nvme_drives\<close> of \<open>f/qsu/common.py\<close>, its knob tables and helpers. A drive is
  the dict the qsu template reads, as JSON. The properties say which drives come out, against a
  description of what QEMU accepts that does not mention how they are composed, and which inputs
  are refused. The host's page size (\<open>os.sysconf\<close>) is a parameter.
\<close>

section \<open>Numbers\<close>

text \<open>\<open>int(text)\<close>: blanks around it, a sign, and single underscores between digits are read over.\<close>

definition py_int :: "string \<Rightarrow> int option" where
  "py_int s =
     (let t = strip s;
          neg = prefix ''-'' t;
          body = (if neg \<or> prefix ''+'' t then tl t else t);
          groups = split_chr (CHR ''_'') body in
      if list_all (\<lambda>g. g \<noteq> [] \<and> list_all is_digit g) groups
      then Some (if neg then - read_int (concat groups) else read_int (concat groups)) else None)"

definition is_pow2 :: "int \<Rightarrow> bool" where
  "is_pow2 n = (\<exists>k. n = 2 ^ k)"

lemma and_pred_nat: "0 < n \<Longrightarrow> int n AND (int n - 1) = 0 \<Longrightarrow> \<exists>k. int n = 2 ^ k"
proof (induction n rule: less_induct)
  case (less n)
  show ?case
  proof (cases "even n")
    case True
    then obtain m where m: "n = 2 * m" by blast
    then have "0 < m" "m < n" using less.prems(1) by auto
    have "int n AND (int n - 1) = 2 * (int m AND (int m - 1))"
    proof -
      have "(int n - 1) div 2 = int m - 1" "odd (int n - 1)" "even (int n)" "int n div 2 = int m" using m by presburger+
      then show ?thesis by (subst and_int_rec) simp
    qed
    then have "int m AND (int m - 1) = 0" using less.prems(2) by simp
    from less.IH [OF \<open>m < n\<close> \<open>0 < m\<close> this] obtain k where "int m = 2 ^ k" by blast
    then have "int n = 2 ^ Suc k" using m by simp
    then show ?thesis by blast
  next
    case False
    then obtain m where m: "n = 2 * m + 1" by (blast elim: oddE)
    have "int n AND (int n - 1) = 2 * int m"
    proof -
      have "(int n - 1) div 2 = int m" "even (int n - 1)" "int n div 2 = int m" using m by presburger+
      then show ?thesis by (subst and_int_rec) simp
    qed
    then have "int n = 2 ^ 0" using less.prems(2) m by simp
    then show ?thesis by blast
  qed
qed

lemma and_pred_pow2: "(2 ^ k :: int) AND (2 ^ k - 1) = 0"
proof -
  have "(2 ^ k :: int) AND mask k = 2 ^ k mod 2 ^ k"
    by (simp only: take_bit_eq_mask [symmetric] take_bit_eq_mod)
  then show ?thesis by (simp add: mask_eq_exp_minus_1)
qed

lemma pow2_test: "0 < n \<Longrightarrow> n AND (n - 1) = 0 \<longleftrightarrow> is_pow2 n"
  using and_pred_nat [of "nat n"] and_pred_pow2 by (auto simp: is_pow2_def)

lemma is_pow2_code [code]: "is_pow2 n \<longleftrightarrow> 0 < n \<and> n AND (n - 1) = 0"
  using pow2_test [of n] by (auto simp: is_pow2_def)

section \<open>Knobs\<close>

type_synonym knobs = "(string \<times> string) list"

definition NVME_BACKEND_KNOBS :: knobs where
  "NVME_BACKEND_KNOBS =
     [(''aio'', ''aio''), (''cache'', ''cache''), (''aio_max_batch'', ''file.aio-max-batch''),
      (''discard'', ''discard''), (''detect_zeroes'', ''detect-zeroes'')]"

definition NVME_NULL_KNOBS :: knobs where
  "NVME_NULL_KNOBS = [(''read_zeroes'', ''read-zeroes''), (''latency_ns'', ''latency-ns'')]"

definition NVME_CTRL_KNOBS :: knobs where
  "NVME_CTRL_KNOBS =
     [(''mdts'', ''mdts''), (''max_ioqpairs'', ''max_ioqpairs''), (''msix_qsize'', ''msix_qsize''),
      (''mqes'', ''mqes''), (''dbcs'', ''dbcs''), (''atomic_awun'', ''atomic.awun''), (''atomic_awupf'', ''atomic.awupf'')]"

definition NVME_NULL_DRIVERS :: "string list" where "NVME_NULL_DRIVERS = [''null-co'', ''null-aio'']"

definition CACHE_DIRECT :: "string list" where "CACHE_DIRECT = [''none'', ''directsync'']"

definition NVME_NS_KNOBS :: knobs where
  "NVME_NS_KNOBS =
     [(''atomic_nawun'', ''atomic.nawun''), (''atomic_nawupf'', ''atomic.nawupf''), (''atomic_nabsn'', ''atomic.nabsn''),
      (''atomic_nabspf'', ''atomic.nabspf''), (''atomic_nabo'', ''atomic.nabo'')]"

definition NVME_BLOCKCONF_KNOBS :: knobs where
  "NVME_BLOCKCONF_KNOBS =
     [(''logical_block_size'', ''logical_block_size''), (''physical_block_size'', ''physical_block_size''),
      (''min_io_size'', ''min_io_size''), (''opt_io_size'', ''opt_io_size''),
      (''discard_granularity'', ''discard_granularity''), (''write_cache'', ''write-cache'')]"

text \<open>
  The inputs: \<open>nv_knobs\<close> holds the per-drive fields that are not \<open>None\<close>, as their text (\<open>str(raw)\<close>);
  the rest are the form's numbers and toggles with the code's defaults put in.
\<close>

record nvme_in =
  nv_drives :: "json list"
  nv_count :: int
  nv_size_gb :: int
  nv_knobs :: "(string, string) dict"
  nv_atomic_dn :: bool
  nv_atomic_mam :: bool
  nv_legacy_cmb :: bool
  nv_pmr_share :: bool
  nv_pmr_pmem :: bool

definition drive_pick :: "string option \<Rightarrow> nat \<Rightarrow> string" where
  "drive_pick raw i =
     (let ps = split_chr (CHR '','') (case raw of None \<Rightarrow> [] | Some s \<Rightarrow> s) in
      strip (if length ps = 1 then hd ps else if i < length ps then ps ! i else []))"

abbreviation knob :: "nvme_in \<Rightarrow> string \<Rightarrow> nat \<Rightarrow> string" where
  "knob fi key i \<equiv> drive_pick (dict_get (nv_knobs fi) key) i"

definition TRUE_WORDS :: "string list" where "TRUE_WORDS = [''on'', ''true'', ''1'', ''yes'']"
definition FALSE_WORDS :: "string list" where "FALSE_WORDS = [''off'', ''false'', ''0'', ''no'', ''none'']"

definition drive_onoff :: "string option \<Rightarrow> nat \<Rightarrow> bool \<Rightarrow> bool result" where
  "drive_onoff raw i dflt =
     (let v = lower (drive_pick raw i) in
      if v = [] then Inr dflt
      else if v \<in> set TRUE_WORDS then Inr True
      else if v \<in> set FALSE_WORDS then Inr False
      else Inl ValueError)"

definition bucket :: "nvme_in \<Rightarrow> knobs \<Rightarrow> nat \<Rightarrow> (string, json) dict" where
  "bucket fi table i =
     foldl (\<lambda>d (param, tkey). let v = knob fi param i in if v \<noteq> [] then dict_set tkey (JStr v) d else d) [] table"

section \<open>The drives\<close>

definition set_if :: "bool \<Rightarrow> 'k \<Rightarrow> 'v \<Rightarrow> ('k, 'v) dict \<Rightarrow> ('k, 'v) dict" where
  "set_if b k v d = (if b then dict_set k v d else d)"

definition serial_of :: "nat \<Rightarrow> json" where
  "serial_of i = JStr (''kdevops'' @ show_nat i)"

definition is_str :: "json option \<Rightarrow> string \<Rightarrow> bool" where
  "is_str v s = (v = Some (JStr s))"

text \<open>What backs the drive: the driver or the file with its knobs, as \<open>base\<close> and \<open>backend\<close>.\<close>

definition null_backend :: "nvme_in \<Rightarrow> string \<Rightarrow> nat \<Rightarrow> (string, json) dict \<times> (string, json) dict" where
  "null_backend fi driver i =
     (set_if (nv_size_gb fi \<noteq> 0) ''size'' (JInt (nv_size_gb fi * 1024 ^ 3))
        [(''driver'', JStr driver), (''serial'', serial_of i)],
      (let backend = bucket fi NVME_NULL_KNOBS i in
       set_if (dict_get backend ''read-zeroes'' = None) ''read-zeroes'' (JStr ''on'') backend))"

definition file_backend :: "nvme_in \<Rightarrow> nat \<Rightarrow> ((string, json) dict \<times> (string, json) dict) result" where
  "file_backend fi i =
     (let fmt = (if knob fi ''format'' i \<noteq> [] then knob fi ''format'' i else ''qcow2'');
          base = [(''file'', JStr (''nvme'' @ show_nat i @ ''.'' @ fmt)), (''format'', JStr fmt), (''serial'', serial_of i)];
          backend = bucket fi NVME_BACKEND_KNOBS i in
      if is_str (dict_get backend ''detect-zeroes'') ''unmap'' \<and> \<not> is_str (dict_get backend ''discard'') ''unmap''
      then Inl ValueError
      else if is_str (dict_get backend ''aio'') ''native''
        \<and> \<not> list_ex (is_str (dict_get backend ''cache'')) CACHE_DIRECT
      then Inl ValueError
      else Inr (base, backend))"

text \<open>The persistent memory region: nothing, or its dict.\<close>

definition nvme_pmr :: "int \<Rightarrow> nvme_in \<Rightarrow> nat \<Rightarrow> json option result" where
  "nvme_pmr page fi i =
     (let pmr_size = knob fi ''pmr_size'' i in
      if pmr_size = [] then Inr None
      else (case py_int pmr_size of
        None \<Rightarrow> Inl ValueError
      | Some sz \<Rightarrow>
          (if sz = 0 then Inr None
           else if sz AND (sz - 1) \<noteq> 0 \<or> sz < page then Inl ValueError
           else if nv_pmr_pmem fi \<and> \<not> nv_pmr_share fi then Inl ValueError
           else Inr (Some (JObj (set_if (nv_pmr_pmem fi) ''pmem'' (JBool True)
                  (set_if (\<not> nv_pmr_share fi) ''share'' (JBool False) [(''size'', JInt sz)])))))))"

definition nvme_ctrl :: "nvme_in \<Rightarrow> nat \<Rightarrow> bool \<Rightarrow> json option \<Rightarrow> (string, json) dict" where
  "nvme_ctrl fi i ioeventfd pmr =
     (let cmb = knob fi ''cmb_size_mb'' i;
          has_cmb = (cmb \<noteq> [] \<and> cmb \<noteq> ''0'') in
      set_if (pmr \<noteq> None) ''pmr'' (the pmr)
        (set_if (has_cmb \<and> nv_legacy_cmb fi) ''legacy-cmb'' (JBool True)
          (set_if has_cmb ''cmb_size_mb'' (JStr cmb)
            (set_if ioeventfd ''ioeventfd'' (JBool True)
              (set_if (nv_atomic_dn fi) ''atomic.dn'' (JBool True) (bucket fi NVME_CTRL_KNOBS i))))))"

definition nvme_ns :: "nvme_in \<Rightarrow> nat \<Rightarrow> (string, json) dict" where
  "nvme_ns fi i = set_if (nv_atomic_mam fi) ''atomic.mam'' (JBool True) (bucket fi NVME_NS_KNOBS i)"

definition assemble ::
  "(string, json) dict \<Rightarrow> (string, json) dict \<Rightarrow> (string, json) dict \<Rightarrow> (string, json) dict \<Rightarrow> (string, json) dict \<Rightarrow> json" where
  "assemble base backend ctrl ns blockconf =
     (if ns \<noteq> [] then
        JObj (dict_set ''namespaces''
          (JList [JObj (dict_merge (dict_merge (dict_merge (dict_del ''serial'' base) backend) blockconf) ns)])
          (dict_merge [(''serial'', the (dict_get base ''serial''))] ctrl))
      else JObj (dict_merge (dict_merge (dict_merge base backend) ctrl) blockconf))"

definition nvme_drive :: "int \<Rightarrow> nvme_in \<Rightarrow> nat \<Rightarrow> json result" where
  "nvme_drive page fi i =
     (let driver = knob fi ''driver'' i in
      if driver \<noteq> [] \<and> driver \<notin> set NVME_NULL_DRIVERS then Inl ValueError
      else andthen (if driver \<noteq> [] then Inr (null_backend fi driver i) else file_backend fi i) (\<lambda>(base, backend).
           andthen (drive_onoff (dict_get (nv_knobs fi) ''ioeventfd'') i True) (\<lambda>ioeventfd.
           andthen (nvme_pmr page fi i) (\<lambda>pmr.
           Inr (assemble base backend (nvme_ctrl fi i ioeventfd pmr) (nvme_ns fi i) (bucket fi NVME_BLOCKCONF_KNOBS i))))))"

definition nvme_drives :: "int \<Rightarrow> nvme_in \<Rightarrow> json list result" where
  "nvme_drives page fi =
     (if nv_drives fi \<noteq> [] then Inr (nv_drives fi) else traverse (nvme_drive page fi) [0..<nat (nv_count fi)])"

section \<open>Looking keys up\<close>

lemma map_of_merge: "distinct (keys e) \<Longrightarrow> dict_get (dict_merge d e) = dict_get d ++ dict_get e"
  by (rule ext) (simp add: dict_get_merge map_add_def)

lemma map_of_set [simp]: "dict_get (dict_set k v d) = (dict_get d)(k \<mapsto> v)"
  by (rule ext) simp

lemma map_of_set_if: "dict_get (set_if b k v d) = (if b then (dict_get d)(k \<mapsto> v) else dict_get d)"
  by (simp add: set_if_def)

lemma distinct_set_if [simp]: "distinct (keys (set_if b k v d)) \<longleftrightarrow> distinct (keys d)"
  by (simp add: set_if_def)

definition params_of :: "knobs \<Rightarrow> string \<Rightarrow> string option" where
  "params_of table = map_of (map (\<lambda>(param, tkey). (tkey, param)) table)"

definition bucket_map :: "nvme_in \<Rightarrow> knobs \<Rightarrow> nat \<Rightarrow> string \<Rightarrow> json option" where
  "bucket_map fi table i k =
     (case params_of table k of None \<Rightarrow> None
      | Some param \<Rightarrow> (if knob fi param i \<noteq> [] then Some (JStr (knob fi param i)) else None))"

lemma distinct_bucket [simp]: "distinct (keys (bucket fi table i))"
proof -
  have "distinct (keys d) \<Longrightarrow> distinct (keys (foldl (\<lambda>d (param, tkey).
      let v = knob fi param i in if v \<noteq> [] then dict_set tkey (JStr v) d else d) d table))" for d
    by (induction table arbitrary: d) (auto simp: Let_def split: prod.splits)
  then show ?thesis by (simp add: bucket_def)
qed

lemma map_of_bucket:
  assumes "distinct (map snd table)"
  shows "dict_get (bucket fi table i) = bucket_map fi table i"
proof
  fix k
  have "dict_get (foldl (\<lambda>d (param, tkey). let v = knob fi param i in if v \<noteq> [] then dict_set tkey (JStr v) d else d) d table) k
      = (case bucket_map fi table i k of None \<Rightarrow> dict_get d k | Some v \<Rightarrow> Some v)" for d
    using assms
  proof (induction table arbitrary: d)
    case (Cons x table)
    obtain param tkey where x: "x = (param, tkey)" by fastforce
    with Cons.prems have "params_of table tkey = None"
      by (force simp: params_of_def map_of_eq_None_iff)
    then show ?case
      using Cons.IH Cons.prems x by (auto simp: bucket_map_def params_of_def Let_def split: option.splits)
  qed (simp add: bucket_map_def params_of_def)
  from this [of "[]"] show "dict_get (bucket fi table i) k = bucket_map fi table i k"
    by (simp add: bucket_def split: option.splits)
qed

lemma params_of_mem: "params_of table k = Some param \<Longrightarrow> k \<in> set (map snd table)"
  by (force simp: params_of_def dest: map_of_SomeD)

lemma bucket_map_other: "k \<notin> set (map snd table) \<Longrightarrow> bucket_map fi table i k = None"
  by (auto simp: bucket_map_def split: option.split dest: params_of_mem)

lemmas table_defs = NVME_BACKEND_KNOBS_def NVME_NULL_KNOBS_def NVME_CTRL_KNOBS_def NVME_NS_KNOBS_def NVME_BLOCKCONF_KNOBS_def

lemma buckets [simp]:
  "dict_get (bucket fi NVME_BACKEND_KNOBS i) = bucket_map fi NVME_BACKEND_KNOBS i"
  "dict_get (bucket fi NVME_NULL_KNOBS i) = bucket_map fi NVME_NULL_KNOBS i"
  "dict_get (bucket fi NVME_CTRL_KNOBS i) = bucket_map fi NVME_CTRL_KNOBS i"
  "dict_get (bucket fi NVME_NS_KNOBS i) = bucket_map fi NVME_NS_KNOBS i"
  "dict_get (bucket fi NVME_BLOCKCONF_KNOBS i) = bucket_map fi NVME_BLOCKCONF_KNOBS i"
  by (rule map_of_bucket, simp add: table_defs)+

lemma distinct_ctrl [simp]: "distinct (keys (nvme_ctrl fi i onoff pmr))"
  by (simp add: nvme_ctrl_def Let_def)

lemma distinct_ns [simp]: "distinct (keys (nvme_ns fi i))"
  by (simp add: nvme_ns_def)

text \<open>The parts at the keys that a lookup names: each key belongs to one part.\<close>

definition ns_keys :: "string list" where
  "ns_keys = ''atomic.mam'' # map snd NVME_NS_KNOBS"

lemma ns_at: "nvme_ns fi i \<noteq> [] \<or> dict_get (nvme_ns fi i) k = None"
  by auto

definition ctrl_keys :: "string list" where
  "ctrl_keys = map snd NVME_CTRL_KNOBS @ [''atomic.dn'', ''ioeventfd'', ''cmb_size_mb'', ''legacy-cmb'', ''pmr'']"

definition base_keys :: "string list" where
  "base_keys = [''driver'', ''serial'', ''size'', ''file'', ''format'', ''read-zeroes'']"

lemma ctrl_at:
  assumes "k \<notin> set ctrl_keys"
  shows "dict_get (nvme_ctrl fi i onoff pmr) k = None"
proof -
  have "k \<notin> set (map snd NVME_CTRL_KNOBS)" "k \<noteq> ''atomic.dn''" "k \<noteq> ''ioeventfd''" "k \<noteq> ''cmb_size_mb''"
    "k \<noteq> ''legacy-cmb''" "k \<noteq> ''pmr''"
    using assms by (simp_all add: ctrl_keys_def)
  then show ?thesis
    using bucket_map_other [of k NVME_CTRL_KNOBS fi i] by (simp add: nvme_ctrl_def Let_def map_of_set_if)
qed

lemma null_base_at:
  assumes "k \<notin> set base_keys" "k \<notin> set (map snd NVME_NULL_KNOBS)"
  shows "dict_get (fst (null_backend fi driver i)) k = None" "dict_get (snd (null_backend fi driver i)) k = None"
proof -
  have "k \<noteq> ''driver''" "k \<noteq> ''serial''" "k \<noteq> ''size''" "k \<noteq> ''read-zeroes''"
    using assms(1) by (simp_all add: base_keys_def)
  then show "dict_get (fst (null_backend fi driver i)) k = None" "dict_get (snd (null_backend fi driver i)) k = None"
    using bucket_map_other [OF assms(2), of fi i] by (simp_all add: null_backend_def Let_def map_of_set_if)
qed

section \<open>What a drive says\<close>

text \<open>Where the drive's backend is described: in its only namespace, if it has one, else on the drive.\<close>

definition backing :: "(string, json) dict \<Rightarrow> (string, json) dict" where
  "backing d = (case dict_get d ''namespaces'' of Some (JList [JObj n]) \<Rightarrow> n | _ \<Rightarrow> d)"

definition backing_keys :: "string list" where
  "backing_keys = [''driver'', ''file'', ''format'', ''read-zeroes'', ''detect-zeroes'', ''discard'', ''aio'', ''cache'']"

definition foreign_keys :: "string list" where
  "foreign_keys = [''namespaces'', ''legacy-cmb'', ''cmb_size_mb'', ''pmr''] @ ns_keys"

definition parts_ok :: "nat \<Rightarrow> (string, json) dict \<Rightarrow> (string, json) dict \<Rightarrow> bool" where
  "parts_ok i base backend =
     (distinct (keys base) \<and> distinct (keys backend) \<and> dict_get base ''serial'' = Some (serial_of i)
      \<and> dict_get backend ''serial'' = None
      \<and> (\<forall>k \<in> set foreign_keys. dict_get base k = None \<and> dict_get backend k = None))"

lemma foreign_not_known:
  assumes "k \<in> set foreign_keys"
  shows "k \<notin> set base_keys" "k \<notin> set (map snd NVME_NULL_KNOBS)" "k \<notin> set (map snd NVME_BACKEND_KNOBS)"
proof -
  have "list_all (\<lambda>k. k \<notin> set base_keys \<and> k \<notin> set (map snd NVME_NULL_KNOBS) \<and> k \<notin> set (map snd NVME_BACKEND_KNOBS)) foreign_keys"
    by code_simp
  from bspec [OF this [unfolded list_all_iff] assms]
  show "k \<notin> set base_keys" "k \<notin> set (map snd NVME_NULL_KNOBS)" "k \<notin> set (map snd NVME_BACKEND_KNOBS)"
    by (iprover)+
qed

lemma serial_no_knob: "bucket_map fi NVME_NULL_KNOBS i ''serial'' = None" "bucket_map fi NVME_BACKEND_KNOBS i ''serial'' = None"
  by (rule bucket_map_other, simp add: table_defs)+

lemma null_parts: "parts_ok i (fst (null_backend fi driver i)) (snd (null_backend fi driver i))"
proof -
  have "dict_get (fst (null_backend fi driver i)) k = None \<and> dict_get (snd (null_backend fi driver i)) k = None"
    if "k \<in> set foreign_keys" for k
    using null_base_at foreign_not_known [OF that] by simp
  moreover have "dict_get (snd (null_backend fi driver i)) ''serial'' = None"
    using serial_no_knob by (simp add: null_backend_def Let_def map_of_set_if)
  moreover have "dict_get (fst (null_backend fi driver i)) ''serial'' = Some (serial_of i)"
    by (simp add: null_backend_def map_of_set_if)
  moreover have "distinct (keys (fst (null_backend fi driver i)))" "distinct (keys (snd (null_backend fi driver i)))"
    by (simp_all add: null_backend_def Let_def)
  ultimately show ?thesis by (simp only: parts_ok_def Ball_def simp_thms) blast
qed

lemma file_backend_parts:
  assumes "file_backend fi i = Inr (base, backend)"
  shows "backend = bucket fi NVME_BACKEND_KNOBS i" "parts_ok i base backend"
    "\<exists>fmt. fmt \<noteq> [] \<and> base = [(''file'', JStr (''nvme'' @ show_nat i @ ''.'' @ fmt)), (''format'', JStr fmt), (''serial'', serial_of i)]"
proof -
  show knobs: "backend = bucket fi NVME_BACKEND_KNOBS i"
    using assms by (simp add: file_backend_def Let_def split: if_splits)
  show "\<exists>fmt. fmt \<noteq> [] \<and> base = [(''file'', JStr (''nvme'' @ show_nat i @ ''.'' @ fmt)), (''format'', JStr fmt), (''serial'', serial_of i)]"
    using assms by (cases "knob fi ''format'' i = []") (auto simp: file_backend_def Let_def split: if_splits)
  then obtain fmt where base: "base = [(''file'', JStr (''nvme'' @ show_nat i @ ''.'' @ fmt)), (''format'', JStr fmt), (''serial'', serial_of i)]"
    by blast
  have "dict_get base k = None \<and> dict_get backend k = None" if "k \<in> set foreign_keys" for k
  proof -
    have "k \<noteq> ''file''" "k \<noteq> ''format''" "k \<noteq> ''serial''"
      using foreign_not_known(1) [OF that] by (simp_all add: base_keys_def)
    then show ?thesis using bucket_map_other [OF foreign_not_known(3) [OF that], of fi i] by (simp add: base knobs)
  qed
  then show "parts_ok i base backend"
    using serial_no_knob unfolding parts_ok_def by (simp add: base knobs)
qed

text \<open>The assembled drive at the keys that matter, from the parts.\<close>

definition merged :: "(string, json) dict \<Rightarrow> (string, json) dict \<Rightarrow> string \<Rightarrow> json option" where
  "merged base backend = dict_get base ++ dict_get backend"

lemma backing_key_elsewhere:
  assumes "k \<in> set backing_keys"
  shows "dict_get (nvme_ctrl fi i onoff pmr) k = None" "bucket_map fi NVME_BLOCKCONF_KNOBS i k = None"
    "dict_get (nvme_ns fi i) k = None" "k \<noteq> ''serial''" "k \<noteq> ''namespaces''"
proof -
  have "list_all (\<lambda>k. k \<notin> set ctrl_keys \<and> k \<notin> set (map snd NVME_BLOCKCONF_KNOBS) \<and> k \<notin> set (map snd NVME_NS_KNOBS)
      \<and> k \<noteq> ''atomic.mam'' \<and> k \<noteq> ''serial'' \<and> k \<noteq> ''namespaces'') backing_keys"
    by code_simp
  from bspec [OF this [unfolded list_all_iff] assms] have other: "k \<notin> set ctrl_keys" "k \<notin> set (map snd NVME_BLOCKCONF_KNOBS)" "k \<notin> set (map snd NVME_NS_KNOBS)"
    "k \<noteq> ''atomic.mam''" "k \<noteq> ''serial''" "k \<noteq> ''namespaces''"
    by (iprover)+
  show "dict_get (nvme_ctrl fi i onoff pmr) k = None" "bucket_map fi NVME_BLOCKCONF_KNOBS i k = None"
    "k \<noteq> ''serial''" "k \<noteq> ''namespaces''"
    by (rule ctrl_at other bucket_map_other)+
  show "dict_get (nvme_ns fi i) k = None"
    using bucket_map_other [OF other(3), of fi i] other(4) by (simp add: nvme_ns_def map_of_set_if)
qed

lemma ns_elsewhere:
  "dict_get (nvme_ns fi i) ''serial'' = None" "bucket_map fi NVME_BLOCKCONF_KNOBS i ''serial'' = None"
  "dict_get (nvme_ctrl fi i onoff pmr) ''serial'' = None" "dict_get (nvme_ctrl fi i onoff pmr) ''namespaces'' = None"
  "dict_get (nvme_ctrl fi i onoff pmr) ''file'' = None" "bucket_map fi NVME_BLOCKCONF_KNOBS i ''namespaces'' = None"
proof -
  show "dict_get (nvme_ns fi i) ''serial'' = None"
    using bucket_map_other [of "''serial''" NVME_NS_KNOBS fi i] by (simp add: nvme_ns_def map_of_set_if table_defs del: buckets)
      (simp add: table_defs map_of_bucket)
  show "bucket_map fi NVME_BLOCKCONF_KNOBS i ''serial'' = None" "bucket_map fi NVME_BLOCKCONF_KNOBS i ''namespaces'' = None"
    by (rule bucket_map_other, simp add: table_defs)+
  show "dict_get (nvme_ctrl fi i onoff pmr) ''serial'' = None" "dict_get (nvme_ctrl fi i onoff pmr) ''namespaces'' = None"
    "dict_get (nvme_ctrl fi i onoff pmr) ''file'' = None"
    by (rule ctrl_at, simp add: ctrl_keys_def table_defs)+
qed

lemma ns_key_elsewhere:
  assumes "k \<in> set ns_keys"
  shows "dict_get (nvme_ctrl fi i onoff pmr) k = None" "bucket_map fi NVME_BLOCKCONF_KNOBS i k = None" "k \<in> set foreign_keys"
proof -
  have "list_all (\<lambda>k. k \<notin> set ctrl_keys \<and> k \<notin> set (map snd NVME_BLOCKCONF_KNOBS) \<and> k \<in> set foreign_keys) ns_keys"
    by code_simp
  from bspec [OF this [unfolded list_all_iff] assms] have other: "k \<notin> set ctrl_keys" "k \<notin> set (map snd NVME_BLOCKCONF_KNOBS)" "k \<in> set foreign_keys"
    by iprover+
  then show "dict_get (nvme_ctrl fi i onoff pmr) k = None" "bucket_map fi NVME_BLOCKCONF_KNOBS i k = None" "k \<in> set foreign_keys"
    by (auto intro: ctrl_at bucket_map_other)
qed

definition ctrl_only :: "string list" where "ctrl_only = [''legacy-cmb'', ''cmb_size_mb'', ''pmr'']"

lemma ctrl_only_elsewhere:
  assumes "k \<in> set ctrl_only"
  shows "bucket_map fi NVME_BLOCKCONF_KNOBS i k = None" "k \<in> set foreign_keys" "k \<noteq> ''namespaces''" "k \<noteq> ''serial''"
proof -
  have "list_all (\<lambda>k. k \<notin> set (map snd NVME_BLOCKCONF_KNOBS) \<and> k \<in> set foreign_keys \<and> k \<noteq> ''namespaces'' \<and> k \<noteq> ''serial'') ctrl_only"
    by code_simp
  from bspec [OF this [unfolded list_all_iff] assms]
  have other: "k \<notin> set (map snd NVME_BLOCKCONF_KNOBS)" "k \<in> set foreign_keys" "k \<noteq> ''namespaces''" "k \<noteq> ''serial''"
    by iprover+
  then show "bucket_map fi NVME_BLOCKCONF_KNOBS i k = None" "k \<in> set foreign_keys" "k \<noteq> ''namespaces''" "k \<noteq> ''serial''"
    by (auto intro: bucket_map_other)
qed

lemma namespaces_foreign: "''namespaces'' \<in> set foreign_keys"
  by (simp add: foreign_keys_def)

lemma merged_foreign: "parts_ok i base backend \<Longrightarrow> k \<in> set foreign_keys \<Longrightarrow> merged base backend k = None"
  by (simp add: parts_ok_def merged_def)

lemma flat_at:
  assumes "parts_ok i base backend" "bucket_map fi NVME_BLOCKCONF_KNOBS i k = None"
  shows "dict_get (dict_merge (dict_merge (dict_merge base backend) (nvme_ctrl fi i onoff pmr)) (bucket fi NVME_BLOCKCONF_KNOBS i)) k
    = (case dict_get (nvme_ctrl fi i onoff pmr) k of None \<Rightarrow> merged base backend k | Some v \<Rightarrow> Some v)"
  using assms by (simp add: map_of_merge parts_ok_def merged_def map_add_def split: option.split)

lemma distinct_merge: "distinct (keys d) \<Longrightarrow> distinct (keys (dict_merge d e))"
  unfolding dict_merge_def by (induction e arbitrary: d) (auto split: prod.split)

lemma assembled:
  assumes parts: "parts_ok i base backend"
  shows "\<exists>d. assemble base backend (nvme_ctrl fi i onoff pmr) (nvme_ns fi i) (bucket fi NVME_BLOCKCONF_KNOBS i) = JObj d
    \<and> dict_get d ''serial'' = Some (serial_of i)
    \<and> (\<forall>k\<in>set backing_keys. dict_get (backing d) k = merged base backend k)
    \<and> (\<forall>k\<in>set ctrl_only. dict_get d k = dict_get (nvme_ctrl fi i onoff pmr) k)
    \<and> (dict_get d ''namespaces'' = None \<longrightarrow> (\<forall>k\<in>set ns_keys. dict_get d k = None))
    \<and> (dict_get d ''namespaces'' \<noteq> None \<longrightarrow> dict_get (backing d) ''serial'' = None \<and> dict_get d ''file'' = None)"
proof (cases "nvme_ns fi i = []")
  case True
  let ?d = "dict_merge (dict_merge (dict_merge base backend) (nvme_ctrl fi i onoff pmr)) (bucket fi NVME_BLOCKCONF_KNOBS i)"
  have "dict_get ?d ''namespaces'' = None"
    using flat_at [OF parts] ns_elsewhere merged_foreign [OF parts namespaces_foreign] by simp
  moreover have "dict_get ?d ''serial'' = Some (serial_of i)"
    using flat_at [OF parts] ns_elsewhere parts by (simp add: merged_def parts_ok_def map_add_def)
  moreover have "dict_get ?d k = merged base backend k" if "k \<in> set backing_keys" for k
    using flat_at [OF parts] backing_key_elsewhere [OF that] by simp
  moreover have "dict_get ?d k = dict_get (nvme_ctrl fi i onoff pmr) k" if "k \<in> set ctrl_only" for k
    using flat_at [OF parts] ctrl_only_elsewhere [OF that] merged_foreign [OF parts] by (simp split: option.splits)
  moreover have "dict_get ?d k = None" if "k \<in> set ns_keys" for k
    using flat_at [OF parts] ns_key_elsewhere [OF that] merged_foreign [OF parts] by simp
  moreover have "assemble base backend (nvme_ctrl fi i onoff pmr) (nvme_ns fi i) (bucket fi NVME_BLOCKCONF_KNOBS i) = JObj ?d"
    by (simp add: assemble_def True)
  ultimately show ?thesis by (intro exI [of _ ?d]) (simp add: backing_def)
next
  case False
  let ?n = "dict_merge (dict_merge (dict_merge (dict_del ''serial'' base) backend) (bucket fi NVME_BLOCKCONF_KNOBS i)) (nvme_ns fi i)"
  let ?d = "dict_set ''namespaces'' (JList [JObj ?n]) (dict_merge [(''serial'', the (dict_get base ''serial''))] (nvme_ctrl fi i onoff pmr))"
  have n: "dict_get ?n k = (case dict_get (nvme_ns fi i) k of Some v \<Rightarrow> Some v | None \<Rightarrow>
      (case bucket_map fi NVME_BLOCKCONF_KNOBS i k of Some v \<Rightarrow> Some v | None \<Rightarrow>
        (case dict_get backend k of Some v \<Rightarrow> Some v | None \<Rightarrow> if k = ''serial'' then None else dict_get base k)))" for k
    using parts by (auto simp: map_of_merge parts_ok_def map_add_def split: option.split)
  have d: "dict_get ?d k = (if k = ''namespaces'' then Some (JList [JObj ?n]) else
      (case dict_get (nvme_ctrl fi i onoff pmr) k of Some v \<Rightarrow> Some v
       | None \<Rightarrow> if k = ''serial'' then Some (serial_of i) else None))" for k
    using parts by (auto simp: map_of_merge parts_ok_def map_add_def split: option.split)
  have behind: "backing ?d = ?n" by (simp add: backing_def)
  have 1: "dict_get ?d ''serial'' = Some (serial_of i)" using ns_elsewhere unfolding d by simp
  have 2: "dict_get (backing ?d) k = merged base backend k" if "k \<in> set backing_keys" for k
    unfolding behind n using backing_key_elsewhere [OF that] by (simp add: merged_def map_add_def split: option.split)
  have 3: "dict_get ?d k = dict_get (nvme_ctrl fi i onoff pmr) k" if "k \<in> set ctrl_only" for k
    using ctrl_only_elsewhere [OF that] unfolding d by (simp split: option.split)
  have 4: "dict_get (backing ?d) ''serial'' = None" unfolding behind n using ns_elsewhere parts by (simp add: parts_ok_def)
  have 5: "dict_get ?d ''file'' = None" using ns_elsewhere unfolding d by simp
  have 6: "dict_get ?d ''namespaces'' \<noteq> None" unfolding d by simp
  have 7: "assemble base backend (nvme_ctrl fi i onoff pmr) (nvme_ns fi i) (bucket fi NVME_BLOCKCONF_KNOBS i) = JObj ?d"
    by (simp add: assemble_def False)
  show ?thesis
    by (intro exI [of _ ?d] conjI ballI impI 1 4 5 7) (erule 2, erule 3, erule notE [OF 6])
qed

section \<open>What QEMU accepts\<close>

text \<open>A region is a power of two, at least a page, and persistent only when it is shared.\<close>

definition pmr_ok :: "int \<Rightarrow> json \<Rightarrow> bool" where
  "pmr_ok page p = (\<exists>size. jget [''size''] p = Some (JInt size) \<and> is_pow2 size \<and> page \<le> size
     \<and> (jget [''pmem''] p \<noteq> None \<longrightarrow> jget [''share''] p = None))"

definition backing_ok :: "nat \<Rightarrow> (string \<Rightarrow> json option) \<Rightarrow> bool" where
  "backing_ok i b =
     ((case b ''driver'' of
         Some v \<Rightarrow> (\<exists>s\<in>set NVME_NULL_DRIVERS. v = JStr s) \<and> b ''file'' = None \<and> b ''read-zeroes'' \<noteq> None
       | None \<Rightarrow> (\<exists>fmt. fmt \<noteq> [] \<and> b ''format'' = Some (JStr fmt)
           \<and> b ''file'' = Some (JStr (''nvme'' @ show_nat i @ ''.'' @ fmt))))
      \<and> (is_str (b ''detect-zeroes'') ''unmap'' \<longrightarrow> is_str (b ''discard'') ''unmap'')
      \<and> (is_str (b ''aio'') ''native'' \<longrightarrow> list_ex (is_str (b ''cache'')) CACHE_DIRECT))"

fun drive_ok :: "int \<Rightarrow> nat \<Rightarrow> json \<Rightarrow> bool" where
  "drive_ok page i (JObj d) =
     (dict_get d ''serial'' = Some (serial_of i)
      \<and> backing_ok i (dict_get (backing d))
      \<and> (dict_get d ''namespaces'' = None \<longrightarrow> (\<forall>k\<in>set ns_keys. dict_get d k = None))
      \<and> (dict_get d ''namespaces'' \<noteq> None \<longrightarrow> dict_get (backing d) ''serial'' = None \<and> dict_get d ''file'' = None)
      \<and> (dict_get d ''legacy-cmb'' \<noteq> None \<longrightarrow> (\<exists>s. dict_get d ''cmb_size_mb'' = Some (JStr s) \<and> s \<noteq> [] \<and> s \<noteq> ''0''))
      \<and> (\<forall>p. dict_get d ''pmr'' = Some p \<longrightarrow> pmr_ok page p))"
| "drive_ok page i _ = False"

lemma backing_ok_cong:
  assumes "\<forall>k\<in>set backing_keys. b k = c k"
  shows "backing_ok i b = backing_ok i c"
proof -
  have "b ''driver'' = c ''driver''" "b ''file'' = c ''file''" "b ''format'' = c ''format''" "b ''read-zeroes'' = c ''read-zeroes''"
    "b ''detect-zeroes'' = c ''detect-zeroes''" "b ''discard'' = c ''discard''" "b ''aio'' = c ''aio''" "b ''cache'' = c ''cache''"
    using assms by (simp_all add: backing_keys_def)
  then show ?thesis by (simp only: backing_ok_def)
qed

lemma null_backing_ok:
  assumes "driver \<in> set NVME_NULL_DRIVERS"
  shows "backing_ok i (merged (fst (null_backend fi driver i)) (snd (null_backend fi driver i)))"
proof -
  let ?f = "dict_get (fst (null_backend fi driver i))" and ?s = "dict_get (snd (null_backend fi driver i))"
  have none: "?s ''driver'' = None" "?s ''file'' = None" "?s ''detect-zeroes'' = None" "?s ''aio'' = None"
    "?f ''file'' = None" "?f ''detect-zeroes'' = None" "?f ''aio'' = None"
  proof -
    have "bucket_map fi NVME_NULL_KNOBS i ''driver'' = None" "bucket_map fi NVME_NULL_KNOBS i ''file'' = None"
      "bucket_map fi NVME_NULL_KNOBS i ''detect-zeroes'' = None" "bucket_map fi NVME_NULL_KNOBS i ''aio'' = None"
      by (rule bucket_map_other, simp add: table_defs)+
    then show "?s ''driver'' = None" "?s ''file'' = None" "?s ''detect-zeroes'' = None" "?s ''aio'' = None"
      "?f ''file'' = None" "?f ''detect-zeroes'' = None" "?f ''aio'' = None"
      by (simp_all add: null_backend_def Let_def map_of_set_if)
  qed
  have "?f ''driver'' = Some (JStr driver)" by (simp add: null_backend_def map_of_set_if)
  moreover have "?s ''read-zeroes'' \<noteq> None" by (simp add: null_backend_def Let_def map_of_set_if)
  ultimately show ?thesis
    using none assms by (auto simp: backing_ok_def merged_def map_add_def is_str_def split: option.split)
qed

lemma file_backing_ok:
  assumes "file_backend fi i = Inr (base, backend)"
  shows "backing_ok i (merged base backend)"
proof -
  let ?b = "bucket_map fi NVME_BACKEND_KNOBS i"
  have none: "?b ''driver'' = None" "?b ''file'' = None" "?b ''format'' = None"
    by (rule bucket_map_other, simp add: table_defs)+
  obtain fmt where fmt: "fmt \<noteq> []"
    and base: "base = [(''file'', JStr (''nvme'' @ show_nat i @ ''.'' @ fmt)), (''format'', JStr fmt), (''serial'', serial_of i)]"
    using file_backend_parts(3) [OF assms] by blast
  have knobs: "backend = bucket fi NVME_BACKEND_KNOBS i" by (rule file_backend_parts(1) [OF assms])
  have "\<not> (is_str (?b ''detect-zeroes'') ''unmap'' \<and> \<not> is_str (?b ''discard'') ''unmap'')"
    "\<not> (is_str (?b ''aio'') ''native'' \<and> \<not> list_ex (is_str (?b ''cache'')) CACHE_DIRECT)"
    using assms by (auto simp: file_backend_def Let_def split: if_splits)
  moreover have "merged base backend k = ?b k" if "k \<in> {''detect-zeroes'', ''discard'', ''aio'', ''cache''}" for k
    using that by (auto simp: merged_def base knobs map_add_def split: option.split)
  moreover have "merged base backend ''driver'' = None" "merged base backend ''format'' = Some (JStr fmt)"
    "merged base backend ''file'' = Some (JStr (''nvme'' @ show_nat i @ ''.'' @ fmt))"
    using none by (simp_all add: merged_def base knobs map_add_def)
  ultimately show ?thesis using fmt by (simp add: backing_ok_def)
qed

lemma nvme_pmr_ok: "0 < page \<Longrightarrow> nvme_pmr page fi i = Inr (Some p) \<Longrightarrow> pmr_ok page p"
  using pow2_test by (auto simp: nvme_pmr_def pmr_ok_def Let_def set_if_def split: if_splits option.splits)

lemma ctrl_knobs_free: "bucket_map fi NVME_CTRL_KNOBS i ''legacy-cmb'' = None" "bucket_map fi NVME_CTRL_KNOBS i ''pmr'' = None"
  by (rule bucket_map_other, simp add: table_defs)+

lemma ctrl_cmb:
  "dict_get (nvme_ctrl fi i onoff pmr) ''legacy-cmb'' \<noteq> None \<Longrightarrow>
    \<exists>s. dict_get (nvme_ctrl fi i onoff pmr) ''cmb_size_mb'' = Some (JStr s) \<and> s \<noteq> [] \<and> s \<noteq> ''0''"
  using ctrl_knobs_free(1) [of fi i] by (simp add: nvme_ctrl_def Let_def map_of_set_if split: if_splits)

lemma ctrl_pmr: "dict_get (nvme_ctrl fi i onoff pmr) ''pmr'' = pmr"
  using ctrl_knobs_free(2) [of fi i] by (simp add: nvme_ctrl_def Let_def map_of_set_if)

section \<open>Properties\<close>

lemma drive_parts:
  assumes "nvme_drive page fi i = Inr d"
  obtains base backend onoff pmr where "parts_ok i base backend" "backing_ok i (merged base backend)"
    "nvme_pmr page fi i = Inr pmr"
    "d = assemble base backend (nvme_ctrl fi i onoff pmr) (nvme_ns fi i) (bucket fi NVME_BLOCKCONF_KNOBS i)"
proof -
  let ?driver = "knob fi ''driver'' i"
  have known: "\<not> (?driver \<noteq> [] \<and> ?driver \<notin> set NVME_NULL_DRIVERS)"
    using assms by (auto simp: nvme_drive_def Let_def split: if_splits)
  let ?parts = "if ?driver \<noteq> [] then Inr (null_backend fi ?driver i) else file_backend fi i"
  have "andthen ?parts (\<lambda>(base, backend).
       andthen (drive_onoff (dict_get (nv_knobs fi) ''ioeventfd'') i True) (\<lambda>ioeventfd.
       andthen (nvme_pmr page fi i) (\<lambda>pmr.
       Inr (assemble base backend (nvme_ctrl fi i ioeventfd pmr) (nvme_ns fi i) (bucket fi NVME_BLOCKCONF_KNOBS i))))) = Inr d"
    using assms unfolding nvme_drive_def Let_def if_not_P [OF known] .
  then obtain base backend onoff pmr where parts: "?parts = Inr (base, backend)"
    and pmr: "nvme_pmr page fi i = Inr pmr"
    and d: "d = assemble base backend (nvme_ctrl fi i onoff pmr) (nvme_ns fi i) (bucket fi NVME_BLOCKCONF_KNOBS i)"
    by (simp only: andthen_Inr split_paired_Ex split_conv sum.inject) blast
  show ?thesis
  proof (cases "?driver = []")
    case True
    then have "file_backend fi i = Inr (base, backend)" using parts by simp
    from file_backend_parts(2) [OF this] file_backing_ok [OF this] show ?thesis by (rule that) (rule pmr d)+
  next
    case False
    then have "base = fst (null_backend fi ?driver i)" "backend = snd (null_backend fi ?driver i)" using parts by (metis prod.collapse prod.inject sum.inject(2))+
    moreover have "?driver \<in> set NVME_NULL_DRIVERS" using known False by blast
    ultimately show ?thesis using null_parts null_backing_ok pmr d that by metis
  qed
qed

lemma nvme_drive_ok:
  assumes "0 < page" "nvme_drive page fi i = Inr d"
  shows "drive_ok page i d"
  using assms(2)
proof (rule drive_parts)
  fix base backend onoff pmr
  assume parts: "parts_ok i base backend" and backing: "backing_ok i (merged base backend)" and pmr: "nvme_pmr page fi i = Inr pmr"
    and d: "d = assemble base backend (nvme_ctrl fi i onoff pmr) (nvme_ns fi i) (bucket fi NVME_BLOCKCONF_KNOBS i)"
  from assembled [OF parts, of fi onoff pmr] obtain m where m: "d = JObj m" "dict_get m ''serial'' = Some (serial_of i)"
    and back_at: "\<forall>k\<in>set backing_keys. dict_get (backing m) k = merged base backend k"
    and ctrl: "\<forall>k\<in>set ctrl_only. dict_get m k = dict_get (nvme_ctrl fi i onoff pmr) k"
    and flat: "dict_get m ''namespaces'' = None \<longrightarrow> (\<forall>k\<in>set ns_keys. dict_get m k = None)"
    and explicit: "dict_get m ''namespaces'' \<noteq> None \<longrightarrow> dict_get (backing m) ''serial'' = None \<and> dict_get m ''file'' = None"
    by (elim exE conjE) (rule that, unfold d, assumption+)
  have "backing_ok i (dict_get (backing m))" using backing backing_ok_cong [OF back_at] by simp
  moreover have keys: "dict_get m ''legacy-cmb'' = dict_get (nvme_ctrl fi i onoff pmr) ''legacy-cmb''"
    "dict_get m ''cmb_size_mb'' = dict_get (nvme_ctrl fi i onoff pmr) ''cmb_size_mb''" "dict_get m ''pmr'' = pmr"
    using ctrl ctrl_pmr by (simp_all add: ctrl_only_def)
  moreover have "pmr_ok page p" if "pmr = Some p" for p
    using nvme_pmr_ok [OF assms(1)] pmr that by simp
  ultimately show ?thesis using m(2) flat explicit ctrl_cmb [of fi i onoff pmr] by (simp only: m(1) drive_ok.simps) blast
qed


definition demo_nvme :: nvme_in where
  "demo_nvme =
     \<lparr>nv_drives = [], nv_count = 2, nv_size_gb = 10,
      nv_knobs = [(''aio'', ''native,''), (''cache'', ''none''), (''driver'', '',null-co''), (''atomic_nawun'', '',7''),
        (''pmr_size'', ''16,0''), (''cmb_size_mb'', ''64'')],
      nv_atomic_dn = False, nv_atomic_mam = False, nv_legacy_cmb = True, nv_pmr_share = True, nv_pmr_pmem = True\<rparr>"


text \<open>The inputs the code refuses, drive by drive.\<close>

definition drive_bad :: "int \<Rightarrow> nvme_in \<Rightarrow> nat \<Rightarrow> bool" where
  "drive_bad page fi i =
     (let driver = knob fi ''driver'' i; onoff = lower (knob fi ''ioeventfd'' i); pmr = knob fi ''pmr_size'' i in
      driver \<noteq> [] \<and> driver \<notin> set NVME_NULL_DRIVERS
      \<or> driver = [] \<and> knob fi ''detect_zeroes'' i = ''unmap'' \<and> knob fi ''discard'' i \<noteq> ''unmap''
      \<or> driver = [] \<and> knob fi ''aio'' i = ''native'' \<and> knob fi ''cache'' i \<notin> set CACHE_DIRECT
      \<or> onoff \<noteq> [] \<and> onoff \<notin> set (TRUE_WORDS @ FALSE_WORDS)
      \<or> pmr \<noteq> [] \<and> (case py_int pmr of
           None \<Rightarrow> True
         | Some n \<Rightarrow> n \<noteq> 0 \<and> (\<not> (is_pow2 n \<and> page \<le> n) \<or> nv_pmr_pmem fi \<and> \<not> nv_pmr_share fi)))"

lemma file_refused:
  "file_backend fi i = Inl e \<longleftrightarrow> e = ValueError
    \<and> (knob fi ''detect_zeroes'' i = ''unmap'' \<and> knob fi ''discard'' i \<noteq> ''unmap''
       \<or> knob fi ''aio'' i = ''native'' \<and> knob fi ''cache'' i \<notin> set CACHE_DIRECT)"
proof -
  have "is_str (bucket_map fi NVME_BACKEND_KNOBS i ''detect-zeroes'') ''unmap'' = (knob fi ''detect_zeroes'' i = ''unmap'')"
    "is_str (bucket_map fi NVME_BACKEND_KNOBS i ''discard'') ''unmap'' = (knob fi ''discard'' i = ''unmap'')"
    "is_str (bucket_map fi NVME_BACKEND_KNOBS i ''aio'') ''native'' = (knob fi ''aio'' i = ''native'')"
    "list_ex (is_str (bucket_map fi NVME_BACKEND_KNOBS i ''cache'')) CACHE_DIRECT = (knob fi ''cache'' i \<in> set CACHE_DIRECT)"
    by (auto simp: bucket_map_def params_of_def NVME_BACKEND_KNOBS_def is_str_def CACHE_DIRECT_def)
  then show ?thesis by (auto simp: file_backend_def Let_def)
qed

lemma onoff_refused:
  "drive_onoff raw i dflt = Inl e \<longleftrightarrow> e = ValueError
    \<and> lower (drive_pick raw i) \<noteq> [] \<and> lower (drive_pick raw i) \<notin> set (TRUE_WORDS @ FALSE_WORDS)"
  by (auto simp: drive_onoff_def Let_def)

lemma pmr_refused:
  assumes "0 < page"
  shows "nvme_pmr page fi i = Inl e \<longleftrightarrow> e = ValueError \<and> knob fi ''pmr_size'' i \<noteq> []
    \<and> (case py_int (knob fi ''pmr_size'' i) of None \<Rightarrow> True
       | Some n \<Rightarrow> n \<noteq> 0 \<and> (\<not> (is_pow2 n \<and> page \<le> n) \<or> nv_pmr_pmem fi \<and> \<not> nv_pmr_share fi))"
proof -
  have "(n AND (n - 1) \<noteq> 0 \<or> n < page) = (\<not> (is_pow2 n \<and> page \<le> n))" for n
    using pow2_test [of n] assms by (cases "0 < n") auto
  then show ?thesis by (auto simp: nvme_pmr_def Let_def split: option.split if_splits)
qed

lemma andthen_Inl: "andthen r f = Inl e \<longleftrightarrow> r = Inl e \<or> (\<exists>x. r = Inr x \<and> f x = Inl e)"
  by (cases r) auto

lemma two_errors:
  assumes "\<And>e. r = Inl e \<Longrightarrow> e = err" "\<And>e. q = Inl e \<Longrightarrow> e = err"
  shows "andthen r (\<lambda>x. andthen q (\<lambda>y. Inr (g x y))) = Inl e \<longleftrightarrow> e = err \<and> (r = Inl err \<or> q = Inl err)"
  using assms by (cases r; cases q) auto

lemma nvme_drive_refused:
  assumes "0 < page"
  shows "nvme_drive page fi i = Inl e \<longleftrightarrow> e = ValueError \<and> drive_bad page fi i"
proof -
  let ?driver = "knob fi ''driver'' i"
  let ?parts = "if ?driver \<noteq> [] then Inr (null_backend fi ?driver i) else file_backend fi i"
  let ?rest = "\<lambda>(base, backend).
       andthen (drive_onoff (dict_get (nv_knobs fi) ''ioeventfd'') i True) (\<lambda>ioeventfd.
       andthen (nvme_pmr page fi i) (\<lambda>pmr.
       Inr (assemble base backend (nvme_ctrl fi i ioeventfd pmr) (nvme_ns fi i) (bucket fi NVME_BLOCKCONF_KNOBS i))))"
  have rest: "?rest p = Inl e \<longleftrightarrow> e = ValueError
      \<and> (drive_onoff (dict_get (nv_knobs fi) ''ioeventfd'') i True = Inl ValueError \<or> nvme_pmr page fi i = Inl ValueError)" for p
    unfolding split_beta by (rule two_errors) (simp_all only: onoff_refused pmr_refused [OF assms])
  show ?thesis
  proof (cases "?driver \<noteq> [] \<and> ?driver \<notin> set NVME_NULL_DRIVERS")
    case True
    then show ?thesis by (auto simp: nvme_drive_def drive_bad_def Let_def)
  next
    case False
    then have "nvme_drive page fi i = andthen ?parts ?rest" by (simp only: nvme_drive_def Let_def if_False)
    then have "nvme_drive page fi i = Inl e \<longleftrightarrow> ?parts = Inl e \<or> (\<exists>p. ?parts = Inr p) \<and> e = ValueError
      \<and> (drive_onoff (dict_get (nv_knobs fi) ''ioeventfd'') i True = Inl ValueError \<or> nvme_pmr page fi i = Inl ValueError)"
      by (simp only: andthen_Inl rest) blast
    also have "\<dots> \<longleftrightarrow> e = ValueError \<and> (?parts = Inl ValueError
      \<or> drive_onoff (dict_get (nv_knobs fi) ''ioeventfd'') i True = Inl ValueError \<or> nvme_pmr page fi i = Inl ValueError)"
      using file_refused [of fi i] by (cases ?parts) (auto split: if_splits)
    also have "\<dots> \<longleftrightarrow> e = ValueError \<and> drive_bad page fi i"
      using False unfolding onoff_refused pmr_refused [OF assms] drive_bad_def Let_def
      by (cases "?driver = []") (auto simp: file_refused)
    finally show ?thesis .
  qed
qed

lemma traverse_Inl:
  "(\<And>x e. f x = Inl e \<longleftrightarrow> e = err \<and> bad x) \<Longrightarrow> traverse f xs = Inl e \<longleftrightarrow> e = err \<and> list_ex bad xs"
proof (induction xs)
  case (Cons x xs)
  show ?case
  proof (cases "f x")
    case (Inl a)
    then have "a = err \<and> bad x" using Cons.prems [of x a] by simp
    with Inl show ?thesis by auto
  next
    case (Inr y)
    then have "\<not> bad x" using Cons.prems [of x err] by simp
    moreover have "traverse f (x # xs) = Inl e \<longleftrightarrow> traverse f xs = Inl e" using Inr by (auto split: sum.splits)
    ultimately show ?thesis using Cons.IH [OF Cons.prems] by simp
  qed
qed simp

text \<open>
  The code refuses exactly what it means to refuse: without an explicit list, it raises (and then
  \<open>ValueError\<close>) if and only if one of the drives asked for has an unknown driver, a file that unmaps
  zeroes without discarding, \<open>aio=native\<close> without a direct cache, an \<open>ioeventfd\<close> that is neither on nor off,
  or a memory region that is no number, no power of two of at least a page, or persistent without being
  shared. No drive index past the count is looked at, and nothing else is refused.
\<close>

theorem nvme_rejects:
  assumes "0 < page" "nv_drives fi = []"
  shows "nvme_drives page fi = Inl e \<longleftrightarrow> e = ValueError \<and> (\<exists>i < nat (nv_count fi). drive_bad page fi i)"
  using traverse_Inl [where f = "nvme_drive page fi" and bad = "drive_bad page fi" and err = ValueError
      and xs = "[0..<nat (nv_count fi)]", OF nvme_drive_refused [OF assms(1)]] assms(2)
  by (auto simp: nvme_drives_def list_ex_iff)

theorem nvme_rejects_witness:
  "nvme_drives 16 (demo_nvme\<lparr>nv_pmr_share := False\<rparr>) = Inl ValueError"
proof -
  have "drive_bad 16 (demo_nvme\<lparr>nv_pmr_share := False\<rparr>) 0" "0 < nat (nv_count (demo_nvme\<lparr>nv_pmr_share := False\<rparr>))"
    by code_simp+
  then show ?thesis
    using nvme_rejects [of 16 "demo_nvme\<lparr>nv_pmr_share := False\<rparr>" ValueError] by (auto simp: demo_nvme_def)
qed

end
