(* ===== verification/Qsu.thy ===== *)
theory Qsu
  imports Nvme Selftests FstestsRun Effects
begin

text \<open>
  Composing a guest: \<open>f/qsu/common.py\<close> and the binary choice of \<open>f/qsu/binaries.py\<close>. From the form's fields
  and the manifests of the kernel and closure builds, \<open>build_vars\<close> makes the variables every qsu template
  reads: shares, drives (\<open>Nvme\<close>), kernel, ports. Rendering the templates (jinja2, vendored) is not modelled.

  A field is \<open>None\<close> where the form has none; where the code only asks for its truth value, an empty one
  counts the same. The SHA-256 digest and the paths Nix builds are parameters.
\<close>

section \<open>Names\<close>

definition CANONICAL_SHARE_TAGS :: "string list" where
  "CANONICAL_SHARE_TAGS =
     [''store'', ''modules'', ''data-configs'', ''data-results'', ''kdevops-fstests'', ''fstests'', ''selftests'',
      ''usertests'', ''blktests'', ''home'', ''controller-share'']"

definition some_text :: "string option \<Rightarrow> string" where
  "some_text v = (case v of None \<Rightarrow> [] | Some s \<Rightarrow> s)"

text \<open>\<open>a or b or \<dots>\<close>, where only the truth value of the last one matters.\<close>

fun first_set :: "string option list \<Rightarrow> string option" where
  "first_set [] = None"
| "first_set (v # vs) = (if some_text v \<noteq> [] then v else first_set vs)"

definition resolve_vm_name :: "environ \<Rightarrow> bool \<Rightarrow> string option \<Rightarrow> string result" where
  "resolve_vm_name env auto vm_name =
     (let jid = some_text (dict_get env ''WM_ROOT_FLOW_JOB_ID'') in
      if auto \<and> jid \<noteq> [] then Inr (''vm-'' @ hd (split_chr (CHR ''-'') jid))
      else (case vm_name of None \<Rightarrow> Inl KeyError | Some n \<Rightarrow> Inr n))"

definition systemd_config :: "environ \<Rightarrow> path \<Rightarrow> path option \<Rightarrow> path" where
  "systemd_config env user_home home =
     (let xdg = some_text (dict_get env ''XDG_CONFIG_HOME'') in
      (case home of Some h \<Rightarrow> h | None \<Rightarrow> if xdg \<noteq> [] then parts xdg else user_home @ [''.config'']) @ [''systemd''])"

definition state_dir :: "environ \<Rightarrow> path \<Rightarrow> string \<Rightarrow> path" where
  "state_dir env user_home vm_name =
     (let xdg = some_text (dict_get env ''XDG_STATE_HOME'') in
      path_join ((if xdg \<noteq> [] then parts xdg else user_home @ [''.local'', ''state'']) @ [''qemu-system'']) vm_name)"

text \<open>\<open>write_unit\<close>: an identical file keeps its time stamp.\<close>

definition write_unit :: "path \<Rightarrow> string \<Rightarrow> unit prog" where
  "write_unit p content =
     bind (act (Mkdir (butlast p))) (\<lambda>_.
     bind (catch (bind (read_text p) (\<lambda>old. Ret (old = content))) (\<lambda>_. Ret False)) (\<lambda>same.
     only_if (\<not> same) (act (WriteText p content))))"

section \<open>The guests there are\<close>

definition VM_UNIT_PREFIX :: string where "VM_UNIT_PREFIX = ''qemu-system@''"
definition VM_UNIT_SUFFIX :: string where "VM_UNIT_SUFFIX = ''.service''"

definition is_vm_unit :: "string \<Rightarrow> bool" where
  "is_vm_unit tok = (prefix VM_UNIT_PREFIX tok \<and> suffix VM_UNIT_SUFFIX tok)"

definition vm_of_unit :: "string \<Rightarrow> string" where
  "vm_of_unit tok = drop (length VM_UNIT_PREFIX) (take (length tok - length VM_UNIT_SUFFIX) tok)"

text \<open>The set is a list here, in the order of the lines.\<close>

definition running_vms :: "string \<Rightarrow> string list" where
  "running_vms text =
     List.map_filter (\<lambda>line. map_option vm_of_unit (find is_vm_unit (split_ws line))) (splitlines text)"

definition sorted_set :: "string list \<Rightarrow> string list" where
  "sorted_set xs = sort (remdups xs)"

definition peer_options ::
  "string \<Rightarrow> (string \<times> string) list \<times> string list \<Rightarrow> string \<times> string \<Rightarrow> (string \<times> string) list \<times> string list" where
  "peer_options ft acc p =
     (case p of (peer, remote) \<Rightarrow>
       foldl (\<lambda>(options, seen) vm.
           if vm \<notin> set seen \<and> contains ft (lower vm)
           then (options @ [(vm @ '' ('' @ peer @ '')'', vm)], vm # seen) else (options, seen))
         acc (sorted_set (running_vms remote)))"

text \<open>
  The pairs of label and value: \<open>local_units\<close> is what the local manager lists, \<open>rendered\<close> the guests with an
  env file, \<open>remotes\<close> what each registered peer lists (empty when it cannot be reached).
\<close>

definition vm_options :: "string \<Rightarrow> string list \<Rightarrow> (string \<times> string) list \<Rightarrow> string \<Rightarrow> (string \<times> string) list" where
  "vm_options local_units rendered remotes filter_text =
     (let ft = lower filter_text;
          options = map (\<lambda>vm. (vm, vm))
            (filter (\<lambda>vm. contains ft (lower vm)) (sorted_set (running_vms local_units @ rendered))) in
      fst (foldl (peer_options ft) (options, map snd options) remotes))"

section \<open>Inputs\<close>

record vm_in =
  q_vm_name :: "string option"
  q_service_scope :: string
  q_qemu_source :: string
  q_qemu_binary :: "string option"
  q_custom_virtiofsd :: bool
  q_virtiofsd_binary :: "string option"
  q_cpu :: string
  q_accel :: string
  q_ram :: int
  q_cpus :: int
  q_machine_type :: string
  q_share_transport :: string
  q_vm_index :: int
  q_ssh_port :: int
  q_ssh_port_base :: int
  q_vsock_cid :: int
  q_vsock_cid_base :: int
  q_shares :: "json list"
  q_suites :: "string list"
  q_home_share :: bool
  q_home_readwrite :: bool
  q_controller_share :: bool
  q_controller_tag :: "string option"
  q_controller_dir :: "string option"
  q_controller_mount :: "string option"
  q_controller_readwrite :: bool
  q_kernel_image :: "string option"
  q_modules_dir :: "string option"
  q_closure_init :: "string option"
  q_kernel_append :: "string option"
  q_kernel_parameters :: "string list"
  q_extra_kernel_parameters :: "string option"
  q_kernel_initrd :: "string option"
  q_nvme :: nvme_in
  q_iommu :: "string option"
  q_extra_qemu_args :: "string option"

record kernel_manifest =
  km_vmlinuz :: "string option"
  km_bzImage :: "string option"
  km_modules_dir :: "string option"
  km_modules :: "string option"
  km_initrd :: "string option"

record closure_manifest =
  cm_init :: "string option"
  cm_initrd :: "string option"

definition no_kernel :: kernel_manifest where
  "no_kernel = \<lparr>km_vmlinuz = None, km_bzImage = None, km_modules_dir = None, km_modules = None, km_initrd = None\<rparr>"

definition no_closure :: closure_manifest where
  "no_closure = \<lparr>cm_init = None, cm_initrd = None\<rparr>"

section \<open>Binaries\<close>

text \<open>\<open>store_out\<close> of the package names; the path Nix gives is a parameter.\<close>

definition resolve_qemu_binary :: "(string \<Rightarrow> string) \<Rightarrow> vm_in \<Rightarrow> string result" where
  "resolve_qemu_binary store_out fi =
     (if q_qemu_source fi = ''qemu-build''
      then (if some_text (q_qemu_binary fi) = [] then Inl ValueError else Inr (some_text (q_qemu_binary fi)))
      else Inr (store_out ''qemu'' @ ''/bin/qemu-system-x86_64''))"

definition resolve_virtiofsd_binary :: "(string \<Rightarrow> string) \<Rightarrow> vm_in \<Rightarrow> string" where
  "resolve_virtiofsd_binary store_out fi =
     (if q_custom_virtiofsd fi \<and> some_text (q_virtiofsd_binary fi) \<noteq> [] then some_text (q_virtiofsd_binary fi)
      else store_out ''virtiofsd'' @ ''/bin/virtiofsd'')"

definition SUPPORTED_IOMMU :: "string list" where
  "SUPPORTED_IOMMU = [''intel-iommu'', ''amd-iommu'', ''virtio-iommu-pci'', ''arm-smmuv3'']"

section \<open>Shares\<close>

definition share :: "string \<Rightarrow> string \<Rightarrow> string \<Rightarrow> bool \<Rightarrow> json" where
  "share name dir mount readonly =
     JObj ([(''tag'', JStr name), (''dir'', JStr dir), (''mount'', JStr mount)]
       @ (if readonly then [(''options'', JList [JStr ''ro''])] else []))"

text \<open>One suite's share: \<open>q_suites\<close> are the toggles that are on.\<close>

definition suite_share :: "path \<Rightarrow> vm_in \<Rightarrow> string \<Rightarrow> string \<Rightarrow> json list result" where
  "suite_share workers fi suite mount =
     (if suite \<notin> set (q_suites fi) then Inr []
      else (let vm = some_text (q_vm_name fi) in
            if vm = [] then Inl ValueError
            else andthen (under (workers @ [''shared'', suite]) vm) (\<lambda>p. Inr [share suite (path_str p) mount False])))"

definition shares :: "path \<Rightarrow> string \<Rightarrow> vm_in \<Rightarrow> string option \<Rightarrow> json list result" where
  "shares workers home fi modules_dir =
     (if q_shares fi \<noteq> [] then Inr (q_shares fi)
      else
        andthen (suite_share workers fi ''fstests'' ''/var/lib/xfstests'') (\<lambda>fstests.
        andthen (suite_share workers fi ''selftests'' ''/var/lib/kselftests'') (\<lambda>selftests.
        andthen (suite_share workers fi ''usertests'' ''/var/lib/usertests'') (\<lambda>usertests.
        andthen (suite_share workers fi ''blktests'' ''/var/lib/blktests'') (\<lambda>blktests.
        let controller_dir = (case q_controller_dir fi of None \<Rightarrow> home | Some d \<Rightarrow> d) in
        Inr ([share ''store'' ''/nix/store'' ''/nix/store'' False]
          @ (if some_text modules_dir \<noteq> [] then [share ''modules'' (some_text modules_dir) ''/lib/modules'' False] else [])
          @ fstests @ selftests @ usertests @ blktests
          @ (if q_home_share fi then [share ''home'' home home (\<not> q_home_readwrite fi)] else [])
          @ (if q_controller_share fi
             then [share (case q_controller_tag fi of None \<Rightarrow> ''controller-share'' | Some t \<Rightarrow> t) controller_dir
               (case q_controller_mount fi of None \<Rightarrow> controller_dir | Some m \<Rightarrow> m) (\<not> q_controller_readwrite fi)]
             else [])))))))"

section \<open>The kernel\<close>

definition BASE_CMDLINE :: string where
  "BASE_CMDLINE = ''root=tmpfs console=ttyS0,115200 console=hvc0 init=''"

definition kernel_image :: "vm_in \<Rightarrow> kernel_manifest \<Rightarrow> string option" where
  "kernel_image fi kern = first_set [q_kernel_image fi, km_vmlinuz kern, km_bzImage kern]"

definition kernel_cmdline :: "vm_in \<Rightarrow> closure_manifest \<Rightarrow> string" where
  "kernel_cmdline fi closure =
     (let init = some_text (first_set [q_closure_init fi, cm_init closure]);
          base = (if some_text (q_kernel_append fi) \<noteq> [] then some_text (q_kernel_append fi)
                  else if init \<noteq> [] then BASE_CMDLINE @ init else []);
          params = join '' '' (q_kernel_parameters fi @ split_ws (some_text (q_extra_kernel_parameters fi))) in
      if params = [] then base else if base = [] then params else base @ '' '' @ params)"

definition kernel_vars :: "vm_in \<Rightarrow> kernel_manifest \<Rightarrow> closure_manifest \<Rightarrow> json option" where
  "kernel_vars fi kern closure =
     (case kernel_image fi kern of
        None \<Rightarrow> None
      | Some img \<Rightarrow>
          (let cmdline = kernel_cmdline fi closure;
               initrd = first_set [q_kernel_initrd fi, cm_initrd closure, km_initrd kern] in
           Some (JObj ([(''image'', JStr img)]
             @ (if cmdline \<noteq> [] then [(''append'', JStr cmdline)] else [])
             @ (case initrd of None \<Rightarrow> [] | Some f \<Rightarrow> [(''initrd'', JStr f)])))))"

definition modules_of :: "vm_in \<Rightarrow> kernel_manifest \<Rightarrow> string option" where
  "modules_of fi kern =
     (if some_text (q_kernel_image fi) \<noteq> [] then q_modules_dir fi
      else first_set [km_modules_dir kern, km_modules kern])"

section \<open>Ports\<close>

definition PORT_OFFSET_MODULO :: nat where "PORT_OFFSET_MODULO = 9973"

definition hex_digit_val :: "char \<Rightarrow> nat" where
  "hex_digit_val c = (if is_digit c then digit_val c else ord_of (lower_char c) - 87)"

definition read_hex :: "string \<Rightarrow> nat" where
  "read_hex s = foldl (\<lambda>n c. 16 * n + hex_digit_val c) 0 s"

definition port_offset :: "(string \<Rightarrow> string) \<Rightarrow> vm_in \<Rightarrow> int" where
  "port_offset sha fi =
     (if q_vm_index fi \<noteq> 0 then q_vm_index fi
      else int (read_hex (take 8 (sha (some_text (q_vm_name fi)))) mod PORT_OFFSET_MODULO))"

definition ssh_port :: "(string \<Rightarrow> string) \<Rightarrow> vm_in \<Rightarrow> int" where
  "ssh_port sha fi = (if q_ssh_port fi \<noteq> 0 then q_ssh_port fi else q_ssh_port_base fi + port_offset sha fi)"

definition vsock_cid :: "(string \<Rightarrow> string) \<Rightarrow> vm_in \<Rightarrow> int" where
  "vsock_cid sha fi = (if q_vsock_cid fi \<noteq> 0 then q_vsock_cid fi else q_vsock_cid_base fi + port_offset sha fi)"

section \<open>The variables\<close>

definition field :: "string \<Rightarrow> string option \<Rightarrow> (string, json) dict" where
  "field key v = (if some_text v \<noteq> [] then [(key, JStr (some_text v))] else [])"

definition build_vars ::
  "(string \<Rightarrow> string) \<Rightarrow> (string \<Rightarrow> string) \<Rightarrow> int \<Rightarrow> path \<Rightarrow> string \<Rightarrow> vm_in \<Rightarrow> kernel_manifest \<Rightarrow> closure_manifest
    \<Rightarrow> (string, json) dict result" where
  "build_vars sha store_out page workers home fi kern closure =
     (case q_vm_name fi of
        None \<Rightarrow> Inl KeyError
      | Some vm_name \<Rightarrow>
          andthen (resolve_qemu_binary store_out fi) (\<lambda>qemu.
          andthen (shares workers home fi (modules_of fi kern)) (\<lambda>ss.
          andthen (nvme_drives page (q_nvme fi)) (\<lambda>drives.
          Inr ([(''vm_name'', JStr vm_name),
                (''service_scope'', JStr (q_service_scope fi)),
                (''qemu_binary'', JStr qemu),
                (''virtiofsd_binary'', JStr (resolve_virtiofsd_binary store_out fi)),
                (''cpu'', JStr (q_cpu fi)),
                (''accel'', JStr (q_accel fi)),
                (''ram'', JInt (q_ram fi)),
                (''cpus'', JInt (q_cpus fi)),
                (''machine_type'', JStr (q_machine_type fi)),
                (''share_transport'', JStr (q_share_transport fi)),
                (''ssh_port'', JInt (ssh_port sha fi)),
                (''vsock_cid'', JInt (vsock_cid sha fi))]
            @ (if ss \<noteq> [] then [(''shares'', JList ss)] else [])
            @ (if drives \<noteq> [] then [(''nvme'', JObj [(''drives'', JList drives)])] else [])
            @ (case kernel_vars fi kern closure of None \<Rightarrow> [] | Some k \<Rightarrow> [(''kernel'', k)])
            @ field ''iommu'' (q_iommu fi)
            @ field ''extra_qemu_args'' (q_extra_qemu_args fi))))))"

section \<open>The shares that come out\<close>

text \<open>The suites with a share: where the guest mounts it, and where the suite's own steps read and write.\<close>

definition suite_table :: "path \<Rightarrow> (string \<times> string \<times> (string \<Rightarrow> path result)) list" where
  "suite_table workers =
     [(''fstests'', ''/var/lib/xfstests'', fstests_share_dir workers),
      (''selftests'', ''/var/lib/kselftests'', selftests_share_dir workers),
      (''usertests'', ''/var/lib/usertests'', usertests_share_dir workers),
      (''blktests'', ''/var/lib/blktests'', blktests_share_dir workers)]"

definition tag_of :: "json \<Rightarrow> json option" where
  "tag_of s = jget [''tag''] s"

lemma tag_share [simp]: "tag_of (share name dir mount ro) = Some (JStr name)"
  by (simp add: tag_of_def share_def)

lemma suite_share_Inr:
  assumes "suite_share workers fi suite mount = Inr ss"
  shows "if suite \<in> set (q_suites fi)
    then \<exists>p. under (workers @ [''shared'', suite]) (some_text (q_vm_name fi)) = Inr p \<and> ss = [share suite (path_str p) mount False]
    else ss = []"
  using assms by (auto simp: suite_share_def Let_def andthen_Inr split: if_splits)

lemma suite_share_tags:
  "suite_share workers fi suite mount = Inr ss \<Longrightarrow> map tag_of ss = (if suite \<in> set (q_suites fi) then [Some (JStr suite)] else [])"
  using suite_share_Inr [of workers fi suite mount ss] by (auto split: if_splits)

definition controller_tag :: "vm_in \<Rightarrow> string" where
  "controller_tag fi = (case q_controller_tag fi of None \<Rightarrow> ''controller-share'' | Some t \<Rightarrow> t)"

lemma shares_parts:
  assumes "q_shares fi = []" "shares workers home fi modules_dir = Inr ss"
  obtains a b c d dir mount where
    "suite_share workers fi ''fstests'' ''/var/lib/xfstests'' = Inr a"
    "suite_share workers fi ''selftests'' ''/var/lib/kselftests'' = Inr b"
    "suite_share workers fi ''usertests'' ''/var/lib/usertests'' = Inr c"
    "suite_share workers fi ''blktests'' ''/var/lib/blktests'' = Inr d"
    "ss = [share ''store'' ''/nix/store'' ''/nix/store'' False]
       @ (if some_text modules_dir \<noteq> [] then [share ''modules'' (some_text modules_dir) ''/lib/modules'' False] else [])
       @ a @ b @ c @ d
       @ (if q_home_share fi then [share ''home'' home home (\<not> q_home_readwrite fi)] else [])
       @ (if q_controller_share fi then [share (controller_tag fi) dir mount (\<not> q_controller_readwrite fi)] else [])"
  using assms unfolding shares_def controller_tag_def Let_def
  by (simp only: simp_thms if_False andthen_Inr sum.inject) blast

lemma shares_tags:
  assumes "q_shares fi = []" "shares workers home fi modules_dir = Inr ss"
  shows "map tag_of ss = map (Some \<circ> JStr)
    ([''store''] @ (if some_text modules_dir \<noteq> [] then [''modules''] else [])
     @ filter (\<lambda>t. t \<in> set (q_suites fi)) [''fstests'', ''selftests'', ''usertests'', ''blktests'']
     @ (if q_home_share fi then [''home''] else []) @ (if q_controller_share fi then [controller_tag fi] else []))"
  using assms
proof (rule shares_parts)
  fix a b c d dir mount
  assume parts: "suite_share workers fi ''fstests'' ''/var/lib/xfstests'' = Inr a"
    "suite_share workers fi ''selftests'' ''/var/lib/kselftests'' = Inr b"
    "suite_share workers fi ''usertests'' ''/var/lib/usertests'' = Inr c"
    "suite_share workers fi ''blktests'' ''/var/lib/blktests'' = Inr d"
    and ss: "ss = [share ''store'' ''/nix/store'' ''/nix/store'' False]
       @ (if some_text modules_dir \<noteq> [] then [share ''modules'' (some_text modules_dir) ''/lib/modules'' False] else [])
       @ a @ b @ c @ d
       @ (if q_home_share fi then [share ''home'' home home (\<not> q_home_readwrite fi)] else [])
       @ (if q_controller_share fi then [share (controller_tag fi) dir mount (\<not> q_controller_readwrite fi)] else [])"
  show ?thesis
    unfolding ss using parts [THEN suite_share_tags] by simp
qed

lemma suite_share_served:
  assumes "suite_share workers fi suite mount = Inr a" "suite \<in> set (q_suites fi)" "set a \<subseteq> set ss"
  shows "\<exists>p. under (workers @ [''shared'', suite]) (some_text (q_vm_name fi)) = Inr p
    \<and> strict_prefix (resolve_path (workers @ [''shared'', suite])) p \<and> share suite (path_str p) mount False \<in> set ss"
proof -
  obtain p where "under (workers @ [''shared'', suite]) (some_text (q_vm_name fi)) = Inr p" "a = [share suite (path_str p) mount False]"
    using suite_share_Inr [OF assms(1)] assms(2) by auto
  with under_inside assms(3) show ?thesis by auto
qed

lemma shares_served:
  assumes "q_shares fi = []" "shares workers home fi modules_dir = Inr ss"
    and "(suite, mount, share_dir) \<in> set (suite_table workers)" "suite \<in> set (q_suites fi)"
  shows "\<exists>p. share_dir (some_text (q_vm_name fi)) = Inr p
    \<and> strict_prefix (resolve_path (workers @ [''shared'', suite])) p \<and> share suite (path_str p) mount False \<in> set ss"
  using assms(1,2)
proof (rule shares_parts)
  fix a b c d dir mnt
  assume parts: "suite_share workers fi ''fstests'' ''/var/lib/xfstests'' = Inr a"
    "suite_share workers fi ''selftests'' ''/var/lib/kselftests'' = Inr b"
    "suite_share workers fi ''usertests'' ''/var/lib/usertests'' = Inr c"
    "suite_share workers fi ''blktests'' ''/var/lib/blktests'' = Inr d"
    and ss: "ss = [share ''store'' ''/nix/store'' ''/nix/store'' False]
       @ (if some_text modules_dir \<noteq> [] then [share ''modules'' (some_text modules_dir) ''/lib/modules'' False] else [])
       @ a @ b @ c @ d
       @ (if q_home_share fi then [share ''home'' home home (\<not> q_home_readwrite fi)] else [])
       @ (if q_controller_share fi then [share (controller_tag fi) dir mnt (\<not> q_controller_readwrite fi)] else [])"
  have sub: "set a \<subseteq> set ss" "set b \<subseteq> set ss" "set c \<subseteq> set ss" "set d \<subseteq> set ss" unfolding ss by auto
  note served = suite_share_served [OF parts(1) _ sub(1)] suite_share_served [OF parts(2) _ sub(2)]
    suite_share_served [OF parts(3) _ sub(3)] suite_share_served [OF parts(4) _ sub(4)]
  have "suite = ''fstests'' \<and> mount = ''/var/lib/xfstests'' \<and> share_dir = fstests_share_dir workers
    \<or> suite = ''selftests'' \<and> mount = ''/var/lib/kselftests'' \<and> share_dir = selftests_share_dir workers
    \<or> suite = ''usertests'' \<and> mount = ''/var/lib/usertests'' \<and> share_dir = usertests_share_dir workers
    \<or> suite = ''blktests'' \<and> mount = ''/var/lib/blktests'' \<and> share_dir = blktests_share_dir workers"
    using assms(3) by (simp only: suite_table_def list.set insert_iff empty_iff prod.inject simp_thms)
  then show ?thesis
    using served assms(4)
    by (elim disjE conjE) (simp_all only: fstests_share_dir_def selftests_share_dir_def usertests_share_dir_def blktests_share_dir_def simp_thms)
qed

section \<open>Properties\<close>

lemma distinct_snoc_if: "distinct xs \<Longrightarrow> x \<notin> set xs \<Longrightarrow> distinct (xs @ (if b then [x] else []))"
  by (cases b) simp_all


definition demo_vm :: vm_in where
  "demo_vm =
     \<lparr>q_vm_name = Some ''vm-1'', q_service_scope = ''user'', q_qemu_source = ''nixpkgs'', q_qemu_binary = None,
      q_custom_virtiofsd = False, q_virtiofsd_binary = None, q_cpu = ''host'', q_accel = ''kvm'', q_ram = 4096, q_cpus = 4,
      q_machine_type = ''q35'', q_share_transport = ''virtiofs'', q_vm_index = 0, q_ssh_port = 0, q_ssh_port_base = 10022,
      q_vsock_cid = 0, q_vsock_cid_base = 100, q_shares = [], q_suites = [''fstests'', ''blktests''], q_home_share = True,
      q_home_readwrite = False, q_controller_share = True, q_controller_tag = None, q_controller_dir = None,
      q_controller_mount = None, q_controller_readwrite = False, q_kernel_image = None, q_modules_dir = None,
      q_closure_init = None, q_kernel_append = None, q_kernel_parameters = [''nokaslr''], q_extra_kernel_parameters = None,
      q_kernel_initrd = None, q_nvme = demo_nvme, q_iommu = None, q_extra_qemu_args = None\<rparr>"


end
