(* ===== verification/Remote.thy ===== *)
theory Remote
  imports Wait Effects
begin

text \<open>
  The transport to a booted guest, \<open>f/common/remote.py\<close>: an \<open>ssh\<close> over vsock from the \<open>systemd\<close>
  devShell, whose remote command is one quoted string, and what the steps ask the guest's systemd and
  journal through it. Logging is left out; \<open>json.loads\<close> is the parameter \<open>loads\<close>.
\<close>

section \<open>Quoting\<close>

text \<open>\<open>shlex.quote\<close> and \<open>shlex.join\<close>.\<close>

definition shell_safe :: "char \<Rightarrow> bool" where
  "shell_safe c = (is_alnum_ascii c \<or> c \<in> set ''_@%+=:,./-'')"

definition shlex_quote :: "string \<Rightarrow> string" where
  "shlex_quote s =
     (if s = [] then [CHR 0x27, CHR 0x27]
      else if list_all shell_safe s then s
      else [CHR 0x27] @ concat (map (\<lambda>c. if c = CHR 0x27 then [CHR 0x27, CHR 0x22, CHR 0x27, CHR 0x22, CHR 0x27] else [c]) s)
           @ [CHR 0x27])"

definition shlex_join :: "string list \<Rightarrow> string" where
  "shlex_join args = join '' '' (map shlex_quote args)"

section \<open>Reaching a guest\<close>

definition CID_RE :: re where
  "CID_RE = RSeqs [RBol, RStar RSpace, RLit ''HostName'', RPlus RSpace, RLit ''vsock/'',
     RGrp ''1'' (RPlus RDigit), RStar RSpace, REol]"

definition cid_of :: "string \<Rightarrow> nat option" where
  "cid_of line = map_option (\<lambda>m. read_nat (grp0 m ''1'')) (re_match CID_RE line)"

fun first_cid :: "string list \<Rightarrow> nat option" where
  "first_cid [] = None"
| "first_cid (l # ls) = (case cid_of l of Some n \<Rightarrow> Some n | None \<Rightarrow> first_cid ls)"

record remote =
  rm_vm :: string
  rm_key :: path
  rm_config :: string
  rm_cid :: nat
  rm_proxy :: path

definition resolve_cid :: "environ \<Rightarrow> string \<Rightarrow> nat option prog" where
  "resolve_cid env vm_name =
     bind (of_result (system_dir env)) (\<lambda>sys.
       let conf = sys @ [''ssh'', ''config.d'', vm_name @ ''.conf''] in
       bind (probe (IsFile conf)) (\<lambda>there.
       if \<not> there then Ret None
       else bind (read_text conf) (\<lambda>t. Ret (first_cid (splitlines t)))))"

definition resolve_proxy :: "path prog" where
  "resolve_proxy =
     bind (dev_capture ''systemd'' [''sh'', ''-c'', ''command -v systemctl'']) (\<lambda>found.
     if strip found = [] then Raise RuntimeError
     else Do (RealPath (parts (strip found))) (\<lambda>r.
       Ret (butlast (butlast (parts (out r))) @ [''lib'', ''systemd'', ''systemd-ssh-proxy''])))"

definition connect :: "environ \<Rightarrow> path \<Rightarrow> string \<Rightarrow> nat option \<Rightarrow> remote prog" where
  "connect env workers vm_name cid =
     bind (of_result (vendor_dir env (Some workers))) (\<lambda>_.
     bind (of_result (ccache_dir env)) (\<lambda>_.
     bind (of_result (system_dir env)) (\<lambda>sys.
       let config = sys @ [''ssh'', ''config''] in
     bind (probe (IsFile config)) (\<lambda>managed.
     bind (case cid of Some n \<Rightarrow> Ret (Some n) | None \<Rightarrow> resolve_cid env vm_name) (\<lambda>found.
     case found of
       None \<Rightarrow> Raise ValueError
     | Some n \<Rightarrow> bind resolve_proxy (\<lambda>proxy.
         Ret \<lparr>rm_vm = vm_name, rm_key = sys @ [''ssh'', ''id_ed25519''],
           rm_config = (if managed then path_str config else ''/dev/null''),
           rm_cid = n, rm_proxy = proxy\<rparr>))))))"

definition ssh_argv :: "remote \<Rightarrow> string list \<Rightarrow> string list" where
  "ssh_argv r args =
     [''ssh'', ''-F'', rm_config r, ''-o'', ''LogLevel=ERROR'',
      ''-o'', ''ProxyCommand='' @ path_str (rm_proxy r) @ '' %h %p'', ''-o'', ''ProxyUseFdpass=yes'',
      ''-o'', ''IdentityFile='' @ path_str (rm_key r), ''-o'', ''IdentitiesOnly=yes'',
      ''-o'', ''User=root'', ''-o'', ''StrictHostKeyChecking=accept-new'',
      ''-o'', ''UserKnownHostsFile=/dev/null'', ''-o'', ''BatchMode=yes'', ''-o'', ''ConnectTimeout=10'',
      ''vsock/'' @ show_nat (rm_cid r), shlex_join args]"

text \<open>
  \<open>ssh\<close> with \<open>capture\<close>, without and with \<open>check\<close>, and without \<open>capture\<close>, where it gives the exit status.
\<close>

definition ssh_text :: "remote \<Rightarrow> string list \<Rightarrow> string prog" where
  "ssh_text r args = Do (Dev ''systemd'' (ssh_argv r args)) (\<lambda>a. Ret (out a))"

definition ssh_checked :: "remote \<Rightarrow> string list \<Rightarrow> string prog" where
  "ssh_checked r args = dev_capture ''systemd'' (ssh_argv r args)"

definition ssh_status :: "remote \<Rightarrow> string list \<Rightarrow> int prog" where
  "ssh_status r args = Do (Dev ''systemd'' (ssh_argv r args)) (\<lambda>a. Ret (rc a))"

definition ssh_run :: "remote \<Rightarrow> string list \<Rightarrow> unit prog" where
  "ssh_run r args = dev_run ''systemd'' (ssh_argv r args)"

section \<open>The guest's systemd\<close>

definition show_unit :: "remote \<Rightarrow> string \<Rightarrow> string list \<Rightarrow> (string, string) dict prog" where
  "show_unit r unit props =
     bind (ssh_checked r ([''systemctl'', ''show'', unit] @ map (\<lambda>p. ''--property='' @ p) props)) (\<lambda>t.
     Ret (parse_show t))"

definition is_system_running :: "remote \<Rightarrow> string prog" where
  "is_system_running r = bind (ssh_text r [''systemctl'', ''is-system-running'']) (\<lambda>t. Ret (strip t))"

definition unit_exists :: "remote \<Rightarrow> string \<Rightarrow> bool prog" where
  "unit_exists r template =
     bind (ssh_text r [''systemctl'', ''list-unit-files'', template, ''--no-legend'']) (\<lambda>t.
     Ret (list_ex (\<lambda>line. split_ws line \<noteq> [] \<and> hd (split_ws line) = template) (splitlines t)))"

section \<open>The guest's journal\<close>

text \<open>\<open>line.split(":", 1)[1].strip()\<close> of a cursor line.\<close>

definition is_cursor :: "string \<Rightarrow> bool" where
  "is_cursor line = prefix ''-- cursor:'' line"

definition cursor_of :: "string \<Rightarrow> string" where
  "cursor_of line = strip (after_chr (CHR '':'') line)"

definition journal_line :: "(string \<Rightarrow> 'j option) \<Rightarrow> string \<Rightarrow> string option \<times> 'j list \<Rightarrow> string option \<times> 'j list" where
  "journal_line loads line = (\<lambda>(cursor, records).
     if is_cursor line then (Some (cursor_of line), records)
     else if \<not> prefix ''{'' line then (cursor, records)
     else (case loads line of None \<Rightarrow> (cursor, records) | Some j \<Rightarrow> (cursor, records @ [j])))"

definition parse_journal_json :: "(string \<Rightarrow> 'j option) \<Rightarrow> string \<Rightarrow> string option \<Rightarrow> string option \<times> 'j list" where
  "parse_journal_json loads printed cursor = fold (journal_line loads) (splitlines printed) (cursor, [])"

definition has_cursor :: "string option \<Rightarrow> bool" where
  "has_cursor cursor = (cursor \<noteq> None \<and> cursor \<noteq> Some [])"

definition from_cursor :: "string option \<Rightarrow> string list" where
  "from_cursor cursor = (if has_cursor cursor then [''--after-cursor='' @ the cursor] else [''--boot''])"

definition journal_unit ::
  "(string \<Rightarrow> 'j option) \<Rightarrow> remote \<Rightarrow> string \<Rightarrow> string option \<Rightarrow> (string option \<times> 'j list) prog" where
  "journal_unit loads r unit cursor =
     bind (ssh_checked r ([''journalctl'', ''--no-pager'', ''--output=json'', ''--show-cursor'', ''--unit='' @ unit]
       @ from_cursor cursor)) (\<lambda>t. Ret (parse_journal_json loads t cursor))"

definition journal_kernel ::
  "(string \<Rightarrow> 'j option) \<Rightarrow> remote \<Rightarrow> string option \<Rightarrow> string \<Rightarrow> (string option \<times> 'j list) prog" where
  "journal_kernel loads r cursor grep =
     (let args = [''journalctl'', ''--no-pager'', ''--output=json'', ''--show-cursor'']
          @ (if grep \<noteq> [] then [''--grep='' @ grep, ''--case-sensitive=true''] else [])
          @ [''_TRANSPORT=kernel''] @ from_cursor cursor in
      if grep = [] then bind (ssh_checked r args) (\<lambda>t. Ret (parse_journal_json loads t cursor))
      else bind (ssh_text r args) (\<lambda>t.
        let res = parse_journal_json loads t cursor in
        if snd res = [] \<and> \<not> list_ex (\<lambda>l. is_cursor l \<or> prefix ''-- No entries --'' l) (splitlines t)
        then Raise RuntimeError else Ret res))"

fun first_cursor :: "string list \<Rightarrow> string option" where
  "first_cursor [] = None"
| "first_cursor (l # ls) = (if is_cursor l then Some (cursor_of l) else first_cursor ls)"

definition journal_cursor :: "remote \<Rightarrow> string prog" where
  "journal_cursor r =
     bind (ssh_checked r [''journalctl'', ''--no-pager'', ''--boot'', ''--lines=0'', ''--show-cursor'']) (\<lambda>t.
     case first_cursor (splitlines t) of None \<Rightarrow> Raise RuntimeError | Some c \<Rightarrow> Ret c)"

definition NO_SEEK :: string where "NO_SEEK = ''Failed to seek to cursor''"

definition combined_line :: "string \<Rightarrow> string option \<times> string list \<Rightarrow> string option \<times> string list" where
  "combined_line line = (\<lambda>(cursor, body).
     if is_cursor line then (Some (cursor_of line), body)
     else if prefix ''-- '' line \<and> suffix '' --'' line then (cursor, body)
     else if contains NO_SEEK line then (cursor, body)
     else (cursor, body @ [line]))"

definition journal_combined :: "remote \<Rightarrow> string \<Rightarrow> string option \<Rightarrow> (string option \<times> string) prog" where
  "journal_combined r unit cursor =
     (let query = (\<lambda>selector. ssh_text r ([''journalctl'', ''--no-pager'', ''--output=short-precise'', ''--show-cursor'']
          @ selector @ [''_SYSTEMD_UNIT='' @ unit, ''+'', ''_TRANSPORT=kernel''])) in
      bind (query (from_cursor cursor)) (\<lambda>first.
      bind (if has_cursor cursor \<and> contains NO_SEEK first then query [''--boot''] else Ret first) (\<lambda>t.
        let (next, body) = fold combined_line (splitlines t) (cursor, []) in Ret (next, join nl body))))"

section \<open>The guests there are\<close>

definition VARS_SUFFIX :: string where "VARS_SUFFIX = ''.vars.json''"

definition guest_names :: "string list \<Rightarrow> string list" where
  "guest_names names =
     sort (map (\<lambda>n. take (length n - length VARS_SUFFIX) n) (filter (suffix VARS_SUFFIX) names))"

definition list_guests :: "environ \<Rightarrow> string \<Rightarrow> (string \<times> string) list prog" where
  "list_guests env filterText =
     bind (of_result (workers_env env)) (\<lambda>w.
       let d = w @ [''shared'', ''vm''] in
     bind (probe (IsDir d)) (\<lambda>there.
     bind (if there then Do (ListDir d) (\<lambda>r. Ret (guest_names (entries r))) else Ret []) (\<lambda>vms.
     Ret (map (\<lambda>v. (v, v)) (filter (\<lambda>v. contains (lower filterText) (lower v)) vms)))))"

section \<open>What the guest's shell reads\<close>

text \<open>
  The words a POSIX shell makes of a command line, for the part of its language without expansions:
  blanks separate, single and double quotes group. Any other special character, bare or in double quotes,
  is refused.
\<close>

datatype quoting = Bare | Single | Double

fun sh_scan :: "quoting \<Rightarrow> string option \<Rightarrow> string \<Rightarrow> string list option" where
  "sh_scan q cur [] = (if q \<noteq> Bare then None else Some (case cur of None \<Rightarrow> [] | Some w \<Rightarrow> [w]))"
| "sh_scan Bare cur (c # cs) =
     (if c = CHR '' '' then map_option (\<lambda>ws. (case cur of None \<Rightarrow> [] | Some w \<Rightarrow> [w]) @ ws) (sh_scan Bare None cs)
      else if c = CHR 0x27 then sh_scan Single (Some (case cur of None \<Rightarrow> [] | Some w \<Rightarrow> w)) cs
      else if c = CHR 0x22 then sh_scan Double (Some (case cur of None \<Rightarrow> [] | Some w \<Rightarrow> w)) cs
      else if shell_safe c then sh_scan Bare (Some ((case cur of None \<Rightarrow> [] | Some w \<Rightarrow> w) @ [c])) cs
      else None)"
| "sh_scan Single cur (c # cs) =
     (if c = CHR 0x27 then sh_scan Bare cur cs
      else sh_scan Single (Some ((case cur of None \<Rightarrow> [] | Some w \<Rightarrow> w) @ [c])) cs)"
| "sh_scan Double cur (c # cs) =
     (if c = CHR 0x22 then sh_scan Bare cur cs
      else if c \<in> set [CHR 0x24, CHR 0x60, CHR 0x5C] then None
      else sh_scan Double (Some ((case cur of None \<Rightarrow> [] | Some w \<Rightarrow> w) @ [c])) cs)"

definition sh_words :: "string \<Rightarrow> string list option" where
  "sh_words s = sh_scan Bare None s"

lemma safe_not_special: "shell_safe c \<Longrightarrow> c \<noteq> CHR '' '' \<and> c \<noteq> CHR 0x27 \<and> c \<noteq> CHR 0x22"
  by (auto simp: shell_safe_def is_alnum_ascii_def is_digit_def is_lower_ascii_def is_upper_ascii_def)

lemma scan_safe:
  "list_all shell_safe s \<Longrightarrow> sh_scan Bare (Some w) (s @ t) = sh_scan Bare (Some (w @ s)) t"
  by (induction s arbitrary: w) (auto dest: safe_not_special)

lemma scan_single:
  "sh_scan Single (Some w)
     (concat (map (\<lambda>c. if c = CHR 0x27 then [CHR 0x27, CHR 0x22, CHR 0x27, CHR 0x22, CHR 0x27] else [c]) s) @ CHR 0x27 # t)
   = sh_scan Bare (Some (w @ s)) t"
  by (induction s arbitrary: w) auto

lemma scan_quoted: "sh_scan Bare None (shlex_quote s @ t) = sh_scan Bare (Some s) t"
proof (cases "s = [] \<or> \<not> list_all shell_safe s")
  case True
  then show ?thesis using scan_single [of "[]" s t] by (auto simp: shlex_quote_def)
next
  case False
  then obtain c cs where s: "s = c # cs" "shell_safe c" "list_all shell_safe cs" by (cases s) auto
  with False safe_not_special [of c] scan_safe [of cs "[c]" t] show ?thesis by (simp add: shlex_quote_def)
qed

lemma sh_words_join: "sh_words (shlex_join args) = Some args"
proof (induction args)
  case Nil
  then show ?case by (simp add: sh_words_def shlex_join_def)
next
  case (Cons a as)
  show ?case
  proof (cases as)
    case Nil
    then show ?thesis using scan_quoted [of a "[]"] by (simp add: sh_words_def shlex_join_def)
  next
    case (Cons b bs)
    then have "shlex_join (a # as) = shlex_quote a @ '' '' @ shlex_join as" by (simp add: shlex_join_def)
    then show ?thesis using Cons.IH scan_quoted [of a "'' '' @ shlex_join as"] by (simp add: sh_words_def)
  qed
qed

text \<open>
  C13: A guest command arrives as it was meant. The argv of every \<open>ssh\<close> call ends in one string, which the
  guest's shell splits back into exactly the arguments, whatever characters they hold (blanks, quotes,
  the semicolons of a journal cursor, a whole script).
\<close>

theorem ssh_args_arrive: "sh_words (last (ssh_argv r args)) = Some args"
  by (simp add: ssh_argv_def sh_words_join)

end
