(* ===== verification/JsonText.thy ===== *)
theory JsonText
  imports Json UnitName
begin

text \<open>
  JSON as text: \<open>json.dumps\<close> without indentation and \<open>json.loads\<close>, on the values of \<open>Json\<close>. Numbers
  with a fraction or an exponent and code points above U+00FF are outside the model, where the reader
  gives \<open>None\<close>, as it does for what is not JSON.
\<close>

section \<open>Writing\<close>

definition json_escape :: "char \<Rightarrow> string" where
  "json_escape c =
     (let n = ord_of c in
      if n = 34 \<or> n = 92 then [CHR 0x5C, c]
      else if n = 10 then [CHR 0x5C, CHR ''n'']
      else if n = 13 then [CHR 0x5C, CHR ''r'']
      else if n = 9 then [CHR 0x5C, CHR ''t'']
      else if n = 12 then [CHR 0x5C, CHR ''f'']
      else if n = 8 then [CHR 0x5C, CHR ''b'']
      else if 32 \<le> n \<and> n \<le> 126 then [c]
      else [CHR 0x5C, CHR ''u'', CHR ''0'', CHR ''0''] @ hex2 c)"

definition json_string :: "string \<Rightarrow> string" where
  "json_string s = CHR 0x22 # concat (map json_escape s) @ [CHR 0x22]"

fun dumps :: "json \<Rightarrow> string" where
  "dumps JNull = ''null''"
| "dumps (JBool b) = (if b then ''true'' else ''false'')"
| "dumps (JInt n) = show_int n"
| "dumps (JStr s) = json_string s"
| "dumps (JList xs) = ''['' @ join '', '' (map dumps xs) @ '']''"
| "dumps (JObj d) = ''{'' @ join '', '' (map (\<lambda>(k, v). json_string k @ '': '' @ dumps v) d) @ ''}''"

section \<open>Reading\<close>

definition json_space :: "char \<Rightarrow> bool" where
  "json_space c = (c \<in> set [CHR 0x20, CHR 0x09, CHR 0x0A, CHR 0x0D])"

definition skip_ws :: "string \<Rightarrow> string" where
  "skip_ws s = dropWhile json_space s"

definition hex_val :: "char \<Rightarrow> nat option" where
  "hex_val c =
     (let n = ord_of c in
      if 48 \<le> n \<and> n \<le> 57 then Some (n - 48)
      else if 97 \<le> n \<and> n \<le> 102 then Some (n - 87)
      else if 65 \<le> n \<and> n \<le> 70 then Some (n - 55) else None)"

definition hex4_char :: "char \<Rightarrow> char \<Rightarrow> char \<Rightarrow> char \<Rightarrow> char option" where
  "hex4_char a b c d =
     (case (hex_val a, hex_val b, hex_val c, hex_val d) of
        (Some 0, Some 0, Some x, Some y) \<Rightarrow> Some (char_of (16 * x + y))
      | _ \<Rightarrow> None)"

definition unescape :: "char \<Rightarrow> char option" where
  "unescape c =
     map_of [(CHR 0x22, CHR 0x22), (CHR 0x5C, CHR 0x5C), (CHR ''/'', CHR ''/''), (CHR ''b'', CHR 0x08),
       (CHR ''f'', CHR 0x0C), (CHR ''n'', CHR 0x0A), (CHR ''r'', CHR 0x0D), (CHR ''t'', CHR 0x09)] c"

text \<open>The rest of a string after its opening quote; the strict mode of the module refuses control characters.\<close>

fun read_string :: "string \<Rightarrow> (string \<times> string) option" where
  "read_string [] = None"
| "read_string (c # cs) =
     (if c = CHR 0x22 then Some ([], cs)
      else if c = CHR 0x5C then
        (case cs of
           [] \<Rightarrow> None
         | e # ds \<Rightarrow>
             (if e = CHR ''u'' then
                (case ds of
                   h1 # h2 # h3 # h4 # rest \<Rightarrow>
                     (case hex4_char h1 h2 h3 h4 of
                        None \<Rightarrow> None
                      | Some x \<Rightarrow> map_option (\<lambda>(t, r). (x # t, r)) (read_string rest))
                 | _ \<Rightarrow> None)
              else (case unescape e of
                      None \<Rightarrow> None
                    | Some x \<Rightarrow> map_option (\<lambda>(t, r). (x # t, r)) (read_string ds))))
      else if ord_of c < 32 then None
      else map_option (\<lambda>(t, r). (c # t, r)) (read_string cs))"

definition read_number :: "string \<Rightarrow> (json \<times> string) option" where
  "read_number s =
     (let neg = prefix ''-'' s; body = (if neg then tl s else s);
          ds = takeWhile is_digit body; r = dropWhile is_digit body; n = int (read_nat ds) in
      if ds = [] \<or> (hd ds = CHR ''0'' \<and> length ds > 1) \<or> (r \<noteq> [] \<and> hd r \<in> set ''.eE'') then None
      else Some (JInt (if neg then - n else n), r))"

fun read_value :: "nat \<Rightarrow> string \<Rightarrow> (json \<times> string) option"
  and read_elements :: "nat \<Rightarrow> string \<Rightarrow> (json list \<times> string) option"
  and read_members :: "nat \<Rightarrow> string \<Rightarrow> ((string \<times> json) list \<times> string) option" where
  "read_value 0 s = None"
| "read_value (Suc n) s =
     (case s of
        [] \<Rightarrow> None
      | c # cs \<Rightarrow>
          (if c = CHR 0x22 then map_option (\<lambda>(t, r). (JStr t, r)) (read_string cs)
           else if c = CHR ''['' then
             (if prefix '']'' (skip_ws cs) then Some (JList [], tl (skip_ws cs))
              else map_option (\<lambda>(xs, r). (JList xs, r)) (read_elements n (skip_ws cs)))
           else if c = CHR ''{'' then
             (if prefix ''}'' (skip_ws cs) then Some (JObj [], tl (skip_ws cs))
              else map_option (\<lambda>(d, r). (JObj (dict_merge [] d), r)) (read_members n (skip_ws cs)))
           else if prefix ''null'' s then Some (JNull, drop 4 s)
           else if prefix ''true'' s then Some (JBool True, drop 4 s)
           else if prefix ''false'' s then Some (JBool False, drop 5 s)
           else read_number s))"
| "read_elements 0 s = None"
| "read_elements (Suc n) s =
     (case read_value n s of
        None \<Rightarrow> None
      | Some (v, r) \<Rightarrow>
          (case skip_ws r of
             [] \<Rightarrow> None
           | c # r' \<Rightarrow>
               (if c = CHR '','' then map_option (\<lambda>(vs, q). (v # vs, q)) (read_elements n (skip_ws r'))
                else if c = CHR '']'' then Some ([v], r') else None)))"
| "read_members 0 s = None"
| "read_members (Suc n) s =
     (if \<not> prefix [CHR 0x22] s then None
      else (case read_string (tl s) of
        None \<Rightarrow> None
      | Some (k, r) \<Rightarrow>
          (if \<not> prefix '':'' (skip_ws r) then None
           else (case read_value n (skip_ws (tl (skip_ws r))) of
             None \<Rightarrow> None
           | Some (v, q) \<Rightarrow>
               (case skip_ws q of
                  [] \<Rightarrow> None
                | c # q' \<Rightarrow>
                    (if c = CHR '','' then map_option (\<lambda>(d, z). ((k, v) # d, z)) (read_members n (skip_ws q'))
                     else if c = CHR ''}'' then Some ([(k, v)], q') else None))))))"

definition loads :: "string \<Rightarrow> json option" where
  "loads s =
     (case read_value (2 * length s + 2) (skip_ws s) of
        None \<Rightarrow> None
      | Some (j, r) \<Rightarrow> (if skip_ws r = [] then Some j else None))"

section \<open>What is written reads back\<close>

fun json_ok :: "json \<Rightarrow> bool" where
  "json_ok (JList xs) = list_all json_ok xs"
| "json_ok (JObj d) = (distinct (keys d) \<and> list_all (\<lambda>(k, v). json_ok v) d)"
| "json_ok _ = True"

lemma char_by_ord:
  "ord_of c = 34 \<Longrightarrow> c = CHR 0x22" "ord_of c = 92 \<Longrightarrow> c = CHR 0x5C" "ord_of c = 10 \<Longrightarrow> c = CHR 0x0A"
  "ord_of c = 13 \<Longrightarrow> c = CHR 0x0D" "ord_of c = 9 \<Longrightarrow> c = CHR 0x09" "ord_of c = 12 \<Longrightarrow> c = CHR 0x0C"
  "ord_of c = 8 \<Longrightarrow> c = CHR 0x08"
  by (rule iffD1 [OF of_char_eq_iff [where ?'a = nat]], simp)+

lemma hex_val_digit: "k < 16 \<Longrightarrow> hex_val (hex_digit k) = Some k"
  by (auto simp: hex_val_def hex_digit_def Let_def)

lemma hex4_hex2: "hex4_char (CHR ''0'') (CHR ''0'') (hd (hex2 c)) (hd (tl (hex2 c))) = Some c"
proof -
  have "ord_of c < 256" by simp
  then have "ord_of c div 16 < 16" "ord_of c mod 16 < 16" by (simp_all add: less_mult_imp_div_less)
  moreover have "hex_val (CHR ''0'') = Some 0" by (simp add: hex_val_def)
  ultimately show ?thesis by (simp add: hex4_char_def hex2_def hex_val_digit)
qed

lemma read_escape: "read_string (json_escape c @ t) = map_option (\<lambda>(u, r). (c # u, r)) (read_string t)"
proof -
  consider "ord_of c \<in> {34, 92, 10, 13, 9, 12, 8}" | "ord_of c \<notin> {34, 92}" "32 \<le> ord_of c" "ord_of c \<le> 126"
    | "ord_of c \<notin> {34, 92, 10, 13, 9, 12, 8}" "\<not> (32 \<le> ord_of c \<and> ord_of c \<le> 126)" by auto
  then show ?thesis
  proof cases
    case 1
    then show ?thesis by (auto simp: json_escape_def unescape_def dest!: char_by_ord)
  next
    case 2
    then have "c \<noteq> CHR 0x22" "c \<noteq> CHR 0x5C" by auto
    with 2 show ?thesis by (simp add: json_escape_def Let_def)
  next
    case 3
    then have e: "json_escape c = [CHR 0x5C, CHR ''u'', CHR ''0'', CHR ''0'', hd (hex2 c), hd (tl (hex2 c))]"
      by (auto simp: json_escape_def Let_def hex2_def)
    show ?thesis by (simp add: e hex4_hex2)
  qed
qed

lemma read_string_escaped: "read_string (concat (map json_escape s) @ CHR 0x22 # r) = Some (s, r)"
  by (induction s) (simp_all add: read_escape)

lemma read_json_string: "read_value (Suc n) (json_string s @ r) = Some (JStr s, r)"
  by (simp add: json_string_def read_string_escaped)

lemma show_nat_no_zero: "0 < n \<Longrightarrow> hd (show_nat n) \<noteq> CHR ''0''"
proof (induction n rule: show_nat.induct)
  case (1 n)
  show ?case
  proof (cases "n < 10")
    case True
    then have "ord_of (digit_char n) = 48 + n" by (simp add: digit_char_def)
    with "1.prems" have "digit_char n \<noteq> CHR ''0''" by auto
    with True show ?thesis by (simp add: show_nat.simps [of n])
  next
    case False
    with "1.IH" show ?thesis by (simp add: show_nat.simps [of n])
  qed
qed

definition number_ends :: "string \<Rightarrow> bool" where
  "number_ends r = (r = [] \<or> \<not> is_digit (hd r) \<and> hd r \<notin> set ''.eE'')"

lemma take_digits: "number_ends r \<Longrightarrow> takeWhile is_digit (show_nat n @ r) = show_nat n \<and> dropWhile is_digit (show_nat n @ r) = r"
  using show_nat_digits [of n] by (cases r) (auto simp: number_ends_def takeWhile_append dropWhile_append)

lemma read_digits:
  assumes "number_ends r"
  shows "read_number (show_nat k @ r) = Some (JInt (int k), r)"
    and "read_number (CHR ''-'' # show_nat k @ r) = Some (JInt (- int k), r)"
proof -
  note digits = take_digits [OF assms, of k, THEN conjunct1] take_digits [OF assms, of k, THEN conjunct2]
  have ok: "\<not> (show_nat k = [] \<or> hd (show_nat k) = CHR ''0'' \<and> 1 < length (show_nat k) \<or> r \<noteq> [] \<and> hd r \<in> set ''.eE'')"
    using assms show_nat_no_zero [of k] by (cases k) (auto simp: number_ends_def show_nat.simps [of 0])
  have first: "prefix ''-'' (show_nat k @ r) = False"
    using show_nat_digits [of k] by (cases "show_nat k") (auto simp: prefix_def is_digit_def)
  have minus: "prefix ''-'' (CHR ''-'' # s) = True" for s by simp
  show "read_number (show_nat k @ r) = Some (JInt (int k), r)"
    by (simp only: read_number_def Let_def first digits if_False ok read_nat_show_nat)
  show "read_number (CHR ''-'' # show_nat k @ r) = Some (JInt (- int k), r)"
    by (simp only: read_number_def Let_def minus list.sel digits if_True if_False ok read_nat_show_nat)
qed

lemma read_show_int: "number_ends r \<Longrightarrow> read_number (show_int n @ r) = Some (JInt n, r)"
  using read_digits [of r "nat n"] read_digits [of r "nat (- n)"] by (simp add: show_int_def)

lemma show_int_starts: "\<exists>c cs. show_int n = c # cs \<and> (c = CHR ''-'' \<or> is_digit c)"
proof (cases "n < 0")
  case True
  then show ?thesis by (simp add: show_int_def)
next
  case False
  then show ?thesis using show_nat_digits [of "nat n"] by (cases "show_nat (nat n)") (auto simp: show_int_def)
qed

lemma read_int_value: "number_ends r \<Longrightarrow> read_value (Suc k) (show_int n @ r) = Some (JInt n, r)"
proof -
  assume r: "number_ends r"
  obtain c cs where c: "show_int n = c # cs" "c = CHR ''-'' \<or> is_digit c" using show_int_starts by blast
  then have "c \<noteq> CHR 0x22" "c \<noteq> CHR ''[''" "c \<noteq> CHR ''{''" "c \<noteq> CHR ''n''" "c \<noteq> CHR ''t''" "c \<noteq> CHR ''f''"
    by (auto simp: is_digit_def)
  then show ?thesis using read_show_int [OF r, of n] c(1) by (auto simp: prefix_def)
qed

lemma skip_ws_here: "s \<noteq> [] \<Longrightarrow> \<not> json_space (hd s) \<Longrightarrow> skip_ws (s @ t) = s @ t"
  by (cases s) (auto simp: skip_ws_def)

lemma skip_ws_blank [simp]: "skip_ws (CHR '' '' # s) = skip_ws s"
  by (simp add: skip_ws_def json_space_def)

lemma dumps_starts: "dumps j \<noteq> [] \<and> \<not> json_space (hd (dumps j)) \<and> hd (dumps j) \<notin> {CHR '']'', CHR ''}''}"
proof (cases j)
  case (JInt n)
  then show ?thesis using show_int_starts [of n] by (auto simp: json_space_def is_digit_def)
qed (auto simp: json_space_def json_string_def)

lemma skip_dumps [simp]: "skip_ws (dumps j @ t) = dumps j @ t"
  using dumps_starts [of j] by (simp add: skip_ws_here)

lemma not_closing: "\<not> prefix '']'' (dumps j @ t)"
  using dumps_starts [of j] by (cases "dumps j") (auto simp: prefix_def)

lemma read_elements_dumps:
  assumes "xs \<noteq> []" "2 * length (join '', '' (map dumps xs)) < n"
    and "\<And>x k q. x \<in> set xs \<Longrightarrow> 2 * length (dumps x) \<le> k \<Longrightarrow> number_ends q \<Longrightarrow> read_value k (dumps x @ q) = Some (x, q)"
  shows "read_elements n (join '', '' (map dumps xs) @ CHR '']'' # r) = Some (xs, r)"
  using assms
proof (induction xs arbitrary: n)
  case Nil
  then show ?case by simp
next
  case (Cons x xs)
  then obtain m where n: "n = Suc m" by (cases n) auto
  have ends: "number_ends (CHR '']'' # r)" "number_ends (CHR '','' # q)" for q
    by (simp_all add: number_ends_def is_digit_def)
  have skips: "skip_ws (CHR '']'' # q) = CHR '']'' # q" "skip_ws (CHR '','' # q) = CHR '','' # q" for q
    by (simp_all add: skip_ws_def json_space_def)
  show ?case
  proof (cases xs)
    case Nil
    then have "read_value m (dumps x @ CHR '']'' # r) = Some (x, CHR '']'' # r)"
      using Cons.prems n ends by simp
    with Nil n skips show ?thesis by simp
  next
    case (Cons y ys)
    let ?rest = "join '', '' (map dumps xs) @ CHR '']'' # r"
    have eq: "join '', '' (map dumps (x # xs)) @ CHR '']'' # r = dumps x @ '', '' @ ?rest"
      and len: "length (join '', '' (map dumps (x # xs))) = length (dumps x) + 2 + length (join '', '' (map dumps xs))"
      using Cons by simp_all
    have "read_value m (dumps x @ '', '' @ ?rest) = Some (x, '', '' @ ?rest)"
      using Cons.prems(2,3) len n ends by simp
    moreover have "read_elements m ?rest = Some (xs, r)"
      using Cons.IH [of m] Cons.prems(2,3) len n Cons by simp
    moreover have "skip_ws ?rest = ?rest" using Cons by (cases ys) (simp_all add: skip_dumps)
    ultimately show ?thesis unfolding eq n using skips by simp
  qed
qed

definition dump_member :: "string \<times> json \<Rightarrow> string" where
  "dump_member = (\<lambda>(k, v). json_string k @ '': '' @ dumps v)"

lemma read_members_dumps:
  assumes "d \<noteq> []" "2 * length (join '', '' (map dump_member d)) < n"
    and "\<And>e k q. e \<in> set d \<Longrightarrow> 2 * length (dumps (snd e)) \<le> k \<Longrightarrow> number_ends q
      \<Longrightarrow> read_value k (dumps (snd e) @ q) = Some (snd e, q)"
  shows "read_members n (join '', '' (map dump_member d) @ CHR ''}'' # r) = Some (d, r)"
  using assms
proof (induction d arbitrary: n)
  case Nil
  then show ?case by simp
next
  case (Cons e d)
  obtain k v where e: "e = (k, v)" by (cases e)
  from Cons.prems obtain m where n: "n = Suc m" by (cases n) auto
  have ends: "number_ends (CHR ''}'' # r)" "number_ends (CHR '','' # q)" for q
    by (simp_all add: number_ends_def is_digit_def)
  have skips: "skip_ws (CHR ''}'' # q) = CHR ''}'' # q" "skip_ws (CHR '','' # q) = CHR '','' # q"
    "skip_ws (CHR '':'' # q) = CHR '':'' # q" for q
    by (simp_all add: skip_ws_def json_space_def)
  have str: "read_string (concat (map json_escape k) @ CHR 0x22 # q) = Some (k, q)" for q
    by (rule read_string_escaped)
  have one: "read_members (Suc m) (dump_member (k, v) @ q) =
      (case skip_ws q of
         [] \<Rightarrow> None
       | c # q' \<Rightarrow>
           (if c = CHR '','' then map_option (\<lambda>(d, z). ((k, v) # d, z)) (read_members m (skip_ws q'))
            else if c = CHR ''}'' then Some ([(k, v)], q') else None))"
    if "read_value m (dumps v @ q) = Some (v, q)" for q
    using that by (simp add: dump_member_def json_string_def str skips)
  show ?case
  proof (cases d)
    case Nil
    then have "read_value m (dumps v @ CHR ''}'' # r) = Some (v, CHR ''}'' # r)"
      using Cons.prems(2) Cons.prems(3) [of e m] n ends e by (simp add: dump_member_def)
    from one [OF this] Nil n e skips show ?thesis by simp
  next
    case (Cons y ys)
    let ?rest = "join '', '' (map dump_member d) @ CHR ''}'' # r"
    have eq: "join '', '' (map dump_member (e # d)) @ CHR ''}'' # r = dump_member (k, v) @ '', '' @ ?rest"
      and len: "length (join '', '' (map dump_member (e # d))) = length (dump_member e) + 2 + length (join '', '' (map dump_member d))"
      using Cons e by simp_all
    have "read_value m (dumps v @ '', '' @ ?rest) = Some (v, '', '' @ ?rest)"
      using Cons.prems(2) Cons.prems(3) [of e m] len n ends e by (simp add: dump_member_def)
    note first = one [OF this]
    have "read_members m ?rest = Some (d, r)"
      using Cons.IH [of m] Cons.prems(2,3) len n Cons by simp
    moreover have "skip_ws ?rest = ?rest"
      using Cons by (cases ys) (auto simp: dump_member_def json_string_def skip_ws_def json_space_def split: prod.splits)
    ultimately show ?thesis unfolding eq n first using skips e by simp
  qed
qed

lemma dict_merge_fresh: "distinct (keys d) \<Longrightarrow> set (keys d) \<inter> set (keys e) = {} \<Longrightarrow> dict_merge e d = e @ d"
proof (induction d arbitrary: e)
  case Nil
  then show ?case by simp
next
  case (Cons x d)
  obtain k v where x: "x = (k, v)" by (cases x)
  have "k \<notin> set (keys e) \<Longrightarrow> dict_set k v e = e @ [(k, v)]" by (induction e) auto
  with Cons x show ?case by auto
qed

lemma read_dumps:
  "json_ok j \<Longrightarrow> 2 * length (dumps j) \<le> n \<Longrightarrow> number_ends r \<Longrightarrow> read_value n (dumps j @ r) = Some (j, r)"
proof (induction j arbitrary: n r)
  case JNull
  then show ?case by (cases n) auto
next
  case (JBool b)
  then show ?case by (cases n; cases b) auto
next
  case (JInt i)
  then show ?case using show_int_starts [of i] read_int_value [of r _ i] by (cases n) auto
next
  case (JStr s)
  then show ?case using read_json_string [of _ s r] by (cases n) (auto simp: json_string_def)
next
  case (JList xs)
  then obtain m where n: "n = Suc m" by (cases n) auto
  show ?case
  proof (cases xs)
    case Nil
    then show ?thesis by (simp add: n skip_ws_def json_space_def)
  next
    case (Cons x ys)
    have "read_elements m (join '', '' (map dumps xs) @ CHR '']'' # r) = Some (xs, r)"
      using JList n Cons by (intro read_elements_dumps) (auto simp: list_all_iff)
    moreover have "skip_ws (join '', '' (map dumps xs) @ CHR '']'' # r) = join '', '' (map dumps xs) @ CHR '']'' # r"
      using Cons by (cases ys) simp_all
    moreover have "\<not> prefix '']'' (join '', '' (map dumps xs) @ CHR '']'' # r)"
      using Cons not_closing [of x] by (cases ys) auto
    ultimately show ?thesis by (simp add: n)
  qed
next
  case (JObj d)
  then obtain m where n: "n = Suc m" by (cases n) auto
  have dump: "dumps (JObj d) = ''{'' @ join '', '' (map dump_member d) @ ''}''"
    by (simp add: dump_member_def)
  show ?case
  proof (cases d)
    case Nil
    then show ?thesis by (simp add: n skip_ws_def json_space_def)
  next
    case (Cons x ys)
    have "read_members m (join '', '' (map dump_member d) @ CHR ''}'' # r) = Some (d, r)"
    proof (rule read_members_dumps)
      show "d \<noteq> []" using Cons by simp
      show "2 * length (join '', '' (map dump_member d)) < m" using JObj.prems(2) n unfolding dump by simp
      show "read_value k (dumps (snd e) @ q) = Some (snd e, q)"
        if "e \<in> set d" "2 * length (dumps (snd e)) \<le> k" "number_ends q" for e k q
        using JObj.IH [of e "snd e" k q] JObj.prems(1) that by (cases e) (auto simp: list_all_iff snds.simps)
    qed
    moreover obtain t where t: "join '', '' (map dump_member d) @ CHR ''}'' # r = CHR 0x22 # t"
      using Cons by (cases x; cases ys) (auto simp: dump_member_def json_string_def)
    moreover have "skip_ws (CHR 0x22 # q) = CHR 0x22 # q" for q by (simp add: skip_ws_def json_space_def)
    moreover have "dict_merge [] d = d" using dict_merge_fresh [of d "[]"] JObj.prems(1) by simp
    ultimately have "read_value n (CHR ''{'' # CHR 0x22 # t) = Some (JObj d, r)" by (simp add: n)
    then show ?thesis unfolding dump by (simp add: t)
  qed
qed

lemma skip_ws_spaces: "list_all json_space s \<Longrightarrow> skip_ws s = []"
  by (induction s) (auto simp: skip_ws_def)

text \<open>
  JSON reads back. A document a step writes, with the line feed it ends in, is read as the value it was
  written from, if no object of it repeats a key.
\<close>

theorem json_reads_back:
  assumes "json_ok j" "list_all json_space tail"
  shows "loads (dumps j @ tail) = Some j"
proof -
  have "number_ends tail"
    using assms(2) by (cases tail) (auto simp: number_ends_def json_space_def is_digit_def)
  then have "read_value (2 * length (dumps j @ tail) + 2) (dumps j @ tail) = Some (j, tail)"
    using assms(1) by (intro read_dumps) auto
  then show ?thesis using skip_ws_spaces [OF assms(2)] by (simp add: loads_def)
qed

theorem json_reads_back_witness:
  "loads (dumps (JObj [(''groups'', JList [JStr ''block'', JStr ''a/b'']), (''n'', JInt (- 12))]) @ nl)
    = Some (JObj [(''groups'', JList [JStr ''block'', JStr ''a/b'']), (''n'', JInt (- 12))])"
  by (rule json_reads_back) (simp_all add: json_space_def)

end
