(* ===== verification/Steps.thy ===== *)
theory Steps
  imports Remote FstestsRun JsonText
begin

text \<open>
  The steps around a run on a guest: \<open>discover.py\<close>, \<open>start.py\<close> and \<open>stop.py\<close> of \<open>f/selftests\<close>,
  \<open>f/kunit\<close>, \<open>f/fstests\<close> and \<open>f/usertests\<close>, and \<open>f/fstests/reboot.py\<close>. What the six suites' steps share
  (the readiness gate, the device list, starting behind a journal cursor, stopping units) is defined once.
\<close>

section \<open>What the steps share\<close>

definition booted :: "string \<Rightarrow> bool" where
  "booted system_state = (system_state = ''running'' \<or> system_state = ''degraded'')"

text \<open>The head of every \<open>discover.main\<close>: the transport, and a guest that is up.\<close>

definition with_guest :: "environ \<Rightarrow> string \<Rightarrow> (remote \<Rightarrow> 'a prog) \<Rightarrow> 'a prog" where
  "with_guest env vm_name step =
     bind (of_result (workers_env env)) (\<lambda>w. bind (connect env w vm_name None) step)"

definition gate :: "remote \<Rightarrow> string prog" where
  "gate r = bind (is_system_running r) (\<lambda>s. if booted s then Ret s else Raise RuntimeError)"

definition kernel_release :: "remote \<Rightarrow> string prog" where
  "kernel_release r =
     bind (ssh_checked r [''cat'', ''/proc/sys/kernel/osrelease'']) (\<lambda>t.
     if strip t = [] then Raise RuntimeError else Ret (strip t))"

text \<open>\<open>store.local_path\<close>: the real path a live index entry leads to.\<close>

definition store_path :: "environ \<Rightarrow> string \<Rightarrow> string option prog" where
  "store_path env name =
     (case store_index_dir env of
        Inl _ \<Rightarrow> Ret None
      | Inr d \<Rightarrow>
          bind (probe (IsSymlink (path_join d name))) (\<lambda>link.
          if \<not> link then Ret None
          else Do (RealPath (path_join d name)) (\<lambda>a.
            bind (probe (Exists (parts (out a)))) (\<lambda>live. Ret (if live then Some (out a) else None)))))"

text \<open>The NVMe data disks of an \<open>lsblk\<close> listing; \<open>str.isdigit\<close> holds of superscripts, which \<open>int\<close> refuses.\<close>

record gdisk =
  gd_name :: string
  gd_size :: string
  gd_log_sec :: nat

definition isdigit :: "string \<Rightarrow> bool" where
  "isdigit s = (s \<noteq> [] \<and> list_all (\<lambda>c. is_digit c \<or> ord_of c \<in> {178, 179, 185}) s)"

definition int_of :: "string \<Rightarrow> nat result" where
  "int_of s = (if list_all is_digit s then Inr (read_nat s) else Inl ValueError)"

definition disk_of :: "string \<Rightarrow> gdisk option result" where
  "disk_of line =
     (let fields = split_ws line in
      if length fields < 3 then Inr None
      else andthen (if 4 \<le> length fields \<and> isdigit (fields ! 3) then int_of (fields ! 3) else Inr 512) (\<lambda>log_sec.
        Inr (if fields ! 2 = ''disk'' \<and> prefix ''nvme'' (fields ! 0) \<and> suffix ''n1'' (fields ! 0)
             then Some \<lparr>gd_name = ''/dev/'' @ fields ! 0, gd_size = fields ! 1, gd_log_sec = log_sec\<rparr>
             else None)))"

definition nvme_disks :: "string \<Rightarrow> gdisk list result" where
  "nvme_disks listing =
     andthen (traverse disk_of (splitlines listing)) (\<lambda>ds. Inr (List.map_filter id ds))"

definition guest_disks :: "remote \<Rightarrow> gdisk list prog" where
  "guest_disks r =
     bind (ssh_checked r [''lsblk'', ''--nodeps'', ''--noheadings'', ''--output'', ''NAME,SIZE,TYPE,LOG-SEC'']) (\<lambda>t.
     of_result (nvme_disks t))"

text \<open>\<open>start.main\<close> of the suites judged from the journal: first the cursor, then the unit.\<close>

definition start_job :: "remote \<Rightarrow> string \<Rightarrow> unit prog" where
  "start_job r unit = ssh_run r [''systemctl'', ''start'', ''--no-block'', unit]"

record started_out =
  sa_vm :: string
  sa_item :: string
  sa_unit :: string
  sa_cursor :: string

definition start_behind_cursor :: "remote \<Rightarrow> string \<Rightarrow> string \<Rightarrow> string \<Rightarrow> started_out prog" where
  "start_behind_cursor r vm_name item unit =
     bind (journal_cursor r) (\<lambda>cursor.
     bind (start_job r unit) (\<lambda>_.
     Ret \<lparr>sa_vm = vm_name, sa_item = item, sa_unit = unit, sa_cursor = cursor\<rparr>))"

text \<open>
  \<open>stop.main\<close>: nothing to do, an unreachable guest, or two commands per unit whose status is not looked
  at. \<open>stop_one\<close> gives the units an item stands for.
\<close>

record stop_out =
  sp_vm_name :: string
  sp_stopped :: "string list"
  sp_skipped_no_transport :: bool

definition stop_unit :: "remote \<Rightarrow> string \<Rightarrow> unit prog" where
  "stop_unit r unit =
     bind (ssh_status r [''systemctl'', ''stop'', unit]) (\<lambda>_.
     bind (ssh_status r [''systemctl'', ''reset-failed'', unit]) (\<lambda>_. nop))"

definition stop_units :: "remote \<Rightarrow> string list \<Rightarrow> string list prog" where
  "stop_units r units = bind (for_each units (stop_unit r)) (\<lambda>_. Ret units)"

definition stop_main :: "environ \<Rightarrow> string \<Rightarrow> string list \<Rightarrow> (remote \<Rightarrow> string list prog) \<Rightarrow> stop_out prog" where
  "stop_main env vm_name items stop_items =
     (let result = (\<lambda>units skipped. \<lparr>sp_vm_name = vm_name, sp_stopped = units, sp_skipped_no_transport = skipped\<rparr>) in
      if vm_name = [] \<or> items = [] then Ret (result [] False)
      else bind (of_result (workers_env env)) (\<lambda>w.
           bind (attempt (connect env w vm_name None)) (\<lambda>c.
           case c of
             Inl _ \<Rightarrow> Ret (result [] True)
           | Inr r \<Rightarrow> bind (stop_items r) (\<lambda>units. Ret (result units False)))))"

section \<open>kselftest\<close>

definition UNIT_TEMPLATES :: "string list" where
  "UNIT_TEMPLATES = [''kselftest'', ''kselftest-test'']"

definition template_unit :: "string \<Rightarrow> string \<Rightarrow> string" where
  "template_unit template inst = template @ ''@'' @ inst @ ''.service''"

definition selftests_start :: "environ \<Rightarrow> string \<Rightarrow> string \<Rightarrow> started_out prog" where
  "selftests_start env vm_name item =
     with_guest env vm_name (\<lambda>r. start_behind_cursor r vm_name item (item_unit item))"

definition selftests_stop :: "environ \<Rightarrow> string \<Rightarrow> string list \<Rightarrow> stop_out prog" where
  "selftests_stop env vm_name items =
     stop_main env vm_name items (\<lambda>r. stop_units r
       (concat (map (\<lambda>item. map (\<lambda>t. template_unit t (unit_escape item)) UNIT_TEMPLATES) items)))"

definition list_lines :: "string \<Rightarrow> string list" where
  "list_lines list_text = filter (\<lambda>l. CHR '':'' \<in> set l) (splitlines list_text)"

definition collections_of :: "string \<Rightarrow> string list" where
  "collections_of list_text =
     dedup (filter (\<lambda>n. n \<noteq> []) (map (\<lambda>l. before_chr (CHR '':'') (strip l)) (list_lines list_text)))"

definition selftests_cache :: "path \<Rightarrow> string \<Rightarrow> string \<Rightarrow> path result" where
  "selftests_cache workers vm_name filename =
     andthen (selftests_share_dir workers vm_name) (\<lambda>d. Inr (d @ [filename]))"

definition write_cache :: "path result \<Rightarrow> json \<Rightarrow> unit prog" where
  "write_cache cache value = bind (of_result cache) (\<lambda>p. atomic_write p (dumps value @ nl))"

definition string_list :: "string list \<Rightarrow> json" where
  "string_list xs = JList (map JStr xs)"

record selftests_found =
  sf_vm :: string
  sf_host :: string
  sf_kernel_version :: string
  sf_store_path :: string
  sf_collections :: "string list"
  sf_tests_total :: nat
  sf_version :: string

definition read_version :: "path \<Rightarrow> string prog" where
  "read_version p = bind (probe (IsFile p)) (\<lambda>there.
     if there then bind (read_text p) (\<lambda>t. Ret (strip t)) else Ret [])"

definition selftests_discover :: "environ \<Rightarrow> string \<Rightarrow> selftests_found prog" where
  "selftests_discover env vm_name = with_guest env vm_name (\<lambda>r.
     bind (gate r) (\<lambda>state.
     bind (unit_exists r ''kselftest@.service'') (\<lambda>unit.
     if \<not> unit then Raise RuntimeError else
     bind (kernel_release r) (\<lambda>kver.
     bind (store_path env (''kselftests-'' @ kver)) (\<lambda>found.
     case found of None \<Rightarrow> Raise RuntimeError | Some store \<Rightarrow>
     (let dir = parts store; list_file = dir @ [''kselftest-list.txt''] in
      bind (probe (IsFile list_file)) (\<lambda>listed.
      if \<not> listed then Raise RuntimeError else
      bind (read_text list_file) (\<lambda>list_text.
      if collections_of list_text = [] then Raise RuntimeError else
      bind (read_version (dir @ [''VERSION''])) (\<lambda>version.
      bind (of_result (workers_env env)) (\<lambda>w.
      bind (write_cache (selftests_cache w vm_name ''collections.json'') (string_list (collections_of list_text))) (\<lambda>_.
      bind (write_cache (selftests_cache w vm_name ''tests.json'') (string_list (map strip (list_lines list_text)))) (\<lambda>_.
      Ret \<lparr>sf_vm = vm_name, sf_host = state, sf_kernel_version = kver, sf_store_path = store,
        sf_collections = collections_of list_text, sf_tests_total = length (list_lines list_text),
        sf_version = version\<rparr>))))))))))))"

section \<open>KUnit\<close>

definition DEBUGFS_DIR :: string where "DEBUGFS_DIR = ''/sys/kernel/debug/kunit''"

definition kunit_start :: "environ \<Rightarrow> string \<Rightarrow> string \<Rightarrow> bool \<Rightarrow> started_out prog" where
  "kunit_start env vm_name suite runnable =
     with_guest env vm_name (\<lambda>r. start_behind_cursor r vm_name suite
       (template_unit (if runnable then ''kunit'' else ''kunit-results'') suite))"

definition kunit_stop :: "environ \<Rightarrow> string \<Rightarrow> string list \<Rightarrow> stop_out prog" where
  "kunit_stop env vm_name suites =
     stop_main env vm_name suites (\<lambda>r. stop_units r
       (concat (map (\<lambda>s. map (\<lambda>t. template_unit t s) [''kunit'', ''kunit-results'']) suites)))"

definition guest_suites :: "remote \<Rightarrow> string list prog" where
  "guest_suites r = bind (ssh_checked r [''ls'', DEBUGFS_DIR]) (\<lambda>t. Ret (sort (split_ws t)))"

text \<open>\<open>p.split("/")[-2]\<close>.\<close>

definition parent_name :: "string \<Rightarrow> string" where
  "parent_name p = last (butlast (split_chr (CHR ''/'') p))"

definition runnable_suites :: "remote \<Rightarrow> string list prog" where
  "runnable_suites r =
     bind (ssh_text r [''sh'', ''-c'', ''ls --directory '' @ DEBUGFS_DIR @ ''/*/run'']) (\<lambda>t.
     Ret (sort (map parent_name (filter (prefix (DEBUGFS_DIR @ ''/'')) (split_ws t)))))"

record kunit_found =
  kf_vm :: string
  kf_host :: string
  kf_suites :: "string list"
  kf_runnable :: "string list"
  kf_kernel_version :: string

definition kunit_discover :: "environ \<Rightarrow> string \<Rightarrow> kunit_found prog" where
  "kunit_discover env vm_name = with_guest env vm_name (\<lambda>r.
     bind (gate r) (\<lambda>state.
     bind (unit_exists r ''kunit@.service'') (\<lambda>unit.
     bind (ssh_status r [''test'', ''-d'', DEBUGFS_DIR]) (\<lambda>status.
     if \<not> (unit \<and> status = 0) then Raise RuntimeError else
     bind (guest_suites r) (\<lambda>suites.
     if suites = [] then Raise RuntimeError else
     bind (runnable_suites r) (\<lambda>runnable.
     bind (of_result (workers_env env)) (\<lambda>w.
     bind (write_cache (andthen (kunit_share_dir w vm_name) (\<lambda>d. Inr (d @ [''suites.json'']))) (string_list suites)) (\<lambda>_.
     bind (kernel_release r) (\<lambda>kver.
     Ret \<lparr>kf_vm = vm_name, kf_host = state, kf_suites = suites, kf_runnable = runnable,
       kf_kernel_version = kver\<rparr>)))))))))"

section \<open>fstests\<close>

definition GUEST_CHECK :: string where "GUEST_CHECK = ''/usr/lib/xfstests/check''"

definition remove_stale :: "path \<Rightarrow> unit prog" where
  "remove_stale p = bind (probe (IsFile p)) (\<lambda>there. only_if there (act (Unlink p)))"

definition active_state :: "remote \<Rightarrow> string \<Rightarrow> string prog" where
  "active_state r unit = bind (show_unit r unit [''ActiveState'']) (\<lambda>d. Ret (get_str d ''ActiveState''))"

record running_out =
  ru_vm :: string
  ru_item :: string
  ru_unit :: string
  ru_active_state :: string

definition fstests_start :: "environ \<Rightarrow> string \<Rightarrow> string \<Rightarrow> string \<Rightarrow> running_out prog" where
  "fstests_start env vm_name section kernel_version = with_guest env vm_name (\<lambda>r.
     let unit = template_unit ''xfstests'' section in
     bind (if kernel_version = [] then nop
           else bind (of_result (workers_env env)) (\<lambda>w.
                bind (of_result (section_results_dir w vm_name kernel_version section)) (\<lambda>d.
                remove_stale (d @ [''result.xml''])))) (\<lambda>_.
     bind (start_job r unit) (\<lambda>_.
     bind (active_state r unit) (\<lambda>state.
     if state \<notin> {''activating'', ''active''} then Raise RuntimeError
     else Ret \<lparr>ru_vm = vm_name, ru_item = section, ru_unit = unit, ru_active_state = state\<rparr>))))"

definition fstests_stop :: "environ \<Rightarrow> string \<Rightarrow> string list \<Rightarrow> stop_out prog" where
  "fstests_stop env vm_name sections =
     stop_main env vm_name sections (\<lambda>r. stop_units r (map (template_unit ''xfstests'') sections))"

definition fstyp_supported :: "remote \<Rightarrow> string list prog" where
  "fstyp_supported r =
     bind (ssh_checked r [''cat'', ''/proc/filesystems'']) (\<lambda>t.
     Ret (map last (filter (\<lambda>ws. ws \<noteq> []) (map split_ws (splitlines t)))))"

record fstests_found =
  ff_vm :: string
  ff_host :: string
  ff_devices :: "gdisk list"
  ff_fstyp :: "string list"
  ff_kernel_version :: string

definition fstests_discover :: "environ \<Rightarrow> string \<Rightarrow> fstests_found prog" where
  "fstests_discover env vm_name = with_guest env vm_name (\<lambda>r.
     bind (gate r) (\<lambda>state.
     bind (unit_exists r ''xfstests@.service'') (\<lambda>unit.
     bind (ssh_status r [''test'', ''-x'', GUEST_CHECK]) (\<lambda>status.
     if \<not> (unit \<and> status = 0) then Raise RuntimeError else
     bind (guest_disks r) (\<lambda>devices.
     if length devices < 2 then Raise RuntimeError else
     bind (fstyp_supported r) (\<lambda>fstyp.
     bind (kernel_release r) (\<lambda>kver.
     Ret \<lparr>ff_vm = vm_name, ff_host = state, ff_devices = devices, ff_fstyp = fstyp,
       ff_kernel_version = kver\<rparr>)))))))"

text \<open>
  The power cycle, once the transport is up: the boot id before, whether the restart of the unit succeeds,
  and the clock after it. Each turn of the loop meets the clock, the boot id the guest answers (none while it is
  unreachable) and the state of its systemd; the turns are the ticks of a run.
\<close>

record reboot_tick =
  rt_now :: int
  rt_boot_id :: string
  rt_state :: string

partial_function (option) reboot_loop ::
  "string \<Rightarrow> int \<Rightarrow> (nat \<Rightarrow> reboot_tick) \<Rightarrow> nat \<Rightarrow> (string \<times> string) result option" where
  "reboot_loop before deadline ticks k =
     (let now = strip (rt_boot_id (ticks k)); state = strip (rt_state (ticks k)) in
      if \<not> rt_now (ticks k) < deadline then Some (Inl TimeoutError)
      else if now \<noteq> [] \<and> now \<noteq> before \<and> booted state then Some (Inr (now, state))
      else reboot_loop before deadline ticks (Suc k))"

definition reboot :: "bool \<Rightarrow> int \<Rightarrow> int \<Rightarrow> string \<Rightarrow> bool \<Rightarrow> int \<Rightarrow> (nat \<Rightarrow> reboot_tick) \<Rightarrow>
    (string \<times> string) option result option" where
  "reboot reboot_guest reboot_timeout poll_interval boot_id restarts start ticks =
     (if \<not> reboot_guest then Some (Inr None)
      else if reboot_timeout \<le> 0 \<or> poll_interval \<le> 0 then Some (Inl ValueError)
      else if \<not> restarts then Some (Inl CalledProcessError)
      else map_option (\<lambda>r. case r of Inl e \<Rightarrow> Inl e | Inr x \<Rightarrow> Inr (Some x))
             (reboot_loop (strip boot_id) (start + reboot_timeout) ticks 0))"

section \<open>usertests\<close>

definition UNIT_TEMPLATE :: string where "UNIT_TEMPLATE = ''usertests''"

definition usertests_unit :: "string \<Rightarrow> string" where
  "usertests_unit item = UNIT_TEMPLATE @ ''@'' @ unit_escape item @ ''.service''"

definition usertests_start :: "environ \<Rightarrow> string \<Rightarrow> string \<Rightarrow> started_out prog" where
  "usertests_start env vm_name item =
     with_guest env vm_name (\<lambda>r. start_behind_cursor r vm_name item (usertests_unit item))"

definition usertests_stop :: "environ \<Rightarrow> string \<Rightarrow> string list \<Rightarrow> stop_out prog" where
  "usertests_stop env vm_name items =
     stop_main env vm_name items (\<lambda>r. stop_units r (map usertests_unit items))"

definition harnesses_of :: "string \<Rightarrow> string list" where
  "harnesses_of manifest_text =
     dedup (filter (\<lambda>l. l \<noteq> [] \<and> CHR ''/'' \<in> set l) (map strip (splitlines manifest_text)))"

record usertests_found =
  uf_vm :: string
  uf_host :: string
  uf_kernel_version :: string
  uf_store_path :: string
  uf_harnesses :: "string list"

definition usertests_discover :: "environ \<Rightarrow> string \<Rightarrow> usertests_found prog" where
  "usertests_discover env vm_name = with_guest env vm_name (\<lambda>r.
     bind (gate r) (\<lambda>state.
     bind (unit_exists r ''usertests@.service'') (\<lambda>unit.
     if \<not> unit then Raise RuntimeError else
     bind (kernel_release r) (\<lambda>kver.
     bind (store_path env (''usertests-'' @ kver)) (\<lambda>found.
     case found of None \<Rightarrow> Raise RuntimeError | Some store \<Rightarrow>
     (let dir = parts store; manifest = dir @ [''MANIFEST''] in
      bind (probe (IsFile manifest)) (\<lambda>listed.
      if \<not> listed then Raise RuntimeError else
      bind (read_text manifest) (\<lambda>t.
      if harnesses_of t = [] then Raise RuntimeError else
      bind (map_prog (\<lambda>h. probe (IsFile (path_join dir h))) (harnesses_of t)) (\<lambda>present.
      if \<not> list_all id present then Raise RuntimeError else
      bind (of_result (workers_env env)) (\<lambda>w.
      bind (write_cache (andthen (usertests_share_dir w vm_name) (\<lambda>d. Inr (d @ [''harnesses.json''])))
              (string_list (harnesses_of t))) (\<lambda>_.
      Ret \<lparr>uf_vm = vm_name, uf_host = state, uf_kernel_version = kver, uf_store_path = store,
        uf_harnesses = harnesses_of t\<rparr>)))))))))))"

end
