(* ===== verification/Blktests.thy ===== *)
theory Blktests
  imports Steps
begin

text \<open>
  The blktests suite: \<open>f/blktests/common.py\<close> and its steps. The groups and tests a run asks for, the
  rendered configuration, the per-test result files and the rows a group is collected to, the verdict, and
  the steps that prepare, start, collect, report and stop a group.

  Reading a decimal as a Python float is the parameter \<open>flt\<close>. A file that cannot be read has no content;
  the text of one that can be read is decodable.
\<close>

section \<open>Groups and tests\<close>

record catalog_group =
  g_name :: string
  g_description :: string
  g_tests :: nat

definition GROUPS :: "catalog_group list" where
  "GROUPS = map (\<lambda>(n, d, t). \<lparr>g_name = n, g_description = d, g_tests = t\<rparr>)
     [(''block'', ''Generic block layer tests'', 44),
      (''nvme'', ''NVMe device and fabrics tests'', 61),
      (''meta'', ''Testing framework self-tests'', 24),
      (''srp'', ''SRP over RDMA tests'', 15),
      (''zbd'', ''Zoned block device tests'', 14),
      (''loop'', ''Loop device tests'', 13),
      (''scsi'', ''SCSI generic device tests'', 10),
      (''throtl'', ''blk-throttle tests'', 8),
      (''ublk'', ''ublk driver tests'', 6),
      (''nbd'', ''NBD tests'', 4),
      (''md'', ''md raid tests'', 4),
      (''dm'', ''Device-mapper tests'', 3),
      (''rnbd'', ''RNBD tests'', 2),
      (''blktrace'', ''blktrace infrastructure tests'', 2),
      (''bcache'', ''bcache tests'', 1)]"

definition group_names :: "string list" where
  "group_names = map g_name GROUPS"

definition default_groups :: "string list" where
  "default_groups = filter (\<lambda>g. g \<noteq> ''meta'') (map g_name GROUPS)"

text \<open>The two validators of a path component; each strips what it is given.\<close>

definition safe_kernel :: "string \<Rightarrow> string result" where
  "safe_kernel kernel_version =
     (let kv = strip kernel_version in
      if kv = [] \<or> CHR ''/'' \<in> set kv \<or> kv \<in> {''.'', ''..''} then Inl ValueError else Inr kv)"

definition safe_group :: "string \<Rightarrow> string result" where
  "safe_group name =
     (let g = strip name in
      if g = [] \<or> CHR ''/'' \<in> set g \<or> g \<in> {''.'', ''..''} then Inl ValueError else Inr g)"

definition results_dir :: "path \<Rightarrow> string \<Rightarrow> string \<Rightarrow> path result" where
  "results_dir workers vm_name kernel_version =
     andthen (blktests_share_dir workers vm_name) (\<lambda>base.
     andthen (safe_kernel kernel_version) (\<lambda>kv.
       let p = resolve_path (base @ [kv, ''results'']) in
       if in_parents base p then Inr p else Inl ValueError))"

definition report_path :: "path \<Rightarrow> string \<Rightarrow> string \<Rightarrow> path result" where
  "report_path workers vm_name kernel_version =
     andthen (blktests_share_dir workers vm_name) (\<lambda>share.
       if strip kernel_version = [] then Inr (share @ [''report.json''])
       else andthen (safe_kernel kernel_version) (\<lambda>kv. Inr (share @ [kv, ''report.json''])))"

definition name_char :: "char \<Rightarrow> bool" where
  "name_char c = (is_alnum_ascii c \<or> c = CHR ''_'' \<or> c = CHR ''-'')"

definition GROUP_NAME_RE :: re where
  "GROUP_NAME_RE = RSeqs [RBol, RPlus (RCls name_char), REol]"

definition TEST_NAME_RE :: re where
  "TEST_NAME_RE = RSeqs [RBol, RGrp ''1'' (RPlus (RCls name_char)), RLit ''/'',
     RGrp ''2'' (RTimes 3 RDigit), REol]"

text \<open>The \<open>tests\<close> argument: a text, or a list (\<open>None\<close> counts as the empty one).\<close>

datatype tests_arg = TestsText string | TestsList "string list"

definition test_names :: "tests_arg \<Rightarrow> string list" where
  "test_names t = (case t of TestsText s \<Rightarrow> split_ws s | TestsList ts \<Rightarrow> filter (\<lambda>t. t \<noteq> []) ts)"

text \<open>The loops of \<open>build_args\<close>: \<open>d.setdefault(group, []).append(name)\<close>, and the selected groups.\<close>

definition add_test_name :: "string \<Rightarrow> string \<Rightarrow> (string, string list) dict \<Rightarrow> (string, string list) dict" where
  "add_test_name g name d =
     dict_set g ((case dict_get d g of None \<Rightarrow> [] | Some ms \<Rightarrow> ms) @ [name]) d"

fun tests_by_group :: "string list \<Rightarrow> (string, string list) dict \<Rightarrow> (string, string list) dict result" where
  "tests_by_group [] d = Inr d"
| "tests_by_group (name # names) d =
     (case re_match TEST_NAME_RE name of
        None \<Rightarrow> Inl ValueError
      | Some m \<Rightarrow> tests_by_group names (add_test_name (grp0 m ''1'') name d))"

fun selected_groups :: "string list \<Rightarrow> string list \<Rightarrow> string list result" where
  "selected_groups [] selected = Inr selected"
| "selected_groups (g # gs) selected =
     (if re_match GROUP_NAME_RE g = None then Inl ValueError
      else selected_groups gs (if g \<in> set selected then selected else selected @ [g]))"

definition build_args :: "string \<Rightarrow> string list \<Rightarrow> tests_arg \<Rightarrow> (string, string) dict result" where
  "build_args selection groups asked =
     (if selection = ''tests'' then
        (let names = test_names asked in
         if names = [] then Inl ValueError
         else andthen (tests_by_group names []) (\<lambda>out.
           Inr (map (\<lambda>(g, ms). (g, join '' '' ms)) out)))
      else andthen (selected_groups (if groups = [] then default_groups else groups) []) (\<lambda>selected.
           Inr (map (\<lambda>g. (g, g)) selected)))"

section \<open>The configuration\<close>

record blk_config =
  bc_test_devs :: "string list"
  bc_device_only :: bool
  bc_quick_run :: bool
  bc_timeout :: int
  bc_exclude :: "string list"
  bc_run_zoned_tests :: bool
  bc_normal_user :: string
  bc_nvmet_trtypes :: "string list"
  bc_nvmet_blkdev_types :: "string list"
  bc_nvme_img_size :: string
  bc_nvme_num_iter :: int
  bc_use_rxe :: bool
  bc_throtl_blkdev_types :: "string list"
  bc_test_timeout :: int
  bc_test_timeouts :: "(string, int) dict"
  bc_edit_config :: bool
  bc_config :: string

definition words :: "string list \<Rightarrow> string" where
  "words xs = join '' '' (filter (\<lambda>x. x \<noteq> []) xs)"

text \<open>A line \<open>NAME=value\<close>, only where the condition holds.\<close>

definition line_if :: "bool \<Rightarrow> string \<Rightarrow> string \<Rightarrow> string list" where
  "line_if b name v = (if b then [name @ ''='' @ v] else [])"

definition double_quoted :: "string \<Rightarrow> string" where
  "double_quoted s = CHR 0x22 # s @ [CHR 0x22]"

definition config_lines :: "blk_config \<Rightarrow> string list" where
  "config_lines c =
     (let array = (\<lambda>xs. ''('' @ words xs @ '')'');
          given = (\<lambda>xs. filter (\<lambda>x. x \<noteq> []) xs \<noteq> []);
          pairs = timeout_pairs (bc_test_timeouts c) in
      line_if (given (bc_test_devs c)) ''TEST_DEVS'' (array (bc_test_devs c))
      @ line_if (bc_device_only c) ''DEVICE_ONLY'' ''1''
      @ line_if (bc_quick_run c) ''QUICK_RUN'' ''1''
      @ line_if (bc_timeout c \<noteq> 0 \<or> bc_quick_run c) ''TIMEOUT''
          (show_int (if bc_timeout c \<noteq> 0 then bc_timeout c else 30))
      @ line_if (given (bc_exclude c)) ''EXCLUDE'' (array (bc_exclude c))
      @ line_if (bc_run_zoned_tests c) ''RUN_ZONED_TESTS'' ''1''
      @ line_if True ''NORMAL_USER'' (if bc_normal_user c \<noteq> [] then bc_normal_user c else ''blktests'')
      @ line_if (words (bc_nvmet_trtypes c) \<noteq> []) ''NVMET_TRTYPES'' (double_quoted (words (bc_nvmet_trtypes c)))
      @ line_if (words (bc_nvmet_blkdev_types c) \<noteq> []) ''NVMET_BLKDEV_TYPES''
          (double_quoted (words (bc_nvmet_blkdev_types c)))
      @ line_if (bc_nvme_img_size c \<noteq> []) ''NVME_IMG_SIZE'' (bc_nvme_img_size c)
      @ line_if (bc_nvme_num_iter c \<noteq> 0) ''NVME_NUM_ITER'' (show_int (bc_nvme_num_iter c))
      @ line_if (bc_use_rxe c) ''USE_RXE'' ''1''
      @ line_if (words (bc_throtl_blkdev_types c) \<noteq> []) ''THROTL_BLKDEV_TYPES''
          (double_quoted (words (bc_throtl_blkdev_types c)))
      @ line_if (bc_test_timeout c \<noteq> 0) ''TEST_TIMEOUT'' (show_int (bc_test_timeout c))
      @ line_if (pairs \<noteq> []) ''TEST_TIMEOUTS'' (double_quoted pairs))"

definition render_blktests_config :: "blk_config \<Rightarrow> string" where
  "render_blktests_config c =
     (let raw = strip (bc_config c) in
      if bc_edit_config c \<and> raw \<noteq> [] then raw @ nl else join nl (config_lines c) @ nl)"

section \<open>Result files\<close>

text \<open>The TSV lines of one result file; without a \<open>status\<close> the result is \<open>missing\<close>.\<close>

definition seqres_line :: "string \<Rightarrow> (string, string) dict \<Rightarrow> (string, string) dict" where
  "seqres_line line d =
     (if CHR 0x09 \<notin> set line \<or> strip (before_chr (CHR 0x09) line) = [] then d
      else dict_set (strip (before_chr (CHR 0x09) line)) (strip (after_chr (CHR 0x09) line)) d)"

definition parse_seqres :: "string \<Rightarrow> (string, string) dict" where
  "parse_seqres text =
     (let d = fold seqres_line (splitlines text) [] in
      if ''status'' \<notin> set (keys d) then dict_set ''status'' ''missing'' d else d)"

text \<open>
  \<open>_RUNTIME_RE.fullmatch\<close>: the text is stripped, so that the end of the line is the end of the text.
\<close>

definition RUNTIME_RE :: re where
  "RUNTIME_RE = RSeqs [RGrp ''1'' (RSeq (RPlus RDigit) (ROpt (RSeq (RLit ''.'') (RPlus RDigit)))),
     ROpt (RLit ''s'')]"

definition runtime_seconds :: "(string \<Rightarrow> 'f) \<Rightarrow> string \<Rightarrow> 'f option" where
  "runtime_seconds flt v =
     map_option (\<lambda>m. flt (grp0 m ''1'')) (re_match (RSeq RUNTIME_RE REol) (strip v))"

definition TEST_NUM_RE :: re where
  "TEST_NUM_RE = RSeqs [RBol, RTimes 3 RDigit, REol]"

text \<open>
  The part of the host's file system the suite reads: a file with its text (none when reading it
  raises \<open>OSError\<close>), a directory with its entries, of distinct names and in no order.
\<close>

datatype node = File "string option" | Dir "(string \<times> node) list"

fun node_at :: "node \<Rightarrow> path \<Rightarrow> node option" where
  "node_at n [] = Some n"
| "node_at (Dir es) (c # cs) = (case dict_get es c of None \<Rightarrow> None | Some n \<Rightarrow> node_at n cs)"
| "node_at (File _) (c # cs) = None"

fun is_directory :: "node \<Rightarrow> bool" where
  "is_directory (Dir _) = True"
| "is_directory (File _) = False"

text \<open>\<open>sorted(p.iterdir())\<close>.\<close>

fun listing :: "node \<Rightarrow> (string \<times> node) list" where
  "listing (Dir es) = sort_key fst es"
| "listing (File _) = []"

record 'f blk_row =
  r_devdir :: string
  r_test :: string
  r_status :: string
  r_reason :: string
  r_runtime :: "'f option"

definition read_seqres :: "string option \<Rightarrow> (string, string) dict" where
  "read_seqres content =
     (case content of None \<Rightarrow> [(''status'', ''missing'')] | Some t \<Rightarrow> parse_seqres t)"

definition result_row :: "(string \<Rightarrow> 'f) \<Rightarrow> string \<Rightarrow> string \<Rightarrow> string \<Rightarrow> string option \<Rightarrow> 'f blk_row" where
  "result_row flt devdir g name content =
     (let d = read_seqres content in
      \<lparr>r_devdir = devdir, r_test = g @ ''/'' @ name,
       r_status = (case dict_get d ''status'' of None \<Rightarrow> ''missing'' | Some s \<Rightarrow> s),
       r_reason = get_str d ''reason'',
       r_runtime = runtime_seconds flt (get_str d ''runtime'')\<rparr>)"

definition entry_row :: "(string \<Rightarrow> 'f) \<Rightarrow> string \<Rightarrow> string \<Rightarrow> string \<times> node \<Rightarrow> 'f blk_row option" where
  "entry_row flt devdir g = (\<lambda>(name, n). case n of
     Dir _ \<Rightarrow> None
   | File content \<Rightarrow>
       (if re_match TEST_NUM_RE name = None then None else Some (result_row flt devdir g name content)))"

definition devdir_rows :: "(string \<Rightarrow> 'f) \<Rightarrow> string \<Rightarrow> string \<times> node \<Rightarrow> 'f blk_row list" where
  "devdir_rows flt g = (\<lambda>(devdir, n). case node_at n [g] of
     None \<Rightarrow> []
   | Some group_dir \<Rightarrow> List.map_filter (entry_row flt devdir g) (listing group_dir))"

definition collect_group_rows :: "(string \<Rightarrow> 'f) \<Rightarrow> node option \<Rightarrow> string \<Rightarrow> 'f blk_row list result" where
  "collect_group_rows flt results_root name =
     andthen (safe_group name) (\<lambda>g. Inr (case results_root of
        None \<Rightarrow> []
      | Some root \<Rightarrow> concat (map (devdir_rows flt g) (filter (\<lambda>(_, n). is_directory n) (listing root)))))"

section \<open>The verdict\<close>

definition row_green :: "'f blk_row \<Rightarrow> bool" where
  "row_green r = (r_status r = ''pass'' \<or> r_status r = ''not run'')"

definition group_status :: "'f blk_row list \<Rightarrow> bool \<Rightarrow> bool \<Rightarrow> bool \<Rightarrow> item_status" where
  "group_status rows unit_ok crashed timed_out =
     (if crashed \<or> timed_out \<or> \<not> unit_ok then Failed
      else if rows = [] then Notrun
      else if list_ex (\<lambda>r. \<not> row_green r) rows then Failed
      else if list_all (\<lambda>r. r_status r = ''not run'') rows then Notrun
      else Passed)"

definition blktests_run_status :: "collected list \<Rightarrow> item_status" where
  "blktests_run_status per_group =
     (if per_group \<noteq> [] \<and> list_all item_passed per_group then Passed else Failed)"

interpretation blktests: verdict blktests_run_status item_passed
  by unfold_locales (auto simp: blktests_run_status_def list_all_iff)

definition blktests_judge :: "collected list option \<Rightarrow> 'r option \<Rightarrow> 'r option result" where
  "blktests_judge per_group rep =
     (let groups = (case per_group of None \<Rightarrow> [] | Some xs \<Rightarrow> xs) in
      if blktests_run_status groups \<noteq> Passed then Inl RuntimeError else Inr rep)"

lemma blktests_judge_ok:
  "blktests_judge (Some xs) r = Inr r' \<longleftrightarrow> xs \<noteq> [] \<and> (\<forall>x \<in> set xs. x = Result Passed) \<and> r' = r"
  using blktests.passed_iff [of xs] by (auto simp: blktests_judge_def item_passed_iff)

section \<open>One group: the collect step\<close>

text \<open>Failures first, then truncated results, then what did not run, then the passes.\<close>

definition row_rank :: "string \<Rightarrow> nat" where
  "row_rank status =
     (case dict_get [(''fail'', 0), (''missing'', 1), (''not run'', 2), (''pass'', 3)] status of
        None \<Rightarrow> 0 | Some n \<Rightarrow> n)"

record blk_in =
  bi_vm_name :: string
  bi_group :: string
  bi_kernel_version :: string
  bi_unit_ok :: bool
  bi_crashed :: bool
  bi_timed_out :: bool
  bi_started_ms :: "int option"
  bi_ended_ms :: "int option"

record 'f blk_out =
  bo_group :: string
  bo_vm_name :: string
  bo_kernel_version :: string
  bo_status :: item_status
  bo_crashed :: bool
  bo_timed_out :: bool
  bo_started_ms :: "int option"
  bo_ended_ms :: "int option"
  bo_rows :: "'f blk_row list"
  bo_pass :: nat
  bo_fail :: nat
  bo_notrun :: nat

definition row_key :: "'f blk_row \<Rightarrow> nat \<times> string \<times> string" where
  "row_key r = (row_rank (r_status r), r_devdir r, r_test r)"

definition count_rows :: "('f blk_row \<Rightarrow> bool) \<Rightarrow> 'f blk_row list \<Rightarrow> nat" where
  "count_rows p rows = length (filter p rows)"

definition blktests_collect :: "(string \<Rightarrow> 'f) \<Rightarrow> path \<Rightarrow> node \<Rightarrow> blk_in \<Rightarrow> 'f blk_out result" where
  "blktests_collect flt workers fs i =
     andthen (results_dir workers (bi_vm_name i) (bi_kernel_version i)) (\<lambda>root.
     andthen (collect_group_rows flt (node_at fs root) (bi_group i)) (\<lambda>found.
       let rows = sort_key row_key found in
       Inr \<lparr>bo_group = bi_group i, bo_vm_name = bi_vm_name i, bo_kernel_version = bi_kernel_version i,
         bo_status = group_status rows (bi_unit_ok i) (bi_crashed i) (bi_timed_out i),
         bo_crashed = bi_crashed i, bo_timed_out = bi_timed_out i,
         bo_started_ms = bi_started_ms i, bo_ended_ms = bi_ended_ms i, bo_rows = rows,
         bo_pass = count_rows (\<lambda>r. r_status r = ''pass'') rows,
         bo_fail = count_rows (\<lambda>r. \<not> row_green r) rows,
         bo_notrun = count_rows (\<lambda>r. r_status r = ''not run'') rows\<rparr>))"

section \<open>One group: the start step\<close>

text \<open>\<open>shutil.rmtree\<close> of an entry below the root of the tree.\<close>

fun rmtree_at :: "path \<Rightarrow> node \<Rightarrow> node" where
  "rmtree_at [] n = n"
| "rmtree_at (c # cs) (File f) = File f"
| "rmtree_at (c # cs) (Dir es) =
     (if cs = [] then Dir (dict_del c es)
      else Dir (map (\<lambda>(k, n). if k = c then (k, rmtree_at cs n) else (k, n)) es))"

definition is_dir_at :: "node \<Rightarrow> path \<Rightarrow> bool" where
  "is_dir_at fs p = (case node_at fs p of None \<Rightarrow> False | Some n \<Rightarrow> is_directory n)"

definition devdirs :: "node \<Rightarrow> path \<Rightarrow> string list" where
  "devdirs fs root =
     (case node_at fs root of None \<Rightarrow> [] | Some n \<Rightarrow> map fst (filter (\<lambda>(_, m). is_directory m) (listing n)))"

definition remove_group :: "path \<Rightarrow> string \<Rightarrow> string \<Rightarrow> node \<Rightarrow> node" where
  "remove_group root g devdir fs =
     (if is_dir_at fs (root @ [devdir, g]) then rmtree_at (root @ [devdir, g]) fs else fs)"

definition clear_group :: "path \<Rightarrow> string \<Rightarrow> node \<Rightarrow> node" where
  "clear_group root g fs = fold (remove_group root g) (devdirs fs root) fs"

text \<open>
  The host side of \<open>start.main\<close>: the group's stale subtrees go before the unit is started. Without a kernel
  version nothing is removed.
\<close>

definition start_group :: "path \<Rightarrow> string \<Rightarrow> string \<Rightarrow> string \<Rightarrow> node \<Rightarrow> node result" where
  "start_group workers vm_name name kernel_version fs =
     andthen (safe_group name) (\<lambda>g.
       if kernel_version = [] then Inr fs
       else andthen (results_dir workers vm_name kernel_version) (\<lambda>root. Inr (clear_group root g fs)))"

text \<open>Its commands, with the removals as the file-system calls they are.\<close>

definition remove_stale_group :: "path \<Rightarrow> string \<Rightarrow> unit prog" where
  "remove_stale_group root g =
     bind (probe (IsDir root)) (\<lambda>there. only_if there
       (Do (ListDir root) (\<lambda>a.
          bind (map_prog (\<lambda>name. probe (IsDir (root @ [name]))) (entries a)) (\<lambda>dirs.
          for_each (sort (map fst (filter snd (zip (entries a) dirs)))) (\<lambda>devdir.
            bind (probe (IsDir (root @ [devdir, g]))) (\<lambda>stale.
            only_if stale (act (Rmtree (root @ [devdir, g])))))))))"

definition blktests_start :: "environ \<Rightarrow> string \<Rightarrow> string \<Rightarrow> string \<Rightarrow> running_out prog" where
  "blktests_start env vm_name name kernel_version = with_guest env vm_name (\<lambda>r.
     bind (of_result (safe_group name)) (\<lambda>g.
     let unit = template_unit ''blktests'' g in
     bind (if kernel_version = [] then nop
           else bind (of_result (workers_env env)) (\<lambda>w.
                bind (of_result (results_dir w vm_name kernel_version)) (\<lambda>root.
                remove_stale_group root g))) (\<lambda>_.
     bind (start_job r unit) (\<lambda>_.
     bind (active_state r unit) (\<lambda>state.
     Ret \<lparr>ru_vm = vm_name, ru_item = g, ru_unit = unit, ru_active_state = state\<rparr>)))))"

section \<open>Wiping and stopping\<close>

definition wipe_script :: "string list \<Rightarrow> string" where
  \<open>wipe_script names =
     ''ok=0; for d in '' @ join '' '' (map shlex_quote names) @ ''; do ''
     @ ''for mp in $(findmnt --raw --noheadings --source "$d" --output TARGET 2>/dev/null); do umount --recursive "$mp" 2>/dev/null || true; done; ''
     @ ''umount "$d" 2>/dev/null || true; ''
     @ ''wipefs --all "$d" >/dev/null 2>&1 || echo "  warn: wipefs $d failed (continuing)"; ''
     @ ''if blkdiscard --force "$d" 2>/dev/null || blkdiscard "$d" 2>/dev/null; then ''
     @ ''ok=$((ok+1)); echo "+ wiped $d"; ''
     @ ''else echo "  warn: blkdiscard $d failed (busy or no discard support)"; fi; ''
     @ ''done; ''
     @ ''echo "wipe: $ok/'' @ show_nat (length names) @ '' device(s) discarded"; ''
     @ ''[ "$ok" -gt 0 ] || { echo "error: no device could be discarded" >&2; exit 1; }''\<close>

definition WIPED :: string where "WIPED = ''+ wiped ''"

definition wipe :: "remote \<Rightarrow> string list \<Rightarrow> (string list \<times> string list) prog" where
  "wipe r names =
     bind (ssh_checked r [''bash'', ''-c'', wipe_script names]) (\<lambda>t.
       let wiped = map (drop (length WIPED)) (filter (prefix WIPED) (splitlines t)) in
       Ret (wiped, filter (\<lambda>n. n \<notin> set wiped) names))"

definition blktests_wipe :: "environ \<Rightarrow> string \<Rightarrow> string list \<Rightarrow> bool \<Rightarrow> (string list \<times> string list) prog" where
  "blktests_wipe env vm_name test_devs wipe_devices =
     (let names = filter (\<lambda>d. d \<noteq> []) test_devs in
      if \<not> wipe_devices \<or> names = [] then Ret ([], [])
      else with_guest env vm_name (\<lambda>r. wipe r names))"

definition scopes_of :: "string \<Rightarrow> string list" where
  "scopes_of printed =
     filter (suffix ''.scope'') (map hd (filter (\<lambda>ws. ws \<noteq> []) (map split_ws (splitlines printed))))"

definition blktests_stop :: "environ \<Rightarrow> string \<Rightarrow> string list \<Rightarrow> stop_out prog" where
  "blktests_stop env vm_name groups =
     stop_main env vm_name groups (\<lambda>r.
       bind (stop_units r (map (template_unit ''blktests'') groups)) (\<lambda>units.
       bind (ssh_text r [''systemctl'', ''list-units'', ''--type=scope'', ''--all'', ''--no-legend'', ''--plain'', ''blktests-*'']) (\<lambda>t.
       bind (stop_units r (scopes_of t)) (\<lambda>scopes. Ret (units @ scopes)))))"

section \<open>Discovering a guest\<close>

definition EXEC_PATH_RE :: re where
  "EXEC_PATH_RE = RSeqs [RLit ''path='', RGrp ''1'' (RPlus (RCls (\<lambda>c. \<not> is_space c \<and> c \<noteq> CHR '';'')))]"

definition parent_str :: "string \<Rightarrow> string" where
  "parent_str p =
     (let up = butlast (parts p) in
      if is_absolute p then path_str up else if up = [] then ''.'' else join ''/'' up)"

definition unit_paths :: "remote \<Rightarrow> (string \<times> string) prog" where
  "unit_paths r =
     bind (show_unit r ''blktests@probe.service'' [''ExecStart'', ''WorkingDirectory'']) (\<lambda>props.
       let check_path = (case re_search EXEC_PATH_RE (get_str props ''ExecStart'') of
             None \<Rightarrow> [] | Some (_, m) \<Rightarrow> grp0 m ''1'');
           wd = get_str props ''WorkingDirectory'' in
       Ret (check_path, if wd \<noteq> [] then wd else if check_path \<noteq> [] then parent_str check_path else []))"

definition installed_groups :: "string \<Rightarrow> string \<Rightarrow> string list" where
  "installed_groups package_dir printed =
     sort (dedup (map parent_name
       (filter (\<lambda>p. prefix (package_dir @ ''/tests/'') p \<and> suffix ''/rc'' p) (split_ws printed))))"

definition installed_tests :: "string \<Rightarrow> string \<Rightarrow> string list" where
  "installed_tests package_dir printed =
     (let pre = package_dir @ ''/tests/'' in
      sort (map (drop (length pre))
        (filter (\<lambda>p. prefix pre p \<and> isdigit (after_last_chr (CHR ''/'') p)) (split_ws printed))))"

record blk_found =
  bf_vm :: string
  bf_host :: string
  bf_devices :: "gdisk list"
  bf_groups :: "string list"
  bf_kernel_version :: string

definition disk_json :: "gdisk \<Rightarrow> json" where
  "disk_json d = JObj [(''name'', JStr (gd_name d)), (''size'', JStr (gd_size d)), (''log_sec'', JInt (int (gd_log_sec d)))]"

definition cache_json :: "string list \<Rightarrow> string list \<Rightarrow> gdisk list \<Rightarrow> json" where
  "cache_json groups ts devices =
     JObj [(''groups'', string_list groups), (''tests'', string_list ts), (''devices'', JList (map disk_json devices))]"

definition groups_cache :: "path \<Rightarrow> string \<Rightarrow> path result" where
  "groups_cache workers vm_name =
     andthen (blktests_share_dir workers vm_name) (\<lambda>d. Inr (d @ [''groups.json'']))"

definition blktests_discover :: "environ \<Rightarrow> string \<Rightarrow> blk_found prog" where
  "blktests_discover env vm_name = with_guest env vm_name (\<lambda>r.
     bind (gate r) (\<lambda>state.
     bind (unit_exists r ''blktests@.service'') (\<lambda>unit.
     bind (if unit then unit_paths r else Ret ([], [])) (\<lambda>(check_path, package_dir).
     bind (if check_path = [] then Ret False
           else bind (ssh_status r [''test'', ''-x'', check_path]) (\<lambda>status. Ret (status = 0))) (\<lambda>check.
     if \<not> (unit \<and> check) then Raise RuntimeError else
     bind (ssh_text r [''sh'', ''-c'', ''ls --directory '' @ package_dir @ ''/tests/*/rc'']) (\<lambda>t.
     let groups = installed_groups package_dir t in
     if groups = [] then Raise RuntimeError else
     bind (ssh_text r [''sh'', ''-c'', ''ls '' @ package_dir @ ''/tests/*/[0-9][0-9][0-9]'']) (\<lambda>ts.
     bind (guest_disks r) (\<lambda>devices.
     bind (of_result (workers_env env)) (\<lambda>w.
     bind (write_cache (groups_cache w vm_name) (cache_json groups (installed_tests package_dir ts) devices)) (\<lambda>_.
     bind (kernel_release r) (\<lambda>kver.
     Ret \<lparr>bf_vm = vm_name, bf_host = state, bf_devices = devices, bf_groups = groups,
       bf_kernel_version = kver\<rparr>)))))))))))"

section \<open>Rendering a run\<close>

definition stem :: "string \<Rightarrow> string" where
  "stem name = (if name = ''.env'' then name else take (length name - 4) name)"

definition env_file :: "path \<Rightarrow> string \<Rightarrow> path" where
  "env_file share g = share @ parts (g @ ''.env'')"

record blk_rendered =
  br_share_dir :: path
  br_results_dir :: path
  br_groups :: "string list"
  br_group_envs :: "path list"
  br_cleaned :: bool

definition blktests_render ::
  "environ \<Rightarrow> string \<Rightarrow> string \<Rightarrow> string \<Rightarrow> string list \<Rightarrow> tests_arg \<Rightarrow> blk_config \<Rightarrow> bool \<Rightarrow> blk_rendered prog" where
  "blktests_render env vm_name kernel_version selection groups asked config clean_results =
     bind (of_result (workers_env env)) (\<lambda>w.
     bind (of_result (blktests_share_dir w vm_name)) (\<lambda>share.
     bind (of_result (build_args selection groups asked)) (\<lambda>args.
     bind (atomic_write (share @ [''config'']) (render_blktests_config (config\<lparr>bc_normal_user := ''blktests''\<rparr>))) (\<lambda>_.
     bind (of_result (results_dir w vm_name kernel_version)) (\<lambda>results.
     bind (if clean_results then probe (IsDir results) else Ret False) (\<lambda>cleaned.
     bind (only_if cleaned (act (Rmtree results))) (\<lambda>_.
     bind (for_each args (\<lambda>(g, positionals).
             atomic_write (env_file share g) (''BLKTESTS_ARGS='' @ positionals @ nl))) (\<lambda>_.
     bind (Do (ListDir share) (\<lambda>a. Ret (sort (filter (suffix ''.env'') (entries a))))) (\<lambda>envs.
     bind (for_each envs (\<lambda>name.
             bind (probe (IsFile (share @ [name]))) (\<lambda>is_file.
             only_if (is_file \<and> stem name \<notin> set (keys args)) (act (Unlink (share @ [name])))))) (\<lambda>_.
     Ret \<lparr>br_share_dir = share, br_results_dir = results, br_groups = keys args,
       br_group_envs = map (env_file share) (keys args), br_cleaned = cleaned\<rparr>))))))))))"

section \<open>The report\<close>

text \<open>
  What the flow's loop hands on per group: a collect result, or what a failed step left in its place (an
  error object, or no object at all). The icons of the tables are constructors; the JSON text of the rollup
  is not modelled, only where it is written.
\<close>

datatype 'f group_entry = Collected "'f blk_out" | ErrorObject | NotObject

definition as_collected :: "'f group_entry \<Rightarrow> collected" where
  "as_collected g = (case g of Collected c \<Rightarrow> Result (bo_status c) | ErrorObject \<Rightarrow> NoStatus | NotObject \<Rightarrow> NotADict)"

definition TEST_TABLE_CAP :: nat where "TEST_TABLE_CAP = 1000"

datatype icon = Tick | Cross | Circle

definition ICON :: "item_status \<Rightarrow> icon" where
  "ICON st = (case st of Passed \<Rightarrow> Tick | Failed \<Rightarrow> Cross | Notrun \<Rightarrow> Circle)"

definition ROW_ICON :: "(string, icon) dict" where
  "ROW_ICON = [(''pass'', Tick), (''fail'', Cross), (''not run'', Circle), (''missing'', Cross)]"

record group_row =
  gw_group :: string
  gw_pass :: nat
  gw_fail :: nat
  gw_notrun :: nat
  gw_crashed :: bool
  gw_timed_out :: bool
  gw_status :: icon

definition group_row_of :: "'f group_entry \<Rightarrow> group_row" where
  "group_row_of g =
     (case g of
        Collected c \<Rightarrow>
          \<lparr>gw_group = (if bo_group c \<noteq> [] then bo_group c else ''(step failed)''), gw_pass = bo_pass c,
           gw_fail = bo_fail c, gw_notrun = bo_notrun c, gw_crashed = bo_crashed c,
           gw_timed_out = bo_timed_out c, gw_status = ICON (bo_status c)\<rparr>
      | _ \<Rightarrow> \<lparr>gw_group = ''(step failed)'', gw_pass = 0, gw_fail = 0, gw_notrun = 0, gw_crashed = False,
           gw_timed_out = False, gw_status = Cross\<rparr>)"

definition rows_of :: "'f group_entry \<Rightarrow> (string \<times> 'f blk_row) list" where
  "rows_of g = (case g of Collected c \<Rightarrow> map (Pair (bo_group c)) (bo_rows c) | _ \<Rightarrow> [])"

definition table_key :: "string \<times> 'f blk_row \<Rightarrow> nat \<times> string \<times> string \<times> string" where
  "table_key = (\<lambda>(g, r). (row_rank (r_status r), g, r_devdir r, r_test r))"

record 'f blk_report =
  bp_status :: item_status
  bp_kernel_version :: string
  bp_group_rows :: "group_row list"
  bp_test_rows :: "(string \<times> 'f blk_row) list"
  bp_failures :: "(string \<times> 'f blk_row) list"
  bp_report_json :: "path option"

definition first_kernel :: "'f group_entry list \<Rightarrow> string" where
  "first_kernel groups =
     (case filter (\<lambda>v. v \<noteq> []) (map (\<lambda>g. case g of Collected c \<Rightarrow> bo_kernel_version c | _ \<Rightarrow> []) groups) of
        [] \<Rightarrow> [] | v # _ \<Rightarrow> v)"

definition blktests_report :: "path \<Rightarrow> 'f group_entry list \<Rightarrow> string \<Rightarrow> 'f blk_report result" where
  "blktests_report workers groups vm_name =
     (let kver = first_kernel groups in
      andthen (if vm_name = [] then Inr None else andthen (report_path workers vm_name kver) (\<lambda>p. Inr (Some p))) (\<lambda>p.
        Inr \<lparr>bp_status = blktests_run_status (map as_collected groups), bp_kernel_version = kver,
          bp_group_rows = map group_row_of groups,
          bp_test_rows = sort_key table_key (concat (map (take TEST_TABLE_CAP \<circ> rows_of) groups)),
          bp_failures = filter (\<lambda>(g, r). \<not> row_green r) (concat (map rows_of groups)),
          bp_report_json = p\<rparr>))"

section \<open>The pickers\<close>

text \<open>
  A cache is the JSON value its file holds, or nothing when it cannot be read or parsed. What the code
  iterates over may be any value; \<open>py_str\<close> is \<open>str\<close> of a value of unknown shape.
\<close>

definition cache_of :: "json option \<Rightarrow> (string, json) dict" where
  "cache_of data =
     (case data of Some (JList xs) \<Rightarrow> [(''groups'', JList xs)] | Some (JObj d) \<Rightarrow> d | _ \<Rightarrow> [])"

definition iterate :: "json option \<Rightarrow> json list result" where
  "iterate v =
     (case v of
        None \<Rightarrow> Inr []
      | Some x \<Rightarrow>
          (if \<not> truthy x then Inr []
           else (case x of
                   JList xs \<Rightarrow> Inr xs
                 | JObj d \<Rightarrow> Inr (map (JStr \<circ> fst) d)
                 | JStr s \<Rightarrow> Inr (map (\<lambda>c. JStr [c]) s)
                 | _ \<Rightarrow> Inl TypeError)))"

definition strings_in :: "json list \<Rightarrow> string list" where
  "strings_in xs = List.map_filter (\<lambda>x. case x of JStr s \<Rightarrow> Some s | _ \<Rightarrow> None) xs"

definition TEST_RANGES :: "(string, nat \<times> nat \<times> nat list) dict" where
  "TEST_RANGES =
     [(''bcache'', (1, 1, [])), (''blktrace'', (1, 2, [])), (''block'', (1, 46, [13, 26])), (''dm'', (1, 3, [])),
      (''loop'', (1, 13, [])), (''md'', (1, 4, [])), (''meta'', (1, 24, [])), (''nbd'', (1, 4, [])),
      (''nvme'', (2, 69, [7, 9, 11, 13, 15, 20, 24])), (''rnbd'', (1, 2, [])), (''scsi'', (1, 11, [3])),
      (''srp'', (1, 16, [15])), (''throtl'', (1, 8, [])), (''ublk'', (1, 6, [])), (''zbd'', (1, 14, []))]"

text \<open>\<open>f"{n:03d}"\<close>.\<close>

definition pad3 :: "nat \<Rightarrow> string" where
  "pad3 n = replicate (3 - length (show_nat n)) (CHR ''0'') @ show_nat n"

definition catalog_tests :: "string list" where
  "catalog_tests = concat (map (\<lambda>g.
     case dict_get TEST_RANGES g of
       None \<Rightarrow> []
     | Some (lo, hi, missing) \<Rightarrow>
         map (\<lambda>n. g @ ''/'' @ pad3 n) (filter (\<lambda>n. n \<notin> set missing) [lo..<Suc hi])) group_names)"

definition pick :: "(string \<times> string) list \<Rightarrow> string \<Rightarrow> (string \<times> string) list" where
  "pick options filterText =
     filter (\<lambda>(v, label). contains (lower filterText) (lower v) \<or> contains (lower filterText) (lower label)) options"

definition list_blktests :: "json option \<Rightarrow> string \<Rightarrow> (string \<times> string) list result" where
  "list_blktests data filterText =
     andthen (iterate (dict_get (cache_of data) ''tests'')) (\<lambda>xs.
       let names = (if strings_in xs = [] then catalog_tests else strings_in xs) in
       Inr (pick (map (\<lambda>t. (t, t)) names) filterText))"

definition FALLBACK_DEVICES :: "string list" where
  "FALLBACK_DEVICES = map (\<lambda>i. ''/dev/nvme'' @ show_nat i @ ''n1'') [0..<5]"

definition device_option :: "(json \<Rightarrow> string) \<Rightarrow> (string, json) dict \<Rightarrow> (string \<times> string) option result" where
  "device_option py_str d =
     (case dict_get d ''name'' of
        None \<Rightarrow> Inr None
      | Some name \<Rightarrow>
          (if \<not> truthy name then Inr None
           else (case name of
                   JStr n \<Rightarrow> Inr (Some (n, n @ '' ('' @
                     (case dict_get d ''size'' of None \<Rightarrow> ''?'' | Some (JStr sz) \<Rightarrow> sz | Some v \<Rightarrow> py_str v) @ '')''))
                 | _ \<Rightarrow> Inl AttributeError)))"

definition objects_in :: "json list \<Rightarrow> (string, json) dict list" where
  "objects_in xs = List.map_filter (\<lambda>x. case x of JObj d \<Rightarrow> Some d | _ \<Rightarrow> None) xs"

definition list_devices :: "(json \<Rightarrow> string) \<Rightarrow> json option \<Rightarrow> string \<Rightarrow> (string \<times> string) list result" where
  "list_devices py_str data filterText =
     andthen (iterate (dict_get (cache_of data) ''devices'')) (\<lambda>xs.
     andthen (if objects_in xs = [] then Inr (map (\<lambda>n. Some (n, n @ '' (guest data disk)'')) FALLBACK_DEVICES)
              else traverse (device_option py_str) (objects_in xs)) (\<lambda>options.
     Inr (pick (List.map_filter id options) filterText)))"

definition list_exclude :: "json option \<Rightarrow> string \<Rightarrow> (string \<times> string) list result" where
  "list_exclude data filterText =
     andthen (list_blktests data filterText) (\<lambda>ts.
       Inr (pick (map (\<lambda>g. (g, g @ '': whole group'')) group_names) filterText @ ts))"

definition group_labels :: "(string, string) dict" where
  "group_labels = map (\<lambda>g. (g_name g,
     g_name g @ '': '' @ g_description g @ '' ('' @ show_nat (g_tests g) @ '' tests)'')) GROUPS"

text \<open>\<open>_cached_names\<close>: here a value that cannot be iterated is caught, like a missing file.\<close>

definition cached_groups :: "json option \<Rightarrow> string list" where
  "cached_groups data =
     (case data of
        Some (JObj d) \<Rightarrow> (case iterate (dict_get d ''groups'') of Inl _ \<Rightarrow> [] | Inr xs \<Rightarrow> filter (\<lambda>g. g \<noteq> []) (strings_in xs))
      | Some x \<Rightarrow> (case iterate (Some x) of Inl _ \<Rightarrow> [] | Inr xs \<Rightarrow> filter (\<lambda>g. g \<noteq> []) (strings_in xs))
      | None \<Rightarrow> [])"

definition list_blktests_groups :: "json option \<Rightarrow> string \<Rightarrow> (string \<times> string) list" where
  "list_blktests_groups data filterText =
     (let names = (if cached_groups data = [] then group_names else cached_groups data) in
      pick (map (\<lambda>n. (n, picker_label group_labels n)) names) filterText)"

section \<open>What a run is asked for\<close>

text \<open>A repetition of a class before a pattern that cannot start with a character of the class.\<close>

lemma seq_plus_only:
  assumes stop: "\<And>pre c cs caps. p c \<Longrightarrow> run k (pre, c # cs, caps) = []"
  shows "run (RSeq (RGrp g (RPlus (RCls p))) k) (pre, s, caps) =
    (if takeWhile p s = [] then [] else run k (rev (takeWhile p s) @ pre, dropWhile p s, (g, takeWhile p s) # caps))"
proof (cases s)
  case Nil
  then show ?thesis by (simp add: run_grp)
next
  case (Cons c cs)
  show ?thesis
  proof (cases "p c")
    case False
    then show ?thesis using Cons by (simp add: run_grp)
  next
    case True
    let ?m = "length (takeWhile p cs)"
    let ?f = "\<lambda>n. (rev (take n cs) @ c # pre, drop n cs, (g, take (length (c # cs) - length (drop n cs)) (c # cs)) # caps)"
    have "run (RGrp g (RPlus (RCls p))) (pre, s, caps) = map ?f (rev [0..<Suc ?m])"
      using True Cons by (simp add: run_grp star_cls_results comp_def del: upt_Suc)
    moreover have "run k (?f n) = []" if n: "n < ?m" for n
    proof -
      have "n < length cs" using n length_takeWhile_le [of p cs] by linarith
      then have "drop n cs = cs ! n # drop (Suc n) cs" by (simp add: Cons_nth_drop_Suc)
      moreover have "p (cs ! n)" using n by (metis nth_mem set_takeWhileD takeWhile_nth)
      ultimately show ?thesis using stop by simp
    qed
    then have "concat (map (run k) (map ?f (rev [0..<?m]))) = []" by simp
    ultimately have "run (RSeq (RGrp g (RPlus (RCls p))) k) (pre, s, caps) = run k (?f ?m)" by simp
    moreover have "drop ?m cs = dropWhile p cs" "take ?m cs = takeWhile p cs"
      by (simp_all add: dropWhile_eq_drop takeWhile_eq_take [symmetric])
    moreover have "take (length (c # cs) - length (dropWhile p cs)) (c # cs) = c # takeWhile p cs"
    proof -
      have "c # cs = (c # takeWhile p cs) @ dropWhile p cs" by simp
      then show ?thesis by (metis append_eq_conv_conj diff_add_inverse2 length_append)
    qed
    ultimately show ?thesis using True Cons by simp
  qed
qed

definition test_group :: "string \<Rightarrow> string option" where
  "test_group name = map_option (\<lambda>m. grp0 m ''1'') (re_match TEST_NAME_RE name)"

text \<open>\<open><group>/<nnn>\<close>; the pattern ends in a dollar sign, which lets one line feed follow.\<close>

definition test_shape :: "string \<Rightarrow> string \<Rightarrow> bool" where
  "test_shape g rest =
     (g \<noteq> [] \<and> (case rest of
        sl # a # b # c # t \<Rightarrow> sl = CHR ''/'' \<and> is_digit a \<and> is_digit b \<and> is_digit c \<and> (t = [] \<or> t = nl)
      | _ \<Rightarrow> False))"

lemma run_digits3:
  "run (RSeqs [RLit ''/'', RGrp ''2'' (RTimes 3 RDigit), REol]) (pre, s, caps) =
    (case s of
       sl # a # b # c # t \<Rightarrow>
         (if sl = CHR ''/'' \<and> is_digit a \<and> is_digit b \<and> is_digit c \<and> (t = [] \<or> t = nl)
          then [(c # b # a # sl # pre, t, (''2'', [a, b, c]) # caps)] else [])
     | _ \<Rightarrow> [])"
  by (auto simp: numeral_3_eq_3 run_grp run_RLit split: list.splits)

lemma test_group_eq:
  "test_group s = (let g = takeWhile name_char s in if test_shape g (dropWhile name_char s) then Some g else None)"
proof -
  have stop: "run (RSeqs [RLit ''/'', RGrp ''2'' (RTimes 3 RDigit), REol]) (pre, c # cs, caps) = []"
    if "name_char c" for pre c cs caps
    using that unfolding run_digits3
    by (auto simp: name_char_def is_alnum_ascii_def is_digit_def is_lower_ascii_def is_upper_ascii_def split: list.splits)
  have eq: "run TEST_NAME_RE ([], s, []) =
      run (RSeq (RGrp ''1'' (RPlus (RCls name_char))) (RSeqs [RLit ''/'', RGrp ''2'' (RTimes 3 RDigit), REol])) ([], s, [])"
    by (simp add: TEST_NAME_RE_def)
  have res: "run TEST_NAME_RE ([], s, []) =
      (if takeWhile name_char s = [] then []
       else (case dropWhile name_char s of
         sl # a # b # c # t \<Rightarrow>
           (if sl = CHR ''/'' \<and> is_digit a \<and> is_digit b \<and> is_digit c \<and> (t = [] \<or> t = nl)
            then [(c # b # a # sl # rev (takeWhile name_char s) @ [], t, [(''2'', [a, b, c]), (''1'', takeWhile name_char s)])] else [])
       | _ \<Rightarrow> []))"
    using seq_plus_only [of name_char, OF stop, of "''1''" "[]" s "[]"] unfolding eq run_digits3 by simp
  obtain w r where w: "takeWhile name_char s = w" and r: "dropWhile name_char s = r" by blast
  show ?thesis
    unfolding test_group_def re_match_def first_match_def res w r
    by (auto simp: test_shape_def grp0_def grp_def Let_def split: list.splits)
qed

lemma test_group_Some:
  "test_group s = Some g \<longleftrightarrow>
    (\<exists>ds t. s = g @ ''/'' @ ds @ t \<and> g \<noteq> [] \<and> list_all name_char g \<and> length ds = 3 \<and> list_all is_digit ds
       \<and> t \<in> {[], nl})"
proof
  assume "test_group s = Some g"
  then have g: "g = takeWhile name_char s" and sh: "test_shape g (dropWhile name_char s)"
    by (auto simp: test_group_eq Let_def split: if_splits)
  from sh obtain a b c t where r: "dropWhile name_char s = CHR ''/'' # a # b # c # t"
      "is_digit a" "is_digit b" "is_digit c" "t = [] \<or> t = nl" and ne: "g \<noteq> []"
    by (auto simp: test_shape_def split: list.splits)
  have "s = g @ ''/'' @ [a, b, c] @ t" using takeWhile_dropWhile_id [of name_char s] r(1) g by simp
  moreover have "list_all name_char g" using g by (simp add: list_all_iff) (metis set_takeWhileD)
  ultimately show "\<exists>ds t. s = g @ ''/'' @ ds @ t \<and> g \<noteq> [] \<and> list_all name_char g \<and> length ds = 3 \<and> list_all is_digit ds
       \<and> t \<in> {[], nl}"
    using r ne by (intro exI [of _ "[a, b, c]"] exI [of _ t]) auto
next
  assume "\<exists>ds t. s = g @ ''/'' @ ds @ t \<and> g \<noteq> [] \<and> list_all name_char g \<and> length ds = 3 \<and> list_all is_digit ds
       \<and> t \<in> {[], nl}"
  then obtain ds t where s: "s = g @ CHR ''/'' # ds @ t" "g \<noteq> []" "list_all name_char g" "length ds = 3"
      "list_all is_digit ds" "t \<in> {[], nl}" by auto
  have "\<not> name_char (CHR ''/'')"
    by (simp add: name_char_def is_alnum_ascii_def is_digit_def is_lower_ascii_def is_upper_ascii_def)
  then have "takeWhile name_char s = g" "dropWhile name_char s = CHR ''/'' # ds @ t"
    using s(1,3) by (auto simp: list_all_iff takeWhile_append dropWhile_append)
  moreover obtain a b c where "ds = [a, b, c]" using s(4) by (auto simp: numeral_3_eq_3 length_Suc_conv)
  ultimately show "test_group s = Some g" using s by (simp add: test_group_eq test_shape_def)
qed

lemma tests_by_group_eq:
  "tests_by_group names d =
    (if list_all (\<lambda>n. test_group n \<noteq> None) names
     then Inr (fold (\<lambda>n. add_test_name (the (test_group n)) n) names d) else Inl ValueError)"
  by (induction names arbitrary: d) (auto simp: test_group_def split: option.splits)

lemma dict_set_map:
  "distinct ks \<Longrightarrow> dict_set g v (map (\<lambda>k. (k, f k)) ks) =
    (if g \<in> set ks then map (\<lambda>k. (k, if k = g then v else f k)) ks else map (\<lambda>k. (k, f k)) ks @ [(g, v)])"
  by (induction ks) auto

lemma dict_get_map: "dict_get (map (\<lambda>k. (k, f k)) ks) g = (if g \<in> set ks then Some (f g) else None)"
  by (induction ks) auto

lemma dedup_snoc: "dedup (xs @ [x]) = (if x \<in> set xs then dedup xs else dedup xs @ [x])"
proof -
  have "dedup_acc seen (xs @ [x]) =
      (if x \<in> set seen \<union> set xs then dedup_acc seen xs else dedup_acc seen xs @ [x])" for seen
    by (induction seen xs rule: dedup_acc.induct) auto
  then show ?thesis by (simp add: dedup_def)
qed

text \<open>Collecting names under a key: the keys in order of first occurrence, each with its names in order.\<close>

lemma grouped:
  "fold (\<lambda>n. add_test_name (key n) n) names [] =
    map (\<lambda>g. (g, filter (\<lambda>n. key n = g) names)) (dedup (map key names))"
proof (induction names rule: rev_induct)
  case Nil
  then show ?case by (simp add: dedup_def)
next
  case (snoc n ns)
  have fresh: "key n \<notin> set (map key ns) \<Longrightarrow> filter (\<lambda>m. key m = key n) ns = []"
    by (simp add: filter_empty_conv) (metis imageI)
  have old: "g \<in> set (dedup (map key ns)) \<Longrightarrow> g \<noteq> key n \<Longrightarrow>
      filter (\<lambda>m. key m = g) (ns @ [n]) = filter (\<lambda>m. key m = g) ns" for g by simp
  have "fold (\<lambda>n. add_test_name (key n) n) (ns @ [n]) [] =
      dict_set (key n) (filter (\<lambda>m. key m = key n) ns @ [n]) (map (\<lambda>g. (g, filter (\<lambda>m. key m = g) ns)) (dedup (map key ns)))"
    using fresh by (auto simp: snoc add_test_name_def dict_get_map)
  also have "\<dots> = map (\<lambda>g. (g, filter (\<lambda>m. key m = g) (ns @ [n]))) (dedup (map key (ns @ [n])))"
    using fresh by (auto simp: dict_set_map dedup_snoc)
  finally show ?case .
qed

lemma selected_groups_eq:
  "selected_groups gs selected =
    (if list_all (\<lambda>g. re_match GROUP_NAME_RE g \<noteq> None) gs then Inr (dedup_acc selected gs) else Inl ValueError)"
  by (induction gs selected rule: selected_groups.induct) auto

lemma group_names_match: "list_all (\<lambda>g. re_match GROUP_NAME_RE g \<noteq> None) default_groups"
  unfolding default_groups_def GROUPS_def GROUP_NAME_RE_def name_char_def
  by (simp add: re_eval)

text \<open>
  C12: What a run drives. In tests mode the tests asked for are partitioned by their group: the groups in
  order of first mention, each with exactly its tests in the order given, and none is lost or repeated; one
  name that is not \<open><group>/<nnn>\<close>, or no name at all, is refused. In groups mode each selected group runs
  once, by default all but \<open>meta\<close>.
\<close>

theorem build_args_exact:
  "build_args selection groups asked =
    (if selection = ''tests'' then
       (let names = test_names asked; grp_of = (\<lambda>n. the (test_group n)) in
        if names \<noteq> [] \<and> list_all (\<lambda>n. test_group n \<noteq> None) names
        then Inr (map (\<lambda>g. (g, join '' '' (filter (\<lambda>n. grp_of n = g) names))) (dedup (map grp_of names)))
        else Inl ValueError)
     else
       (let chosen = (if groups = [] then default_groups else groups) in
        if list_all (\<lambda>g. re_match GROUP_NAME_RE g \<noteq> None) chosen then Inr (map (\<lambda>g. (g, g)) (dedup chosen))
        else Inl ValueError))"
  by (simp add: build_args_def tests_by_group_eq grouped selected_groups_eq dedup_def [of "_ :: string list", symmetric]
      Let_def comp_def)

section \<open>The tree of results\<close>

fun distinct_tree :: "node \<Rightarrow> bool" where
  "distinct_tree (File f) = True"
| "distinct_tree (Dir es) = (distinct (keys es) \<and> list_all (\<lambda>(_, n). distinct_tree n) es)"

lemma node_at_append:
  "node_at n (p @ q) = (case node_at n p of None \<Rightarrow> None | Some m \<Rightarrow> node_at m q)"
  by (induction n p rule: node_at.induct) (auto split: option.splits)

lemma distinct_child: "distinct_tree (Dir es) \<Longrightarrow> (c, n) \<in> set es \<Longrightarrow> distinct_tree n"
  by (auto simp: list_all_iff)

lemma distinct_at: "distinct_tree n \<Longrightarrow> node_at n p = Some m \<Longrightarrow> distinct_tree m"
proof (induction p arbitrary: n)
  case (Cons c cs)
  then show ?case by (cases n) (auto simp del: distinct_tree.simps split: option.splits dest: map_of_SomeD distinct_child)
qed simp

lemma dict_get_adjust:
  "dict_get (map (\<lambda>(k, n). if k = c then (k, f n) else (k, n)) es) k =
    map_option (if k = c then f else id) (dict_get es k)"
  by (induction es) auto

lemma keys_adjust: "keys (map (\<lambda>(k, n). if k = c then (k, f n) else (k, n)) es) = keys es"
  by (induction es) auto

lemma dict_del_subset: "set (dict_del c es) \<subseteq> set es"
  by (auto simp: dict_del_def)

lemma distinct_rmtree: "distinct_tree n \<Longrightarrow> distinct_tree (rmtree_at p n)"
proof (induction p arbitrary: n)
  case (Cons c cs)
  show ?case
  proof (cases n)
    case (Dir es)
    have each: "(k, m) \<in> set es \<Longrightarrow> distinct_tree m" for k m using Cons.prems Dir by (auto simp: list_all_iff)
    have "list_all (\<lambda>(_, m). distinct_tree m) (map (\<lambda>(k, m). if k = c then (k, rmtree_at cs m) else (k, m)) es)"
      using each Cons.IH by (auto simp: list_all_iff split: if_splits)
    moreover have "list_all (\<lambda>(_, m). distinct_tree m) (dict_del c es)"
      using each dict_del_subset [of c es] by (auto simp: list_all_iff)
    ultimately show ?thesis using Cons.prems Dir by (simp add: distinct_dict_del keys_adjust del: map_map)
  qed simp
qed simp

text \<open>A removal takes its subtree, makes nothing, and leaves what is not on its path.\<close>

lemma rmtree_below: "p \<noteq> [] \<Longrightarrow> node_at (rmtree_at p n) (p @ q) = None"
proof (induction p arbitrary: n)
  case (Cons c cs)
  then show ?case by (cases n) (auto simp: dict_get_adjust split: option.splits)
qed simp

lemma rmtree_makes_nothing: "node_at n q = None \<Longrightarrow> node_at (rmtree_at p n) q = None"
proof (induction p arbitrary: n q)
  case (Cons c cs)
  then show ?case by (cases n; cases q) (auto simp: dict_get_adjust split: option.splits if_splits)
qed simp

lemma rmtree_kept: "node_at (rmtree_at p n) q = Some (File c) \<Longrightarrow> node_at n q = Some (File c)"
proof (induction p arbitrary: n q)
  case (Cons x p)
  show ?case
  proof (cases n)
    case (File f)
    then show ?thesis using Cons.prems by simp
  next
    case dir: (Dir es)
    show ?thesis
    proof (cases q)
      case Nil
      then show ?thesis using Cons.prems dir by (cases "p = []") simp_all
    next
      case q: (Cons y r)
      have del: "node_at (Dir (dict_del x es)) q = Some (File c) \<Longrightarrow> node_at n q = Some (File c)"
        unfolding q dir by (cases "y = x") simp_all
      have adjust: "node_at (Dir (map (\<lambda>(k, n). if k = x then (k, rmtree_at p n) else (k, n)) es)) q = Some (File c)
          \<Longrightarrow> node_at n q = Some (File c)"
        unfolding q dir node_at.simps dict_get_adjust by (cases "dict_get es y"; cases "y = x") (simp_all add: Cons.IH)
      show ?thesis using Cons.prems del adjust unfolding dir by (cases "p = []") simp_all
    qed
  qed
qed simp

lemma rmtree_elsewhere: "\<not> prefix p q \<Longrightarrow> \<not> prefix q p \<Longrightarrow> node_at (rmtree_at p n) q = node_at n q"
proof (induction p arbitrary: n q)
  case (Cons c cs)
  then show ?case by (cases n; cases q) (auto simp: dict_get_adjust split: option.splits if_splits)
qed simp

section \<open>What a group is collected to\<close>

lemma listing_entry:
  "distinct_tree n \<Longrightarrow> (c, m) \<in> set (listing n) \<longleftrightarrow> node_at n [c] = Some m"
  by (cases n) (auto split: option.splits dest: map_of_SomeD simp: eq_key_imp_eq_value)

lemma map_filter_set: "set (List.map_filter f xs) = {y. \<exists>x \<in> set xs. f x = Some y}"
  by (induction xs) (auto simp: List.map_filter_simps split: option.splits)

definition result_rows :: "(string \<Rightarrow> 'f) \<Rightarrow> node \<Rightarrow> path \<Rightarrow> string \<Rightarrow> 'f blk_row set" where
  "result_rows flt fs root g =
     {r. \<exists>d n c. node_at fs (root @ [d, g, n]) = Some (File c) \<and> re_match TEST_NUM_RE n \<noteq> None
        \<and> r = result_row flt d g n c}"

lemma entry_row_Some:
  "entry_row flt d g (n, f) = Some r \<longleftrightarrow>
    (\<exists>c. f = File c \<and> re_match TEST_NUM_RE n \<noteq> None \<and> r = result_row flt d g n c)"
  by (cases f) (auto simp: entry_row_def)

lemma devdir_rows_set:
  assumes "distinct_tree m"
  shows "set (devdir_rows flt g (d, m)) =
    {r. \<exists>n c. node_at m [g, n] = Some (File c) \<and> re_match TEST_NUM_RE n \<noteq> None \<and> r = result_row flt d g n c}"
proof (cases "node_at m [g]")
  case None
  then show ?thesis using node_at_append [of m "[g]"] by (simp add: devdir_rows_def)
next
  case (Some gd)
  then have gd: "distinct_tree gd" using assms distinct_at by blast
  have at: "node_at m [g, n] = node_at gd [n]" for n using node_at_append [of m "[g]" "[n]"] Some by simp
  have "set (devdir_rows flt g (d, m)) = {r. \<exists>(n, f) \<in> set (listing gd). entry_row flt d g (n, f) = Some r}"
    by (auto simp: devdir_rows_def Some map_filter_set)
  then show ?thesis unfolding at by (auto simp: entry_row_Some listing_entry [OF gd] Bex_def)
qed

lemma collected_rows:
  assumes "distinct_tree fs" "collect_group_rows flt (node_at fs root) name = Inr rows" "safe_group name = Inr g"
  shows "set rows = result_rows flt fs root g"
proof (cases "node_at fs root")
  case None
  then have "rows = []" using assms(2,3) by (simp add: collect_group_rows_def)
  moreover have "result_rows flt fs root g = {}" using None by (auto simp: result_rows_def node_at_append)
  ultimately show ?thesis by simp
next
  case (Some n)
  then have n: "distinct_tree n" using assms(1) distinct_at by blast
  have at: "node_at fs (root @ [d, g, k]) = (case node_at n [d] of None \<Rightarrow> None | Some m \<Rightarrow> node_at m [g, k])" for d k
    using node_at_append [of fs root "[d, g, k]"] node_at_append [of n "[d]" "[g, k]"] Some by simp
  have rows: "rows = concat (map (devdir_rows flt g) (filter (\<lambda>(_, m). is_directory m) (listing n)))"
    using assms(2,3) Some by (simp add: collect_group_rows_def)
  have dirs: "node_at m [g, k] = Some f \<Longrightarrow> is_directory m" for m k f by (cases m) auto
  have "r \<in> set rows \<longleftrightarrow> (\<exists>d m. node_at n [d] = Some m \<and> r \<in> set (devdir_rows flt g (d, m)))" for r
    unfolding rows using listing_entry [OF n] distinct_at [OF n] dirs
    by (fastforce simp: devdir_rows_set)
  then show ?thesis
    unfolding result_rows_def at using distinct_at [OF n]
    by (fastforce simp: devdir_rows_set split: option.splits)
qed

section \<open>What the start step leaves\<close>

lemma remove_group_other:
  "g' \<noteq> g \<Longrightarrow> node_at (remove_group root g d fs) (root @ [d', g', n]) = node_at fs (root @ [d', g', n])"
  by (auto simp: remove_group_def intro!: rmtree_elsewhere)

lemma remove_group_gone: "node_at (remove_group root g d fs) (root @ [d, g, n]) = None"
proof (cases "is_dir_at fs (root @ [d, g])")
  case True
  then show ?thesis using rmtree_below [of "root @ [d, g]" fs "[n]"] by (simp add: remove_group_def)
next
  case False
  then show ?thesis using node_at_append [of fs "root @ [d, g]" "[n]"]
    by (auto simp: remove_group_def is_dir_at_def split: option.splits) (metis is_directory.simps node.exhaust node_at.simps(3))
qed

lemma remove_group_none: "node_at fs q = None \<Longrightarrow> node_at (remove_group root g d fs) q = None"
  by (simp add: remove_group_def rmtree_makes_nothing)

lemma remove_group_distinct: "distinct_tree fs \<Longrightarrow> distinct_tree (remove_group root g d fs)"
  by (simp add: remove_group_def distinct_rmtree)

lemma fold_removes:
  "(d \<in> set ds \<or> node_at fs (root @ [d, g, n]) = None) \<Longrightarrow>
    node_at (fold (remove_group root g) ds fs) (root @ [d, g, n]) = None"
  by (induction ds arbitrary: fs) (auto simp: remove_group_gone remove_group_none)

lemma clear_group_empty:
  assumes "distinct_tree fs"
  shows "node_at (clear_group root g fs) (root @ [d, g, n]) = None"
proof -
  have "d \<in> set (devdirs fs root)" if found: "node_at fs (root @ [d, g, n]) \<noteq> None"
  proof -
    obtain r where r: "node_at fs root = Some r" using found node_at_append [of fs root "[d, g, n]"] by (auto split: option.splits)
    then obtain m where m: "node_at r [d] = Some m" "node_at m [g, n] \<noteq> None"
      using found node_at_append [of fs root "[d, g, n]"] node_at_append [of r "[d]" "[g, n]"] by (auto split: option.splits)
    then have "is_directory m" by (cases m) auto
    moreover have "(d, m) \<in> set (listing r)" using m r distinct_at [OF assms r] by (simp add: listing_entry)
    ultimately show ?thesis using r by (force simp: devdirs_def)
  qed
  then show ?thesis unfolding clear_group_def by (intro fold_removes) blast
qed

lemma clear_group_other:
  "g' \<noteq> g \<Longrightarrow> node_at (clear_group root g fs) (root @ [d, g', n]) = node_at fs (root @ [d, g', n])"
proof -
  assume "g' \<noteq> g"
  then have "node_at (fold (remove_group root g) ds fs) (root @ [d, g', n]) = node_at fs (root @ [d, g', n])" for ds
    by (induction ds arbitrary: fs) (simp_all add: remove_group_other)
  then show ?thesis by (simp add: clear_group_def)
qed

lemma clear_group_distinct: "distinct_tree fs \<Longrightarrow> distinct_tree (clear_group root g fs)"
proof -
  have "distinct_tree fs \<Longrightarrow> distinct_tree (fold (remove_group root g) ds fs)" for ds
    by (induction ds arbitrary: fs) (simp_all add: remove_group_distinct)
  then show "distinct_tree fs \<Longrightarrow> distinct_tree (clear_group root g fs)" by (simp add: clear_group_def)
qed

text \<open>
  A host whose directory calls are answered from the tree: what the start step's commands do to it is
  \<open>clear_group\<close>. Any other command leaves it.
\<close>

definition tree_machine :: "node machine" where
  "tree_machine fs c =
     (case c of
        IsDir p \<Rightarrow> (\<lparr>rc = if is_dir_at fs p then 0 else 1, out = [], entries = []\<rparr>, fs)
      | ListDir p \<Rightarrow> (\<lparr>rc = 0, out = [], entries =
          (case node_at fs p of Some (Dir es) \<Rightarrow> keys es | _ \<Rightarrow> [])\<rparr>, fs)
      | Rmtree p \<Rightarrow> (\<lparr>rc = 0, out = [], entries = []\<rparr>, rmtree_at p fs)
      | _ \<Rightarrow> (\<lparr>rc = 0, out = [], entries = []\<rparr>, fs))"

lemma exec_is_dir: "exec (bind (probe (IsDir p)) f) tree_machine fs = exec (f (is_dir_at fs p)) tree_machine fs"
  by (simp add: probe_def tree_machine_def holds_def)

lemma exec_probes:
  "exec (bind (map_prog (\<lambda>n. probe (IsDir (root @ [n]))) names) f) tree_machine fs =
    exec (f (map (\<lambda>n. is_dir_at fs (root @ [n])) names)) tree_machine fs"
  by (induction names arbitrary: f) (simp_all add: exec_is_dir)

lemma exec_removal:
  "exec (bind (bind (probe (IsDir (root @ [d, g]))) (\<lambda>stale. only_if stale (act (Rmtree (root @ [d, g]))))) f) tree_machine fs =
    exec (f ()) tree_machine (remove_group root g d fs)"
proof -
  have "tree_machine fs (Rmtree p) = (\<lparr>rc = 0, out = [], entries = []\<rparr>, rmtree_at p fs)" for p
    by (simp add: tree_machine_def)
  then show ?thesis by (simp add: bind_assoc exec_is_dir only_if_def remove_group_def act_def nop_def)
qed

lemma exec_removals:
  "exec (for_each ds (\<lambda>d. bind (probe (IsDir (root @ [d, g]))) (\<lambda>stale. only_if stale (act (Rmtree (root @ [d, g]))))))
     tree_machine fs = (Inr (), fold (remove_group root g) ds fs)"
proof (induction ds arbitrary: fs)
  case Nil
  then show ?case by (simp add: nop_def)
next
  case (Cons d ds)
  then show ?case by (simp only: for_each.simps exec_removal fold_simps)
qed

lemma sorted_dirs:
  assumes "distinct_tree (Dir es)"
  shows "map fst (filter (\<lambda>(_, m). is_directory m) (sort_key fst es)) =
    sort (map fst (filter (\<lambda>(_, m). is_directory m) es))"
proof -
  let ?dirs = "\<lambda>xs. map fst (filter (\<lambda>(_, m). is_directory m) xs)"
  have "sorted (map fst (sort_key fst es))" by simp
  then have "sorted (?dirs (sort_key fst es))" by (rule sorted_filter)
  moreover have "mset (?dirs (sort_key fst es)) = mset (?dirs es)" by (simp add: mset_filter)
  ultimately show ?thesis by (metis properties_for_sort)
qed

lemma zip_filter: "map fst (filter snd (zip xs (map f xs))) = filter f xs"
  by (induction xs) auto

lemma start_refines:
  assumes "distinct_tree fs"
  shows "exec (remove_stale_group root g) tree_machine fs = (Inr (), clear_group root g fs)"
proof (cases "node_at fs root")
  case None
  then show ?thesis
    by (simp add: remove_stale_group_def exec_is_dir is_dir_at_def only_if_def nop_def clear_group_def devdirs_def)
next
  case (Some n)
  show ?thesis
  proof (cases n)
    case (File c)
    with Some show ?thesis
      by (simp add: remove_stale_group_def exec_is_dir is_dir_at_def only_if_def nop_def clear_group_def devdirs_def)
  next
    case (Dir es)
    then have es: "distinct_tree (Dir es)" using Some assms distinct_at by blast
    have at: "is_dir_at fs (root @ [c]) = (case dict_get es c of None \<Rightarrow> False | Some m \<Rightarrow> is_directory m)" for c
      using node_at_append [of fs root "[c]"] Some Dir by (auto simp: is_dir_at_def split: option.splits)
    have "filter (\<lambda>c. is_dir_at fs (root @ [c])) (keys es) = map fst (filter (\<lambda>(_, m). is_directory m) es)"
      using es by (auto simp: at filter_map comp_def eq_key_imp_eq_value intro!: arg_cong [of _ _ "map fst"] filter_cong
          split: option.splits dest: map_of_SomeD eq_key_imp_eq_value)
    then have ds: "sort (map fst (filter snd (zip (keys es) (map (\<lambda>c. is_dir_at fs (root @ [c])) (keys es))))) = devdirs fs root"
      using Some Dir sorted_dirs [OF es] by (simp only: zip_filter) (simp add: devdirs_def)
    have "is_dir_at fs root" using Some Dir by (simp add: is_dir_at_def)
    then have "exec (remove_stale_group root g) tree_machine fs =
        exec (for_each (devdirs fs root) (\<lambda>d. bind (probe (IsDir (root @ [d, g]))) (\<lambda>stale. only_if stale (act (Rmtree (root @ [d, g]))))))
          tree_machine fs"
      using Some Dir ds by (simp add: remove_stale_group_def exec_is_dir only_if_def exec_probes tree_machine_def)
    then show ?thesis by (simp add: exec_removals clear_group_def)
  qed
qed

section \<open>A run of groups\<close>

text \<open>
  What a guest does to the share while a group runs: it writes files, making their directories, and removes
  entries. A write below a file fails and leaves the tree.
\<close>

datatype guest_op = Put path string | Del path

fun put_at :: "path \<Rightarrow> string \<Rightarrow> node \<Rightarrow> node" where
  "put_at [] t n = n"
| "put_at (c # cs) t (File f) = File f"
| "put_at (c # cs) t (Dir es) =
     (if cs = [] then
        (case dict_get es c of Some (Dir xs) \<Rightarrow> Dir es | _ \<Rightarrow> Dir (dict_set c (File (Some t)) es))
      else Dir (dict_set c (put_at cs t (case dict_get es c of None \<Rightarrow> Dir [] | Some m \<Rightarrow> m)) es))"

definition guest_step :: "guest_op \<Rightarrow> node \<Rightarrow> node" where
  "guest_step op fs = (case op of Put p t \<Rightarrow> put_at p t fs | Del p \<Rightarrow> rmtree_at p fs)"

lemma put_at_dir: "is_directory (put_at (x # p) t (Dir es))"
  by (simp split: option.split node.split)

lemma node_at_set:
  "node_at (Dir (dict_set c v es)) (y # q) = (if y = c then node_at v q else node_at (Dir es) (y # q))"
  by simp

lemma put_at_last:
  "put_at [x] t (Dir es) = Dir es \<or> put_at [x] t (Dir es) = Dir (dict_set x (File (Some t)) es)"
  by (simp split: option.split node.split)

lemma put_at_files:
  "node_at (put_at p t n) q = Some (File c) \<Longrightarrow> q = p \<and> c = Some t \<or> node_at n q = Some (File c)"
proof (induction p arbitrary: n q)
  case (Cons x p)
  show ?case
  proof (cases n)
    case (File f)
    then show ?thesis using Cons.prems by simp
  next
    case (Dir es)
    show ?thesis
    proof (cases q)
      case Nil
      then show ?thesis using Cons.prems Dir put_at_dir [of x p t es] by auto
    next
      case q: (Cons y q')
      show ?thesis
      proof (cases "p = []")
        case True
        have "node_at (File (Some t)) q' = Some (File c) \<Longrightarrow> q' = [] \<and> c = Some t" by (cases q') auto
        then show ?thesis using Cons.prems Dir q True put_at_last [of x t es] by (auto simp only: node_at_set split: if_splits)
      next
        case False
        let ?child = "case dict_get es x of None \<Rightarrow> Dir [] | Some m \<Rightarrow> m"
        have put: "put_at (x # p) t n = Dir (dict_set x (put_at p t ?child) es)" using Dir False by simp
        show ?thesis
        proof (cases "y = x")
          case True
          then have "q' = p \<and> c = Some t \<or> node_at ?child q' = Some (File c)"
            using Cons.prems q Cons.IH unfolding put by (simp add: node_at_set)
          moreover have "node_at (Dir []) q' \<noteq> Some (File c)" by (cases q') auto
          ultimately show ?thesis using True Dir q by (auto split: option.splits)
        next
          case other: False
          then show ?thesis using Cons.prems Dir q unfolding put by (simp add: node_at_set)
        qed
      qed
    qed
  qed
qed simp

lemma dict_set_values: "(k, m) \<in> set (dict_set c v es) \<Longrightarrow> m = v \<or> (k, m) \<in> set es"
  by (induction es) (auto split: if_splits)

lemma distinct_set: "distinct_tree v \<Longrightarrow> distinct_tree (Dir es) \<Longrightarrow> distinct_tree (Dir (dict_set c v es))"
  by (auto simp: list_all_iff dest!: dict_set_values)

lemma put_at_distinct: "distinct_tree n \<Longrightarrow> distinct_tree (put_at p t n)"
proof (induction p arbitrary: n)
  case (Cons x p)
  show ?case
  proof (cases n)
    case (Dir es)
    show ?thesis
    proof (cases "p = []")
      case True
      have "distinct_tree (Dir (dict_set x (File (Some t)) es))" using Cons.prems Dir by (intro distinct_set) simp_all
      then show ?thesis using Cons.prems Dir True put_at_last [of x t es] by metis
    next
      case False
      let ?child = "case dict_get es x of None \<Rightarrow> Dir [] | Some m \<Rightarrow> m"
      have "distinct_tree ?child" using Cons.prems Dir by (auto simp: list_all_iff split: option.splits dest: map_of_SomeD)
      then have "distinct_tree (Dir (dict_set x (put_at p t ?child) es))"
        using Cons.prems Dir Cons.IH by (intro distinct_set) simp_all
      then show ?thesis using Dir False by simp
    qed
  qed simp
qed simp

lemma guest_steps_distinct: "distinct_tree fs \<Longrightarrow> distinct_tree (fold guest_step ops fs)"
proof (induction ops arbitrary: fs)
  case (Cons op ops)
  then show ?case by (cases op) (simp_all add: guest_step_def put_at_distinct distinct_rmtree)
qed simp

lemma guest_steps_files:
  "node_at (fold guest_step ops fs) q = Some (File c) \<Longrightarrow>
    (\<exists>t. Put q t \<in> set ops \<and> c = Some t) \<or> node_at fs q = Some (File c)"
proof (induction ops arbitrary: fs)
  case (Cons op ops)
  then have "(\<exists>t. Put q t \<in> set ops \<and> c = Some t) \<or> node_at (guest_step op fs) q = Some (File c)" by simp
  moreover have "node_at (guest_step op fs) q = Some (File c) \<Longrightarrow>
      (\<exists>t. op = Put q t \<and> c = Some t) \<or> node_at fs q = Some (File c)"
  proof (cases op)
    case (Put p t)
    then show "node_at (guest_step op fs) q = Some (File c) \<Longrightarrow> (\<exists>t. op = Put q t \<and> c = Some t) \<or> node_at fs q = Some (File c)"
      using put_at_files [of p t fs q c] by (simp add: guest_step_def) blast
  next
    case (Del p)
    then show "node_at (guest_step op fs) q = Some (File c) \<Longrightarrow> (\<exists>t. op = Put q t \<and> c = Some t) \<or> node_at fs q = Some (File c)"
      using rmtree_kept [of p fs q c] by (simp add: guest_step_def)
  qed
  ultimately show ?case by auto
qed simp

text \<open>
  One turn of the flow's loop (\<open>f/blktests/check.flow\<close>): the start step clears the group, the guest runs,
  what the wait reports goes to the collect step with \<open>unit_ok\<close> as \<open>result === 'success'\<close>. A step that
  raises leaves an error object, and the loop goes on.
\<close>

record turn =
  tn_group :: string
  tn_ops :: "guest_op list"
  tn_waited :: state_out

definition turn_in :: "string \<Rightarrow> string \<Rightarrow> turn \<Rightarrow> blk_in" where
  "turn_in vm_name kernel_version t =
     \<lparr>bi_vm_name = vm_name, bi_group = tn_group t, bi_kernel_version = kernel_version,
      bi_unit_ok = (st_result (tn_waited t) = ''success''), bi_crashed = st_crashed (tn_waited t),
      bi_timed_out = st_timed_out (tn_waited t), bi_started_ms = None, bi_ended_ms = None\<rparr>"

definition run_turn :: "(string \<Rightarrow> 'f) \<Rightarrow> path \<Rightarrow> string \<Rightarrow> string \<Rightarrow> turn \<Rightarrow> node \<Rightarrow> 'f group_entry \<times> node" where
  "run_turn flt workers vm_name kver t fs =
     (case start_group workers vm_name (tn_group t) kver fs of
        Inl e \<Rightarrow> (ErrorObject, fs)
      | Inr cleared \<Rightarrow>
          (let ran = fold guest_step (tn_ops t) cleared in
           (case blktests_collect flt workers ran (turn_in vm_name kver t) of
              Inl e \<Rightarrow> ErrorObject | Inr r \<Rightarrow> Collected r, ran)))"

fun run_turns :: "(string \<Rightarrow> 'f) \<Rightarrow> path \<Rightarrow> string \<Rightarrow> string \<Rightarrow> turn list \<Rightarrow> node \<Rightarrow> 'f group_entry list" where
  "run_turns flt workers vm_name kver [] fs = []"
| "run_turns flt workers vm_name kver (t # ts) fs =
     (case run_turn flt workers vm_name kver t fs of
        (entry, fs') \<Rightarrow> entry # run_turns flt workers vm_name kver ts fs')"

lemma start_group_distinct: "start_group workers vm g kver fs = Inr fs' \<Longrightarrow> distinct_tree fs \<Longrightarrow> distinct_tree fs'"
  by (auto simp: start_group_def andthen_Inr clear_group_distinct split: if_splits)

lemma run_turn_distinct: "distinct_tree fs \<Longrightarrow> distinct_tree (snd (run_turn flt workers vm kver t fs))"
  by (auto simp: run_turn_def Let_def guest_steps_distinct start_group_distinct split: sum.split)

lemma group_status_passed:
  "group_status rows unit_ok crashed timed_out = Passed \<longleftrightarrow>
    unit_ok \<and> \<not> crashed \<and> \<not> timed_out \<and> rows \<noteq> [] \<and> list_all row_green rows
    \<and> list_ex (\<lambda>r. r_status r = ''pass'') rows"
  by (auto simp: group_status_def row_green_def list_all_iff list_ex_iff)

text \<open>
  What backs the pass of one turn: a clean end of the unit on a live guest, and at least one row, each of
  them \<open>pass\<close> or \<open>not run\<close>, one \<open>pass\<close>, and each read from a result file the guest wrote in this very turn.
\<close>

definition backed :: "(string \<Rightarrow> 'f) \<Rightarrow> path \<Rightarrow> turn \<Rightarrow> 'f blk_row list \<Rightarrow> bool" where
  "backed flt root t rows =
     (st_result (tn_waited t) = ''success'' \<and> \<not> st_crashed (tn_waited t) \<and> \<not> st_timed_out (tn_waited t)
      \<and> list_all row_green rows \<and> list_ex (\<lambda>r. r_status r = ''pass'') rows
      \<and> (\<forall>r \<in> set rows. \<exists>g d n text. safe_group (tn_group t) = Inr g \<and> Put (root @ [d, g, n]) text \<in> set (tn_ops t)
            \<and> r = result_row flt d g n (Some text)))"

lemma turn_backed:
  assumes fs: "distinct_tree fs" and r: "fst (run_turn flt workers vm kver t fs) = Collected c"
    and "bo_status c = Passed"
  shows "\<exists>root. results_dir workers vm kver = Inr root \<and> backed flt root t (bo_rows c)"
proof -
  obtain cleared where start: "start_group workers vm (tn_group t) kver fs = Inr cleared"
    using r by (auto simp: run_turn_def split: sum.splits)
  let ?ran = "fold guest_step (tn_ops t) cleared"
  have col: "blktests_collect flt workers ?ran (turn_in vm kver t) = Inr c"
    using r start by (auto simp: run_turn_def Let_def split: sum.splits)
  then obtain root found where root: "results_dir workers vm kver = Inr root"
      and found: "collect_group_rows flt (node_at ?ran root) (tn_group t) = Inr found"
      and c: "bo_rows c = sort_key row_key found" "bo_status c = group_status (bo_rows c)
        (st_result (tn_waited t) = ''success'') (st_crashed (tn_waited t)) (st_timed_out (tn_waited t))"
    by (auto simp: blktests_collect_def andthen_Inr turn_in_def Let_def)
  obtain g where g: "safe_group (tn_group t) = Inr g" using found by (auto simp: collect_group_rows_def andthen_Inr)
  have "kver \<noteq> []" using root by (auto simp: results_dir_def safe_kernel_def andthen_Inr strip_by_def lstrip_by_def rstrip_by_def)
  then have cleared: "cleared = clear_group root g fs" using start g root by (simp add: start_group_def)
  then have "distinct_tree ?ran" by (simp add: guest_steps_distinct clear_group_distinct fs)
  from collected_rows [OF this found g] have rows: "set (bo_rows c) = result_rows flt ?ran root g" by (simp add: c(1))
  have "\<exists>d n text. Put (root @ [d, g, n]) text \<in> set (tn_ops t) \<and> r = result_row flt d g n (Some text)"
    if row: "r \<in> set (bo_rows c)" for r
  proof -
    obtain d n x where "node_at ?ran (root @ [d, g, n]) = Some (File x)" "r = result_row flt d g n x"
      using row rows by (auto simp: result_rows_def)
    then show ?thesis
      using guest_steps_files [of "tn_ops t" cleared "root @ [d, g, n]" x] clear_group_empty [OF fs, of root g d n] cleared by auto
  qed
  then show ?thesis using assms(3) c(2) root g by (auto simp: group_status_passed backed_def)
qed

lemma run_turns_length: "length (run_turns flt workers vm kver ts fs) = length ts"
  by (induction ts arbitrary: fs) (auto split: prod.split)

lemma run_turns_backed:
  assumes "distinct_tree fs" "\<forall>e \<in> set (run_turns flt workers vm kver ts fs). as_collected e = Result Passed"
  shows "list_all2 (\<lambda>t e. \<exists>root c. e = Collected c \<and> results_dir workers vm kver = Inr root \<and> backed flt root t (bo_rows c))
    ts (run_turns flt workers vm kver ts fs)"
  using assms
proof (induction ts arbitrary: fs)
  case (Cons t ts)
  obtain e fs' where turn: "run_turn flt workers vm kver t fs = (e, fs')" by fastforce
  then have "as_collected e = Result Passed" using Cons.prems(2) by simp
  then obtain c where c: "e = Collected c" "bo_status c = Passed" by (cases e) (auto simp: as_collected_def)
  have "\<exists>root. results_dir workers vm kver = Inr root \<and> backed flt root t (bo_rows c)"
    using turn_backed [OF Cons.prems(1), of flt workers vm kver t c] turn c by simp
  moreover have "distinct_tree fs'" using run_turn_distinct [OF Cons.prems(1), of flt workers vm kver t] turn by simp
  ultimately show ?case using Cons.IH [of fs'] Cons.prems(2) turn c by auto
qed simp

text \<open>
  C9: A green blktests run, end to end. When the judge lets the groups of a run through, there was one, and
  every group's unit ended cleanly on a guest that neither crashed nor timed out, with no failed and at least
  one passed test, each result read from a file the guest wrote after that group was started: no result of an
  earlier run on the share can stand in for it, whatever the share held before.
\<close>

theorem blktests_green_run:
  assumes "distinct_tree fs"
    and "blktests_judge (Some (map as_collected (run_turns flt workers vm_name kver turns fs))) rep = Inr rep'"
  shows "turns \<noteq> [] \<and> rep' = rep \<and> list_all2 (\<lambda>t e. \<exists>root c. e = Collected c
      \<and> results_dir workers vm_name kver = Inr root \<and> backed flt root t (bo_rows c))
    turns (run_turns flt workers vm_name kver turns fs)"
proof -
  have "run_turns flt workers vm_name kver turns fs \<noteq> []" "rep' = rep"
      "\<forall>e \<in> set (run_turns flt workers vm_name kver turns fs). as_collected e = Result Passed"
    using assms(2) by (auto simp: blktests_judge_ok)
  then show ?thesis using run_turns_backed [OF assms(1)] run_turns_length [of flt workers vm_name kver turns fs] by auto
qed

definition turn_example :: turn where
  "turn_example = \<lparr>tn_group = ''block'', tn_ops = [Put [''w'', ''shared'', ''blktests'', ''vm'', ''6.1'', ''results'', ''nodev'', ''block'', ''002'']
       (''status'' @ [CHR 0x09] @ ''pass'' @ nl)],
     tn_waited = \<lparr>st_vm = ''vm'', st_item = ''block'', st_result = ''success'', st_exec_status = ''0'',
       st_active_state = ''inactive'', st_crashed = False, st_timed_out = False\<rparr>\<rparr>"

abbreviation example_root :: path where
  "example_root \<equiv> [''w'', ''shared'', ''blktests'', ''vm'', ''6.1'', ''results'']"

lemma example_results: "results_dir [''w''] ''vm'' ''6.1'' = Inr example_root"
  by code_simp

lemma example_start: "start_group [''w''] ''vm'' (tn_group turn_example) ''6.1'' (Dir []) = Inr (Dir [])"
proof -
  have "safe_group (tn_group turn_example) = Inr ''block''" by code_simp
  then show ?thesis
    by (simp add: start_group_def example_results clear_group_def devdirs_def)
qed

lemma example_rows:
  "collect_group_rows (\<lambda>_. ()) (node_at (fold guest_step (tn_ops turn_example) (Dir [])) example_root) (tn_group turn_example)
    = Inr [\<lparr>r_devdir = ''nodev'', r_test = ''block/002'', r_status = ''pass'', r_reason = [], r_runtime = None\<rparr>]"
  by code_simp

theorem blktests_green_run_witness:
  "blktests_judge (Some (map as_collected (run_turns (\<lambda>_. ()) [''w''] ''vm'' ''6.1'' [turn_example] (Dir [])))) (Some ()) = Inr (Some ())
   \<and> list_all2 (\<lambda>t e. \<exists>root c. e = Collected c \<and> results_dir [''w''] ''vm'' ''6.1'' = Inr root
       \<and> backed (\<lambda>_. ()) root t (bo_rows c)) [turn_example] (run_turns (\<lambda>_. ()) [''w''] ''vm'' ''6.1'' [turn_example] (Dir []))"
proof -
  have waited: "st_result (tn_waited turn_example) = ''success''" "\<not> st_crashed (tn_waited turn_example)"
    "\<not> st_timed_out (tn_waited turn_example)" by (simp_all add: turn_example_def)
  have judge: "blktests_judge (Some (map as_collected (run_turns (\<lambda>_. ()) [''w''] ''vm'' ''6.1'' [turn_example] (Dir [])))) (Some ()) = Inr (Some ())"
    by (simp add: run_turn_def example_start blktests_collect_def turn_in_def example_results example_rows waited
        blktests_judge_ok as_collected_def group_status_passed row_green_def Let_def split: prod.split)
  from blktests_green_run [OF _ judge] judge show ?thesis by simp
qed

section \<open>Truncated result files\<close>

definition seqres_text :: "(string \<times> string) list \<Rightarrow> string" where
  "seqres_text doc = concat (map (\<lambda>(k, v). k @ CHR 0x09 # v @ nl) doc)"

definition entry_ok :: "string \<times> string \<Rightarrow> bool" where
  "entry_ok = (\<lambda>(k, v). line_ok k \<and> line_ok v \<and> CHR 0x09 \<notin> set k \<and> k \<noteq> [] \<and> strip k = k)"

lemma tab_line: "\<not> is_newline (CHR 0x09)"
  by (simp add: is_newline_def)

lemma splitlines_short: "line_ok l \<Longrightarrow> splitlines l = (if l = [] then [] else [l])"
  using splitlines_one by auto

lemma before_after_tab:
  "CHR 0x09 \<notin> set k \<Longrightarrow> before_chr (CHR 0x09) (k @ CHR 0x09 # v) = k \<and> after_chr (CHR 0x09) (k @ CHR 0x09 # v) = v"
  by (induction k) (auto simp: before_chr_def after_chr_def)

lemma seqres_entry:
  "CHR 0x09 \<notin> set k \<Longrightarrow> k \<noteq> [] \<Longrightarrow> strip k = k \<Longrightarrow> seqres_line (k @ CHR 0x09 # v) d = dict_set k (strip v) d"
  using before_after_tab [of k v] by (simp add: seqres_line_def)

lemma cut_seqres:
  assumes "list_all entry_ok doc" "prefix p (seqres_text doc)"
    and "dict_get (fold seqres_line (splitlines p) d) key = Some v" "dict_get d key \<noteq> Some v"
  shows "\<exists>w w'. (key, w) \<in> set doc \<and> prefix w' w \<and> v = strip w'"
  using assms
proof (induction doc arbitrary: p d)
  case Nil
  then show ?case by (simp add: seqres_text_def)
next
  case (Cons e doc)
  obtain k w where e: "e = (k, w)" by (cases e)
  let ?l = "k @ CHR 0x09 # w"
  have ok: "line_ok k" "line_ok w" "CHR 0x09 \<notin> set k" "k \<noteq> []" "strip k = k"
    using Cons.prems(1) e by (auto simp: entry_ok_def)
  then have l: "line_ok ?l" using tab_line by simp
  have doc: "seqres_text (e # doc) = ?l @ nl @ seqres_text doc" by (simp add: seqres_text_def e)
  from Cons.prems(2) consider (short) "prefix p ?l" | (long) p' where "p = ?l @ nl @ p'" "prefix p' (seqres_text doc)"
    unfolding doc by (auto simp: prefix_append prefix_Cons)
  then show ?case
  proof cases
    case short
    then have "line_ok p" using l set_mono_prefix [OF short] unfolding line_ok_def by blast
    then have lines: "splitlines p = (if p = [] then [] else [p])" by (rule splitlines_short)
    from short consider (bare) "prefix p k" | (val) w' where "p = k @ CHR 0x09 # w'" "prefix w' w"
      by (auto simp: prefix_append prefix_Cons)
    then show ?thesis
    proof cases
      case bare
      then have "CHR 0x09 \<notin> set p" using ok(3) by (auto dest: set_mono_prefix)
      then have "fold seqres_line (splitlines p) d = d" by (simp add: lines seqres_line_def)
      then show ?thesis using Cons.prems(3,4) by simp
    next
      case val
      then have "fold seqres_line (splitlines p) d = dict_set k (strip w') d"
        using seqres_entry [OF ok(3,4,5)] lines by simp
      then have "key = k" "v = strip w'" using Cons.prems(3,4) by (auto split: if_splits)
      then show ?thesis using val e by auto
    qed
  next
    case long
    have "splitlines p = ?l # splitlines p'" using l unfolding long(1) by (rule splitlines_line)
    then have f: "fold seqres_line (splitlines p) d = fold seqres_line (splitlines p') (dict_set k (strip w) d)"
      using seqres_entry [OF ok(3,4,5)] by simp
    show ?thesis
    proof (cases "dict_get (dict_set k (strip w) d) key = Some v")
      case True
      then have "key = k" "v = strip w" using Cons.prems(4) by (auto split: if_splits)
      then show ?thesis using e by auto
    next
      case False
      then show ?thesis using Cons.IH [of p' "dict_set k (strip w) d"] Cons.prems(1,3) long(2) f by auto
    qed
  qed
qed

definition cut_ok :: "string \<Rightarrow> bool" where
  "cut_ok v = list_all (\<lambda>u. strip u = v \<or> strip u \<notin> {''pass'', ''not run''}) (prefixes v)"

lemma cut_status: "v \<in> {''pass'', ''fail'', ''not run''} \<Longrightarrow> cut_ok v"
proof (elim insertE emptyE; hypsubst)
  show "cut_ok ''pass''" "cut_ok ''fail''" "cut_ok ''not run''" by code_simp+
qed

lemma cut_okD: "cut_ok v \<Longrightarrow> prefix u v \<Longrightarrow> strip u = v \<or> strip u \<notin> {''pass'', ''not run''}"
  by (simp add: cut_ok_def list_all_iff)

text \<open>
  A result file cut short never reads better than the whole one. Of a file the guest writes key by key,
  with one of the three statuses of \<open>check\<close>, every beginning (what a killed test or a crashed guest leaves)
  reads as that status, as one that fails the group, or as \<open>missing\<close>, which fails it too.
\<close>

theorem seqres_truncation:
  assumes "list_all entry_ok doc" "prefix p (seqres_text doc)" "distinct (map fst doc)"
    and "dict_get doc ''status'' = Some v" "v \<in> {''pass'', ''fail'', ''not run''}"
  shows "dict_get (parse_seqres p) ''status'' = Some v
    \<or> (\<exists>s. dict_get (parse_seqres p) ''status'' = Some s \<and> s \<notin> {''pass'', ''not run''})"
proof (cases "dict_get (fold seqres_line (splitlines p) []) ''status''")
  case None
  then show ?thesis by (simp add: parse_seqres_def map_of_eq_None_iff)
next
  case (Some s)
  then have read: "dict_get (parse_seqres p) ''status'' = Some s"
    by (auto simp: parse_seqres_def Let_def) (metis dom_map_of_conv_image_fst domI image_eqI fst_conv)
  obtain w w' where w: "(''status'', w) \<in> set doc" "prefix w' w" "s = strip w'"
    using cut_seqres [OF assms(1,2) Some] by auto
  then have "w = v" using assms(3,4) by (metis map_of_is_SomeI option.inject)
  then have "s = v \<or> s \<notin> {''pass'', ''not run''}"
    using cut_okD [OF cut_status [OF assms(5)], of w'] w(2,3) by simp
  then show ?thesis using read by auto
qed

theorem seqres_truncation_witness:
  "dict_get (parse_seqres (''status'' @ [CHR 0x09] @ ''pa'')) ''status'' = Some ''pass''
    \<or> (\<exists>s. dict_get (parse_seqres (''status'' @ [CHR 0x09] @ ''pa'')) ''status'' = Some s \<and> s \<notin> {''pass'', ''not run''})"
  by (rule seqres_truncation [of "[(''status'', ''pass'')]"])
    (simp_all add: entry_ok_def seqres_text_def strip_by_def rstrip_by_def lstrip_by_def is_space_def is_newline_def)

section \<open>The cache and the pickers\<close>

lemma strings_in_list: "strings_in (map JStr xs) = xs"
  by (induction xs) (simp_all add: strings_in_def List.map_filter_simps)

lemma iterate_strings: "iterate (Some (string_list xs)) = Inr (map JStr xs)"
  by (simp add: iterate_def string_list_def)

lemma pick_all: "pick options [] = options"
  by (simp add: pick_def lower_def)

lemma device_json: "device_option py_str [(''name'', JStr n), (''size'', JStr sz), (''log_sec'', JInt k)] =
    Inr (if n = [] then None else Some (n, n @ '' ('' @ sz @ '')''))"
  by (simp add: device_option_def)

lemma devices_json:
  assumes "list_all (\<lambda>d. gd_name d \<noteq> []) ds"
  shows "traverse (device_option py_str) (objects_in (map disk_json ds)) =
    Inr (map (\<lambda>d. Some (gd_name d, gd_name d @ '' ('' @ gd_size d @ '')'')) ds)"
  using assms
  by (induction ds) (simp_all add: objects_in_def List.map_filter_simps disk_json_def device_json)

lemma objects_disks: "objects_in (map disk_json ds) = [] \<longleftrightarrow> ds = []"
  by (cases ds) (simp_all add: objects_in_def List.map_filter_simps disk_json_def)

lemma map_filter_id: "List.map_filter id (map (\<lambda>x. Some (f x)) xs) = map f xs"
  by (induction xs) (simp_all add: List.map_filter_simps)

lemma cache_json_ok: "json_ok (cache_json groups ts ds)"
  by (simp add: cache_json_def string_list_def disk_json_def list_all_iff)

text \<open>
  The form offers what the guest has. From the cache \<open>discover\<close> writes, read back from its file, the
  pickers with no filter list exactly the groups, tests and disks that were found, in that order; the static
  catalogue never stands in for a discovered guest.
\<close>

theorem pickers_offer_found:
  assumes "groups \<noteq> []" "list_all (\<lambda>g. g \<noteq> []) groups" "ts \<noteq> []"
    and "ds \<noteq> []" "list_all (\<lambda>d. gd_name d \<noteq> []) ds"
    and "data = loads (dumps (cache_json groups ts ds) @ nl)"
  shows "map fst (list_blktests_groups data []) = groups
    \<and> list_blktests data [] = Inr (map (\<lambda>t. (t, t)) ts)
    \<and> list_devices py_str data [] = Inr (map (\<lambda>d. (gd_name d, gd_name d @ '' ('' @ gd_size d @ '')'')) ds)"
proof -
  have data: "data = Some (cache_json groups ts ds)"
    unfolding assms(6) by (rule json_reads_back) (simp_all add: cache_json_ok json_space_def)
  have get: "dict_get (cache_of data) ''tests'' = Some (string_list ts)"
    "dict_get (cache_of data) ''devices'' = Some (JList (map disk_json ds))"
    by (simp_all add: data cache_of_def cache_json_def)
  have "cached_groups data = groups"
    using assms(2) by (simp add: data cached_groups_def cache_json_def iterate_strings strings_in_list list_all_iff)
  then have "map fst (list_blktests_groups data []) = groups"
    using assms(1) by (simp add: list_blktests_groups_def pick_all comp_def)
  moreover have "list_blktests data [] = Inr (map (\<lambda>t. (t, t)) ts)"
    using assms(3) by (simp add: list_blktests_def get iterate_strings strings_in_list pick_all)
  moreover have "list_devices py_str data [] = Inr (map (\<lambda>d. (gd_name d, gd_name d @ '' ('' @ gd_size d @ '')'')) ds)"
    using assms(4,5) by (simp add: list_devices_def get iterate_def objects_disks devices_json map_filter_id pick_all)
  ultimately show ?thesis by blast
qed

theorem pickers_offer_found_witness:
  "(let data = loads (dumps (cache_json [''block''] [''block/002''] [\<lparr>gd_name = ''/dev/nvme0n1'', gd_size = ''1G'', gd_log_sec = 512\<rparr>]) @ nl) in
    map fst (list_blktests_groups data []) = [''block''] \<and> list_blktests data [] = Inr [(''block/002'', ''block/002'')])"
  using pickers_offer_found [of "[''block'']" "[''block/002'']" "[\<lparr>gd_name = ''/dev/nvme0n1'', gd_size = ''1G'', gd_log_sec = 512\<rparr>]"]
  by (simp add: Let_def)

end
