(* ===== verification/RuntimeTests.thy ===== *)
theory RuntimeTests
  imports Blktests
begin

text \<open>
  The runtime-tests suite (\<open>f/runtime_tests\<close>): kernel modules that run their tests when they are loaded. The
  catalogue of modules with what each must leave behind, the verdict of one module from its load state and
  the kernel log, the run verdict, and the steps that discover, start and stop a module.

  The reasons of a failed item are values; their texts are not modelled.
\<close>

section \<open>The catalogue\<close>

datatype item_kind = TestKind | StressKind | BenchmarkKind

record module_entry =
  e_label :: string
  e_loaded_on_pass :: bool
  e_kind :: item_kind
  e_summary_re :: "re option"
  e_sentinel_re :: "re option"
  e_unload :: bool
  e_scan_kmsg :: bool
  e_fail_re :: "re option"

text \<open>An entry with the defaults of \<open>_DEFAULTS\<close>.\<close>

definition defaults :: "string \<Rightarrow> bool \<Rightarrow> item_kind \<Rightarrow> module_entry" where
  "defaults label loaded kind =
     \<lparr>e_label = label, e_loaded_on_pass = loaded, e_kind = kind, e_summary_re = None, e_sentinel_re = None,
      e_unload = False, e_scan_kmsg = True, e_fail_re = None\<rparr>"

definition digits1 :: re where "digits1 = RPlus RDigit"

definition of_passed_re :: "string \<Rightarrow> re" where
  "of_passed_re name = RSeqs [RLit (name @ '': ''), RGrp ''passed'' digits1, RLit '' of '', RGrp ''total'' digits1,
     RLit '' tests passed'']"

definition summary_entry :: "string \<Rightarrow> bool \<Rightarrow> re \<Rightarrow> module_entry" where
  "summary_entry label loaded r = (defaults label loaded TestKind)\<lparr>e_summary_re := Some r, e_unload := True\<rparr>"

definition sentinel_entry :: "string \<Rightarrow> bool \<Rightarrow> item_kind \<Rightarrow> re \<Rightarrow> module_entry" where
  "sentinel_entry label loaded kind r = (defaults label loaded kind)\<lparr>e_sentinel_re := Some r\<rparr>"

definition digit_from_1 :: "char \<Rightarrow> bool" where
  "digit_from_1 c = (is_digit c \<and> c \<noteq> CHR ''0'')"

definition MODULES :: "(string, module_entry) dict" where
  "MODULES =
     [(''test_xarray'', summary_entry ''XArray (test_xarray)'' True (of_passed_re ''XArray'')),
      (''test_maple_tree'', summary_entry ''Maple tree (test_maple_tree)'' True (of_passed_re ''maple_tree'')),
      (''test_rhashtable'', summary_entry ''Resizable hashtable (test_rhashtable)'' True
         (RSeqs [RLit ''Started '', RGrp ''total'' (RSeq (RCls digit_from_1) (RStar RDigit)),
            RLit '' threads, 0 failed, rhltable test returns 0''])),
      (''test_hexdump'', summary_entry ''Hexdump (test_hexdump)'' True
         (RSeqs [RLit ''test_hexdump: all '', RGrp ''passed'' digits1, RLit '' tests passed''])),
      (''test_bpf'', summary_entry ''BPF interpreter and JIT (test_bpf)'' True
         (RSeqs [RLit ''test_bpf: Summary: '', RGrp ''passed'' digits1, RLit '' PASSED, 0 FAILED''])),
      (''test_ida'', (summary_entry ''IDA allocator (test_ida)'' False (of_passed_re ''IDA''))\<lparr>e_scan_kmsg := False\<rparr>),
      (''rbtree_test'', sentinel_entry ''Red-black tree (rbtree_test)'' False TestKind (RLit ''rbtree testing'')),
      (''interval_tree_test'', sentinel_entry ''Interval tree (interval_tree_test)'' False TestKind
         (RLit ''interval tree insert/remove'')),
      (''percpu_test'', sentinel_entry ''Per-CPU operations (percpu_test)'' False TestKind (RLit ''percpu test done'')),
      (''atomic64_test'', (sentinel_entry ''atomic64_t self-test (atomic64_test)'' True TestKind
         (RLit ''atomic64_test: passed''))\<lparr>e_unload := True\<rparr>),
      (''test_vmalloc'', (sentinel_entry ''vmalloc stress (test_vmalloc)'' False StressKind
         (RSeqs [RLit ''Summary: '', RPlus RNonSpace, RLit '' passed: '', digits1, RLit '' failed: '', digits1]))
         \<lparr>e_fail_re := Some (RSeqs [RLit ''Summary: '', RPlus RNonSpace, RLit '' passed: '', digits1, RLit '' failed: '',
            RCls digit_from_1])\<rparr>),
      (''test_workqueue'', sentinel_entry ''Workqueue stress (test_workqueue)'' False StressKind
         (RSeqs [RLit ''test_workqueue:'', RPlus RSpace, RPlus RNonSpace, RPlus RSpace, digits1, RLit '' items/sec''])),
      (''find_bit_benchmark'', sentinel_entry ''find_bit() benchmark (find_bit_benchmark)'' False BenchmarkKind
         (RSeqs [RLit ''find_next_bit:'', RPlus RSpace, digits1, RLit '' ns,'', RPlus RSpace, digits1, RLit '' iterations'']))]"

definition module_entry :: "string \<Rightarrow> module_entry" where
  "module_entry module =
     (case dict_get MODULES module of None \<Rightarrow> defaults module True TestKind | Some e \<Rightarrow> e)"

definition MODULE_RE :: re where
  "MODULE_RE = RSeqs [RBol, RPlus (RCls (\<lambda>c. is_lower_ascii c \<or> is_digit c \<or> c = CHR ''_'')), REol]"

definition unit_for :: "string \<Rightarrow> string result" where
  "unit_for module =
     (if re_match MODULE_RE module = None then Inl ValueError else Inr (template_unit ''modprobe'' module))"

definition modules_cache :: "path \<Rightarrow> string \<Rightarrow> path result" where
  "modules_cache workers vm_name =
     andthen (under (workers @ [''shared'', ''runtime-tests'']) vm_name) (\<lambda>d. Inr (d @ [''modules.json'']))"

section \<open>The verdict of one module\<close>

text \<open>The counts of the last summary in the log; a group that is missing takes the other's value.\<close>

definition summary_counts :: "re \<Rightarrow> string \<Rightarrow> (nat \<times> nat) option" where
  "summary_counts summary_re kmsg =
     (case rev (re_findall summary_re kmsg) of
        [] \<Rightarrow> None
      | m # _ \<Rightarrow>
          (let total = grp m ''total'';
               passed = (case grp m ''passed'' of Some p \<Rightarrow> read_nat p
                         | None \<Rightarrow> (case total of None \<Rightarrow> 0 | Some t \<Rightarrow> if t = [] then 0 else read_nat t)) in
           Some (passed, case total of Some t \<Rightarrow> read_nat t | None \<Rightarrow> passed)))"

definition SPLAT_MARKERS :: "string list" where
  "SPLAT_MARKERS = [''WARNING:'', ''BUG:'', ''Call Trace:'']"

datatype reason =
    GuestDown
  | RunTimedOut
  | JobSkipped
  | JobNotDone string
  | NotLoaded
  | StillLoaded
  | Splat string
  | FailureLine string
  | ZeroTests
  | CountsDiffer nat nat
  | NoEvidence

record module_in =
  mi_module :: string
  mi_kmsg :: string
  mi_result :: string
  mi_loaded :: bool
  mi_crashed :: bool
  mi_timed_out :: bool

record item_out =
  io_item :: string
  io_status :: item_status
  io_tests :: nat
  io_passed :: nat
  io_failed :: int
  io_reasons :: "reason list"
  io_tail :: "string list"

definition first_line :: "(string \<Rightarrow> bool) \<Rightarrow> (string \<Rightarrow> reason) \<Rightarrow> string list \<Rightarrow> reason list" where
  "first_line p r lines = (case filter p lines of [] \<Rightarrow> [] | l # _ \<Rightarrow> [r (strip l)])"

definition has_splat :: "string \<Rightarrow> bool" where
  "has_splat line = list_ex (\<lambda>m. contains m line) SPLAT_MARKERS"

definition plumbing_reasons :: "module_entry \<Rightarrow> module_in \<Rightarrow> reason list" where
  "plumbing_reasons e i =
     (if mi_crashed i then [GuestDown] else []) @ (if mi_timed_out i then [RunTimedOut] else [])
     @ (if mi_result i = ''skipped'' then [JobSkipped] else if mi_result i \<noteq> ''done'' then [JobNotDone (mi_result i)] else [])
     @ (if e_loaded_on_pass e \<and> \<not> mi_loaded i then [NotLoaded] else [])
     @ (if \<not> e_loaded_on_pass e \<and> mi_loaded i then [StillLoaded] else [])"

definition log_reasons :: "module_entry \<Rightarrow> string list \<Rightarrow> reason list" where
  "log_reasons e lines =
     (if e_scan_kmsg e then first_line has_splat Splat lines else [])
     @ (case e_fail_re e of None \<Rightarrow> [] | Some r \<Rightarrow> first_line (\<lambda>l. re_search r l \<noteq> None) FailureLine lines)"

text \<open>What proves that the suite ran: the counts, whether the proof is missing, and what the counts fail on.\<close>

definition evidence :: "module_entry \<Rightarrow> string \<Rightarrow> (nat \<times> nat) \<times> bool \<times> reason list" where
  "evidence e kmsg =
     (case e_summary_re e of
        Some r \<Rightarrow>
          (case summary_counts r kmsg of
             None \<Rightarrow> ((0, 0), True, [])
           | Some (p, t) \<Rightarrow>
               ((p, t), False,
                if t = 0 then [ZeroTests] else if p \<noteq> t then [CountsDiffer p t] else []))
      | None \<Rightarrow>
          (case e_sentinel_re e of
             Some r \<Rightarrow> ((0, 0), re_search r kmsg = None, [])
           | None \<Rightarrow> ((0, 0), False, [])))"

definition TAIL_LINES :: nat where "TAIL_LINES = 40"

definition last_lines :: "nat \<Rightarrow> string list \<Rightarrow> string list" where
  "last_lines n ls = drop (length ls - n) ls"

definition runtime_collect :: "module_in \<Rightarrow> item_out" where
  "runtime_collect i =
     (let e = module_entry (mi_module i); lines = splitlines (mi_kmsg i) in
      case evidence e (mi_kmsg i) of ((p, t), missing, counts) \<Rightarrow>
        (let reasons = plumbing_reasons e i @ log_reasons e lines @ counts
               @ (if missing \<and> e_kind e = TestKind then [NoEvidence] else []) in
         \<lparr>io_item = mi_module i,
          io_status = (if reasons \<noteq> [] then Failed else if missing then Notrun else Passed),
          io_tests = t, io_passed = p, io_failed = int t - int p,
          io_reasons = reasons, io_tail = last_lines TAIL_LINES lines\<rparr>))"

definition runtime_run_status :: "collected list \<Rightarrow> item_status" where
  "runtime_run_status per_item =
     (if per_item \<noteq> [] \<and> list_all item_passed per_item then Passed else Failed)"

interpretation runtime: verdict runtime_run_status item_passed
  by unfold_locales (auto simp: runtime_run_status_def list_all_iff)

definition runtime_judge :: "collected list option \<Rightarrow> 'r option \<Rightarrow> 'r option result" where
  "runtime_judge per_item rep =
     (let items = (case per_item of None \<Rightarrow> [] | Some xs \<Rightarrow> xs) in
      if runtime_run_status items \<noteq> Passed then Inl RuntimeError else Inr rep)"

lemma runtime_judge_ok:
  "runtime_judge (Some xs) r = Inr r' \<longleftrightarrow> xs \<noteq> [] \<and> (\<forall>x \<in> set xs. x = Result Passed) \<and> r' = r"
  using runtime.passed_iff [of xs] by (auto simp: runtime_judge_def item_passed_iff)

section \<open>The steps\<close>

text \<open>\<open>_dep_modules\<close>: the modules a \<open>modules.dep\<close> lists.\<close>

fun before_text :: "string \<Rightarrow> string \<Rightarrow> string" where
  "before_text sep [] = []"
| "before_text sep (c # cs) = (if prefix sep (c # cs) then [] else c # before_text sep cs)"

definition dep_module :: "string \<Rightarrow> string option" where
  "dep_module line =
     (let base = after_last_chr (CHR ''/'') (strip (before_chr (CHR '':'') line)) in
      if contains ''.ko'' base
      then Some (map (\<lambda>c. if c = CHR ''-'' then CHR ''_'' else c) (before_text ''.ko'' base)) else None)"

definition dep_modules :: "string \<Rightarrow> string list" where
  "dep_modules dep_text = List.map_filter dep_module (splitlines dep_text)"

record modules_found =
  mf_vm :: string
  mf_host :: string
  mf_kernel_version :: string
  mf_modules :: "string list"
  mf_missing :: "string list"

definition runtime_discover :: "environ \<Rightarrow> string \<Rightarrow> modules_found prog" where
  "runtime_discover env vm_name = with_guest env vm_name (\<lambda>r.
     bind (gate r) (\<lambda>state.
     bind (unit_exists r ''modprobe@.service'') (\<lambda>unit.
     if \<not> unit then Raise RuntimeError else
     bind (kernel_release r) (\<lambda>kver.
     bind (ssh_checked r [''cat'', ''/lib/modules/'' @ kver @ ''/modules.dep'']) (\<lambda>dep_text.
     let shipped = dep_modules dep_text;
         modules = filter (\<lambda>m. m \<in> set shipped) (keys MODULES);
         missing = filter (\<lambda>m. m \<notin> set shipped) (keys MODULES) in
     if modules = [] then Raise RuntimeError else
     bind (of_result (workers_env env)) (\<lambda>w.
     bind (write_cache (modules_cache w vm_name) (string_list modules)) (\<lambda>_.
     Ret \<lparr>mf_vm = vm_name, mf_host = state, mf_kernel_version = kver, mf_modules = modules,
       mf_missing = missing\<rparr>)))))))"

definition unload :: "remote \<Rightarrow> string \<Rightarrow> unit prog" where
  "unload r module = bind (ssh_text r [''modprobe'', ''--remove'', ''--quiet'', module]) (\<lambda>_. nop)"

definition runtime_start :: "environ \<Rightarrow> string \<Rightarrow> string \<Rightarrow> started_out prog" where
  "runtime_start env vm_name module = with_guest env vm_name (\<lambda>r.
     bind (of_result (unit_for module)) (\<lambda>unit.
     bind (ssh_status r [''systemctl'', ''reset-failed'', unit]) (\<lambda>_.
     bind (only_if (e_unload (module_entry module)) (unload r module)) (\<lambda>_.
     start_behind_cursor r vm_name module unit))))"

text \<open>The stop step skips what is no module name.\<close>

fun stop_modules :: "remote \<Rightarrow> string list \<Rightarrow> string list prog" where
  "stop_modules r [] = Ret []"
| "stop_modules r (m # ms) =
     (case unit_for m of
        Inl _ \<Rightarrow> stop_modules r ms
      | Inr unit \<Rightarrow>
          bind (stop_unit r unit) (\<lambda>_.
          bind (unload r m) (\<lambda>_.
          bind (stop_modules r ms) (\<lambda>units. Ret (unit # units)))))"

definition runtime_stop :: "environ \<Rightarrow> string \<Rightarrow> string list \<Rightarrow> stop_out prog" where
  "runtime_stop env vm_name modules = stop_main env vm_name modules (\<lambda>r. stop_modules r modules)"

definition cached_items :: "json option \<Rightarrow> string list" where
  "cached_items data =
     (case data of
        None \<Rightarrow> []
      | Some JNull \<Rightarrow> []
      | Some x \<Rightarrow> (case iterate (Some x) of Inl _ \<Rightarrow> [] | Inr xs \<Rightarrow> filter (\<lambda>m. m \<noteq> []) (strings_in xs)))"

definition list_modules :: "json option \<Rightarrow> string \<Rightarrow> (string \<times> string) list" where
  "list_modules data filterText =
     (let names = (if cached_items data = [] then keys MODULES else cached_items data) in
      pick (map (\<lambda>m. (m, e_label (module_entry m)))
        (filter (\<lambda>m. m \<in> set names) (keys MODULES) @ filter (\<lambda>m. m \<notin> set (keys MODULES)) names)) filterText)"

section \<open>What a verdict means\<close>

lemma take_show_nat:
  "s = [] \<or> \<not> is_digit (hd s) \<Longrightarrow>
    takeWhile is_digit (show_nat n @ s) = show_nat n \<and> dropWhile is_digit (show_nat n @ s) = s"
  using show_nat_digits [of n] by (cases s) (auto simp: takeWhile_append dropWhile_append)

lemma run_number:
  assumes "\<And>pre c cs caps. is_digit c \<Longrightarrow> run k (pre, c # cs, caps) = []" "s = [] \<or> \<not> is_digit (hd s)"
  shows "run (RSeq (RGrp g digits1) k) (pre, show_nat n @ s, caps) = run k (rev (show_nat n) @ pre, s, (g, show_nat n) # caps)"
  unfolding digits1_def using seq_plus_only [of is_digit k g pre "show_nat n @ s" caps, OF assms(1)] take_show_nat [OF assms(2), of n]
  by simp

definition counts_line :: "string \<Rightarrow> nat \<Rightarrow> nat \<Rightarrow> string" where
  "counts_line name p t = name @ '': '' @ show_nat p @ '' of '' @ show_nat t @ '' tests passed''"

lemma of_passed_match:
  "\<exists>m. first_match (of_passed_re name) [] (counts_line name p t) = Some m \<and> m_rest m = []
    \<and> m_caps m = [(''total'', show_nat t), (''passed'', show_nat p)]"
proof -
  let ?tail = "RSeq (RLit '' tests passed'') REps"
  let ?mid = "RSeq (RLit '' of '') (RSeq (RGrp ''total'' digits1) ?tail)"
  have tail: "is_digit c \<Longrightarrow> run ?tail (pre, c # cs, caps) = []" for pre c cs caps
    by (auto simp: prefix_def is_digit_def)
  have mid: "is_digit c \<Longrightarrow> run ?mid (pre, c # cs, caps) = []" for pre c cs caps
    by (auto simp: prefix_def is_digit_def)
  have lit: "run (RSeq (RLit w) k) (pre, w @ s, caps) = run k (rev w @ pre, s, caps)" for w k pre s caps
    by (simp add: run_RLit_same)
  have "run (of_passed_re name) ([], counts_line name p t, []) =
      run (RSeq (RGrp ''passed'' digits1) ?mid) (rev (name @ '': ''), show_nat p @ '' of '' @ show_nat t @ '' tests passed'', [])"
    using lit [of "name @ '': ''"] by (simp add: of_passed_re_def counts_line_def del: run.simps)
  also have "\<dots> = run ?mid (rev (show_nat p) @ rev (name @ '': ''), '' of '' @ show_nat t @ '' tests passed'', [(''passed'', show_nat p)])"
    by (rule run_number [OF mid]) (simp_all add: is_digit_def)
  also have "\<dots> = run (RSeq (RGrp ''total'' digits1) ?tail)
      (rev '' of '' @ rev (show_nat p) @ rev (name @ '': ''), show_nat t @ '' tests passed'', [(''passed'', show_nat p)])"
    by (rule lit)
  also have "\<dots> = run ?tail (rev (show_nat t) @ rev '' of '' @ rev (show_nat p) @ rev (name @ '': ''), '' tests passed'',
      [(''total'', show_nat t), (''passed'', show_nat p)])"
    by (rule run_number [OF tail]) (simp_all add: is_digit_def)
  finally show ?thesis by (simp add: first_match_def)
qed

lemma counts_read: "summary_counts (of_passed_re name) (counts_line name p t) = Some (p, t)"
proof -
  obtain m where m: "first_match (of_passed_re name) [] (counts_line name p t) = Some m" "m_rest m = []"
      "m_caps m = [(''total'', show_nat t), (''passed'', show_nat p)]" using of_passed_match by blast
  obtain c cs where "counts_line name p t = c # cs" by (cases name) (auto simp: counts_line_def)
  then have "re_findall (of_passed_re name) (counts_line name p t) = [m]" using m by (simp add: re_findall_def)
  then show ?thesis using m(3) by (simp add: summary_counts_def grp_def)
qed

definition COUNTED :: "(string \<times> string) list" where
  "COUNTED = [(''test_xarray'', ''XArray''), (''test_maple_tree'', ''maple_tree''), (''test_ida'', ''IDA'')]"

definition counted_ok :: "string \<times> string \<Rightarrow> bool" where
  "counted_ok = (\<lambda>(module, name). list_all (\<lambda>c. \<not> is_newline c \<and> c \<noteq> CHR ''W'' \<and> c \<noteq> CHR ''B'' \<and> c \<noteq> CHR ''C'') name
     \<and> e_summary_re (module_entry module) = Some (of_passed_re name)
     \<and> e_kind (module_entry module) = TestKind \<and> e_fail_re (module_entry module) = None)"

lemma counted_entries: "list_all counted_ok COUNTED"
  by (simp add: COUNTED_def counted_ok_def module_entry_def MODULES_def summary_entry_def defaults_def is_newline_def)

lemma counted: "(module, name) \<in> set COUNTED \<Longrightarrow> counted_ok (module, name)"
  using counted_entries by (simp add: list_all_iff)

lemma counts_line_clean:
  assumes "counted_ok (module, name)"
  shows "splitlines (counts_line name p t) = [counts_line name p t]" "\<not> has_splat (counts_line name p t)"
proof -
  have name: "line_ok name" "CHR ''W'' \<notin> set name" "CHR ''B'' \<notin> set name" "CHR ''C'' \<notin> set name"
    using assms by (auto simp: counted_ok_def list_all_iff line_ok_def)
  have "line_ok (counts_line name p t)" using name(1) by (simp add: counts_line_def is_newline_def)
  moreover have "counts_line name p t \<noteq> []" by (simp add: counts_line_def)
  ultimately show "splitlines (counts_line name p t) = [counts_line name p t]" by (rule splitlines_one)
  have digits: "c \<notin> set (show_nat n)" if "\<not> is_digit c" for c n using show_nat_digits that by blast
  have "CHR ''W'' \<notin> set (counts_line name p t)" "CHR ''B'' \<notin> set (counts_line name p t)" "CHR ''C'' \<notin> set (counts_line name p t)"
    using name digits [of "CHR ''W''"] digits [of "CHR ''B''"] digits [of "CHR ''C''"]
    by (simp_all add: counts_line_def is_digit_def)
  then show "\<not> has_splat (counts_line name p t)"
    by (auto simp: has_splat_def SPLAT_MARKERS_def dest!: contains_set)
qed

text \<open>
  The counts decide. For the three modules that print their counts alike, a module whose start job is done
  on a live guest, with the load state it leaves when it passes, is reported as passed exactly when its last
  line counts all of at least one test as passed; as failed otherwise. The inverted convention of
  \<open>test_ida\<close>, which stays loaded when it fails, is one of the three.
\<close>

theorem module_counts_decide:
  assumes "(mi_module i, name) \<in> set COUNTED" and "mi_kmsg i = counts_line name p t"
    and "mi_result i = ''done''" "\<not> mi_crashed i" "\<not> mi_timed_out i"
    and "mi_loaded i = e_loaded_on_pass (module_entry (mi_module i))"
  shows "io_status (runtime_collect i) = (if p = t \<and> 0 < t then Passed else Failed)
    \<and> io_passed (runtime_collect i) = p \<and> io_tests (runtime_collect i) = t"
proof -
  note ok = counted [OF assms(1)]
  then have e: "e_summary_re (module_entry (mi_module i)) = Some (of_passed_re name)"
      "e_fail_re (module_entry (mi_module i)) = None"
    by (simp_all add: counted_ok_def)
  have "evidence (module_entry (mi_module i)) (mi_kmsg i) =
      ((p, t), False, if t = 0 then [ZeroTests] else if p \<noteq> t then [CountsDiffer p t] else [])"
    using e counts_read [of name p t] by (simp add: evidence_def assms(2))
  moreover have "log_reasons (module_entry (mi_module i)) (splitlines (mi_kmsg i)) = []"
    using e counts_line_clean [OF ok] by (simp add: log_reasons_def first_line_def assms(2))
  moreover have "plumbing_reasons (module_entry (mi_module i)) i = []"
    using assms(3-6) by (simp add: plumbing_reasons_def)
  ultimately show ?thesis by (simp add: runtime_collect_def Let_def)
qed

theorem module_counts_decide_witness:
  "io_status (runtime_collect \<lparr>mi_module = ''test_ida'', mi_kmsg = counts_line ''IDA'' 2 3, mi_result = ''done'',
     mi_loaded = False, mi_crashed = False, mi_timed_out = False\<rparr>) = Failed"
  using module_counts_decide [of "\<lparr>mi_module = ''test_ida'', mi_kmsg = counts_line ''IDA'' 2 3, mi_result = ''done'',
     mi_loaded = False, mi_crashed = False, mi_timed_out = False\<rparr>" "''IDA''" 2 3]
  by (simp add: COUNTED_def module_entry_def MODULES_def summary_entry_def defaults_def)

lemma catalog_evidence: "list_all (\<lambda>(m, e). e_summary_re e \<noteq> None \<or> e_sentinel_re e \<noteq> None) MODULES"
  by (simp add: MODULES_def summary_entry_def sentinel_entry_def defaults_def)

text \<open>What a passed module left behind.\<close>

definition proves_run :: "module_entry \<Rightarrow> string \<Rightarrow> bool" where
  "proves_run e kmsg =
     (case e_summary_re e of
        Some r \<Rightarrow> (\<exists>n > 0. summary_counts r kmsg = Some (n, n))
      | None \<Rightarrow> (case e_sentinel_re e of Some r \<Rightarrow> re_search r kmsg \<noteq> None | None \<Rightarrow> True))"

lemma first_line_Nil: "first_line q r lines = [] \<longleftrightarrow> list_all (\<lambda>l. \<not> q l) lines"
  by (auto simp: first_line_def list_all_iff filter_empty_conv split: list.splits)
     (metis filter_empty_conv list.distinct(1))

lemma module_passed:
  assumes "io_status (runtime_collect i) = Passed"
  shows "mi_result i = ''done'' \<and> \<not> mi_crashed i \<and> \<not> mi_timed_out i
    \<and> mi_loaded i = e_loaded_on_pass (module_entry (mi_module i))
    \<and> (e_scan_kmsg (module_entry (mi_module i)) \<longrightarrow> list_all (\<lambda>l. \<not> has_splat l) (splitlines (mi_kmsg i)))
    \<and> proves_run (module_entry (mi_module i)) (mi_kmsg i)"
proof -
  let ?e = "module_entry (mi_module i)"
  obtain p t missing counts where ev: "evidence ?e (mi_kmsg i) = ((p, t), missing, counts)" by (metis prod_cases3 surj_pair)
  with assms have nil: "plumbing_reasons ?e i = []" "log_reasons ?e (splitlines (mi_kmsg i)) = []" "counts = []" "\<not> missing"
    by (auto simp: runtime_collect_def Let_def split: if_splits)
  have "proves_run ?e (mi_kmsg i)"
    using ev nil(3,4) by (auto simp: evidence_def proves_run_def split: option.splits if_splits)
  with nil(1,2) show ?thesis
    by (auto simp: plumbing_reasons_def log_reasons_def first_line_Nil split: if_splits)
qed

text \<open>
  A green runtime-tests run, end to end. When the judge lets the modules of a run through, there was one,
  and every module's job was done on a live guest, left it in the load state its convention calls a pass, left
  no splat in the log where the log is scanned, and for every module of the catalogue the log proves that the
  suite ran: counts that agree and are not zero, or its sentinel.
\<close>

theorem runtime_green_run:
  assumes "runtime_judge (Some (map (\<lambda>i. Result (io_status (runtime_collect i))) items)) rep = Inr rep'"
  shows "items \<noteq> [] \<and> rep' = rep \<and> list_all (\<lambda>i. let e = module_entry (mi_module i) in
      mi_result i = ''done'' \<and> \<not> mi_crashed i \<and> \<not> mi_timed_out i \<and> mi_loaded i = e_loaded_on_pass e
      \<and> (\<not> e_scan_kmsg e \<or> list_all (\<lambda>l. \<not> has_splat l) (splitlines (mi_kmsg i)))
      \<and> proves_run e (mi_kmsg i)
      \<and> (dict_get MODULES (mi_module i) = None \<or> e_summary_re e \<noteq> None \<or> e_sentinel_re e \<noteq> None)) items"
proof -
  have judged: "items \<noteq> []" "rep' = rep" "\<forall>i \<in> set items. io_status (runtime_collect i) = Passed"
    using assms by (auto simp: runtime_judge_ok)
  have "dict_get MODULES m = None \<or> e_summary_re (module_entry m) \<noteq> None \<or> e_sentinel_re (module_entry m) \<noteq> None" for m
  proof (cases "dict_get MODULES m")
    case (Some e)
    then have "e_summary_re e \<noteq> None \<or> e_sentinel_re e \<noteq> None"
      using catalog_evidence map_of_SomeD [OF Some] by (auto simp: list_all_iff)
    with Some show ?thesis by (simp add: module_entry_def)
  qed simp
  with judged module_passed show ?thesis by (auto simp: list_all_iff Let_def)
qed

theorem runtime_green_run_witness:
  "(let i = \<lparr>mi_module = ''test_ida'', mi_kmsg = counts_line ''IDA'' 3 3, mi_result = ''done'',
      mi_loaded = False, mi_crashed = False, mi_timed_out = False\<rparr> in
    runtime_judge (Some (map (\<lambda>i. Result (io_status (runtime_collect i))) [i])) (Some ()) = Inr (Some ())
    \<and> proves_run (module_entry (mi_module i)) (mi_kmsg i))"
proof -
  let ?i = "\<lparr>mi_module = ''test_ida'', mi_kmsg = counts_line ''IDA'' 3 3, mi_result = ''done'',
      mi_loaded = False, mi_crashed = False, mi_timed_out = False\<rparr>"
  have e: "evidence (module_entry ''test_ida'') (counts_line ''IDA'' 3 3) = ((3, 3), False, [])"
    using counts_read [of "''IDA''" 3 3]
    by (simp add: evidence_def module_entry_def MODULES_def summary_entry_def defaults_def)
  have "io_status (runtime_collect ?i) = Passed"
    using e by (simp add: runtime_collect_def plumbing_reasons_def log_reasons_def module_entry_def MODULES_def
        summary_entry_def defaults_def)
  then have judge: "runtime_judge (Some (map (\<lambda>i. Result (io_status (runtime_collect i))) [?i])) (Some ()) = Inr (Some ())"
    by (simp add: runtime_judge_ok)
  from runtime_green_run [OF judge] judge show ?thesis by (simp add: Let_def)
qed

end
