(* ===== verification/Usertests.thy ===== *)
theory Usertests
  imports RuntimeTests
begin

text \<open>
  The usertests suite (\<open>f/usertests\<close>): harness binaries the kernel tree builds for userspace. The catalogue
  with each harness's convention, its arguments, the verdict of one harness from its exit and its output, the
  run verdict, and the steps that lay the tree and the environment files on the share.

  What fails an item are values, without their messages.
\<close>

section \<open>The catalogue\<close>

record harness_entry =
  h_label :: string
  h_summary_re :: "re option"
  h_sentinel_re :: "re option"
  h_silent_ok :: bool
  h_count_lines :: bool
  h_fail_line_re :: "re option"
  h_expected_assert_re :: "re option"
  h_args :: string

definition harness_defaults :: "string \<Rightarrow> harness_entry" where
  "harness_defaults label =
     \<lparr>h_label = label, h_summary_re = None, h_sentinel_re = None, h_silent_ok = False, h_count_lines = False,
      h_fail_line_re = None, h_expected_assert_re = None, h_args = []\<rparr>"

definition idr_assert_re :: re where
  "idr_assert_re = RSeqs [RLit ''assertion failed at '', RStar RDot, RLit ''idr.c:'', digits1]"

definition HARNESSES :: "(string, harness_entry) dict" where
  "HARNESSES =
     [(''vma/vma'', (harness_defaults ''VMA userland tests (vma/vma)'')
         \<lparr>h_summary_re := Some (RSeqs [RGrp ''run'' digits1, RLit '' tests run, '', RGrp ''passed'' digits1,
            RLit '' passed, '', RGrp ''failed'' digits1, RLit '' failed.''])\<rparr>),
      (''radix-tree/xarray'', (harness_defaults ''XArray (radix-tree/xarray)'')
         \<lparr>h_summary_re := Some (of_passed_re ''XArray'')\<rparr>),
      (''radix-tree/maple'', (harness_defaults ''Maple tree (radix-tree/maple)'')
         \<lparr>h_summary_re := Some (of_passed_re ''maple_tree'')\<rparr>),
      (''radix-tree/idr-test'', (harness_defaults ''IDR + IDA (radix-tree/idr-test)'')
         \<lparr>h_summary_re := Some (of_passed_re ''IDA''), h_expected_assert_re := Some idr_assert_re\<rparr>),
      (''radix-tree/multiorder'', (harness_defaults ''Multi-order radix tree (radix-tree/multiorder)'')
         \<lparr>h_silent_ok := True\<rparr>),
      (''radix-tree/main'', (harness_defaults ''Radix tree omnibus (radix-tree/main)'')
         \<lparr>h_sentinel_re := Some (RSeqs [RMBol, RLit ''tests completed'', RMEol]),
          h_expected_assert_re := Some idr_assert_re\<rparr>),
      (''memblock/main'', (harness_defaults ''Memblock simulator (memblock/main)'')
         \<lparr>h_sentinel_re := Some (RSeqs [RLit '': passed'', REol]), h_fail_line_re := Some (RSeqs [RLit '': failed'', REol]),
          h_count_lines := True, h_args := ''--verbose''\<rparr>),
      (''scatterlist/main'', (harness_defaults ''Scatterlist chaining (scatterlist/main)'')\<lparr>h_silent_ok := True\<rparr>)]"

definition harness_entry :: "string \<Rightarrow> harness_entry" where
  "harness_entry item =
     (case dict_get HARNESSES item of None \<Rightarrow> (harness_defaults item)\<lparr>h_silent_ok := True\<rparr> | Some e \<Rightarrow> e)"

definition item_args :: "string \<Rightarrow> int \<Rightarrow> bool \<Rightarrow> string" where
  "item_args item seed long_run =
     (if item = ''radix-tree/main''
      then join '' '' ((if seed > 0 then [''-s'', show_int seed] else []) @ (if long_run then [''-l''] else []))
      else h_args (harness_entry item))"

section \<open>The verdict of one harness\<close>

definition SANITIZER_MARKERS :: "string list" where
  "SANITIZER_MARKERS = [''ERROR: AddressSanitizer'', ''ERROR: LeakSanitizer'', ''runtime error:'']"

definition ASSERT_MARKER :: string where "ASSERT_MARKER = ''assertion failed at''"

definition NOISE_OPEN :: string where
  \<open>NOISE_OPEN = ''vvv Ignore "not allocated" warnings''\<close>

definition NOISE_CLOSE :: string where
  \<open>NOISE_CLOSE = ''^^^ "not allocated" warnings over''\<close>

fun strip_noise :: "bool \<Rightarrow> string list \<Rightarrow> string list" where
  "strip_noise in_block [] = []"
| "strip_noise in_block (l # ls) =
     (if contains NOISE_OPEN l then strip_noise True ls
      else if contains NOISE_CLOSE l then strip_noise False ls
      else if \<not> in_block then l # strip_noise in_block ls
      else strip_noise in_block ls)"

definition VMA_FAILED_RE :: re where
  "VMA_FAILED_RE = RSeqs [RLit ''Test '', RPlus (RCls is_word), RLit '' FAILED'']"

definition SEED_RE :: re where
  "SEED_RE = RSeqs [RLit ''random seed '', RGrp ''1'' digits1]"

datatype finding =
    PlumbingDown
  | PlumbingTimeout
  | PlumbingJob string
  | PlumbingExit string
  | Sanitizer string
  | Assertion nat string
  | VmaTest string
  | SummaryMissing
  | SummaryFailed nat
  | SummaryZero
  | SummaryCounts nat nat
  | VerboseFailed nat
  | VerboseMissing
  | SentinelMissing

record harness_in =
  hi_item :: string
  hi_output :: string
  hi_result :: string
  hi_exec_status :: string
  hi_crashed :: bool
  hi_timed_out :: bool

record harness_out =
  ho_item :: string
  ho_status :: item_status
  ho_seed :: "nat option"
  ho_tests :: nat
  ho_passed :: nat
  ho_failed :: int
  ho_findings :: "finding list"
  ho_tail :: "string list"

definition plumbing_findings :: "harness_in \<Rightarrow> finding list" where
  "plumbing_findings i =
     (if hi_crashed i then [PlumbingDown] else []) @ (if hi_timed_out i then [PlumbingTimeout] else [])
     @ (if hi_result i \<noteq> ''done'' then [PlumbingJob (hi_result i)]
        else if hi_exec_status i \<notin> {[], ''0''} then [PlumbingExit (hi_exec_status i)] else [])"

text \<open>The lines the scans look at: without the noise blocks, and without the assertions a harness may print.\<close>

definition scanned_lines :: "harness_entry \<Rightarrow> string list \<Rightarrow> string list" where
  "scanned_lines e lines =
     (case h_expected_assert_re e of
        None \<Rightarrow> strip_noise False lines
      | Some r \<Rightarrow> filter (\<lambda>l. re_search r l = None) (strip_noise False lines))"

definition scan_findings :: "string \<Rightarrow> string list \<Rightarrow> string list \<Rightarrow> finding list" where
  "scan_findings item lines scanned =
     concat (map (\<lambda>m. case filter (contains m) scanned of [] \<Rightarrow> [] | l # _ \<Rightarrow> [Sanitizer (strip l)]) SANITIZER_MARKERS)
     @ (case filter (contains ASSERT_MARKER) scanned of
          [] \<Rightarrow> [] | l # ls \<Rightarrow> [Assertion (length (l # ls)) (strip l)])
     @ (if item = ''vma/vma''
        then map (\<lambda>l. VmaTest (strip l)) (filter (\<lambda>l. re_search VMA_FAILED_RE l \<noteq> None) lines) else [])"

text \<open>
  The evidence: tests, passed and failed, and what it fails on. The two shapes of a summary are told apart by
  whether the pattern has a group \<open>failed\<close>; a summary pattern has all its groups in every match.
\<close>

definition summary_evidence :: "re \<Rightarrow> string \<Rightarrow> nat \<times> nat \<times> int \<times> finding list" where
  "summary_evidence r printed =
     (case rev (re_findall r printed) of
        [] \<Rightarrow> (0, 0, 0, [SummaryMissing])
      | m # _ \<Rightarrow>
          (case grp m ''failed'' of
             Some f \<Rightarrow>
               (let t = read_nat (grp0 m ''run''); p = read_nat (grp0 m ''passed''); n = read_nat f in
                (t, p, int n, (if n \<noteq> 0 then [SummaryFailed n] else []) @ (if t = 0 then [SummaryZero] else [])))
           | None \<Rightarrow>
               (let p = read_nat (grp0 m ''passed''); t = read_nat (grp0 m ''total'') in
                (t, p, int t - int p,
                 if t = 0 then [SummaryZero] else if p \<noteq> t then [SummaryCounts p t] else []))))"

definition count_evidence :: "re \<Rightarrow> re \<Rightarrow> string list \<Rightarrow> nat \<times> nat \<times> int \<times> finding list" where
  "count_evidence pass_re fail_re lines =
     (let p = length (filter (\<lambda>l. re_search pass_re l \<noteq> None) lines);
          n = length (filter (\<lambda>l. re_search fail_re l \<noteq> None) lines) in
      (p + n, p, int n, (if n \<noteq> 0 then [VerboseFailed n] else []) @ (if p < 1 then [VerboseMissing] else [])))"

definition harness_evidence :: "harness_entry \<Rightarrow> string \<Rightarrow> nat \<times> nat \<times> int \<times> finding list" where
  "harness_evidence e printed =
     (case h_summary_re e of
        Some r \<Rightarrow> summary_evidence r printed
      | None \<Rightarrow>
          (case (h_count_lines e, h_sentinel_re e, h_fail_line_re e) of
             (True, Some pass_re, Some fail_re) \<Rightarrow> count_evidence pass_re fail_re (splitlines printed)
           | (_, Some r, _) \<Rightarrow> (0, 0, 0, if re_search r printed = None then [SentinelMissing] else [])
           | _ \<Rightarrow> (0, 0, 0, [])))"

definition last_seed :: "string \<Rightarrow> nat option" where
  "last_seed printed =
     (case rev (re_findall SEED_RE printed) of [] \<Rightarrow> None | m # _ \<Rightarrow> Some (read_nat (grp0 m ''1'')))"

definition usertests_collect :: "harness_in \<Rightarrow> harness_out" where
  "usertests_collect i =
     (let e = harness_entry (hi_item i); lines = splitlines (hi_output i) in
      case harness_evidence e (hi_output i) of (t, p, n, ev) \<Rightarrow>
        (let findings = plumbing_findings i @ scan_findings (hi_item i) lines (scanned_lines e lines) @ ev in
         \<lparr>ho_item = hi_item i, ho_status = (if findings \<noteq> [] then Failed else Passed),
          ho_seed = last_seed (hi_output i), ho_tests = t, ho_passed = p, ho_failed = n,
          ho_findings = findings, ho_tail = last_lines TAIL_LINES lines\<rparr>))"

definition usertests_run_status :: "collected list \<Rightarrow> item_status" where
  "usertests_run_status per_item =
     (if per_item \<noteq> [] \<and> list_all item_passed per_item then Passed else Failed)"

interpretation usertests: verdict usertests_run_status item_passed
  by unfold_locales (auto simp: usertests_run_status_def list_all_iff)

definition usertests_judge :: "collected list option \<Rightarrow> 'r option \<Rightarrow> 'r option result" where
  "usertests_judge per_item rep =
     (let items = (case per_item of None \<Rightarrow> [] | Some xs \<Rightarrow> xs) in
      if usertests_run_status items \<noteq> Passed then Inl RuntimeError else Inr rep)"

lemma usertests_judge_ok:
  "usertests_judge (Some xs) r = Inr r' \<longleftrightarrow> xs \<noteq> [] \<and> (\<forall>x \<in> set xs. x = Result Passed) \<and> r' = r"
  using usertests.passed_iff [of xs] by (auto simp: usertests_judge_def item_passed_iff)

section \<open>The steps\<close>

text \<open>\<open>_same_tree\<close>: the two manifests are there and equal.\<close>

definition same_tree :: "path \<Rightarrow> path \<Rightarrow> bool prog" where
  "same_tree src dest =
     bind (probe (IsFile (dest @ [''MANIFEST'']))) (\<lambda>d.
     bind (if d then probe (IsFile (src @ [''MANIFEST''])) else Ret False) (\<lambda>s.
     if \<not> s then Ret False
     else bind (read_text (src @ [''MANIFEST''])) (\<lambda>a.
          bind (read_text (dest @ [''MANIFEST''])) (\<lambda>b. Ret (a = b)))))"

definition tree_dir :: "path \<Rightarrow> string \<Rightarrow> path" where
  "tree_dir share kernel_version = path_join (path_join share kernel_version) ''tree''"

definition usertests_prepare :: "environ \<Rightarrow> string \<Rightarrow> string \<Rightarrow> string \<Rightarrow> (path \<times> bool) prog" where
  "usertests_prepare env vm_name kernel_version store =
     bind (of_result (workers_env env)) (\<lambda>w.
     bind (of_result (usertests_share_dir w vm_name)) (\<lambda>share.
       let src = parts store; dest = tree_dir share kernel_version in
     bind (same_tree src dest) (\<lambda>same.
     if same then Ret (dest, True)
     else bind (probe (Exists dest)) (\<lambda>there.
          bind (only_if there (act (Rmtree dest))) (\<lambda>_.
          bind (act (Mkdir dest)) (\<lambda>_.
          bind (of_result (vendor_dir env (Some w))) (\<lambda>_.
          bind (of_result (ccache_dir env)) (\<lambda>_.
          bind (dev_run ''build-kernel'' [''cp'', ''--archive'', path_str src @ ''/.'', path_str dest]) (\<lambda>_.
          bind (dev_run ''build-kernel'' [''chmod'', ''--recursive'', ''u+w'', path_str dest]) (\<lambda>_.
          Ret (dest, False)))))))))))"

definition usertests_render :: "environ \<Rightarrow> string \<Rightarrow> string \<Rightarrow> string list \<Rightarrow> int \<Rightarrow> bool \<Rightarrow> (string, string) dict prog" where
  "usertests_render env vm_name kernel_version harnesses seed long_run =
     bind (of_result (workers_env env)) (\<lambda>w.
     bind (of_result (usertests_share_dir w vm_name)) (\<lambda>share.
       let env_root = path_join (path_join share kernel_version) ''env'' in
     bind (for_each harnesses (\<lambda>item.
             atomic_write (path_join env_root (item @ ''.env'')) (''ARGS='' @ item_args item seed long_run @ nl))) (\<lambda>_.
     Ret (fold (\<lambda>item. dict_set item (item_args item seed long_run)) harnesses []))))"

definition list_harnesses :: "json option \<Rightarrow> string \<Rightarrow> (string \<times> string) list" where
  "list_harnesses data filterText =
     (let names = (if cached_items data = [] then keys HARNESSES else cached_items data) in
      pick (map (\<lambda>h. (h, h_label (harness_entry h)))
        (filter (\<lambda>h. h \<in> set names) (keys HARNESSES) @ filter (\<lambda>h. h \<notin> set (keys HARNESSES)) names)) filterText)"

section \<open>The noise blocks\<close>

text \<open>
  The declarative reading: a line is looked at if it is no marker and the last marker before it, if there is
  one, closes a block.
\<close>

definition is_marker :: "string \<Rightarrow> bool" where
  "is_marker l = (contains NOISE_OPEN l \<or> contains NOISE_CLOSE l)"

definition noise_state :: "bool \<Rightarrow> string list \<Rightarrow> bool" where
  "noise_state b before = (case filter is_marker (rev before) of [] \<Rightarrow> b | m # _ \<Rightarrow> contains NOISE_OPEN m)"

definition in_noise :: "string list \<Rightarrow> bool" where
  "in_noise before = noise_state False before"

definition outside_noise :: "string list \<Rightarrow> string list" where
  "outside_noise ls =
     map (\<lambda>i. ls ! i) (filter (\<lambda>i. \<not> is_marker (ls ! i) \<and> \<not> in_noise (take i ls)) [0..<length ls])"

lemma noise_state_Cons:
  "noise_state b (x # ls) = noise_state (if is_marker x then contains NOISE_OPEN x else b) ls"
  by (cases "filter is_marker (rev ls)") (simp_all add: noise_state_def)

lemma strip_noise_Cons:
  "strip_noise b (x # ls) =
    (if is_marker x \<or> b then [] else [x]) @ strip_noise (if is_marker x then contains NOISE_OPEN x else b) ls"
  by (simp add: is_marker_def)

lemma strip_noise_snoc:
  "strip_noise b (ls @ [l]) = strip_noise b ls @ (if is_marker l \<or> noise_state b ls then [] else [l])"
proof (induction ls arbitrary: b)
  case Nil
  have "noise_state b [] = b" by (simp add: noise_state_def)
  then show ?case by (simp only: append_Nil strip_noise_Cons strip_noise.simps(1) append_Nil2)
next
  case (Cons x ls)
  then show ?case by (simp only: append_Cons strip_noise_Cons noise_state_Cons append_assoc)
qed

text \<open>
  What the sanitizer and assertion scans look at is exactly the lines outside the expected-noise blocks, a
  block running from an opening marker to the next closing one.
\<close>

theorem strip_noise_exact: "strip_noise False ls = outside_noise ls"
proof (induction ls rule: rev_induct)
  case Nil
  then show ?case by (simp add: outside_noise_def)
next
  case (snoc l ls)
  have "map (\<lambda>i. (ls @ [l]) ! i) (filter (\<lambda>i. \<not> is_marker ((ls @ [l]) ! i) \<and> \<not> in_noise (take i (ls @ [l]))) [0..<length ls])
      = outside_noise ls"
    unfolding outside_noise_def
    by (intro map_cong filter_cong) (auto simp: nth_append)
  then have "outside_noise (ls @ [l]) = outside_noise ls @ (if \<not> is_marker l \<and> \<not> in_noise ls then [l] else [])"
    by (simp add: outside_noise_def [of "ls @ [l]"] nth_append)
  then show ?case using snoc by (auto simp: strip_noise_snoc in_noise_def)
qed

text \<open>A block that is never closed hides what follows, of any harness and whatever it says.\<close>

theorem unclosed_noise_hides:
  assumes "contains NOISE_OPEN l" "\<not> list_ex (contains NOISE_CLOSE) after"
  shows "strip_noise b (before @ l # after) = strip_noise b before"
proof -
  have "\<not> list_ex (contains NOISE_CLOSE) ls \<Longrightarrow> strip_noise True ls = []" for ls by (induction ls) auto
  then have "strip_noise c (l # after) = []" for c using assms by simp
  moreover have "strip_noise c [] = []" for c by simp
  ultimately show ?thesis by (induction before arbitrary: b) auto
qed

theorem unclosed_noise_hides_witness:
  "strip_noise True ([''a''] @ NOISE_OPEN # [''ERROR: AddressSanitizer'']) = strip_noise True [''a'']"
proof (rule unclosed_noise_hides)
  show "contains NOISE_OPEN NOISE_OPEN" by code_simp
  show "\<not> list_ex (contains NOISE_CLOSE) [''ERROR: AddressSanitizer'']" by code_simp
qed

section \<open>What a verdict means\<close>

definition allowed_assert :: "harness_entry \<Rightarrow> string \<Rightarrow> bool" where
  "allowed_assert e l = (case h_expected_assert_re e of None \<Rightarrow> False | Some r \<Rightarrow> re_search r l \<noteq> None)"

definition clean_line :: "harness_entry \<Rightarrow> string \<Rightarrow> bool" where
  "clean_line e l =
     (allowed_assert e l \<or> list_all (\<lambda>m. \<not> contains m l) SANITIZER_MARKERS \<and> \<not> contains ASSERT_MARKER l)"

text \<open>The proof of a run each convention asks for; a silent harness proves it by its exit.\<close>

definition harness_proven :: "harness_entry \<Rightarrow> string \<Rightarrow> bool" where
  "harness_proven e printed =
     (case h_summary_re e of
        Some r \<Rightarrow> (\<exists>m ms. rev (re_findall r printed) = m # ms \<and>
          (case grp m ''failed'' of
             Some f \<Rightarrow> read_nat f = 0 \<and> 0 < read_nat (grp0 m ''run'')
           | None \<Rightarrow> 0 < read_nat (grp0 m ''total'') \<and> read_nat (grp0 m ''passed'') = read_nat (grp0 m ''total'')))
      | None \<Rightarrow>
          (case (h_count_lines e, h_sentinel_re e, h_fail_line_re e) of
             (True, Some pass_re, Some fail_re) \<Rightarrow>
               list_ex (\<lambda>l. re_search pass_re l \<noteq> None) (splitlines printed)
               \<and> list_all (\<lambda>l. re_search fail_re l = None) (splitlines printed)
           | (_, Some r, _) \<Rightarrow> re_search r printed \<noteq> None
           | _ \<Rightarrow> True))"

lemma filter_first_Nil:
  "(case filter q xs of [] \<Rightarrow> [] | l # ls \<Rightarrow> [f l ls]) = [] \<longleftrightarrow> list_all (\<lambda>x. \<not> q x) xs"
  for q :: "string \<Rightarrow> bool" and f :: "string \<Rightarrow> string list \<Rightarrow> finding"
  by (induction xs) auto

lemma count_proven:
  "count_evidence pass_re fail_re lines = (t, p, n, []) \<Longrightarrow>
    list_ex (\<lambda>l. re_search pass_re l \<noteq> None) lines \<and> list_all (\<lambda>l. re_search fail_re l = None) lines"
proof -
  assume ev: "count_evidence pass_re fail_re lines = (t, p, n, [])"
  define good bad where "good = filter (\<lambda>l. re_search pass_re l \<noteq> None) lines"
    and "bad = filter (\<lambda>l. re_search fail_re l \<noteq> None) lines"
  have "(if length bad \<noteq> 0 then [VerboseFailed (length bad)] else []) @ (if length good < 1 then [VerboseMissing] else []) = []"
    using ev unfolding count_evidence_def Let_def good_def [symmetric] bad_def [symmetric] by blast
  then have "bad = []" "good \<noteq> []" by (auto split: if_splits)
  then obtain g where "g \<in> set good" by (cases good) auto
  then have "list_ex (\<lambda>l. re_search pass_re l \<noteq> None) lines"
    unfolding good_def set_filter list_ex_iff by blast
  moreover have "list_all (\<lambda>l. re_search fail_re l = None) lines"
    using \<open>bad = []\<close> unfolding bad_def filter_empty_conv list_all_iff by blast
  ultimately show ?thesis ..
qed

lemma evidence_proven: "harness_evidence e printed = (t, p, n, []) \<Longrightarrow> harness_proven e printed"
proof -
  assume ev: "harness_evidence e printed = (t, p, n, [])"
  show ?thesis
  proof (cases "h_summary_re e")
    case (Some r)
    then show ?thesis
      using ev by (auto simp: harness_evidence_def summary_evidence_def harness_proven_def Let_def split: list.splits option.splits if_splits)
  next
    case None
    then show ?thesis
      using ev count_proven
      by (cases "h_count_lines e"; cases "h_sentinel_re e"; cases "h_fail_line_re e")
         (simp_all add: harness_evidence_def harness_proven_def split: if_splits)
  qed
qed

lemma scanned_clean:
  assumes "scan_findings item lines (scanned_lines e lines) = []"
  shows "list_all (clean_line e) (strip_noise False lines)"
proof -
  have m: "list_all (\<lambda>l. \<not> contains m l) (scanned_lines e lines)" if "m \<in> set SANITIZER_MARKERS" for m
    using assms that filter_first_Nil [where q = "contains m" and xs = "scanned_lines e lines" and f = "\<lambda>l _. Sanitizer (strip l)"]
    by (simp add: scan_findings_def)
  have a: "list_all (\<lambda>l. \<not> contains ASSERT_MARKER l) (scanned_lines e lines)"
    using assms filter_first_Nil [where q = "contains ASSERT_MARKER" and xs = "scanned_lines e lines"
        and f = "\<lambda>l ls. Assertion (length (l # ls)) (strip l)"]
    by (simp add: scan_findings_def)
  have "l \<in> set (scanned_lines e lines)" if "l \<in> set (strip_noise False lines)" "\<not> allowed_assert e l" for l
    using that by (auto simp: scanned_lines_def allowed_assert_def split: option.splits)
  with m a show ?thesis by (auto simp: list_all_iff clean_line_def)
qed

lemma harness_passed:
  assumes "ho_status (usertests_collect i) = Passed"
  shows "hi_result i = ''done'' \<and> hi_exec_status i \<in> {[], ''0''} \<and> \<not> hi_crashed i \<and> \<not> hi_timed_out i
    \<and> list_all (clean_line (harness_entry (hi_item i))) (outside_noise (splitlines (hi_output i)))
    \<and> harness_proven (harness_entry (hi_item i)) (hi_output i)"
proof -
  let ?e = "harness_entry (hi_item i)"
  obtain t p n ev where h: "harness_evidence ?e (hi_output i) = (t, p, n, ev)" by (metis prod_cases4)
  with assms have nil: "plumbing_findings i = []" "ev = []"
      "scan_findings (hi_item i) (splitlines (hi_output i)) (scanned_lines ?e (splitlines (hi_output i))) = []"
    by (auto simp: usertests_collect_def Let_def split: if_splits)
  show ?thesis
    using nil(1) scanned_clean [OF nil(3)] evidence_proven [of ?e "hi_output i" t p n] h nil(2)
    by (auto simp: plumbing_findings_def strip_noise_exact split: if_splits)
qed

text \<open>A harness of the catalogue either names what proves its run, or is known to be silent.\<close>

lemma harness_convention:
  "dict_get HARNESSES h \<noteq> None \<Longrightarrow>
    h_summary_re (harness_entry h) \<noteq> None \<or> h_sentinel_re (harness_entry h) \<noteq> None \<or> h_silent_ok (harness_entry h)"
proof -
  assume "dict_get HARNESSES h \<noteq> None"
  then obtain e where e: "dict_get HARNESSES h = Some e" by blast
  have "list_all (\<lambda>(h, e). h_summary_re e \<noteq> None \<or> h_sentinel_re e \<noteq> None \<or> h_silent_ok e) HARNESSES"
    by (simp add: HARNESSES_def harness_defaults_def)
  then have "h_summary_re e \<noteq> None \<or> h_sentinel_re e \<noteq> None \<or> h_silent_ok e"
    using map_of_SomeD [OF e] by (auto simp: list_all_iff)
  with e show ?thesis by (simp add: harness_entry_def)
qed

text \<open>
  A green usertests run, end to end. When the judge lets the harnesses of a run through, there was one, and
  every harness's job was done on a live guest in time with exit status 0, no line outside the expected-noise
  blocks carries a sanitizer report or an assertion its convention does not allow, and its output proves the run
  the way its convention says; a harness of the catalogue without such a convention is one known to be silent.
\<close>

theorem usertests_green_run:
  assumes "usertests_judge (Some (map (\<lambda>i. Result (ho_status (usertests_collect i))) items)) rep = Inr rep'"
  shows "items \<noteq> [] \<and> rep' = rep \<and> list_all (\<lambda>i. let e = harness_entry (hi_item i) in
      hi_result i = ''done'' \<and> hi_exec_status i \<in> {[], ''0''} \<and> \<not> hi_crashed i \<and> \<not> hi_timed_out i
      \<and> list_all (clean_line e) (outside_noise (splitlines (hi_output i)))
      \<and> harness_proven e (hi_output i)
      \<and> (dict_get HARNESSES (hi_item i) = None \<or> h_summary_re e \<noteq> None \<or> h_sentinel_re e \<noteq> None \<or> h_silent_ok e)) items"
proof -
  have judged: "items \<noteq> []" "rep' = rep" "\<forall>i \<in> set items. ho_status (usertests_collect i) = Passed"
    using assms by (auto simp: usertests_judge_ok)
  have "(dict_get HARNESSES h = None \<or> h_summary_re (harness_entry h) \<noteq> None \<or> h_sentinel_re (harness_entry h) \<noteq> None
      \<or> h_silent_ok (harness_entry h))" for h
    using harness_convention [of h] by argo
  with judged show ?thesis by (simp add: list_all_iff Let_def harness_passed [unfolded list_all_iff] del: not_None_eq insert_iff)
qed

theorem usertests_green_run_witness:
  "(let i = \<lparr>hi_item = ''radix-tree/xarray'', hi_output = counts_line ''XArray'' 3 3, hi_result = ''done'',
      hi_exec_status = ''0'', hi_crashed = False, hi_timed_out = False\<rparr> in
    usertests_judge (Some (map (\<lambda>i. Result (ho_status (usertests_collect i))) [i])) (Some ()) = Inr (Some ())
    \<and> harness_proven (harness_entry (hi_item i)) (hi_output i))"
proof -
  let ?i = "\<lparr>hi_item = ''radix-tree/xarray'', hi_output = counts_line ''XArray'' 3 3, hi_result = ''done'',
      hi_exec_status = ''0'', hi_crashed = False, hi_timed_out = False\<rparr>"
  have "ho_findings (usertests_collect ?i) = []" by code_simp
  then have "ho_status (usertests_collect ?i) = Passed" by (simp add: usertests_collect_def Let_def split: prod.splits if_splits)
  then have judge: "usertests_judge (Some (map (\<lambda>i. Result (ho_status (usertests_collect i))) [?i])) (Some ()) = Inr (Some ())"
    by (simp add: usertests_judge_ok)
  from usertests_green_run [OF judge] judge show ?thesis by (simp add: Let_def)
qed

end
