(* ===== verification/Suites.thy ===== *)
theory Suites
  imports Blktests Usertests
begin

text \<open>
  What the steps of all six suites have in common, over the models of \<open>Steps\<close>, \<open>Blktests\<close>,
  \<open>RuntimeTests\<close> and \<open>Usertests\<close>: a stop step cannot fail, a discovery only looks, and a unit is started
  behind the journal cursor its verdict is read from. The last section is the power cycle of
  \<open>f/fstests/reboot.py\<close>.
\<close>

section \<open>Commands that reach the guest\<close>

text \<open>What the guest's shell is asked to run, of a command that is an \<open>ssh\<close> to it.\<close>

definition guest_args :: "cmd \<Rightarrow> string list option" where
  "guest_args c =
     (case c of
        Dev shell argv \<Rightarrow> (if shell = ''systemd'' \<and> argv \<noteq> [] \<and> hd argv = ''ssh'' then sh_words (last argv) else None)
      | _ \<Rightarrow> None)"

lemma guest_args_ssh [simp]: "guest_args (Dev ''systemd'' (ssh_argv r args)) = Some args"
  by (simp add: guest_args_def ssh_argv_def sh_words_join)

lemma issues_ssh [simp]:
  "issues C (ssh_text r args) = C (Dev ''systemd'' (ssh_argv r args))"
  "issues C (ssh_checked r args) = C (Dev ''systemd'' (ssh_argv r args))"
  "issues C (ssh_status r args) = C (Dev ''systemd'' (ssh_argv r args))"
  "issues C (ssh_run r args) = C (Dev ''systemd'' (ssh_argv r args))"
  by (simp_all add: ssh_text_def ssh_checked_def ssh_status_def ssh_run_def)

text \<open>The commands that only look: at the host's files, and at the guest.\<close>

definition reads_guest :: "string list \<Rightarrow> bool" where
  "reads_guest args =
     (case args of
        [] \<Rightarrow> False
      | p # rest \<Rightarrow>
          p \<in> set [''cat'', ''ls'', ''lsblk'', ''test'']
          \<or> p = ''systemctl'' \<and> rest \<noteq> [] \<and> hd rest \<in> set [''is-system-running'', ''list-unit-files'', ''list-units'', ''show'']
          \<or> p = ''sh'' \<and> length rest = 2 \<and> hd rest = ''-c'' \<and> prefix ''ls '' (last rest))"

definition looks :: "cmd \<Rightarrow> bool" where
  "looks c =
     (case c of
        Exists p \<Rightarrow> True | IsDir p \<Rightarrow> True | IsFile p \<Rightarrow> True | IsSymlink p \<Rightarrow> True | ListDir p \<Rightarrow> True
      | ReadText p \<Rightarrow> True | RealPath p \<Rightarrow> True
      | Dev shell argv \<Rightarrow>
          (case guest_args c of
             None \<Rightarrow> shell = ''systemd'' \<and> argv = [''sh'', ''-c'', ''command -v systemctl'']
           | Some args \<Rightarrow> reads_guest args)
      | _ \<Rightarrow> False)"

lemma looks_simps [simp]:
  "looks (Exists p)" "looks (IsDir p)" "looks (IsFile p)" "looks (IsSymlink p)" "looks (ListDir p)"
  "looks (ReadText p)" "looks (RealPath p)"
  "looks (Dev ''systemd'' [''sh'', ''-c'', ''command -v systemctl''])"
  "looks (Dev ''systemd'' (ssh_argv r args)) = reads_guest args"
  by (simp_all add: looks_def guest_args_def) (simp add: ssh_argv_def sh_words_join)

lemma reads_guest_simps [simp]:
  "reads_guest (''cat'' # as)" "reads_guest (''ls'' # as)" "reads_guest (''lsblk'' # as)" "reads_guest (''test'' # as)"
  "reads_guest (''systemctl'' # ''is-system-running'' # as)" "reads_guest (''systemctl'' # ''list-unit-files'' # as)"
  "reads_guest (''systemctl'' # ''list-units'' # as)" "reads_guest (''systemctl'' # ''show'' # as)"
  "reads_guest [''sh'', ''-c'', s] = prefix ''ls '' s"
  by (simp_all add: reads_guest_def)

text \<open>Reaching a guest only looks; so do the queries.\<close>

lemma issues_read_text [simp]: "issues C (read_text p) = C (ReadText p)"
  by (auto simp: read_text_def)

named_theorems looking \<open>programs that only look\<close>

lemma resolve_looks [looking]: "issues looks (resolve_cid env vm)" "issues looks resolve_proxy"
  unfolding resolve_cid_def resolve_proxy_def Let_def by (auto intro!: sound_intros)

lemma connect_looks [looking]: "issues looks (connect env w vm cid)"
  unfolding connect_def Let_def
  by (intro sound_intros looking) (auto intro!: sound_intros looking split: option.split)

lemma queries_look [looking]:
  "issues looks (is_system_running r)" "issues looks (unit_exists r t)" "issues looks (show_unit r u ps)"
  "issues looks (kernel_release r)" "issues looks (guest_disks r)" "issues looks (fstyp_supported r)"
  "issues looks (guest_suites r)" "issues looks (runnable_suites r)" "issues looks (store_path env n)"
  "issues looks (read_version p)"
  unfolding is_system_running_def unit_exists_def show_unit_def kernel_release_def guest_disks_def
    fstyp_supported_def guest_suites_def runnable_suites_def store_path_def read_version_def
  by (auto intro!: sound_intros split: sum.split)

lemma gate_looks [looking]: "issues looks (gate r)"
  unfolding gate_def by (intro sound_intros looking)

section \<open>Stopping\<close>

text \<open>What a stop step may ask of the guest, beside looking.\<close>

definition stops_guest :: "cmd \<Rightarrow> bool" where
  "stops_guest c =
     (case guest_args c of
        Some [p, verb, u] \<Rightarrow> p = ''systemctl'' \<and> verb \<in> set [''stop'', ''reset-failed'']
      | Some [p, a, b, m] \<Rightarrow> p = ''modprobe'' \<and> a = ''--remove'' \<and> b = ''--quiet''
      | _ \<Rightarrow> False)"

abbreviation only_stops :: "cmd \<Rightarrow> bool" where
  "only_stops c \<equiv> looks c \<or> stops_guest c"

definition cannot_fail :: "stop_out prog \<Rightarrow> bool" where
  "cannot_fail p = (never_raises p \<and> issues only_stops p)"

lemma stops_guest_simps [simp]:
  "stops_guest (Dev ''systemd'' (ssh_argv r [''systemctl'', ''stop'', u]))"
  "stops_guest (Dev ''systemd'' (ssh_argv r [''systemctl'', ''reset-failed'', u]))"
  "stops_guest (Dev ''systemd'' (ssh_argv r [''modprobe'', ''--remove'', ''--quiet'', m]))"
  by (simp_all add: stops_guest_def)

lemma stop_unit_safe: "never_raises (stop_unit r u)" "issues only_stops (stop_unit r u)"
  unfolding stop_unit_def by (auto simp: ssh_status_def nop_def intro!: sound_intros never_raises_bind)

lemma stop_units_safe: "never_raises (stop_units r us)" "issues only_stops (stop_units r us)"
  unfolding stop_units_def by (auto intro!: sound_intros never_raises_bind never_raises_for_each stop_unit_safe)

lemma unload_safe: "never_raises (unload r m)" "issues only_stops (unload r m)"
  unfolding unload_def by (auto simp: ssh_text_def nop_def intro!: sound_intros never_raises_bind)

lemma stop_modules_safe: "never_raises (stop_modules r ms) \<and> issues only_stops (stop_modules r ms)"
proof (induction ms)
  case (Cons m ms)
  then show ?case
    by (auto intro!: sound_intros never_raises_bind stop_unit_safe unload_safe split: sum.split)
qed simp

lemma connect_only_stops: "issues only_stops (connect env w vm cid)"
  by (rule sound_weaken [OF connect_looks]) auto

lemma stop_main_safe:
  assumes "workers_env env = Inr w" and "\<And>r. never_raises (f r)" and "\<And>r. issues only_stops (f r)"
  shows "cannot_fail (stop_main env vm items f)"
proof -
  have "never_raises (stop_main env vm items f)"
    unfolding stop_main_def Let_def assms(1) of_result_def
    by (auto intro!: never_raises_bind assms(2) split: sum.split)
  moreover have "issues only_stops (stop_main env vm items f)"
    unfolding stop_main_def Let_def
    by (auto intro!: sound_intros assms(3) connect_only_stops split: sum.split)
  ultimately show ?thesis by (simp add: cannot_fail_def)
qed

text \<open>
  C5: The failure handler never itself fails. With \<open>WORKERS_DIR\<close> set, whatever the guest and the host
  answer and whatever items it is given, the stop step of each of the six suites returns, also when the guest
  cannot be reached, and all it does beside looking is to stop units, reset their failed state and, for the
  runtime tests, remove modules.
\<close>

theorem stop_never_fails:
  assumes "workers_env env = Inr w"
  shows "list_all (\<lambda>stop. cannot_fail (stop env vm items))
    [selftests_stop, kunit_stop, fstests_stop, usertests_stop, runtime_stop, blktests_stop]"
proof -
  have "cannot_fail (blktests_stop env vm items)"
    unfolding blktests_stop_def
    by (intro stop_main_safe [OF assms])
      (auto simp: ssh_text_def intro!: never_raises_bind sound_intros stop_units_safe)
  moreover have "cannot_fail (runtime_stop env vm items)"
    unfolding runtime_stop_def using stop_modules_safe by (intro stop_main_safe [OF assms]) auto
  ultimately show ?thesis
    by (simp add: selftests_stop_def kunit_stop_def fstests_stop_def usertests_stop_def
        stop_main_safe [OF assms] stop_units_safe)
qed

theorem stop_never_fails_witness:
  "list_all (\<lambda>stop. cannot_fail (stop [(''WORKERS_DIR'', ''/w'')] ''vm'' [''mm'']))
    [selftests_stop, kunit_stop, fstests_stop, usertests_stop, runtime_stop, blktests_stop]"
proof (rule stop_never_fails)
  show "workers_env [(''WORKERS_DIR'', ''/w'')] = Inr [''w'']" by code_simp
qed

section \<open>Discovering\<close>

text \<open>The share of a suite below the workers' directory, and the writes that stay inside it.\<close>

definition inside_share :: "environ \<Rightarrow> string \<Rightarrow> path \<Rightarrow> bool" where
  "inside_share env suite p =
     (case workers_env env of
        Inl e \<Rightarrow> False
      | Inr w \<Rightarrow> strict_prefix (resolve_path (w @ [''shared'', suite])) p \<and> ''..'' \<notin> set (butlast p))"

definition caches :: "environ \<Rightarrow> string \<Rightarrow> cmd \<Rightarrow> bool" where
  "caches env suite c =
     (case c of
        Mkdir p \<Rightarrow> inside_share env suite p
      | WriteText p t \<Rightarrow> inside_share env suite p
      | _ \<Rightarrow> looks c)"

lemma looks_caches: "looks c \<Longrightarrow> caches env suite c"
  by (cases c) (simp_all add: caches_def looks_def)

lemma cache_safe:
  assumes "workers_env env = Inr w"
    and "cache = andthen (under (w @ [''shared'', suite]) vm) (\<lambda>d. Inr (d @ [filename]))"
  shows "issues (caches env suite) (write_cache cache value)"
proof (cases "under (w @ [''shared'', suite]) vm")
  case (Inr d)
  then have d: "strict_prefix (resolve_path (w @ [''shared'', suite])) d" "''..'' \<notin> set d" using under_inside by auto
  then have "strict_prefix (resolve_path (w @ [''shared'', suite])) (d @ [filename])"
    by (auto simp: strict_prefix_def prefix_def)
  moreover have "''..'' \<notin> set (butlast d)" using d(2) in_set_butlastD by fast
  ultimately show ?thesis
    using assms(1) d by (simp add: assms(2) Inr write_cache_def of_result_def atomic_write_def caches_def inside_share_def
        act_def)
qed (simp add: assms(2) write_cache_def of_result_def)

text \<open>A step of a discovery that only looks, or writes its cache.\<close>

lemma looks_issue_caches: "issues looks p \<Longrightarrow> issues (caches env suite) p"
  by (erule sound_weaken) (simp_all add: looks_caches)

lemma caches_then:
  "issues looks p \<Longrightarrow> (\<And>x. issues (caches env suite) (f x)) \<Longrightarrow> issues (caches env suite) (bind p f)"
  by (rule issues_bind, erule looks_issue_caches)

lemma with_workers:
  "(\<And>w. workers_env env = Inr w \<Longrightarrow> issues C (f w)) \<Longrightarrow> issues C (bind (of_result (workers_env env)) f)"
  by (cases "workers_env env") (simp_all add: of_result_def)

lemma with_guest_caches:
  "(\<And>r. issues (caches env suite) (step r)) \<Longrightarrow> issues (caches env suite) (with_guest env vm step)"
  unfolding with_guest_def by (intro with_workers caches_then connect_looks)

lemma guest_status_looks [looking]: "reads_guest args \<Longrightarrow> issues looks (ssh_status r args)"
  by simp

lemma cache_then:
  assumes "workers_env env = Inr w"
    and "cache = andthen (under (w @ [''shared'', suite]) vm) (\<lambda>d. Inr (d @ [filename]))"
    and "\<And>x. issues (caches env suite) (f x)"
  shows "issues (caches env suite) (bind (write_cache cache value) f)"
  by (rule issues_bind [OF cache_safe [OF assms(1,2)] assms(3)])

lemma issues_option:
  "issues C p \<Longrightarrow> (\<And>y. issues C (q y)) \<Longrightarrow> issues C (case x of None \<Rightarrow> p | Some y \<Rightarrow> q y)"
  by (simp split: option.split)

lemmas discover_rules = with_workers cache_then caches_then looking issues_if issues_option issues_simps

lemma selftests_discover_safe: "issues (caches env ''selftests'') (selftests_discover env vm)"
  unfolding selftests_discover_def Let_def
  by (rule with_guest_caches)
    (rule discover_rules | assumption | simp add: selftests_cache_def selftests_share_dir_def; fail)+

lemma kunit_discover_safe: "issues (caches env ''kunit'') (kunit_discover env vm)"
  unfolding kunit_discover_def Let_def
  by (rule with_guest_caches)
    (rule discover_rules | assumption | simp add: kunit_share_dir_def; fail)+

lemma usertests_discover_safe: "issues (caches env ''usertests'') (usertests_discover env vm)"
  unfolding usertests_discover_def Let_def
  by (rule with_guest_caches)
    (rule discover_rules | assumption | simp add: usertests_share_dir_def issues_map_prog; fail)+

lemma runtime_discover_safe: "issues (caches env ''runtime-tests'') (runtime_discover env vm)"
  unfolding runtime_discover_def Let_def
  by (rule with_guest_caches)
    (rule discover_rules | assumption | simp add: modules_cache_def; fail)+

lemma unit_paths_looks [looking]: "issues looks (unit_paths r)"
  unfolding unit_paths_def Let_def by (rule issues_bind looking issues_simps)+

lemma blktests_discover_safe: "issues (caches env ''blktests'') (blktests_discover env vm)"
  unfolding blktests_discover_def Let_def case_prod_unfold
  by (rule with_guest_caches)
    (rule discover_rules looking unit_paths_looks | assumption | simp add: groups_cache_def blktests_share_dir_def; fail | rule issues_bind)+

lemma fstests_discover_safe: "issues looks (fstests_discover env vm)"
  unfolding fstests_discover_def with_guest_def Let_def
  by (rule issues_bind looking issues_if issues_simps | assumption | simp; fail)+


section \<open>Starting\<close>

definition starts :: "cmd \<Rightarrow> bool" where
  "starts c = (case guest_args c of Some (p # verb # rest) \<Rightarrow> p = ''systemctl'' \<and> verb = ''start'' | _ \<Rightarrow> False)"

definition starts_unit :: "string \<Rightarrow> cmd \<Rightarrow> bool" where
  "starts_unit unit c = (guest_args c = Some [''systemctl'', ''start'', ''--no-block'', unit])"

definition CURSOR_ARGS :: "string list" where
  "CURSOR_ARGS = [''journalctl'', ''--no-pager'', ''--boot'', ''--lines=0'', ''--show-cursor'']"

text \<open>The cursor the last command of a history has read, if it is the one that asks the journal for it.\<close>

definition last_cursor :: "history \<Rightarrow> string option" where
  "last_cursor h =
     (case rev h of
        [] \<Rightarrow> None
      | (c, a) # before \<Rightarrow>
          (if guest_args c = Some CURSOR_ARGS \<and> holds a then first_cursor (splitlines (out a)) else None))"

definition not_started :: "history \<Rightarrow> bool" where
  "not_started h = list_all (\<lambda>(c, a). \<not> starts c) h"

text \<open>
  When a step may start a unit, and what it may return: the start comes first of its kind and right after the
  cursor, and what is returned is that cursor and that unit, right after the start.
\<close>

definition may_start :: "string \<Rightarrow> history \<Rightarrow> cmd \<Rightarrow> bool" where
  "may_start unit h c = (\<not> starts c \<or> starts_unit unit c \<and> not_started h \<and> last_cursor h \<noteq> None)"

definition has_started :: "string \<Rightarrow> history \<Rightarrow> started_out \<Rightarrow> bool" where
  "has_started unit h result =
     (h \<noteq> [] \<and> starts_unit unit (fst (last h)) \<and> holds (snd (last h))
      \<and> last_cursor (butlast h) = Some (sa_cursor result) \<and> sa_unit result = unit)"

definition starts_behind :: "string \<Rightarrow> started_out prog \<Rightarrow> bool" where
  "starts_behind unit step = guarded (may_start unit) (has_started unit) step []"

lemma starts_ssh [simp]:
  "starts (Dev ''systemd'' (ssh_argv r (p # verb # rest))) = (p = ''systemctl'' \<and> verb = ''start'')"
  by (simp add: starts_def)

lemma looks_no_start: "looks c \<Longrightarrow> \<not> starts c"
  by (cases c) (auto simp: looks_def starts_def guest_args_def reads_guest_def split: option.splits if_splits list.splits)

lemma unlink_no_start [simp]: "\<not> starts (Unlink p)"
  by (simp add: starts_def guest_args_def)

abbreviation no_start :: "cmd \<Rightarrow> bool" where
  "no_start c \<equiv> \<not> starts c"

lemma before_start:
  assumes "issues no_start p" and "not_started h"
    and "\<And>g x. not_started g \<Longrightarrow> guarded (may_start u) R (f x) g"
  shows "guarded (may_start u) R (bind p f) h"
  using assms(1,2)
proof (induction p arbitrary: h)
  case (Do c k)
  then have "not_started (h @ [(c, a)])" for a by (simp add: not_started_def)
  with Do show ?case by (simp add: may_start_def)
qed (simp_all add: assms(3))

lemma start_behind_cursor_guarded:
  "not_started h \<Longrightarrow> guarded (may_start u) (has_started u) (start_behind_cursor r vm item u) h"
  by (auto simp: start_behind_cursor_def journal_cursor_def ssh_checked_def dev_capture_def start_job_def ssh_run_def
      dev_run_def may_start_def has_started_def starts_unit_def last_cursor_def CURSOR_ARGS_def not_started_def
      butlast_append split: option.splits)

lemma looks_issue_no_start: "issues looks p \<Longrightarrow> issues no_start p"
  by (erule sound_weaken) (simp_all add: looks_no_start)

lemma with_guest_starts:
  assumes "\<And>r h. not_started h \<Longrightarrow> guarded (may_start u) (has_started u) (step r) h"
  shows "starts_behind u (with_guest env vm step)"
  unfolding starts_behind_def with_guest_def
  by (intro before_start assms looks_issue_no_start connect_looks issues_simps) (simp_all add: not_started_def)

text \<open>
  C6: No verdict is read from an older run. Whatever the machine answers, the start step of a suite that is
  judged by its journal starts the item's unit only, at most once, and right after it has read the journal's
  cursor; and when it returns it hands on exactly that cursor, so that everything the unit logs is behind it. A
  name that is no module's starts nothing.
\<close>

theorem starts_behind_cursor:
  "list_all (\<lambda>(unit, start). starts_behind unit start)
     [(item_unit item, selftests_start env vm item),
      (template_unit ''kunit'' item, kunit_start env vm item True),
      (template_unit ''kunit-results'' item, kunit_start env vm item False),
      (usertests_unit item, usertests_start env vm item)]
   \<and> (case unit_for item of
        Inr unit \<Rightarrow> starts_behind unit (runtime_start env vm item)
      | Inl e \<Rightarrow> issues no_start (runtime_start env vm item))"
proof -
  have "starts_behind unit (runtime_start env vm item)" if u: "unit_for item = Inr unit" for unit
    unfolding runtime_start_def unload_def only_if_def
    by (rule with_guest_starts)
      (auto simp: u of_result_def intro!: before_start start_behind_cursor_guarded issues_bind)
  moreover have "issues no_start (runtime_start env vm item)" if u: "unit_for item = Inl e" for e
    unfolding runtime_start_def with_guest_def u of_result_def sum.case
    by (auto simp: of_result_def intro!: issues_bind looks_issue_no_start connect_looks split: sum.split)
  ultimately show ?thesis
    by (auto simp: selftests_start_def kunit_start_def usertests_start_def
        intro!: with_guest_starts start_behind_cursor_guarded split: sum.split)
qed

text \<open>
  The suites judged by their result files: fstests starts a section only once the result of an earlier run is
  gone (what \<open>blktests_start\<close> removes is the theorem \<open>start_refines\<close> of \<open>Blktests\<close>).
\<close>

definition result_gone :: "path \<Rightarrow> history \<Rightarrow> bool" where
  "result_gone p h =
     (case rev h of
        (c, a) # before \<Rightarrow> c = IsFile p \<and> \<not> holds a \<or> c = Unlink p
      | [] \<Rightarrow> False)"

definition may_start_section :: "environ \<Rightarrow> string \<Rightarrow> string \<Rightarrow> string \<Rightarrow> history \<Rightarrow> cmd \<Rightarrow> bool" where
  "may_start_section env vm section kver h c =
     (\<not> starts c \<or> starts_unit (template_unit ''xfstests'' section) c \<and>
        (kver = [] \<or>
          (case workers_env env of
             Inl e \<Rightarrow> False
           | Inr w \<Rightarrow> (case section_results_dir w vm kver section of
                        Inl e \<Rightarrow> False
                      | Inr d \<Rightarrow> result_gone (d @ [''result.xml'']) h))))"

lemma after_removal:
  assumes "\<And>g. result_gone p g \<Longrightarrow> guarded G R q g" and "\<And>g. G g (IsFile p)" "\<And>g. G g (Unlink p)"
  shows "guarded G R (bind (remove_stale p) (\<lambda>_. q)) h"
  using assms by (simp add: remove_stale_def probe_def only_if_def act_def nop_def result_gone_def)

text \<open>
  A section never starts beside an old result. Given the kernel, whatever the machine answers, the start
  step of fstests starts the section's unit only, and only when its last act was to find the section's
  \<open>result.xml\<close> missing or to remove it; and it returns only a unit the guest reports as active or activating.
\<close>

theorem section_starts_fresh:
  "guarded (may_start_section env vm section kver)
     (\<lambda>h result. ru_active_state result \<in> {''activating'', ''active''} \<and> ru_unit result = template_unit ''xfstests'' section)
     (fstests_start env vm section kver) []"
proof -
  let ?G = "may_start_section env vm section kver"
  let ?R = "\<lambda>h result. ru_active_state result \<in> {''activating'', ''active''} \<and> ru_unit result = template_unit ''xfstests'' section"
  have run: "guarded ?G ?R
      (bind (start_job r (template_unit ''xfstests'' section)) (\<lambda>_.
       bind (active_state r (template_unit ''xfstests'' section)) (\<lambda>state.
       if state \<notin> {''activating'', ''active''} then Raise RuntimeError
       else Ret \<lparr>ru_vm = vm, ru_item = section, ru_unit = template_unit ''xfstests'' section, ru_active_state = state\<rparr>))) g"
    if "?G g (Dev ''systemd'' (ssh_argv r [''systemctl'', ''start'', ''--no-block'', template_unit ''xfstests'' section]))" for r g
    using that
    by (simp add: start_job_def ssh_run_def dev_run_def active_state_def show_unit_def ssh_checked_def dev_capture_def)
      (auto simp: may_start_section_def)
  have quiet: "guarded ?G R (bind p f) h" if "issues looks p" "\<And>x g. guarded ?G R (f x) g" for p f R h
    unfolding guarded_bind_iff
    by (rule sound_guarded [OF that(1)]) (simp_all add: that(2) may_start_section_def looks_no_start)
  let ?rest = "\<lambda>r. bind (start_job r (template_unit ''xfstests'' section)) (\<lambda>_.
       bind (active_state r (template_unit ''xfstests'' section)) (\<lambda>state.
       if state \<notin> {''activating'', ''active''} then Raise RuntimeError
       else Ret \<lparr>ru_vm = vm, ru_item = section, ru_unit = template_unit ''xfstests'' section, ru_active_state = state\<rparr>))"
  have cleared: "guarded ?G ?R (bind (remove_stale (d @ [''result.xml''])) (\<lambda>_. ?rest r)) h"
    if "workers_env env = Inr w" "section_results_dir w vm kver section = Inr d" for w d r h
    using that by (intro after_removal run) (simp_all add: may_start_section_def starts_unit_def looks_no_start)
  have step: "guarded ?G ?R (bind (if kver = [] then nop
           else bind (of_result (workers_env env)) (\<lambda>w.
                bind (of_result (section_results_dir w vm kver section)) (\<lambda>d.
                remove_stale (d @ [''result.xml''])))) (\<lambda>_. ?rest r)) h" for r h
  proof (cases "kver = []")
    case True
    then show ?thesis using run by (simp add: nop_def may_start_section_def starts_unit_def)
  next
    case False
    show ?thesis
    proof (cases "workers_env env")
      case (Inr w)
      then show ?thesis using False cleared
        by (cases "section_results_dir w vm kver section") (simp_all add: of_result_def)
    qed (simp add: False of_result_def)
  qed
  show ?thesis
    unfolding fstests_start_def with_guest_def Let_def
    by (intro quiet step connect_looks issues_simps)
qed

section \<open>The power cycle\<close>

definition fresh_tick :: "string \<Rightarrow> reboot_tick \<Rightarrow> bool" where
  "fresh_tick before t = (strip (rt_boot_id t) \<noteq> [] \<and> strip (rt_boot_id t) \<noteq> before \<and> booted (strip (rt_state t)))"

lemma reboot_loop_exact:
  assumes "\<And>j. k \<le> j \<Longrightarrow> j < n \<Longrightarrow> rt_now (ticks j) < deadline \<and> \<not> fresh_tick before (ticks j)" and "k \<le> n"
    and "\<not> rt_now (ticks n) < deadline \<or> fresh_tick before (ticks n)"
  shows "reboot_loop before deadline ticks k =
    Some (if \<not> rt_now (ticks n) < deadline then Inl TimeoutError
          else Inr (strip (rt_boot_id (ticks n)), strip (rt_state (ticks n))))"
  using assms
proof (induction "n - k" arbitrary: k)
  case 0
  then show ?case by (subst reboot_loop.simps) (auto simp: Let_def fresh_tick_def)
next
  case (Suc m)
  then have k: "rt_now (ticks k) < deadline" "\<not> fresh_tick before (ticks k)" by auto
  have "reboot_loop before deadline ticks k = reboot_loop before deadline ticks (Suc k)"
    using k by (subst reboot_loop.simps) (auto simp: Let_def fresh_tick_def)
  then show ?case using Suc by auto
qed

lemma clock_reaches:
  fixes now :: "'t \<Rightarrow> int"
  assumes "\<And>k. now (ticks k) + p \<le> now (ticks (Suc k))" "start \<le> now (ticks 0)"
  shows "start + int k * p \<le> now (ticks k)"
proof (induction k)
  case (Suc k)
  with assms(1) [of k] show ?case by (simp add: algebra_simps)
qed (simp add: assms(2))

text \<open>
  C25: The power cycle comes back, with a new boot or an error. When the clock moves on by at least the poll
  interval from one look to the next, the step returns at the first look that is past the deadline or meets a
  boot id other than the one before the restart on a guest whose systemd is up, whichever is first, after at
  most as many looks as the time-out has intervals and one more; what it returns is the time-out error or that
  boot.
\<close>

theorem reboot_settles:
  assumes "0 < poll" "0 < timeout"
    and "\<And>k. rt_now (ticks k) + poll \<le> rt_now (ticks (Suc k))" and "start \<le> rt_now (ticks 0)"
  shows "\<exists>n \<le> nat (timeout div poll) + 1.
    list_all (\<lambda>j. rt_now (ticks j) < start + timeout \<and> \<not> fresh_tick (strip boot_id) (ticks j)) [0..<n]
    \<and> (if rt_now (ticks n) < start + timeout
       then fresh_tick (strip boot_id) (ticks n)
         \<and> reboot True timeout poll boot_id True start ticks
           = Some (Inr (Some (strip (rt_boot_id (ticks n)), strip (rt_state (ticks n)))))
       else reboot True timeout poll boot_id True start ticks = Some (Inl TimeoutError))"
proof -
  let ?N = "nat (timeout div poll) + 1"
  let ?ends = "\<lambda>n. \<not> rt_now (ticks n) < start + timeout \<or> fresh_tick (strip boot_id) (ticks n)"
  have "timeout < int ?N * poll"
  proof -
    have "poll * (timeout div poll) + timeout mod poll = timeout" "timeout mod poll < poll"
      using assms(1) mult_div_mod_eq [of poll timeout] pos_mod_bound [of poll timeout] by blast+
    then have "timeout < (timeout div poll + 1) * poll"
      unfolding mult.commute [of _ poll] distrib_left by linarith
    moreover have "int ?N = timeout div poll + 1" using assms(1,2) by (simp add: pos_imp_zdiv_nonneg_iff)
    ultimately show ?thesis by argo
  qed
  then have late: "?ends ?N" using clock_reaches [of rt_now ticks poll start ?N, OF assms(3,4)] by linarith
  define n where "n = (LEAST n. ?ends n)"
  have n: "?ends n" "n \<le> ?N" "\<And>j. j < n \<Longrightarrow> \<not> ?ends j"
    unfolding n_def using LeastI [of ?ends, OF late] Least_le [of ?ends, OF late] not_less_Least by blast+
  have "reboot_loop (strip boot_id) (start + timeout) ticks 0 =
    Some (if \<not> rt_now (ticks n) < start + timeout then Inl TimeoutError
          else Inr (strip (rt_boot_id (ticks n)), strip (rt_state (ticks n))))"
    by (rule reboot_loop_exact) (use n in auto)
  then show ?thesis using n assms(1,2) by (intro exI [of _ n]) (auto simp: reboot_def list_all_iff)
qed

theorem reboot_settles_witness:
  "(let ticks = (\<lambda>k. if k = 0 then \<lparr>rt_now = 105, rt_boot_id = [], rt_state = []\<rparr>
       else \<lparr>rt_now = 105 + 5 * int k, rt_boot_id = ''new'', rt_state = ''running''\<rparr>) in
    \<exists>n \<le> nat (10 div 5) + 1.
      list_all (\<lambda>j. rt_now (ticks j) < 100 + 10 \<and> \<not> fresh_tick (strip ''old'') (ticks j)) [0..<n]
      \<and> (if rt_now (ticks n) < 100 + 10
         then fresh_tick (strip ''old'') (ticks n)
           \<and> reboot True 10 5 ''old'' True 100 ticks
             = Some (Inr (Some (strip (rt_boot_id (ticks n)), strip (rt_state (ticks n)))))
         else reboot True 10 5 ''old'' True 100 ticks = Some (Inl TimeoutError)))"
  unfolding Let_def
  by (rule reboot_settles [where poll = 5 and timeout = 10 and start = 100]) auto

end
