(* ===== verification/Mirrors.thy ===== *)
theory Mirrors
  imports Store Worktree Qsu
begin

text \<open>
  The git repositories of a workbench: \<open>f/workbench/mirror.py\<close> (one bare mirror per project, holding the
  upstream trees as remotes, and its refresh timer) and \<open>f/workbench/fetch.py\<close> (the durable Bare every
  worktree is cut from, which borrows the mirror's objects and copies its branches). The curated tables, the
  composition of the mirror configuration both steps share, the provisioning of the remotes as programs, and
  where a branch of an upstream tree lands.

  The entries are those \<open>build_mirrors\<close> composes; mirror directories are absolute.
\<close>

section \<open>The curated upstreams\<close>

text \<open>A kernel tree is a path after the chosen host, or has a clone URL of its own per transport.\<close>

datatype tree_source =
    OnHost string
  | OwnHost "(string, string) dict"

definition LINUX_SOURCES :: "(string, (string, string) dict) dict" where
  "LINUX_SOURCES =
     [(''kernel.org'', [(''https'', ''https://git.kernel.org/{path}.git''), (''git'', ''git://git.kernel.org/{path}.git'')]),
      (''googlesource'', [(''https'', ''https://kernel.googlesource.com/{path}.git'')])]"

definition DEFAULT_LINUX_SOURCE :: string where "DEFAULT_LINUX_SOURCE = ''kernel.org''"

definition DEFAULT_PROTOCOL :: string where "DEFAULT_PROTOCOL = ''https''"

definition KERNEL_TREES :: "(string, tree_source) dict" where
  "KERNEL_TREES =
     [(''torvalds'', OnHost ''pub/scm/linux/kernel/git/torvalds/linux''),
      (''linux-next'', OnHost ''pub/scm/linux/kernel/git/next/linux-next''),
      (''linux-stable'', OnHost ''pub/scm/linux/kernel/git/stable/linux''),
      (''linux-stable-rc'', OnHost ''pub/scm/linux/kernel/git/stable/linux-stable-rc''),
      (''modules'', OnHost ''pub/scm/linux/kernel/git/modules/linux''),
      (''mcgrof'', OnHost ''pub/scm/linux/kernel/git/mcgrof/linux''),
      (''mcgrof-next'', OnHost ''pub/scm/linux/kernel/git/mcgrof/linux-next''),
      (''da.gomez'', OnHost ''pub/scm/linux/kernel/git/da.gomez/linux''),
      (''axboe'', OnHost ''pub/scm/linux/kernel/git/axboe/linux''),
      (''vfs'', OnHost ''pub/scm/linux/kernel/git/vfs/vfs''),
      (''cel'', OnHost ''pub/scm/linux/kernel/git/cel/linux''),
      (''jlayton'', OnHost ''pub/scm/linux/kernel/git/jlayton/linux''),
      (''cxl'', OnHost ''pub/scm/linux/kernel/git/cxl/cxl''),
      (''nvme'', OwnHost [(''git'', ''git://git.infradead.org/nvme.git'')]),
      (''djwong'', OnHost ''pub/scm/linux/kernel/git/djwong/xfs-linux''),
      (''xfs'', OnHost ''pub/scm/fs/xfs/xfs-linux'')]"

definition DEFAULT_KERNEL_TREES :: "string list" where
  "DEFAULT_KERNEL_TREES =
     [''torvalds'', ''linux-next'', ''linux-stable'', ''modules'', ''mcgrof'', ''da.gomez'', ''axboe'', ''vfs'', ''cel'', ''jlayton'', ''djwong'', ''xfs'']"

definition TAG_TREES :: "string list" where
  "TAG_TREES =
     [''torvalds'', ''linux-next'', ''linux-stable'', ''linux-stable-rc'']"

definition QEMU_SOURCES :: "(string, (string, string) dict) dict" where
  "QEMU_SOURCES =
     [(''gitlab'', [(''https'', ''https://gitlab.com/qemu-project/qemu.git''), (''git'', ''git://gitlab.com/qemu-project/qemu.git'')]),
      (''github'', [(''https'', ''https://github.com/qemu/qemu.git'')])]"

definition XFSTESTS_SOURCES :: "(string, (string, string) dict) dict" where
  "XFSTESTS_SOURCES =
     [(''kernel.org'', [(''https'', ''https://git.kernel.org/pub/scm/fs/xfs/xfstests-dev.git''), (''git'', ''git://git.kernel.org/pub/scm/fs/xfs/xfstests-dev.git'')]),
      (''googlesource'', [(''https'', ''https://kernel.googlesource.com/pub/scm/fs/xfs/xfstests-dev.git'')])]"

definition XFSPROGS_SOURCES :: "(string, (string, string) dict) dict" where
  "XFSPROGS_SOURCES =
     [(''kernel.org'', [(''https'', ''https://git.kernel.org/pub/scm/fs/xfs/xfsprogs-dev.git''), (''git'', ''git://git.kernel.org/pub/scm/fs/xfs/xfsprogs-dev.git'')]),
      (''googlesource'', [(''https'', ''https://kernel.googlesource.com/pub/scm/fs/xfs/xfsprogs-dev.git'')])]"

definition FIO_SOURCES :: "(string, (string, string) dict) dict" where
  "FIO_SOURCES =
     [(''github'', [(''https'', ''https://github.com/axboe/fio.git'')])]"

definition BLKTESTS_SOURCES :: "(string, (string, string) dict) dict" where
  "BLKTESTS_SOURCES =
     [(''github'', [(''https'', ''https://github.com/linux-blktests/blktests.git'')])]"

definition BCC_SOURCES :: "(string, (string, string) dict) dict" where
  "BCC_SOURCES =
     [(''github'', [(''https'', ''https://github.com/iovisor/bcc.git'')])]"

definition EBPF_SYSCALL_SOURCES :: "(string, (string, string) dict) dict" where
  "EBPF_SYSCALL_SOURCES =
     [(''github'', [(''https'', ''https://github.com/SamsungDS/ebpf-syscall.git'')])]"

definition SYSTING_SOURCES :: "(string, (string, string) dict) dict" where
  "SYSTING_SOURCES =
     [(''github'', [(''https'', ''https://github.com/josefbacik/systing.git'')])]"

definition QEMU_SOURCE_LABELS :: "(string, string) dict" where
  "QEMU_SOURCE_LABELS =
     [(''gitlab'', ''GitLab''), (''github'', ''GitHub'')]"

definition MIRROR_PROJECTS :: "string list" where
  "MIRROR_PROJECTS =
     [''linux'', ''qemu'', ''xfstests-dev'', ''xfsprogs-dev'', ''fio'', ''blktests'', ''bcc'', ''ebpf-syscall'', ''systing'']"

definition MIRROR_PROJECT_LABELS :: "(string, string) dict" where
  "MIRROR_PROJECT_LABELS =
     [(''linux'', ''Linux kernel''),
      (''qemu'', ''QEMU''),
      (''xfstests-dev'', ''xfstests (filesystem tests)''),
      (''xfsprogs-dev'', ''xfsprogs (XFS userspace tools)''),
      (''fio'', ''fio (I/O workloads)''),
      (''blktests'', ''blktests (block layer tests)''),
      (''bcc'', ''bcc (BPF tracing tools)''),
      (''ebpf-syscall'', ''ebpf-syscall (storage tracers)''),
      (''systing'', ''systing (application tracer)'')]"

definition SINGLE_SOURCES :: "(string, (string, (string, string) dict) dict) dict" where
  "SINGLE_SOURCES =
     [(''qemu'', QEMU_SOURCES), (''xfstests-dev'', XFSTESTS_SOURCES), (''xfsprogs-dev'', XFSPROGS_SOURCES),
      (''fio'', FIO_SOURCES), (''blktests'', BLKTESTS_SOURCES), (''bcc'', BCC_SOURCES),
      (''ebpf-syscall'', EBPF_SYSCALL_SOURCES), (''systing'', SYSTING_SOURCES)]"

definition qemu_source_options :: "string \<Rightarrow> (string \<times> string) list" where
  "qemu_source_options filter_text =
     filter (\<lambda>(value, label). contains (lower filter_text) (lower label))
       (map (\<lambda>k. (k, the (dict_get QEMU_SOURCE_LABELS k))) (keys QEMU_SOURCES))"

definition mirror_project_options :: "string \<Rightarrow> (string \<times> string) list" where
  "mirror_project_options filter_text =
     filter (\<lambda>(value, label). contains (lower filter_text) (lower label))
       (map (\<lambda>p. (p, the (dict_get MIRROR_PROJECT_LABELS p))) MIRROR_PROJECTS)"

section \<open>Composing the mirrors\<close>

text \<open>A project's deploy configuration; a missing or empty value is empty here.\<close>

record mirror_cfg =
  mc_trees :: "string list"
  mc_source :: string
  mc_protocol :: string
  mc_on_boot :: string
  mc_on_inactive :: string

definition no_cfg :: mirror_cfg where
  "no_cfg = \<lparr>mc_trees = [], mc_source = [], mc_protocol = [], mc_on_boot = [], mc_on_inactive = []\<rparr>"

definition cfg_of :: "(string, mirror_cfg) dict \<Rightarrow> string \<Rightarrow> mirror_cfg" where
  "cfg_of configs project = (case dict_get configs project of None \<Rightarrow> no_cfg | Some c \<Rightarrow> c)"

record mirror_remote =
  mr_name :: string
  mr_url :: string
  mr_primary :: bool
  mr_tags :: bool

record mirror =
  mi_name :: string
  mi_project :: string
  mi_mirror :: string
  mi_remotes :: "mirror_remote list"

definition or_default :: "string \<Rightarrow> string \<Rightarrow> string" where
  "or_default s d = (if s = [] then d else s)"

text \<open>\<open>template.format(path=...)\<close>.\<close>

fun fmt_path :: "string \<Rightarrow> string \<Rightarrow> string" where
  "fmt_path p [] = []"
| "fmt_path p (c # cs) =
     (if prefix ''{path}'' (c # cs) then p @ fmt_path p (drop 5 cs) else c # fmt_path p cs)"

text \<open>The requested transport if it is offered, else the first; no curated host is without one.\<close>

definition transport :: "(string, string) dict \<Rightarrow> string \<Rightarrow> string" where
  "transport schemes protocol = (if protocol \<in> set (keys schemes) then protocol else hd (keys schemes))"

definition effective_protocol :: "(string, (string, string) dict) dict \<Rightarrow> string \<Rightarrow> string \<Rightarrow> string result" where
  "effective_protocol sources source protocol =
     (case dict_get sources source of None \<Rightarrow> Inl ValueError | Some schemes \<Rightarrow> Inr (transport schemes protocol))"

definition url_at :: "(string, (string, string) dict) dict \<Rightarrow> string \<Rightarrow> string \<Rightarrow> string" where
  "url_at sources source proto = the (dict_get (the (dict_get sources source)) proto)"

definition mirror_path :: "path \<Rightarrow> string \<Rightarrow> string" where
  "mirror_path mirror_dir name = path_str (mirror_dir @ [name @ ''.git''])"

definition linux_remote :: "string \<Rightarrow> string \<Rightarrow> string \<Rightarrow> mirror_remote result" where
  "linux_remote template proto name =
     (case dict_get KERNEL_TREES name of
        None \<Rightarrow> Inl ValueError
      | Some tree \<Rightarrow>
          Inr \<lparr>mr_name = name,
            mr_url = (case tree of
               OnHost p \<Rightarrow> fmt_path p template
             | OwnHost schemes \<Rightarrow> the (dict_get schemes (transport schemes proto))),
            mr_primary = (name = ''torvalds''), mr_tags = (name \<in> set TAG_TREES)\<rparr>)"

definition linux_mirror :: "mirror_cfg \<Rightarrow> path \<Rightarrow> mirror result" where
  "linux_mirror cfg mirror_dir =
     (let trees = (if mc_trees cfg = [] then DEFAULT_KERNEL_TREES else mc_trees cfg);
          source = or_default (mc_source cfg) DEFAULT_LINUX_SOURCE in
      andthen (effective_protocol LINUX_SOURCES source (or_default (mc_protocol cfg) DEFAULT_PROTOCOL)) (\<lambda>proto.
      andthen (traverse (linux_remote (url_at LINUX_SOURCES source proto) proto) (dedup (''torvalds'' # trees))) (\<lambda>remotes.
      Inr \<lparr>mi_name = ''linux'', mi_project = ''linux'', mi_mirror = mirror_path mirror_dir ''linux'', mi_remotes = remotes\<rparr>)))"

definition single_repo_mirror ::
  "string \<Rightarrow> (string, (string, string) dict) dict \<Rightarrow> mirror_cfg \<Rightarrow> path \<Rightarrow> mirror result" where
  "single_repo_mirror project sources cfg mirror_dir =
     (let source = or_default (mc_source cfg) (hd (keys sources)) in
      andthen (effective_protocol sources source (or_default (mc_protocol cfg) DEFAULT_PROTOCOL)) (\<lambda>proto.
      Inr \<lparr>mi_name = project, mi_project = project, mi_mirror = mirror_path mirror_dir project,
        mi_remotes = [\<lparr>mr_name = ''origin'', mr_url = url_at sources source proto, mr_primary = True, mr_tags = True\<rparr>]\<rparr>))"

definition build_mirror :: "(string, mirror_cfg) dict \<Rightarrow> path \<Rightarrow> string \<Rightarrow> mirror result" where
  "build_mirror configs mirror_dir project =
     (let cfg = cfg_of configs project in
      if project = ''linux'' then linux_mirror cfg mirror_dir
      else (case dict_get SINGLE_SOURCES project of
              None \<Rightarrow> Inl ValueError
            | Some sources \<Rightarrow> single_repo_mirror project sources cfg mirror_dir))"

definition build_mirrors :: "string list \<Rightarrow> (string, mirror_cfg) dict \<Rightarrow> path \<Rightarrow> mirror list result" where
  "build_mirrors projects configs mirror_dir = traverse (build_mirror configs mirror_dir) projects"

section \<open>Provisioning a mirror\<close>

definition PRIMARY_REFSPEC :: string where "PRIMARY_REFSPEC = ''+refs/heads/*:refs/heads/*''"

definition tree_refspec :: "string \<Rightarrow> string" where
  "tree_refspec name = ''+refs/heads/*:refs/remotes/'' @ name @ ''/*''"

definition mirror_refspec :: "mirror_remote \<Rightarrow> string" where
  "mirror_refspec r = (if mr_primary r then PRIMARY_REFSPEC else tree_refspec (mr_name r))"

definition tag_opt :: "mirror_remote \<Rightarrow> string" where
  "tag_opt r = (if mr_tags r then ''--tags'' else ''--no-tags'')"

definition config_key :: "string \<Rightarrow> string \<Rightarrow> string" where
  "config_key name var = ''remote.'' @ name @ ''.'' @ var"

definition ensure_bare :: "path \<Rightarrow> bool prog" where
  "ensure_bare repo =
     bind (probe (IsDir (repo @ [''objects'']))) (\<lambda>there.
     bind (only_if (\<not> there) (bind (act (Mkdir (butlast repo))) (\<lambda>_. git_run [''init'', ''--bare'', path_str repo]))) (\<lambda>_.
     Ret (\<not> there)))"

definition provision_remote :: "path \<Rightarrow> mirror_remote \<Rightarrow> unit prog" where
  "provision_remote repo r =
     bind (git_ok (in_tree repo [''remote'', ''get-url'', mr_name r])) (\<lambda>known.
     bind (if known then git_run (in_tree repo [''remote'', ''set-url'', mr_name r, mr_url r])
           else git_run (in_tree repo [''remote'', ''add'', mr_name r, mr_url r])) (\<lambda>_.
     bind (git_run (in_tree repo [''config'', config_key (mr_name r) ''fetch'', mirror_refspec r])) (\<lambda>_.
     bind (git_run (in_tree repo [''config'', config_key (mr_name r) ''tagOpt'', tag_opt r])) (\<lambda>_.
     bind (git_ok (in_tree repo [''config'', ''--unset'', config_key (mr_name r) ''mirror''])) (\<lambda>_. nop)))))"

definition provision_remotes :: "path \<Rightarrow> mirror_remote list \<Rightarrow> unit prog" where
  "provision_remotes repo remotes =
     bind (ensure_bare repo) (\<lambda>_.
     bind (git_capture_checked (in_tree repo [''remote''])) (\<lambda>names.
     bind (for_each (filter (\<lambda>n. n \<notin> set (map mr_name remotes)) (split_ws names))
            (\<lambda>n. git_run (in_tree repo [''remote'', ''remove'', n]))) (\<lambda>_.
     for_each remotes (provision_remote repo))))"

text \<open>The host's systemd: \<open>Systemd.systemctl\<close>, with and without \<open>check\<close>.\<close>

definition user_systemctl :: "string list \<Rightarrow> unit prog" where
  "user_systemctl args = dev_run ''systemd'' ([''systemctl'', ''--user''] @ args)"

definition user_systemctl_status :: "string list \<Rightarrow> int prog" where
  "user_systemctl_status args = Do (Dev ''systemd'' ([''systemctl'', ''--user''] @ args)) (\<lambda>r. Ret (rc r))"

definition populate_if_empty :: "path \<Rightarrow> string \<Rightarrow> bool prog" where
  "populate_if_empty repo name =
     bind (git_capture_checked (in_tree repo [''for-each-ref'', ''--count=1''])) (\<lambda>refs.
     if strip refs \<noteq> [] then Ret False
     else bind (user_systemctl_status [''start'', ''git-mirror@'' @ name @ ''.service'']) (\<lambda>status.
          Ret (status = 0)))"

definition service_unit :: "string \<Rightarrow> string \<Rightarrow> string \<Rightarrow> string" where
  "service_unit git mirror_dir machine_id = unlines
     [''[Unit]'', ''Description=Refresh the %i git mirror from upstream'', ''After=network-online.target'',
      ''Wants=network-online.target'', ''ConditionHost='' @ machine_id, [],
      ''[Service]'', ''Type=oneshot'', ''Nice=19'', ''IOSchedulingClass=idle'',
      ''ExecStart='' @ git @ '' -C '' @ mirror_dir @ ''/%i.git remote update --prune'']"

definition timer_unit :: "string \<Rightarrow> string" where
  "timer_unit machine_id = unlines
     [''[Unit]'', ''Description=Refresh the %i git mirror on a timer'', ''ConditionHost='' @ machine_id, [],
      ''[Timer]'', ''Persistent=true'', [], ''[Install]'', ''WantedBy=timers.target'']"

definition timer_schedule :: "string \<Rightarrow> string \<Rightarrow> string" where
  "timer_schedule on_boot on_inactive = unlines
     [''[Timer]'', ''OnBootSec='' @ on_boot, ''OnActiveSec='' @ on_boot, ''OnUnitInactiveSec='' @ on_inactive]"

definition TIMER_PREFIX :: string where "TIMER_PREFIX = ''git-mirror@''"
definition TIMER_SUFFIX :: string where "TIMER_SUFFIX = ''.timer''"

text \<open>The name between the two ends of a timer's unit name, if it is one.\<close>

definition timer_of :: "string \<Rightarrow> string option" where
  "timer_of unit =
     (if prefix TIMER_PREFIX unit \<and> suffix TIMER_SUFFIX unit \<and> length TIMER_PREFIX + length TIMER_SUFFIX \<le> length unit
      then Some (take (length unit - length TIMER_PREFIX - length TIMER_SUFFIX) (drop (length TIMER_PREFIX) unit))
      else None)"

definition disable_leftover :: "string list \<Rightarrow> path \<Rightarrow> string \<Rightarrow> unit prog" where
  "disable_leftover wanted mirror_dir unit =
     (case timer_of unit of
        None \<Rightarrow> nop
      | Some inst \<Rightarrow>
          if inst \<in> set wanted then nop
          else bind (probe (IsDir (mirror_dir @ [inst @ ''.git'']))) (\<lambda>there.
               only_if (\<not> there) (user_systemctl [''disable'', ''--now'', unit])))"

definition schedule_of :: "mirror_cfg \<Rightarrow> string \<times> string" where
  "schedule_of cfg = (or_default (mc_on_boot cfg) ''10m'', or_default (mc_on_inactive cfg) ''10m'')"

text \<open>
  \<open>main\<close> of the mirror step, after the mirrors are composed: \<open>mirror_dir\<close> and \<open>unit_dir\<close> are the
  directories, \<open>git\<close> the resolved binary.
\<close>

definition provision_mirror :: "mirror \<Rightarrow> (string \<times> bool) prog" where
  "provision_mirror m =
     (let repo = parts (mi_mirror m) in
      bind (provision_remotes repo (mi_remotes m)) (\<lambda>_.
      bind (user_systemctl [''enable'', ''git-mirror@'' @ mi_name m @ ''.timer'']) (\<lambda>_.
      bind (user_systemctl [''restart'', ''git-mirror@'' @ mi_name m @ ''.timer'']) (\<lambda>_.
      bind (populate_if_empty repo (mi_name m)) (\<lambda>first.
      Ret (mi_name m, first))))))"

definition mirror_main :: "string \<Rightarrow> path \<Rightarrow> path \<Rightarrow> (string, mirror_cfg) dict \<Rightarrow> mirror list \<Rightarrow> (string \<times> bool) list prog" where
  "mirror_main git mirror_dir unit_dir configs mirrors =
     bind (read_text [''etc'', ''machine-id'']) (\<lambda>id_text.
     let machine_id = strip id_text in
     bind (write_unit (unit_dir @ [''git-mirror@.service'']) (service_unit git (path_str mirror_dir) machine_id)) (\<lambda>_.
     bind (write_unit (unit_dir @ [''git-mirror@.timer'']) (timer_unit machine_id)) (\<lambda>_.
     bind (for_each mirrors (\<lambda>m. case schedule_of (cfg_of configs (mi_name m)) of (on_boot, on_inactive) \<Rightarrow>
            write_unit (unit_dir @ [''git-mirror@'' @ mi_name m @ ''.timer.d'', ''override.conf''])
              (timer_schedule on_boot on_inactive))) (\<lambda>_.
     bind (user_systemctl [''daemon-reload'']) (\<lambda>_.
     bind (Do (ListDir (unit_dir @ [''timers.target.wants''])) (\<lambda>r. Ret (sort (entries r)))) (\<lambda>links.
     bind (for_each links (disable_leftover (map mi_name mirrors) mirror_dir)) (\<lambda>_.
     map_prog provision_mirror mirrors)))))))"

section \<open>Provisioning a Bare\<close>

text \<open>\<open>_reconcile_alternates\<close>: the file names exactly the mirrors' object directories.\<close>

definition mirror_objects :: "string \<Rightarrow> string" where
  "mirror_objects mirror = path_str (parts mirror @ [''objects''])"

definition reconcile_alternates :: "path \<Rightarrow> string list \<Rightarrow> unit prog" where
  "reconcile_alternates bare mirrors =
     (let info = bare @ [''objects'', ''info'']; alternates = info @ [''alternates''];
          wanted = dedup (map mirror_objects mirrors) in
      bind (probe (Exists alternates)) (\<lambda>there.
      bind (if there then bind (read_text alternates) (\<lambda>t. Ret (splitlines t)) else Ret []) (\<lambda>present.
      if present = wanted then nop
      else bind (act (Mkdir info)) (\<lambda>_. act (WriteText alternates (unlines wanted))))))"

text \<open>A remote's URL is set or the remote is added; the status of neither is looked at.\<close>

definition point_remote :: "path \<Rightarrow> string \<Rightarrow> string \<Rightarrow> unit prog" where
  "point_remote bare name url =
     bind (git_ok (in_tree bare [''remote'', ''get-url'', name])) (\<lambda>known.
     bind (git_ok (in_tree bare [''remote'', if known then ''set-url'' else ''add'', name, url])) (\<lambda>_. nop))"

definition MIRROR_REFSPEC :: string where "MIRROR_REFSPEC = ''+refs/heads/*:refs/remotes/mirror/*''"

definition copy_refspec :: "string \<Rightarrow> string" where
  "copy_refspec tree = ''+refs/remotes/'' @ tree @ ''/*:refs/remotes/'' @ tree @ ''/*''"

definition bare_refspecs :: "string list \<Rightarrow> string list" where
  "bare_refspecs trees = MIRROR_REFSPEC # map copy_refspec trees"

definition ensure :: "string \<Rightarrow> path \<Rightarrow> string \<Rightarrow> string list \<Rightarrow> bool \<Rightarrow> string prog" where
  "ensure mirror bare origin trees refresh =
     bind (ensure_bare bare) (\<lambda>fresh.
     bind (reconcile_alternates bare [mirror]) (\<lambda>_.
     bind (point_remote bare ''origin'' origin) (\<lambda>_.
     bind (point_remote bare ''mirror'' mirror) (\<lambda>_.
     bind (git_run (in_tree bare [''config'', ''--replace-all'', config_key ''mirror'' ''fetch'', MIRROR_REFSPEC])) (\<lambda>_.
     bind (for_each trees (\<lambda>t. git_run (in_tree bare [''config'', ''--add'', config_key ''mirror'' ''fetch'', copy_refspec t]))) (\<lambda>_.
     bind (if fresh \<or> refresh
           then git_ok (in_tree bare [''fetch'', ''--tags'', ''--force'', ''--prune'', ''--prune-tags'', ''mirror''])
           else Ret True) (\<lambda>_.
     Ret (if fresh then ''created'' else if refresh then ''refreshed'' else ''present''))))))))"

definition validate_peer :: "string \<Rightarrow> unit result" where
  "validate_peer peer =
     (if peer = [] then Inl ValueError
      else if CHR ''/'' \<in> set peer \<or> contains ''..'' peer \<or> prefix ''-'' peer then Inl ValueError
      else Inr ())"

definition peer_url :: "string \<Rightarrow> path \<Rightarrow> string \<Rightarrow> string" where
  "peer_url peer system project = ''ssh://'' @ peer @ path_str system @ ''/bare/'' @ project @ ''.git''"

definition ensure_peer :: "path \<Rightarrow> path \<Rightarrow> string \<Rightarrow> string \<Rightarrow> (string \<times> string) prog" where
  "ensure_peer bare system project peer =
     bind (of_result (validate_peer peer)) (\<lambda>_.
     bind (point_remote bare peer (peer_url peer system project)) (\<lambda>_.
     bind (git_ok (in_tree bare [''config'', config_key peer ''fetch'', tree_refspec peer])) (\<lambda>_.
     Ret (peer, peer_url peer system project))))"

definition validate_mirror :: "mirror \<Rightarrow> unit result" where
  "validate_mirror m =
     (if mi_name m = [] \<or> mi_mirror m = [] \<or> mi_project m = [] \<or> mi_remotes m = [] then Inl ValueError
      else if prefix ''-'' (mi_mirror m) then Inl ValueError
      else if contains ''..'' (mi_project m) \<or> prefix ''-'' (mi_project m) \<or> is_absolute (mi_project m) then Inl ValueError
      else Inr ())"

definition primary_remote :: "mirror \<Rightarrow> mirror_remote" where
  "primary_remote m = (case filter mr_primary (mi_remotes m) of r # _ \<Rightarrow> r | [] \<Rightarrow> hd (mi_remotes m))"

definition trees_of :: "mirror \<Rightarrow> string list" where
  "trees_of m = map mr_name (filter (\<lambda>r. \<not> mr_primary r) (mi_remotes m))"

record bare_out =
  bo_name :: string
  bo_origin :: string
  bo_trees :: "string list"
  bo_bare :: path
  bo_action :: string
  bo_head :: "string option"
  bo_peers :: "(string \<times> string) list"

definition fetch_one :: "path \<Rightarrow> string list \<Rightarrow> bool \<Rightarrow> mirror \<Rightarrow> bare_out prog" where
  "fetch_one system peer_hosts refresh m =
     bind (of_result (validate_mirror m)) (\<lambda>_.
     let bare = system @ [''bare'', mi_project m @ ''.git'']; origin = mr_url (primary_remote m) in
     bind (ensure (mi_mirror m) bare origin (trees_of m) refresh) (\<lambda>action.
     bind (map_prog (ensure_peer bare system (mi_project m)) peer_hosts) (\<lambda>ps.
     bind (git_capture (in_tree bare [''rev-parse'', ''HEAD''])) (\<lambda>head.
     Ret \<lparr>bo_name = mi_name m, bo_origin = origin, bo_trees = trees_of m, bo_bare = bare, bo_action = action,
       bo_head = (if strip head = [] then None else Some (strip head)), bo_peers = ps\<rparr>))))"

definition fetch_main :: "environ \<Rightarrow> string list option \<Rightarrow> (string, mirror_cfg) dict \<Rightarrow> peer_input list \<Rightarrow> bool \<Rightarrow> bare_out list prog" where
  "fetch_main env projects configs peers refresh =
     bind (of_result (system_dir env)) (\<lambda>system.
     bind (of_result (mirrors_dir env)) (\<lambda>mdir.
     bind (of_result (build_mirrors (case projects of None \<Rightarrow> MIRROR_PROJECTS | Some ps \<Rightarrow> ps) configs mdir)) (\<lambda>mirrors.
     let ps = normalize_peers peers in
     bind (resolve_git env) (\<lambda>_.
     bind (map_prog (fetch_one system (map p_host ps) refresh) mirrors) (\<lambda>results.
     bind (act (Mkdir system)) (\<lambda>_.
     bind (act (WriteText (system @ [''peers'']) (render_peers ps))) (\<lambda>_.
     Ret results)))))))"

section \<open>Where a branch lands\<close>

text \<open>
  What a fetch with one pattern refspec does with a ref: \<open>+src*:dst*\<close> sends a ref that starts with \<open>src\<close> to
  the same name below \<open>dst\<close>. A branch of an upstream tree goes through the mirror's refspec of its remote, then
  through those of the Bare.
\<close>

definition lands :: "string \<Rightarrow> string \<Rightarrow> string option" where
  "lands spec ref =
     (let body = (if prefix ''+'' spec then tl spec else spec);
          src = before_chr (CHR '':'') body; dst = after_chr (CHR '':'') body in
      if suffix ''*'' src \<and> suffix ''*'' dst \<and> prefix (butlast src) ref
      then Some (butlast dst @ drop (length (butlast src)) ref) else None)"

definition bare_refs :: "mirror \<Rightarrow> mirror_remote \<Rightarrow> string \<Rightarrow> string list" where
  "bare_refs m r branch =
     (case lands (mirror_refspec r) (''refs/heads/'' @ branch) of
        None \<Rightarrow> []
      | Some ref \<Rightarrow> List.map_filter (\<lambda>spec. lands spec ref) (bare_refspecs (trees_of m)))"

definition branch_name :: "mirror_remote \<Rightarrow> string" where
  "branch_name r = (if mr_primary r then ''mirror'' else mr_name r)"

definition plain_name :: "string \<Rightarrow> bool" where
  "plain_name n = (n \<noteq> [] \<and> list_all (\<lambda>c. is_alnum_ascii c \<or> c \<in> set ''.-'') n \<and> n \<noteq> ''mirror'' \<and> n \<noteq> ''heads'')"

lemma plain_name_chars: "plain_name n \<Longrightarrow> CHR ''/'' \<notin> set n \<and> CHR '':'' \<notin> set n"
  by (auto simp: plain_name_def list_all_iff is_alnum_ascii_def is_digit_def is_lower_ascii_def is_upper_ascii_def)

lemma lands_pattern:
  assumes "CHR '':'' \<notin> set a"
  shows "lands (''+'' @ a @ ''*:'' @ b @ ''*'') ref = (if prefix a ref then Some (b @ drop (length a) ref) else None)"
proof -
  have "before_chr (CHR '':'') (a @ ''*:'' @ b @ ''*'') = a @ ''*''" "after_chr (CHR '':'') (a @ ''*:'' @ b @ ''*'') = b @ ''*''"
    using assms by (simp_all add: before_chr_def after_chr_def takeWhile_append dropWhile_append)
  then show ?thesis by (simp add: lands_def butlast_append suffix_def)
qed

lemma lands_heads: "lands (mirror_refspec r) (''refs/heads/'' @ b) =
    Some (if mr_primary r then ''refs/heads/'' @ b else ''refs/remotes/'' @ mr_name r @ ''/'' @ b)"
  using lands_pattern [of "''refs/heads/''" "''refs/heads/''" "''refs/heads/'' @ b"]
    lands_pattern [of "''refs/heads/''" "''refs/remotes/'' @ mr_name r @ ''/''" "''refs/heads/'' @ b"]
  by (simp add: mirror_refspec_def PRIMARY_REFSPEC_def tree_refspec_def)

lemma lands_mirror: "lands MIRROR_REFSPEC (''refs/heads/'' @ b) = Some (''refs/remotes/mirror/'' @ b)"
    "lands MIRROR_REFSPEC (''refs/remotes/'' @ t) = None"
  using lands_pattern [of "''refs/heads/''" "''refs/remotes/mirror/''"] by (simp_all add: MIRROR_REFSPEC_def)

lemma lands_copy:
  assumes "plain_name t"
  shows "lands (copy_refspec t) (''refs/heads/'' @ b) = None"
    "plain_name n \<Longrightarrow> lands (copy_refspec t) (''refs/remotes/'' @ n @ ''/'' @ b) =
      (if n = t then Some (''refs/remotes/'' @ n @ ''/'' @ b) else None)"
proof -
  have c: "CHR '':'' \<notin> set (''refs/remotes/'' @ t @ ''/'')" using plain_name_chars [OF assms] by simp
  have spec: "copy_refspec t = ''+'' @ (''refs/remotes/'' @ t @ ''/'') @ ''*:'' @ (''refs/remotes/'' @ t @ ''/'') @ ''*''"
    by (simp add: copy_refspec_def)
  note at = lands_pattern [OF c, of "''refs/remotes/'' @ t @ ''/''", folded spec]
  show "lands (copy_refspec t) (''refs/heads/'' @ b) = None" unfolding at by simp
  have "prefix (t @ ''/'') (n @ ''/'' @ b) \<longleftrightarrow> n = t" if "plain_name n"
  proof
    assume "prefix (t @ ''/'') (n @ ''/'' @ b)"
    then obtain rest where "t @ CHR ''/'' # rest = n @ CHR ''/'' # b" by (auto simp: prefix_def)
    moreover have "takeWhile (\<lambda>c. c \<noteq> CHR ''/'') (x @ CHR ''/'' # y) = x" if "CHR ''/'' \<notin> set x" for x y
      using that by (induction x) auto
    ultimately show "n = t" using plain_name_chars [OF assms] plain_name_chars [OF that] by metis
  qed simp
  then show "plain_name n \<Longrightarrow> lands (copy_refspec t) (''refs/remotes/'' @ n @ ''/'' @ b) =
      (if n = t then Some (''refs/remotes/'' @ n @ ''/'' @ b) else None)"
    unfolding at by auto
qed

text \<open>What every composed mirror has.\<close>

definition mirror_ok :: "mirror \<Rightarrow> bool" where
  "mirror_ok m =
     (distinct (map mr_name (mi_remotes m)) \<and> list_all plain_name (map mr_name (mi_remotes m))
      \<and> length (filter mr_primary (mi_remotes m)) = 1)"

lemma tree_names_plain: "list_all plain_name (keys KERNEL_TREES)"
  by code_simp

lemma linux_remotes:
  "traverse (linux_remote template proto) names = Inr remotes \<Longrightarrow>
    map mr_name remotes = names \<and> list_all plain_name names \<and> map mr_primary remotes = map (\<lambda>n. n = ''torvalds'') names"
proof (induction names arbitrary: remotes)
  case (Cons n ns)
  from Cons.prems obtain r rs where r: "linux_remote template proto n = Inr r" "traverse (linux_remote template proto) ns = Inr rs"
      "remotes = r # rs"
    unfolding traverse_Inr_iff by (auto simp: list_all2_Cons1)
  then obtain tree where tree: "dict_get KERNEL_TREES n = Some tree" and "mr_name r = n" "mr_primary r = (n = ''torvalds'')"
    by (auto simp: linux_remote_def split: option.splits)
  moreover have "plain_name n" using tree_names_plain map_of_SomeD [OF tree] by (auto simp: list_all_iff)
  ultimately show ?case using Cons.IH [OF r(2)] r(3) by simp
qed (simp add: traverse_Inr_iff)

lemma build_mirror_ok:
  assumes "build_mirror configs mdir project = Inr m"
  shows "mirror_ok m"
proof (cases "project = ''linux''")
  case True
  then obtain template proto trees where
    t: "traverse (linux_remote template proto) (dedup (''torvalds'' # trees)) = Inr (mi_remotes m)"
    using assms by (auto simp: build_mirror_def linux_mirror_def Let_def andthen_Inr)
  from linux_remotes [OF t] have r: "map mr_name (mi_remotes m) = dedup (''torvalds'' # trees)"
    "list_all plain_name (dedup (''torvalds'' # trees))"
    "map mr_primary (mi_remotes m) = map (\<lambda>n. n = ''torvalds'') (dedup (''torvalds'' # trees))" by auto
  have "length (filter id (map mr_primary (mi_remotes m))) = length (filter (\<lambda>n. n = ''torvalds'') (dedup (''torvalds'' # trees)))"
    unfolding r(3) by (simp add: filter_map comp_def)
  also have "\<dots> = 1"
    using distinct_dedup [of "''torvalds'' # trees"] set_dedup [of "''torvalds'' # trees"]
    by (simp add: distinct_length_filter)
  finally show ?thesis using r(1,2) distinct_dedup [of "''torvalds'' # trees"] by (simp add: mirror_ok_def filter_map comp_def)
next
  case False
  have "plain_name ''origin''" by code_simp
  with False assms show ?thesis
    by (auto simp: build_mirror_def single_repo_mirror_def mirror_ok_def Let_def andthen_Inr split: option.splits)
qed

lemma bare_refs_exact:
  assumes "mirror_ok m" "r \<in> set (mi_remotes m)"
  shows "bare_refs m r b = [''refs/remotes/'' @ branch_name r @ ''/'' @ b]"
proof -
  have plain: "plain_name (mr_name x)" if "x \<in> set (mi_remotes m)" for x
    using assms(1) that by (auto simp: mirror_ok_def list_all_iff)
  have trees: "plain_name t" if "t \<in> set (trees_of m)" for t using that plain by (auto simp: trees_of_def)
  have distinct: "distinct (trees_of m)"
    using assms(1) by (auto simp: mirror_ok_def trees_of_def distinct_map_filter)
  show ?thesis
  proof (cases "mr_primary r")
    case True
    have "List.map_filter (\<lambda>spec. lands spec (''refs/heads/'' @ b)) (map copy_refspec ts) = []"
      if "\<And>t. t \<in> set ts \<Longrightarrow> plain_name t" for ts
      using that by (induction ts) (auto simp: map_filter_simps lands_copy(1) [simplified])
    then show ?thesis
      using True trees lands_heads [of r b] lands_mirror(1) [of b]
      by (simp add: bare_refs_def bare_refspecs_def map_filter_simps branch_name_def)
  next
    case False
    let ?ref = "''refs/remotes/'' @ mr_name r @ ''/'' @ b"
    have "List.map_filter (\<lambda>spec. lands spec ?ref) (map copy_refspec ts) = (if mr_name r \<in> set ts then [?ref] else [])"
      if "distinct ts" "\<And>t. t \<in> set ts \<Longrightarrow> plain_name t" for ts
      using that
    proof (induction ts)
      case (Cons t ts)
      then have "lands (copy_refspec t) ?ref = (if mr_name r = t then Some ?ref else None)"
        using lands_copy(2) [of t "mr_name r" b] plain [OF assms(2)] by simp
      with Cons show ?case by (auto simp: map_filter_simps)
    qed (simp add: map_filter_simps)
    from this [OF distinct trees] have copies: "List.map_filter (\<lambda>spec. lands spec ?ref) (map copy_refspec (trees_of m)) = [?ref]"
      using False assms(2) by (auto simp: trees_of_def)
    have "lands MIRROR_REFSPEC ?ref = None" by (rule lands_mirror(2))
    then show ?thesis
      using False copies lands_heads [of r b]
      by (simp add: bare_refs_def bare_refspecs_def map_filter_simps branch_name_def)
  qed
qed

lemma ref_inject:
  assumes "CHR ''/'' \<notin> set n" "CHR ''/'' \<notin> set n'"
  shows "''refs/remotes/'' @ n @ ''/'' @ b = ''refs/remotes/'' @ n' @ ''/'' @ b' \<longleftrightarrow> n = n' \<and> b = b'"
proof -
  have "takeWhile (\<lambda>c. c \<noteq> CHR ''/'') (x @ CHR ''/'' # y) = x" if "CHR ''/'' \<notin> set x" for x y
    using that by (induction x) auto
  then show ?thesis using assms by (auto, metis, metis same_append_eq list.inject)
qed

text \<open>
  C27: Every branch has one place in a Bare. Whatever projects and configurations are asked for, a mirror the
  two steps compose has one primary remote and distinct names; a branch of one of its upstream trees, fetched
  first by the mirror's refspecs and then by the Bare's, arrives as exactly one ref, \<open>mirror/<branch>\<close> for the
  primary tree and \<open><tree>/<branch>\<close> for another; two branches never share a ref, and none lands among the
  developers' own \<open>refs/heads\<close>.
\<close>

theorem branches_land:
  assumes "build_mirrors projects configs mdir = Inr ms" and "m \<in> set ms"
  shows "distinct (map mr_name (mi_remotes m)) \<and> length (filter mr_primary (mi_remotes m)) = 1
    \<and> list_all (\<lambda>r. (\<forall>b. bare_refs m r b = [''refs/remotes/'' @ branch_name r @ ''/'' @ b])
        \<and> list_all (\<lambda>r'. \<forall>b b'. (bare_refs m r b = bare_refs m r' b') = (r = r' \<and> b = b')) (mi_remotes m)) (mi_remotes m)"
proof -
  have ok: "mirror_ok m"
    using assms build_mirror_ok by (auto simp: build_mirrors_def traverse_Inr_iff list_all2_conv_all_nth in_set_conv_nth)
  have slash: "CHR ''/'' \<notin> set (branch_name r)" if "r \<in> set (mi_remotes m)" for r
    using ok that plain_name_chars [of "mr_name r"] by (auto simp: mirror_ok_def list_all_iff branch_name_def)
  have one: "r = r'" if "r \<in> set (mi_remotes m)" "r' \<in> set (mi_remotes m)" "branch_name r = branch_name r'" for r r'
  proof -
    have plain: "mr_name x \<noteq> ''mirror''" if "x \<in> set (mi_remotes m)" for x
      using ok that by (auto simp: mirror_ok_def list_all_iff plain_name_def)
    obtain p where p: "filter mr_primary (mi_remotes m) = [p]" using ok by (auto simp: mirror_ok_def length_Suc_conv)
    show ?thesis
    proof (cases "mr_primary r")
      case True
      then have "mr_primary r'" using that plain by (auto simp: branch_name_def split: if_splits)
      then have "r \<in> set [p]" "r' \<in> set [p]" using True that unfolding p [symmetric] by auto
      then show ?thesis by simp
    next
      case False
      then have "mr_name r = mr_name r'" using that plain by (auto simp: branch_name_def split: if_splits)
      then show ?thesis using ok that by (auto simp: mirror_ok_def distinct_map dest: inj_onD)
    qed
  qed
  have "(bare_refs m r b = bare_refs m r' b') = (r = r' \<and> b = b')"
    if "r \<in> set (mi_remotes m)" "r' \<in> set (mi_remotes m)" for r r' b b'
    using bare_refs_exact [OF ok that(1), of b] bare_refs_exact [OF ok that(2), of b'] one [OF that]
      ref_inject [OF slash [OF that(1)] slash [OF that(2)]] by auto
  then show ?thesis using ok bare_refs_exact [OF ok] by (auto simp: mirror_ok_def list_all_iff)
qed

theorem branches_land_witness:
  "(case build_mirrors [''linux''] [(''linux'', no_cfg\<lparr>mc_trees := [''axboe'']\<rparr>)] [''m''] of
      Inr [m] \<Rightarrow> map (\<lambda>r. bare_refs m r ''for-next'') (mi_remotes m)
        = [[''refs/remotes/mirror/for-next''], [''refs/remotes/axboe/for-next'']]
    | _ \<Rightarrow> False)"
proof -
  obtain m where m: "build_mirrors [''linux''] [(''linux'', no_cfg\<lparr>mc_trees := [''axboe'']\<rparr>)] [''m''] = Inr [m]"
    and names: "map mr_name (mi_remotes m) = [''torvalds'', ''axboe'']" "map mr_primary (mi_remotes m) = [True, False]"
    by (simp add: build_mirrors_def build_mirror_def cfg_of_def linux_mirror_def no_cfg_def Let_def effective_protocol_def
        LINUX_SOURCES_def DEFAULT_LINUX_SOURCE_def linux_remote_def KERNEL_TREES_def dedup_def or_default_def)
  then obtain r s where rs: "mi_remotes m = [r, s]" "mr_primary r" "\<not> mr_primary s" "mr_name s = ''axboe''"
    by (auto simp: map_eq_Cons_conv)
  have "list_all (\<lambda>r. \<forall>b. bare_refs m r b = [''refs/remotes/'' @ branch_name r @ ''/'' @ b]) (mi_remotes m)"
    using branches_land [OF m, of m] by (simp add: list_all_iff)
  with m rs show ?thesis by (simp add: branch_name_def)
qed

section \<open>A repository that answers\<close>

text \<open>
  What the two steps touch of a bare repository: whether it is there, its remotes with what they configure of
  each, its alternates. \<open>git config\<close> sets a variable with one value and refuses one with several;
  \<open>--replace-all\<close> and \<open>--add\<close> do what they say; a new remote has git's default refspec.
\<close>

record git_remote =
  gr_url :: string
  gr_fetch :: "string list"
  gr_tags :: "string option"
  gr_mirror :: bool

record bare_repo =
  br_made :: bool
  br_remotes :: "(string, git_remote) dict"
  br_alternates :: "string option"

definition change :: "string \<Rightarrow> (git_remote \<Rightarrow> git_remote) \<Rightarrow> (string, git_remote) dict \<Rightarrow> (string, git_remote) dict" where
  "change n f rs = map (\<lambda>(k, g). (k, if k = n then f g else g)) rs"

text \<open>The remote a configuration variable \<open>remote.<name>.<var>\<close> is of.\<close>

definition owner :: "string \<Rightarrow> string \<Rightarrow> (string, git_remote) dict \<Rightarrow> string option" where
  "owner var key rs = (case filter (\<lambda>n. config_key n var = key) (keys rs) of [] \<Rightarrow> None | n # _ \<Rightarrow> Some n)"

definition config_set :: "string \<Rightarrow> string \<Rightarrow> (string, git_remote) dict \<Rightarrow> int \<times> (string, git_remote) dict" where
  "config_set key v rs =
     (case owner ''fetch'' key rs of
        Some n \<Rightarrow>
          if (case dict_get rs n of None \<Rightarrow> False | Some g \<Rightarrow> length (gr_fetch g) > 1) then (5, rs)
          else (0, change n (\<lambda>g. g\<lparr>gr_fetch := [v]\<rparr>) rs)
      | None \<Rightarrow>
          (case owner ''tagOpt'' key rs of
             Some n \<Rightarrow> (0, change n (\<lambda>g. g\<lparr>gr_tags := Some v\<rparr>) rs)
           | None \<Rightarrow> (0, rs)))"

definition config_unset :: "string \<Rightarrow> (string, git_remote) dict \<Rightarrow> int \<times> (string, git_remote) dict" where
  "config_unset key rs =
     (case owner ''mirror'' key rs of Some n \<Rightarrow> (0, change n (\<lambda>g. g\<lparr>gr_mirror := False\<rparr>) rs) | None \<Rightarrow> (5, rs))"

definition config_fetch :: "(string list \<Rightarrow> string list) \<Rightarrow> string \<Rightarrow> (string, git_remote) dict \<Rightarrow> int \<times> (string, git_remote) dict" where
  "config_fetch f key rs =
     (case owner ''fetch'' key rs of
        Some n \<Rightarrow> (0, change n (\<lambda>g. g\<lparr>gr_fetch := f (gr_fetch g)\<rparr>) rs) | None \<Rightarrow> (0, rs))"

definition remote_step :: "string list \<Rightarrow> (string, git_remote) dict \<Rightarrow> int \<times> string \<times> (string, git_remote) dict" where
  "remote_step args rs =
     (let known = (\<lambda>n. n \<in> set (keys rs)); quiet = (\<lambda>(status, rs'). (status, [], rs')) in
      case args of
        [a] \<Rightarrow> if a = ''remote'' then (0, unlines (keys rs), rs) else (0, [], rs)
      | [a, b, c] \<Rightarrow>
          if a = ''remote'' \<and> b = ''get-url'' then (if known c then 0 else 2, [], rs)
          else if a = ''remote'' \<and> b = ''remove'' then (if known c then 0 else 2, [], dict_del c rs)
          else if a = ''config'' \<and> b = ''--unset'' then quiet (config_unset c rs)
          else if a = ''config'' then quiet (config_set b c rs)
          else (0, [], rs)
      | [a, b, c, d] \<Rightarrow>
          if a = ''remote'' \<and> b = ''set-url'' then (if known c then 0 else 2, [], change c (\<lambda>g. g\<lparr>gr_url := d\<rparr>) rs)
          else if a = ''remote'' \<and> b = ''add''
          then (if known c then (3, [], rs)
                else (0, [], rs @ [(c, \<lparr>gr_url = d, gr_fetch = [tree_refspec c], gr_tags = None, gr_mirror = False\<rparr>)]))
          else if a = ''config'' \<and> b = ''--replace-all'' then quiet (config_fetch (\<lambda>_. [d]) c rs)
          else if a = ''config'' \<and> b = ''--add'' then quiet (config_fetch (\<lambda>vs. vs @ [d]) c rs)
          else (0, [], rs)
      | _ \<Rightarrow> (0, [], rs))"

definition bare_machine :: "path \<Rightarrow> bare_repo machine" where
  "bare_machine repo s c =
     (let yes = (\<lambda>b. \<lparr>rc = (if b then 0 else 1), out = [], entries = []\<rparr>) in
      case c of
        IsDir p \<Rightarrow> (yes (p = repo @ [''objects''] \<and> br_made s), s)
      | Exists p \<Rightarrow> (yes (br_alternates s \<noteq> None), s)
      | ReadText p \<Rightarrow> (case br_alternates s of None \<Rightarrow> (yes False, s) | Some t \<Rightarrow> ((yes True)\<lparr>out := t\<rparr>, s))
      | WriteText p t \<Rightarrow> (yes True, s\<lparr>br_alternates := Some t\<rparr>)
      | Git args \<Rightarrow>
          if args = [''init'', ''--bare'', path_str repo] then (yes True, s\<lparr>br_made := True\<rparr>)
          else if br_made s \<and> take 2 args = [''-C'', path_str repo]
          then (case remote_step (drop 2 args) (br_remotes s) of
                  (status, printed, rs) \<Rightarrow> (\<lparr>rc = status, out = printed, entries = []\<rparr>, s\<lparr>br_remotes := rs\<rparr>))
          else (yes False, s)
      | _ \<Rightarrow> (yes True, s))"

lemma change_keys [simp]: "keys (change n f rs) = keys rs"
  by (induction rs) (auto simp: change_def)

lemma change_dom [simp]: "fst ` set (change n f rs) = fst ` set rs"
  by (metis change_keys set_map)

lemma change_get [simp]: "dict_get (change n f rs) k = (if k = n then map_option f (dict_get rs k) else dict_get rs k)"
  by (induction rs) (auto simp: change_def)

lemma config_key_inject [simp]: "config_key n v = config_key n' v \<longleftrightarrow> n = n'"
  by (simp add: config_key_def)

lemma config_key_last: "v \<noteq> [] \<Longrightarrow> last (config_key n v) = last v"
  by (simp add: config_key_def)

lemma config_key_vars [simp]: "config_key n ''fetch'' \<noteq> config_key n' ''tagOpt''"
proof
  assume "config_key n ''fetch'' = config_key n' ''tagOpt''"
  then have "last (config_key n ''fetch'') = last (config_key n' ''tagOpt'')" by (rule arg_cong)
  then show False by (simp add: config_key_last)
qed

lemma owner_self [simp]: "owner v (config_key n v) rs = (if n \<in> set (keys rs) then Some n else None)"
proof (cases "filter (\<lambda>k. k = n) (keys rs)")
  case Nil
  then show ?thesis by (auto simp: owner_def filter_empty_conv)
next
  case (Cons m ms)
  then have "m \<in> set (filter (\<lambda>k. k = n) (keys rs))" by simp
  then have "m = n" "n \<in> set (keys rs)" by auto
  with Cons show ?thesis by (simp add: owner_def)
qed

lemma owner_other [simp]: "owner ''fetch'' (config_key n ''tagOpt'') rs = None"
  by (simp add: owner_def)

text \<open>What the steps leave of a remote.\<close>

definition provisioned :: "mirror_remote \<Rightarrow> git_remote" where
  "provisioned r = \<lparr>gr_url = mr_url r, gr_fetch = [mirror_refspec r], gr_tags = Some (tag_opt r), gr_mirror = False\<rparr>"

definition single_valued :: "(string, git_remote) dict \<Rightarrow> bool" where
  "single_valued rs = list_all (\<lambda>(_, g). length (gr_fetch g) \<le> 1) rs"

lemma exec_git:
  "br_made s \<Longrightarrow> bare_machine repo s (Git (in_tree repo args)) =
    (case remote_step args (br_remotes s) of
       (status, printed, rs) \<Rightarrow> (\<lparr>rc = status, out = printed, entries = []\<rparr>, s\<lparr>br_remotes := rs\<rparr>))"
  by (simp add: bare_machine_def in_tree_def)

lemma exec_git_run:
  "br_made s \<Longrightarrow> exec (git_run (in_tree repo args)) (bare_machine repo) s =
    (case remote_step args (br_remotes s) of
       (status, printed, rs) \<Rightarrow> (if status = 0 then Inr () else Inl CalledProcessError, s\<lparr>br_remotes := rs\<rparr>))"
  by (simp add: git_run_def exec_git holds_def split: prod.split)

lemma exec_git_ok:
  "br_made s \<Longrightarrow> exec (git_ok (in_tree repo args)) (bare_machine repo) s =
    (case remote_step args (br_remotes s) of (status, printed, rs) \<Rightarrow> (Inr (status = 0), s\<lparr>br_remotes := rs\<rparr>))"
  by (simp add: git_ok_def exec_git holds_def split: prod.split)

lemma exec_capture:
  "br_made s \<Longrightarrow> exec (git_capture_checked (in_tree repo args)) (bare_machine repo) s =
    (case remote_step args (br_remotes s) of
       (status, printed, rs) \<Rightarrow> (if status = 0 then Inr printed else Inl CalledProcessError, s\<lparr>br_remotes := rs\<rparr>))"
  by (simp add: git_capture_checked_def exec_git holds_def split: prod.split)

lemma exec_ensure_bare:
  "exec (ensure_bare repo) (bare_machine repo) s = (Inr (\<not> br_made s), s\<lparr>br_made := True\<rparr>)"
  by (cases "br_made s")
    (simp_all add: ensure_bare_def probe_def only_if_def nop_def act_def git_run_def bare_machine_def holds_def)

definition with_url :: "string \<Rightarrow> string \<Rightarrow> (string, git_remote) dict \<Rightarrow> (string, git_remote) dict" where
  "with_url n u rs =
     (if n \<in> set (keys rs) then change n (\<lambda>g. g\<lparr>gr_url := u\<rparr>) rs
      else rs @ [(n, \<lparr>gr_url = u, gr_fetch = [tree_refspec n], gr_tags = None, gr_mirror = False\<rparr>)])"

definition put_remote :: "mirror_remote \<Rightarrow> (string, git_remote) dict \<Rightarrow> (string, git_remote) dict" where
  "put_remote r rs =
     change (mr_name r) (\<lambda>g. g\<lparr>gr_mirror := False\<rparr>) (change (mr_name r) (\<lambda>g. g\<lparr>gr_tags := Some (tag_opt r)\<rparr>)
       (change (mr_name r) (\<lambda>g. g\<lparr>gr_fetch := [mirror_refspec r]\<rparr>) (with_url (mr_name r) (mr_url r) rs)))"

lemma with_url_keys: "set (keys (with_url n u rs)) = insert n (set (keys rs))"
  by (auto simp: with_url_def)

lemma with_url_dom [simp]: "fst ` set (with_url n u rs) = insert n (fst ` set rs)"
  using with_url_keys [of n u rs] by simp

lemma change_single:
  "single_valued rs \<Longrightarrow> (\<And>g. length (gr_fetch g) \<le> 1 \<Longrightarrow> length (gr_fetch (f g)) \<le> 1) \<Longrightarrow> single_valued (change n f rs)"
  by (auto simp: single_valued_def change_def list_all_iff)

lemma with_url_single: "single_valued rs \<Longrightarrow> single_valued (with_url n u rs)"
  by (auto simp: with_url_def change_single) (auto simp: single_valued_def)

lemma single_valuedD: "single_valued rs \<Longrightarrow> dict_get rs n = Some g \<Longrightarrow> \<not> length (gr_fetch g) > 1"
  using map_of_SomeD [of rs n g] by (auto simp: single_valued_def list_all_iff)

lemma put_remote_get:
  "dict_get (put_remote r rs) k = (if k = mr_name r then Some (provisioned r) else dict_get rs k)"
proof (cases "mr_name r \<in> set (keys rs)")
  case True
  then obtain g where "dict_get rs (mr_name r) = Some g" by (metis map_of_eq_None_iff not_Some_eq set_map)
  with True show ?thesis by (simp add: put_remote_def with_url_def provisioned_def)
next
  case False
  then have "dict_get rs (mr_name r) = None" by (simp add: map_of_eq_None_iff)
  with False show ?thesis by (simp add: put_remote_def with_url_def provisioned_def map_add_def split: option.split)
qed

lemma put_remote_keys: "set (keys (put_remote r rs)) = insert (mr_name r) (set (keys rs))"
  by (simp add: put_remote_def with_url_keys)

lemma put_remote_single: "single_valued rs \<Longrightarrow> single_valued (put_remote r rs)"
  unfolding put_remote_def by (intro change_single with_url_single) simp_all

lemma exec_point:
  assumes "br_made s"
  shows "exec (if n \<in> set (keys (br_remotes s)) then git_run (in_tree repo [''remote'', ''set-url'', n, u])
      else git_run (in_tree repo [''remote'', ''add'', n, u])) (bare_machine repo) s
    = (Inr (), s\<lparr>br_remotes := with_url n u (br_remotes s)\<rparr>)"
  using assms by (simp add: exec_git_run remote_step_def with_url_def)

lemma exec_config_set:
  assumes "br_made s" "single_valued (br_remotes s)" "n \<in> set (keys (br_remotes s))"
  shows "exec (git_run (in_tree repo [''config'', config_key n ''fetch'', v])) (bare_machine repo) s
      = (Inr (), s\<lparr>br_remotes := change n (\<lambda>g. g\<lparr>gr_fetch := [v]\<rparr>) (br_remotes s)\<rparr>)"
    "exec (git_run (in_tree repo [''config'', config_key n ''tagOpt'', v])) (bare_machine repo) s
      = (Inr (), s\<lparr>br_remotes := change n (\<lambda>g. g\<lparr>gr_tags := Some v\<rparr>) (br_remotes s)\<rparr>)"
    "exec (git_ok (in_tree repo [''config'', ''--unset'', config_key n ''mirror''])) (bare_machine repo) s
      = (Inr True, s\<lparr>br_remotes := change n (\<lambda>g. g\<lparr>gr_mirror := False\<rparr>) (br_remotes s)\<rparr>)"
proof -
  have plain: "config_key n v \<noteq> ''--unset''" for v by (simp add: config_key_def)
  obtain g where g: "dict_get (br_remotes s) n = Some g" using assms(3) by (metis map_of_eq_None_iff not_Some_eq set_map)
  note few = single_valuedD [OF assms(2) g]
  show "exec (git_run (in_tree repo [''config'', config_key n ''fetch'', v])) (bare_machine repo) s
      = (Inr (), s\<lparr>br_remotes := change n (\<lambda>g. g\<lparr>gr_fetch := [v]\<rparr>) (br_remotes s)\<rparr>)"
    using assms(1,3) g few plain by (simp add: exec_git_run remote_step_def config_set_def)
  show "exec (git_run (in_tree repo [''config'', config_key n ''tagOpt'', v])) (bare_machine repo) s
      = (Inr (), s\<lparr>br_remotes := change n (\<lambda>g. g\<lparr>gr_tags := Some v\<rparr>) (br_remotes s)\<rparr>)"
    using assms(1,3) plain by (simp add: exec_git_run remote_step_def config_set_def)
  show "exec (git_ok (in_tree repo [''config'', ''--unset'', config_key n ''mirror''])) (bare_machine repo) s
      = (Inr True, s\<lparr>br_remotes := change n (\<lambda>g. g\<lparr>gr_mirror := False\<rparr>) (br_remotes s)\<rparr>)"
    using assms(1,3) by (simp add: exec_git_ok remote_step_def config_unset_def)
qed

lemma provision_remote_effect:
  assumes "br_made s" and "single_valued (br_remotes s)"
  shows "exec (provision_remote repo r) (bare_machine repo) s = (Inr (), s\<lparr>br_remotes := put_remote r (br_remotes s)\<rparr>)"
proof -
  let ?n = "mr_name r"
  have url: "single_valued (with_url ?n (mr_url r) (br_remotes s))"
      "?n \<in> set (keys (with_url ?n (mr_url r) (br_remotes s)))"
    using assms(2) by (simp_all add: with_url_single with_url_keys del: set_map)
  have get: "exec (git_ok (in_tree repo [''remote'', ''get-url'', ?n])) (bare_machine repo) s
      = (Inr (?n \<in> set (keys (br_remotes s))), s)"
    using assms(1) by (simp add: exec_git_ok remote_step_def)
  note config = exec_config_set [where n = ?n and repo = repo]
  show ?thesis
    unfolding provision_remote_def exec_bind get prod.case sum.case exec_point [OF assms(1)]
    using assms(1) url by (simp add: config change_single put_remote_def exec_bind nop_def del: set_map)
qed

lemma split_ws_unlines: "list_all token_ok ns \<Longrightarrow> split_ws (unlines ns) = ns"
proof (induction ns)
  case (Cons n ns)
  have "unlines (n # ns) = n @ CHR 0x0A # unlines ns" by (simp add: unlines_def)
  moreover have "is_space (CHR 0x0A)" by code_simp
  ultimately show ?case using Cons by (simp add: split_ws_token split_ws_blank)
qed (simp add: unlines_def)

lemma dict_del_dom: "fst ` set (dict_del n rs) = fst ` set rs - {n}"
  by (force simp: dict_del_def)

lemma exec_remote_removals:
  assumes "br_made s" "set ns \<subseteq> set (keys (br_remotes s))" "distinct ns"
  shows "exec (for_each ns (\<lambda>n. git_run (in_tree repo [''remote'', ''remove'', n]))) (bare_machine repo) s
    = (Inr (), s\<lparr>br_remotes := filter (\<lambda>(k, _). k \<notin> set ns) (br_remotes s)\<rparr>)"
  using assms
proof (induction ns arbitrary: s)
  case Nil
  then show ?case by (simp add: nop_def case_prod_unfold)
next
  case (Cons n ns)
  have step: "exec (git_run (in_tree repo [''remote'', ''remove'', n])) (bare_machine repo) s
      = (Inr (), s\<lparr>br_remotes := dict_del n (br_remotes s)\<rparr>)"
    using Cons.prems by (simp add: exec_git_run remote_step_def)
  have "set ns \<subseteq> set (keys (br_remotes (s\<lparr>br_remotes := dict_del n (br_remotes s)\<rparr>)))"
    using Cons.prems by (auto simp: dict_del_dom)
  from Cons.IH [OF _ this] Cons.prems show ?case
    by (simp add: exec_bind step dict_del_def) (auto intro!: arg_cong [where f = "\<lambda>rs. s\<lparr>br_remotes := rs\<rparr>"] filter_cong)
qed

lemma exec_provisions:
  assumes "br_made s" "single_valued (br_remotes s)"
  shows "exec (for_each remotes (provision_remote repo)) (bare_machine repo) s
    = (Inr (), s\<lparr>br_remotes := fold put_remote remotes (br_remotes s)\<rparr>)"
  using assms
proof (induction remotes arbitrary: s)
  case (Cons r rs)
  then show ?case by (simp add: exec_bind provision_remote_effect put_remote_single)
qed (simp add: nop_def)

lemma filter_name:
  "distinct (map mr_name rs) \<Longrightarrow> r \<in> set rs \<Longrightarrow> filter (\<lambda>x. mr_name x = mr_name r) rs = [r]"
proof (induction rs)
  case (Cons a rs)
  show ?case
  proof (cases "r = a")
    case True
    have "filter (\<lambda>x. mr_name x = mr_name r) rs = []"
      using Cons.prems(1) True by (auto simp: filter_empty_conv image_iff)
    with True show ?thesis by simp
  next
    case False
    then have "r \<in> set rs" using Cons.prems(2) by simp
    moreover have "mr_name a \<noteq> mr_name r" using Cons.prems(1) calculation by (auto simp: image_iff)
    ultimately show ?thesis using Cons by simp
  qed
qed simp

lemma fold_put_get:
  "distinct (map mr_name remotes) \<Longrightarrow> dict_get (fold put_remote remotes rs) k =
    (case filter (\<lambda>r. mr_name r = k) remotes of [] \<Rightarrow> dict_get rs k | r # _ \<Rightarrow> Some (provisioned r))"
proof (induction remotes arbitrary: rs)
  case (Cons r remotes)
  have "filter (\<lambda>x. mr_name x = k) remotes = []" if "mr_name r = k"
    using Cons.prems that by (metis (mono_tags, lifting) distinct.simps(2) filter_False image_eqI list.simps(9) set_map)
  with Cons show ?case by (auto simp: put_remote_get split: list.split)
qed simp

lemma put_remote_dom [simp]: "fst ` set (put_remote r rs) = insert (mr_name r) (fst ` set rs)"
  using put_remote_keys [of r rs] by simp

lemma fold_put_keys: "fst ` set (fold put_remote remotes rs) = mr_name ` set remotes \<union> fst ` set rs"
  by (induction remotes arbitrary: rs) auto

text \<open>
  A mirror ends as configured. Provisioning the remotes of a mirror the steps compose, on a repository in
  any state (absent, or with whatever remotes an earlier configuration left, each with at most one refspec),
  succeeds and leaves exactly the remotes of the configuration, each with its URL, its one refspec and its tag
  option, and no \<open>--mirror\<close> flag.
\<close>

theorem provision_converges:
  assumes "build_mirror configs mdir project = Inr m"
    and "distinct (keys (br_remotes s))" "list_all token_ok (keys (br_remotes s))" "single_valued (br_remotes s)"
  shows "case exec (provision_remotes repo (mi_remotes m)) (bare_machine repo) s of
    (res, s') \<Rightarrow> res = Inr () \<and> br_made s' \<and> set (keys (br_remotes s')) = set (map mr_name (mi_remotes m))
      \<and> list_all (\<lambda>r. dict_get (br_remotes s') (mr_name r) = Some (provisioned r)) (mi_remotes m)"
proof -
  let ?remotes = "mi_remotes m" and ?made = "s\<lparr>br_made := True\<rparr>"
  let ?stale = "filter (\<lambda>n. n \<notin> set (map mr_name ?remotes)) (keys (br_remotes s))"
  let ?kept = "filter (\<lambda>(k, _). k \<notin> set ?stale) (br_remotes s)"
  have names: "exec (git_capture_checked (in_tree repo [''remote''])) (bare_machine repo) ?made
      = (Inr (unlines (keys (br_remotes s))), ?made)"
    by (simp add: exec_capture remote_step_def)
  have removed: "exec (for_each ?stale (\<lambda>n. git_run (in_tree repo [''remote'', ''remove'', n]))) (bare_machine repo) ?made
      = (Inr (), ?made\<lparr>br_remotes := ?kept\<rparr>)"
    using exec_remote_removals [of ?made ?stale repo] assms(2) by (simp del: set_map)
  have single: "single_valued ?kept" using assms(4) by (auto simp: single_valued_def list_all_iff)
  have run: "exec (provision_remotes repo ?remotes) (bare_machine repo) s
      = (Inr (), ?made\<lparr>br_remotes := fold put_remote ?remotes ?kept\<rparr>)"
    using removed exec_provisions [of "?made\<lparr>br_remotes := ?kept\<rparr>" ?remotes repo] single
    by (simp add: provision_remotes_def exec_bind exec_ensure_bare names split_ws_unlines [OF assms(3)] del: set_map)
  have distinct: "distinct (map mr_name ?remotes)" using build_mirror_ok [OF assms(1)] by (simp add: mirror_ok_def)
  have "dict_get (fold put_remote ?remotes ?kept) (mr_name r) = Some (provisioned r)" if "r \<in> set ?remotes" for r
  proof -
    show ?thesis by (simp add: fold_put_get [OF distinct] filter_name [OF distinct that])
  qed
  moreover have "set (keys (fold put_remote ?remotes ?kept)) = set (map mr_name ?remotes)"
    by (force simp: fold_put_keys)
  ultimately show ?thesis using run by (simp add: list_all_iff del: set_map)
qed

theorem provision_converges_witness:
  "(case build_mirror [] [''m''] ''fio'' of
      Inr m \<Rightarrow>
        (case exec (provision_remotes [''m'', ''fio.git''] (mi_remotes m)) (bare_machine [''m'', ''fio.git''])
            \<lparr>br_made = False, br_remotes = [(''stale'', \<lparr>gr_url = ''u'', gr_fetch = [], gr_tags = None, gr_mirror = True\<rparr>)],
              br_alternates = None\<rparr> of
          (res, s') \<Rightarrow> res = Inr () \<and> set (keys (br_remotes s')) = {''origin''})
    | _ \<Rightarrow> False)"
proof -
  obtain m where m: "build_mirror [] [''m''] ''fio'' = Inr m" and "map mr_name (mi_remotes m) = [''origin'']"
    by (simp add: build_mirror_def cfg_of_def no_cfg_def SINGLE_SOURCES_def single_repo_mirror_def FIO_SOURCES_def
        effective_protocol_def or_default_def Let_def)
  moreover have "list_all token_ok [''stale'']" by code_simp
  ultimately show ?thesis
    using provision_converges [OF m, of "\<lparr>br_made = False,
      br_remotes = [(''stale'', \<lparr>gr_url = ''u'', gr_fetch = [], gr_tags = None, gr_mirror = True\<rparr>)],
      br_alternates = None\<rparr>" "[''m'', ''fio.git'']"]
    by (simp add: single_valued_def case_prod_unfold del: set_map)
qed

section \<open>A Bare ends as configured\<close>

lemma exec_point_remote:
  "br_made s \<Longrightarrow> exec (point_remote repo n u) (bare_machine repo) s
    = (Inr (), s\<lparr>br_remotes := with_url n u (br_remotes s)\<rparr>)"
  by (simp add: point_remote_def exec_bind exec_git_ok remote_step_def with_url_def nop_def)

lemma exec_config_fetch:
  assumes "br_made s" "n \<in> set (keys (br_remotes s))"
  shows "exec (git_run (in_tree repo [''config'', ''--replace-all'', config_key n ''fetch'', v])) (bare_machine repo) s
      = (Inr (), s\<lparr>br_remotes := change n (\<lambda>g. g\<lparr>gr_fetch := [v]\<rparr>) (br_remotes s)\<rparr>)"
    "exec (git_run (in_tree repo [''config'', ''--add'', config_key n ''fetch'', v])) (bare_machine repo) s
      = (Inr (), s\<lparr>br_remotes := change n (\<lambda>g. g\<lparr>gr_fetch := gr_fetch g @ [v]\<rparr>) (br_remotes s)\<rparr>)"
  using assms by (simp_all add: exec_git_run remote_step_def config_fetch_def)

lemma change_change: "change n f (change n g rs) = change n (\<lambda>x. f (g x)) rs"
  by (induction rs) (auto simp: change_def)

lemma exec_adds:
  assumes "br_made s" "n \<in> set (keys (br_remotes s))"
  shows "exec (for_each vs (\<lambda>v. git_run (in_tree repo [''config'', ''--add'', config_key n ''fetch'', spec v]))) (bare_machine repo) s
    = (Inr (), s\<lparr>br_remotes := change n (\<lambda>g. g\<lparr>gr_fetch := gr_fetch g @ map spec vs\<rparr>) (br_remotes s)\<rparr>)"
  using assms
proof (induction vs arbitrary: s)
  case Nil
  have "change n (\<lambda>g. g) rs = rs" for rs by (induction rs) (auto simp: change_def)
  then show ?case by (simp add: nop_def)
next
  case (Cons v vs)
  then show ?case by (simp add: exec_bind exec_config_fetch change_change)
qed

lemma exec_alternates:
  assumes "line_ok (mirror_objects m)"
  shows "\<exists>t. exec (reconcile_alternates repo [m]) (bare_machine repo) s = (Inr (), s\<lparr>br_alternates := Some t\<rparr>)
    \<and> splitlines t = [mirror_objects m] \<and> (br_alternates s = Some u \<and> splitlines u = [mirror_objects m] \<longrightarrow> t = u)"
proof -
  have w: "splitlines (unlines [mirror_objects m]) = [mirror_objects m]" using assms by (simp add: splitlines_unlines)
  have d: "dedup [x] = [x]" for x :: string by (simp add: dedup_def)
  show ?thesis
  proof (cases "br_alternates s")
    case None
    then show ?thesis
      using w by (intro exI [of _ "unlines [mirror_objects m]"]) (simp add: reconcile_alternates_def Let_def d probe_def read_text_def act_def nop_def bare_machine_def holds_def)
  next
    case (Some t)
    then have same: "s\<lparr>br_alternates := Some t\<rparr> = s" by simp
    show ?thesis
    proof (cases "splitlines t = [mirror_objects m]")
      case True
      then show ?thesis using Some same
        by (intro exI [of _ t]) (simp add: reconcile_alternates_def Let_def d probe_def read_text_def nop_def bare_machine_def holds_def)
    next
      case False
      then show ?thesis using Some w
        by (intro exI [of _ "unlines [mirror_objects m]"])
          (auto simp: reconcile_alternates_def Let_def d probe_def read_text_def act_def bare_machine_def holds_def)
    qed
  qed
qed

definition bare_remotes :: "string \<Rightarrow> string \<Rightarrow> string list \<Rightarrow> (string, git_remote) dict \<Rightarrow> (string, git_remote) dict" where
  "bare_remotes mirror origin trees rs =
     change ''mirror'' (\<lambda>g. g\<lparr>gr_fetch := bare_refspecs trees\<rparr>) (with_url ''mirror'' mirror (with_url ''origin'' origin rs))"

lemma exec_ensure:
  assumes "line_ok (mirror_objects mirror)"
  shows "\<exists>t. exec (ensure mirror repo origin trees refresh) (bare_machine repo) s =
      (Inr (if \<not> br_made s then ''created'' else if refresh then ''refreshed'' else ''present''),
       s\<lparr>br_made := True, br_alternates := Some t, br_remotes := bare_remotes mirror origin trees (br_remotes s)\<rparr>)
    \<and> splitlines t = [mirror_objects mirror]
    \<and> (br_alternates s = Some u \<and> splitlines u = [mirror_objects mirror] \<longrightarrow> t = u)"
proof -
  let ?s = "s\<lparr>br_made := True\<rparr>"
  obtain t where t: "exec (reconcile_alternates repo [mirror]) (bare_machine repo) ?s = (Inr (), ?s\<lparr>br_alternates := Some t\<rparr>)"
      "splitlines t = [mirror_objects mirror]" "br_alternates s = Some u \<and> splitlines u = [mirror_objects mirror] \<longrightarrow> t = u"
    using exec_alternates [OF assms, of repo ?s u] by auto
  have fetch: "exec (git_ok (in_tree repo [''fetch'', ''--tags'', ''--force'', ''--prune'', ''--prune-tags'', ''mirror''])) (bare_machine repo) x
      = (Inr True, x)" if "br_made x" for x
    using that by (simp add: exec_git_ok remote_step_def)
  have "exec (ensure mirror repo origin trees refresh) (bare_machine repo) s =
      (Inr (if \<not> br_made s then ''created'' else if refresh then ''refreshed'' else ''present''),
       s\<lparr>br_made := True, br_alternates := Some t, br_remotes := bare_remotes mirror origin trees (br_remotes s)\<rparr>)"
    by (simp add: ensure_def exec_bind exec_ensure_bare t(1) exec_point_remote exec_config_fetch exec_adds fetch
        change_change bare_remotes_def bare_refspecs_def)
  with t(2,3) show ?thesis by blast
qed

definition all_url :: "string \<Rightarrow> string \<Rightarrow> (string, git_remote) dict \<Rightarrow> bool" where
  "all_url n u rs = (n \<in> set (keys rs) \<and> list_all (\<lambda>(k, g). k \<noteq> n \<or> gr_url g = u) rs)"

lemma with_url_same: "all_url n u rs \<Longrightarrow> with_url n u rs = rs"
proof -
  assume all: "all_url n u rs"
  have "change n (\<lambda>g. g\<lparr>gr_url := u\<rparr>) rs = rs"
    unfolding change_def using all by (intro map_idI) (auto simp: all_url_def list_all_iff)
  with all show ?thesis by (auto simp: with_url_def all_url_def)
qed

lemma all_url_with: "n \<notin> set (keys rs) \<or> True \<Longrightarrow> all_url n u (with_url n u rs)"
proof -
  have "list_all (\<lambda>(k, g). k \<noteq> n \<or> gr_url g = u) (with_url n u rs)"
    by (force simp: with_url_def change_def list_all_iff)
  then show ?thesis by (simp add: all_url_def with_url_keys del: set_map)
qed

lemma all_url_other: "all_url n u rs \<Longrightarrow> n \<noteq> n' \<Longrightarrow> all_url n u (with_url n' u' rs)"
  by (auto simp: all_url_def with_url_def change_def list_all_iff image_iff) force+

lemma all_url_change: "all_url n u rs \<Longrightarrow> (\<And>g. gr_url (f g) = gr_url g) \<Longrightarrow> all_url n u (change n' f rs)"
  unfolding all_url_def by (intro conjI) (simp, force simp: list_all_iff change_def)

lemma with_url_get:
  "dict_get (with_url n u rs) k =
    (if k = n then Some (case dict_get rs n of
        Some g \<Rightarrow> g\<lparr>gr_url := u\<rparr>
      | None \<Rightarrow> \<lparr>gr_url = u, gr_fetch = [tree_refspec n], gr_tags = None, gr_mirror = False\<rparr>)
     else dict_get rs k)"
proof (cases "dict_get rs n")
  case None
  then have "n \<notin> set (keys rs)" by (simp add: map_of_eq_None_iff)
  with None show ?thesis by (simp add: with_url_def map_add_def split: option.split)
next
  case (Some g)
  then have "n \<in> set (keys rs)" by (metis map_of_eq_None_iff not_Some_eq set_map)
  with Some show ?thesis by (simp add: with_url_def)
qed

lemma bare_remotes_again: "bare_remotes mirror origin trees (bare_remotes mirror origin trees rs) = bare_remotes mirror origin trees rs"
proof -
  let ?rs = "bare_remotes mirror origin trees rs"
  have "all_url ''origin'' origin ?rs" "all_url ''mirror'' mirror ?rs"
    unfolding bare_remotes_def by (intro all_url_change all_url_other all_url_with; simp)+
  then have "bare_remotes mirror origin trees ?rs = change ''mirror'' (\<lambda>g. g\<lparr>gr_fetch := bare_refspecs trees\<rparr>) ?rs"
    by (simp add: bare_remotes_def [of _ _ _ ?rs] with_url_same)
  also have "\<dots> = ?rs" by (simp add: bare_remotes_def change_change)
  finally show ?thesis .
qed



end
