(* ===== verification/GitRefs.thy ===== *)
theory GitRefs
  imports Mirrors JsonText
begin

text \<open>
  The ref pickers of the build forms, \<open>f/common/gitrefs.py\<close>: reading a bare repository's refs from its files,
  the options offered for a repository, kernel.org's releases with their cache, and the full name of a picked
  ref. A repository is its \<open>packed-refs\<close> text (none when it cannot be read) and the relative names of the loose
  files below \<open>refs/heads\<close>, \<open>refs/remotes\<close> and \<open>refs/tags\<close>; the times and the network of the release cache are
  inputs, and so is \<open>str\<close> of a JSON list or object.
\<close>

section \<open>The repository\<close>

record bare_files =
  gf_packed :: "string option"
  gf_loose :: "string \<Rightarrow> string list"

text \<open>\<open>_repo_dir\<close>: the Bare, else the mirror, of a directory with refs in it.\<close>

definition ref_dir_candidates :: "environ \<Rightarrow> string \<Rightarrow> path list" where
  "ref_dir_candidates env repo =
     (let system = env_path env ''SYSTEM_DIR'';
          mirrors = (case env_path env ''MIRRORS_DIR'' of
              Some m \<Rightarrow> Some m | None \<Rightarrow> map_option (\<lambda>s. s @ [''mirror'']) system) in
      map (\<lambda>root. root @ [repo @ ''.git''])
        ((case system of None \<Rightarrow> [] | Some s \<Rightarrow> [s @ [''bare'']]) @ (case mirrors of None \<Rightarrow> [] | Some m \<Rightarrow> [m])))"

fun first_with_refs :: "path list \<Rightarrow> path option prog" where
  "first_with_refs [] = Ret None"
| "first_with_refs (p # ps) =
     bind (probe (IsFile (p @ [''packed-refs'']))) (\<lambda>packed.
     bind (if packed then Ret True else probe (IsDir (p @ [''refs'']))) (\<lambda>there.
     if there then Ret (Some p) else first_with_refs ps))"

definition repo_dir :: "environ \<Rightarrow> string \<Rightarrow> path option prog" where
  "repo_dir env repo = first_with_refs (ref_dir_candidates env repo)"

datatype ref_kind = HeadRef | MirrorRef | RemoteRef | TagRef

definition REF_KINDS :: "(ref_kind \<times> string \<times> string) list" where
  "REF_KINDS =
     [(HeadRef, ''refs/heads/'', []), (MirrorRef, ''refs/remotes/mirror/'', ''mirror/''),
      (RemoteRef, ''refs/remotes/'', []), (TagRef, ''refs/tags/'', [])]"

definition classify :: "string \<Rightarrow> (string, ref_kind) dict \<Rightarrow> (string, ref_kind) dict" where
  "classify name refs =
     (case filter (\<lambda>(rk, pre, keyed). prefix pre name) REF_KINDS of
        [] \<Rightarrow> refs
      | (rk, pre, keyed) # _ \<Rightarrow> dict_set (keyed @ drop (length pre) name) rk refs)"

text \<open>The names of a \<open>packed-refs\<close> text: no header, no peeled tag.\<close>

definition packed_names :: "bare_files \<Rightarrow> string list" where
  "packed_names f =
     map (after_chr (CHR '' ''))
       (filter (\<lambda>l. l \<noteq> [] \<and> \<not> prefix ''#'' l \<and> \<not> prefix ''^'' l)
         (case gf_packed f of None \<Rightarrow> [] | Some t \<Rightarrow> splitlines t))"

definition loose_names :: "bare_files \<Rightarrow> string list \<Rightarrow> string list" where
  "loose_names f subs = concat (map (\<lambda>sub. map (\<lambda>p. ''refs/'' @ sub @ ''/'' @ p) (gf_loose f sub)) subs)"

definition read_refs :: "bare_files \<Rightarrow> (string, ref_kind) dict" where
  "read_refs f = fold classify (packed_names f @ loose_names f [''heads'', ''remotes'', ''tags'']) []"

section \<open>The order of tags\<close>

definition VERSION_RE :: re where
  "VERSION_RE = RSeqs [RBol, RLit ''v'', RGrp ''major'' (RPlus RDigit), RLit ''.'', RGrp ''minor'' (RPlus RDigit),
     ROpt (RSeqs [RLit ''.'', RGrp ''patch'' (RPlus RDigit)]), ROpt (RSeqs [RLit ''-rc'', RGrp ''rc'' (RPlus RDigit)]), REol]"

text \<open>
  The sort key, the tuple flattened: releases newest first, then their candidates, then the rest by name.
\<close>

definition tag_key :: "string \<Rightarrow> int list" where
  "tag_key name =
     (let by_name = map (\<lambda>c. int (ord_of c)) name;
          num = (\<lambda>m g. case grp m g of None \<Rightarrow> 0 | Some d \<Rightarrow> int (read_nat d)) in
      case re_match VERSION_RE name of
        None \<Rightarrow> [1, 0, 0, 0, 0, 0] @ by_name
      | Some m \<Rightarrow>
          [0, - num m ''major'', - num m ''minor'', - num m ''patch'',
           if grp m ''rc'' = None then 0 else 1, - num m ''rc''] @ by_name)"

section \<open>The releases of kernel.org\<close>

definition KORG_NUMERIC_RE :: re where
  "KORG_NUMERIC_RE = RSeqs [RBol, RPlus RDigit, RLit ''.'', RPlus RDigit,
     ROpt (RAlt (RSeqs [RLit ''.'', RPlus RDigit]) (RSeqs [RLit ''-rc'', RPlus RDigit])), REol]"

record release =
  rl_tag :: string
  rl_moniker :: string
  rl_iseol :: bool

definition json_str :: "(json \<Rightarrow> string) \<Rightarrow> json \<Rightarrow> string" where
  "json_str container v =
     (case v of
        JNull \<Rightarrow> ''None'' | JBool b \<Rightarrow> (if b then ''True'' else ''False'') | JInt n \<Rightarrow> show_int n | JStr s \<Rightarrow> s
      | _ \<Rightarrow> container v)"

definition json_items :: "json \<Rightarrow> json list option" where
  "json_items v =
     (case v of
        JList xs \<Rightarrow> Some xs
      | JStr s \<Rightarrow> (if s = [] then Some [] else None)
      | JObj d \<Rightarrow> (if d = [] then Some [] else None)
      | _ \<Rightarrow> None)"

fun korg_rows :: "(json \<Rightarrow> string) \<Rightarrow> json list \<Rightarrow> release list option" where
  "korg_rows container [] = Some []"
| "korg_rows container (JObj rel # rels) =
     (let field = (\<lambda>k. case dict_get rel k of None \<Rightarrow> [] | Some v \<Rightarrow> json_str container v);
          version = field ''version'' in
      case korg_rows container rels of
        None \<Rightarrow> None
      | Some rows \<Rightarrow>
          Some (if version = [] then rows
            else \<lparr>rl_tag = (if re_match KORG_NUMERIC_RE version = None then version else ''v'' @ version),
                   rl_moniker = field ''moniker'',
                   rl_iseol = (case dict_get rel ''iseol'' of None \<Rightarrow> False | Some v \<Rightarrow> truthy v)\<rparr> # rows))"
| "korg_rows container (_ # rels) = None"

definition parse_korg :: "(json \<Rightarrow> string) \<Rightarrow> string option \<Rightarrow> release list option" where
  "parse_korg container raw =
     (case raw of
        None \<Rightarrow> None
      | Some t \<Rightarrow>
          (case loads t of
             Some (JObj d) \<Rightarrow>
               (case dict_get d ''releases'' of
                  None \<Rightarrow> None
                | Some v \<Rightarrow> (case json_items v of None \<Rightarrow> None | Some rels \<Rightarrow> korg_rows container rels))
           | _ \<Rightarrow> None))"

text \<open>
  What the cache sees: whether there is a system directory to keep it in, the cache's text and whether it is
  young, whether a failed attempt was a moment ago, and what a fetch would bring; and what it does.
\<close>

record korg_in =
  ko_system :: bool
  ko_text :: "string option"
  ko_young :: bool
  ko_throttled :: bool
  ko_fetched :: "string option"

datatype korg_act = FetchReleases | StoreReleases string | DropMarker | TouchMarker

definition korg_releases :: "(json \<Rightarrow> string) \<Rightarrow> korg_in \<Rightarrow> release list \<times> korg_act list" where
  "korg_releases container i =
     (let text = (if ko_system i then ko_text i else None);
          fresh = (if ko_system i \<and> ko_young i then parse_korg container text else None);
          stale = (case parse_korg container text of None \<Rightarrow> [] | Some rows \<Rightarrow> rows) in
      case fresh of
        Some rows \<Rightarrow> (rows, [])
      | None \<Rightarrow>
          if ko_system i \<and> ko_throttled i then (stale, [])
          else (case parse_korg container (ko_fetched i) of
                  Some rows \<Rightarrow> (rows, FetchReleases # (if ko_system i then [StoreReleases (the (ko_fetched i)), DropMarker] else []))
                | None \<Rightarrow> (stale, FetchReleases # (if ko_system i then [TouchMarker] else []))))"

section \<open>The options of a picker\<close>

definition MAX_OPTIONS :: nat where "MAX_OPTIONS = 200"

definition release_label :: "(string, ref_kind) dict \<Rightarrow> release \<Rightarrow> string" where
  "release_label refs rel =
     (let notes = (if rl_moniker rel \<noteq> [] then [rl_moniker rel] else []) @ (if rl_iseol rel then [''EOL''] else [])
            @ (if rl_tag rel \<notin> set (keys refs) then [''not mirrored''] else []) in
      if notes = [] then rl_tag rel else rl_tag rel @ '' ('' @ join '', '' notes @ '')'')"

definition refs_of_kind :: "(string, ref_kind) dict \<Rightarrow> ref_kind \<Rightarrow> string \<Rightarrow> string list" where
  "refs_of_kind refs rk needle =
     map fst (filter (\<lambda>(n, k). k = rk \<and> contains needle (lower n)) refs)"

definition list_refs :: "bare_files option \<Rightarrow> release list \<Rightarrow> string \<Rightarrow> string \<Rightarrow> bool \<Rightarrow> (string \<times> string) list" where
  "list_refs bare releases repo filterText remotes =
     (case bare of
        None \<Rightarrow> []
      | Some f \<Rightarrow>
          (let refs = read_refs f; needle = lower filterText;
               korg = (if repo = ''linux''
                       then filter (\<lambda>(v, l). contains needle (lower l)) (map (\<lambda>rel. (rl_tag rel, release_label refs rel)) releases)
                       else []);
               heads = sort (refs_of_kind refs HeadRef needle);
               mirrors = sort (refs_of_kind refs MirrorRef needle);
               others = (if remotes then sort (refs_of_kind refs RemoteRef needle) else []);
               tags = sort_key tag_key (filter (\<lambda>n. n \<notin> set (map fst korg)) (refs_of_kind refs TagRef needle)) in
           take MAX_OPTIONS (korg @ map (\<lambda>n. (n, n)) (heads @ mirrors @ others @ tags))))"

section \<open>The full name of a ref\<close>

definition read_refnames :: "bare_files \<Rightarrow> string list" where
  "read_refnames f =
     dedup (filter (prefix ''refs/'') (packed_names f) @ loose_names f [''heads'', ''tags'', ''remotes''])"

definition ref_candidates :: "string \<Rightarrow> string list" where
  "ref_candidates ref =
     (if prefix ''refs/'' ref then [ref]
      else [''refs/tags/'' @ ref, ''refs/remotes/mirror/'' @ ref, ''refs/heads/'' @ ref, ''refs/remotes/'' @ ref])"

definition qualify_ref :: "bare_files option \<Rightarrow> string \<Rightarrow> string option" where
  "qualify_ref bare ref =
     (case bare of
        None \<Rightarrow> None
      | Some f \<Rightarrow>
          (case filter (\<lambda>c. c \<in> set (read_refnames f)) (ref_candidates ref) of [] \<Rightarrow> None | c # _ \<Rightarrow> Some c))"

section \<open>What is offered can be built\<close>

lemma dict_set_entries: "(k, v) \<in> set (dict_set k' v' d) \<Longrightarrow> (k, v) = (k', v') \<or> (k, v) \<in> set d"
  by (induction k' v' d rule: dict_set.induct) (auto split: if_splits)

text \<open>The full name behind a classified ref.\<close>

definition full_name :: "string \<Rightarrow> ref_kind \<Rightarrow> string" where
  "full_name n rk = (case rk of HeadRef \<Rightarrow> ''refs/heads/'' | TagRef \<Rightarrow> ''refs/tags/'' | _ \<Rightarrow> ''refs/remotes/'') @ n"

lemma classify_entry:
  assumes "(n, rk) \<in> set (classify name refs)" "(n, rk) \<notin> set refs"
  shows "full_name n rk = name"
proof -
  let ?hits = "filter (\<lambda>(rk, pre, keyed). prefix pre name) REF_KINDS"
  obtain rk' pre keyed rest where hits: "?hits = (rk', pre, keyed) # rest"
    using assms by (cases ?hits) (auto simp: classify_def)
  then have "(rk', pre, keyed) \<in> set REF_KINDS" "prefix pre name"
    by (metis (no_types, lifting) case_prodD filter_eq_ConsD in_set_conv_decomp list.set_intros(1) mem_Collect_eq set_filter)+
  moreover have "n = keyed @ drop (length pre) name" "rk = rk'"
    using assms hits by (auto simp: classify_def dest!: dict_set_entries)
  ultimately show ?thesis by (auto simp: REF_KINDS_def full_name_def prefix_def)
qed

lemma read_refs_entry:
  "(n, rk) \<in> set (fold classify names refs) \<Longrightarrow> (n, rk) \<in> set refs \<or> full_name n rk \<in> set names"
proof (induction names arbitrary: refs)
  case (Cons name names)
  from Cons.IH [of "classify name refs"] Cons.prems show ?case using classify_entry [of n rk name refs] by auto
qed simp

lemma read_refs_named:
  assumes "(n, rk) \<in> set (read_refs f)"
  shows "full_name n rk \<in> set (read_refnames f)"
proof -
  have "full_name n rk \<in> set (packed_names f @ loose_names f [''heads'', ''remotes'', ''tags''])"
    using read_refs_entry [of n rk] assms unfolding read_refs_def by fastforce
  moreover have "prefix ''refs/'' (full_name n rk)" by (cases rk) (simp_all add: full_name_def)
  ultimately show ?thesis by (auto simp: read_refnames_def loose_names_def)
qed

lemma list_refs_origin:
  assumes "(v, l) \<in> set (list_refs (Some f) releases repo filterText remotes)"
  shows "(\<exists>rk. (v, rk) \<in> set (read_refs f)) \<or> repo = ''linux'' \<and> v \<in> set (map rl_tag releases)"
proof -
  have kinds: "\<exists>rk. (n, rk) \<in> set (read_refs f)" if "n \<in> set (refs_of_kind (read_refs f) k needle)" for n k needle
    using that by (auto simp: refs_of_kind_def)
  from assms have "v \<in> set (map fst (list_refs (Some f) releases repo filterText remotes))" by force
  then show ?thesis
    unfolding list_refs_def option.case Let_def
    by (auto dest!: in_set_takeD kinds split: if_splits)
qed

lemma filter_Some: "(case filter P xs of [] \<Rightarrow> None | c # _ \<Rightarrow> Some c) = Some y \<Longrightarrow> P y \<and> y \<in> set xs"
  by (cases "filter P xs") (auto simp: filter_eq_Cons_iff)

text \<open>
  Whatever a picker offers can be built. A value offered for a repository that has refs, other than a release
  of kernel.org that is labelled \<open>not mirrored\<close>, is qualified to a full name the repository has, unless the
  value itself starts with \<open>refs/\<close>.
\<close>

theorem picks_qualify:
  assumes "(v, l) \<in> set (list_refs (Some f) releases repo filterText remotes)"
    and "repo \<noteq> ''linux'' \<or> v \<notin> set (map rl_tag releases) \<or> v \<in> set (keys (read_refs f))" and "\<not> prefix ''refs/'' v"
  shows "case qualify_ref (Some f) v of None \<Rightarrow> False
    | Some full \<Rightarrow> full \<in> set (read_refnames f) \<and> full \<in> set (ref_candidates v)"
proof -
  obtain rk where "(v, rk) \<in> set (read_refs f)" using list_refs_origin [OF assms(1)] assms(2) by auto
  then have "full_name v rk \<in> set (read_refnames f)" by (rule read_refs_named)
  moreover have "full_name v rk \<in> set (ref_candidates v)"
    using assms(3) by (cases rk) (simp_all add: full_name_def ref_candidates_def)
  ultimately have "filter (\<lambda>c. c \<in> set (read_refnames f)) (ref_candidates v) \<noteq> []" by (auto simp: filter_empty_conv)
  then show ?thesis
    by (cases "filter (\<lambda>c. c \<in> set (read_refnames f)) (ref_candidates v)")
      (auto simp: qualify_ref_def filter_eq_Cons_iff)
qed

definition refs_example :: bare_files where
  "refs_example = \<lparr>gf_packed = Some (unlines [''# pack-refs'', ''abc refs/tags/v6.1'', ''^def'', ''abc refs/remotes/mirror/master'']),
     gf_loose = (\<lambda>sub. if sub = ''heads'' then [''topic/a''] else [])\<rparr>"

theorem picks_qualify_witness:
  "(''mirror/master'', ''mirror/master'') \<in> set (list_refs (Some refs_example) [] ''qemu'' [] False)
   \<and> qualify_ref (Some refs_example) ''mirror/master'' = Some ''refs/remotes/mirror/master''"
proof -
  have names: "packed_names refs_example = [''refs/tags/v6.1'', ''refs/remotes/mirror/master'']" by code_simp
  have read: "read_refs refs_example = [(''v6.1'', TagRef), (''mirror/master'', MirrorRef), (''topic/a'', HeadRef)]" by code_simp
  have offered: "(''mirror/master'', ''mirror/master'') \<in> set (list_refs (Some refs_example) [] ''qemu'' [] False)"
    by (simp add: list_refs_def read refs_of_kind_def MAX_OPTIONS_def Let_def lower_def)
  from picks_qualify [OF offered]
  have "case qualify_ref (Some refs_example) ''mirror/master'' of None \<Rightarrow> False
    | Some full \<Rightarrow> full \<in> set (read_refnames refs_example) \<and> full \<in> set (ref_candidates ''mirror/master'')" by simp
  moreover have "read_refnames refs_example = [''refs/tags/v6.1'', ''refs/remotes/mirror/master'', ''refs/heads/topic/a'']"
    by code_simp
  ultimately show ?thesis using offered by (auto simp: ref_candidates_def split: option.splits)
qed

section \<open>The picker and the worktree agree\<close>

text \<open>
  How git reads a short name: the first of these rules that names a ref. A repository answers \<open>rev-parse\<close> for the
  names it has, each with the commit \<open>tip\<close> gives it.
\<close>

definition rev_rules :: "string \<Rightarrow> string list" where
  "rev_rules name =
     [name, ''refs/'' @ name, ''refs/tags/'' @ name, ''refs/heads/'' @ name, ''refs/remotes/'' @ name,
      ''refs/remotes/'' @ name @ ''/HEAD'']"

definition rev_parse :: "string list \<Rightarrow> string \<Rightarrow> string option" where
  "rev_parse names name =
     (case filter (\<lambda>c. c \<in> set names) (rev_rules name) of [] \<Rightarrow> None | c # _ \<Rightarrow> Some c)"

definition COMMIT_OF :: string where "COMMIT_OF = ''^{commit}''"

definition refs_machine :: "path \<Rightarrow> string list \<Rightarrow> (string \<Rightarrow> string) \<Rightarrow> unit machine" where
  "refs_machine bare names tip w c =
     (case c of
        Git args \<Rightarrow>
          (let spec = last args;
               found = (if args = in_tree bare [''rev-parse'', ''--verify'', ''--quiet'', spec] \<and> suffix COMMIT_OF spec
                        then rev_parse names (take (length spec - length COMMIT_OF) spec) else None) in
           case found of
             None \<Rightarrow> (\<lparr>rc = 1, out = [], entries = []\<rparr>, w)
           | Some ref \<Rightarrow> (\<lparr>rc = 0, out = tip ref @ nl, entries = []\<rparr>, w))
      | _ \<Rightarrow> (\<lparr>rc = 1, out = [], entries = []\<rparr>, w))"

text \<open>The names that would shadow one of the four a short name stands for.\<close>

definition shadows :: "string \<Rightarrow> string list" where
  "shadows ref =
     tl (rev_rules (''refs/tags/'' @ ref))
     @ [''mirror/'' @ ref, ''refs/mirror/'' @ ref, ''refs/tags/mirror/'' @ ref, ''refs/heads/mirror/'' @ ref,
        ''refs/remotes/mirror/'' @ ref @ ''/HEAD'', ref, ''refs/'' @ ref, ''refs/remotes/'' @ ref @ ''/HEAD'']"

lemma verify_exec:
  assumes "\<And>r. token_ok (tip r)"
  shows "exec (verify_commit bare name) (refs_machine bare names tip) w =
    (Inr (case rev_parse names name of None \<Rightarrow> [] | Some r \<Rightarrow> tip r), w)"
proof -
  have "strip (tip r @ nl) = tip r" for r
  proof -
    obtain c cs where c: "tip r = c # cs" "\<not> is_space c" using assms [of r] by (cases "tip r") (auto simp: token_ok_def)
    then have "lstrip_by is_space (tip r @ nl) = tip r @ nl" by (simp add: lstrip_by_id)
    moreover have "rstrip (tip r @ nl) = rstrip (tip r)" by (simp add: rstrip_by_def is_space_def)
    moreover have "rstrip (tip r) = tip r" using assms [of r] by (intro rstrip_by_id) (auto simp: token_ok_def)
    ultimately show ?thesis by (simp add: strip_by_def)
  qed
  moreover have "take (length (name @ COMMIT_OF) - length COMMIT_OF) (name @ COMMIT_OF) = name" by simp
  moreover have "strip [] = []" by code_simp
  ultimately show ?thesis
    by (auto simp: verify_commit_def git_capture_def refs_machine_def COMMIT_OF_def [symmetric] in_tree_def Let_def suffix_def
        split: option.split)
qed



end
