(* ===== verification/MakeFlags.thy ===== *)
theory MakeFlags
  imports Remote Worktree
begin

text \<open>
  The make flags of a kernel build: \<open>f/kernel/build_flags.py\<close> composes one shell-quoted string, which every make
  step splits again (\<open>shlex.split\<close>), \<open>configure_fragments\<close> passes through the environment
  (\<open>flags_to_env\<close> of \<open>f/common/devshell.py\<close>) and the kernel checks extend (\<open>counting\<close> of
  \<open>f/kernel/checks.py\<close>). What make does with a command line is the last section: of two assignments of a
  variable the last one counts.
\<close>

section \<open>Splitting a command line\<close>

text \<open>
  \<open>shlex.split\<close> (POSIX mode, no comments): blanks separate, single and double quotes group, a backslash
  escapes, between double quotes only itself and the quote. An open quote or escape is a \<open>ValueError\<close>.
\<close>

datatype shlex_state = Word | Quoted | DoubleQuoted | Escaped | DoubleEscaped

definition shlex_blank :: "char \<Rightarrow> bool" where
  "shlex_blank c = (c \<in> set [CHR 0x20, CHR 0x09, CHR 0x0D, CHR 0x0A])"

definition started_word :: "string option \<Rightarrow> string" where
  "started_word cur = (case cur of None \<Rightarrow> [] | Some w \<Rightarrow> w)"

definition emitted :: "string option \<Rightarrow> string list" where
  "emitted cur = (case cur of None \<Rightarrow> [] | Some w \<Rightarrow> [w])"

fun shlex_scan :: "shlex_state \<Rightarrow> string option \<Rightarrow> string \<Rightarrow> string list result" where
  "shlex_scan q cur [] = (if q = Word then Inr (emitted cur) else Inl ValueError)"
| "shlex_scan Word cur (c # cs) =
     (if shlex_blank c then andthen (shlex_scan Word None cs) (\<lambda>ws. Inr (emitted cur @ ws))
      else if c = CHR 0x27 then shlex_scan Quoted (Some (started_word cur)) cs
      else if c = CHR 0x22 then shlex_scan DoubleQuoted (Some (started_word cur)) cs
      else if c = CHR 0x5C then shlex_scan Escaped (Some (started_word cur)) cs
      else shlex_scan Word (Some (started_word cur @ [c])) cs)"
| "shlex_scan Quoted cur (c # cs) =
     (if c = CHR 0x27 then shlex_scan Word cur cs else shlex_scan Quoted (Some (started_word cur @ [c])) cs)"
| "shlex_scan DoubleQuoted cur (c # cs) =
     (if c = CHR 0x22 then shlex_scan Word cur cs
      else if c = CHR 0x5C then shlex_scan DoubleEscaped cur cs
      else shlex_scan DoubleQuoted (Some (started_word cur @ [c])) cs)"
| "shlex_scan Escaped cur (c # cs) = shlex_scan Word (Some (started_word cur @ [c])) cs"
| "shlex_scan DoubleEscaped cur (c # cs) =
     shlex_scan DoubleQuoted
       (Some (started_word cur @ (if c \<noteq> CHR 0x5C \<and> c \<noteq> CHR 0x22 then [CHR 0x5C, c] else [c]))) cs"

definition shlex_split :: "string \<Rightarrow> string list result" where
  "shlex_split s = shlex_scan Word None s"

section \<open>Composing the flags\<close>

definition FIXED_TIMESTAMP :: string where "FIXED_TIMESTAMP = ''Sun Aug 25 20:57:08 UTC 1991''"

text \<open>\<open>write_ccache_conf\<close>; the workers' directory is named by its real path.\<close>

definition write_ccache_conf :: "environ \<Rightarrow> int \<Rightarrow> path prog" where
  "write_ccache_conf env max_size_gib =
     (if max_size_gib < 1 then Raise ValueError
      else bind (of_result (workers_env env)) (\<lambda>w.
           Do (RealPath w) (\<lambda>there.
           bind (of_result (ccache_dir env)) (\<lambda>cache.
           bind (act (Mkdir cache)) (\<lambda>_.
           bind (act (WriteText (cache @ [''ccache.conf'']) (unlines
             [''# kdevops-ng managed ccache config (written by the build steps).'',
              ''# Only the settings that differ from ccache'' @ [CHR 0x27] @ ''s defaults are listed.'',
              ''cache_dir = '' @ path_str cache,
              ''max_size = '' @ show_int max_size_gib @ ''.0 GiB'',
              ''base_dir = '' @ out there]))) (\<lambda>_.
           Ret (cache @ [''ccache.conf''])))))))"

definition CLANG_PROBE :: string where
  "CLANG_PROBE =
     ''printf '' @ [CHR 0x22] @ ''%s'' @ [CHR 0x5C] @ ''n%s'' @ [CHR 0x22] @ '' '' @ [CHR 0x22] @ ''$KERNEL_CLANG_CC'' @ [CHR 0x22]
     @ '' '' @ [CHR 0x22] @ ''$KERNEL_CLANG_RESOURCE'' @ [CHR 0x22]"

definition clang_toolchain :: "environ \<Rightarrow> (string \<times> string) prog" where
  "clang_toolchain env =
     bind (of_result (workers_env env)) (\<lambda>_.
     bind (dev_capture ''build-kernel'' [''bash'', ''-c'', CLANG_PROBE]) (\<lambda>t.
       let cc = strip (before_chr (CHR 0x0A) t); resource = strip (after_chr (CHR 0x0A) t) in
       if cc = [] \<or> resource = [] then Raise RuntimeError else Ret (cc, resource)))"

text \<open>The first token that assigns a variable; \<open>fold_flag\<close> adds to it, or a token of its own at the end.\<close>

definition assigns :: "string \<Rightarrow> string \<Rightarrow> bool" where
  "assigns var tok = prefix (var @ ''='') tok"

definition value_of :: "string \<Rightarrow> string \<Rightarrow> string" where
  "value_of var tok = drop (length var + 1) tok"

fun extend_first :: "string \<Rightarrow> string \<Rightarrow> string list \<Rightarrow> string list option" where
  "extend_first var flag [] = None"
| "extend_first var flag (tok # toks) =
     (if assigns var tok then Some ((var @ ''='' @ strip (value_of var tok @ '' '' @ flag)) # toks)
      else map_option (\<lambda>ts. tok # ts) (extend_first var flag toks))"

definition merge_kcflags :: "string list \<Rightarrow> string list \<Rightarrow> string list" where
  "merge_kcflags extra kcflags =
     (let picked = join '' '' kcflags in
      case extend_first ''KCFLAGS'' picked extra of
        None \<Rightarrow> extra @ [''KCFLAGS='' @ picked]
      | Some merged \<Rightarrow> merged)"

definition merge_prefix_var :: "string \<Rightarrow> string \<Rightarrow> string list \<times> string list \<Rightarrow> string list \<times> string list" where
  "merge_prefix_var prefix_map var = (\<lambda>(merged, own).
     case extend_first var prefix_map merged of
       None \<Rightarrow> (merged, own @ [var @ ''='' @ prefix_map])
     | Some m \<Rightarrow> (m, own))"

definition merge_prefix_map :: "string list \<Rightarrow> string \<Rightarrow> string list \<Rightarrow> string list \<times> string list" where
  "merge_prefix_map extra prefix_map own =
     merge_prefix_var prefix_map ''KAFLAGS'' (merge_prefix_var prefix_map ''KCFLAGS'' (extra, own))"

text \<open>\<open>os.path.commonpath\<close> of two absolute paths.\<close>

fun common_path :: "path \<Rightarrow> path \<Rightarrow> path" where
  "common_path (a # as) (b # bs) = (if a = b then a # common_path as bs else [])"
| "common_path _ _ = []"

record flags_in =
  fi_compiler :: string
  fi_reproducible :: bool
  fi_ccache :: bool
  fi_ccache_max_size :: int
  fi_timestamp_from_commit :: bool
  fi_make_flags :: string
  fi_extra_warn :: "string list"
  fi_kcflags :: "string list"
  fi_worktree :: string
  fi_build_dir :: string
  fi_commit :: string

definition compiler_parts :: "environ \<Rightarrow> flags_in \<Rightarrow> string list prog" where
  "compiler_parts env i =
     (if fi_compiler i = ''clang''
      then bind (clang_toolchain env) (\<lambda>(cc, resource).
             Ret [''LLVM=1'', (if fi_ccache i then ''CC=ccache '' @ cc else ''CC='' @ cc),
                  ''CFLAGS_KERNEL=-I'' @ resource, ''CFLAGS_MODULE=-I'' @ resource])
      else Ret (if fi_ccache i then [''CC=ccache '' @ fi_compiler i] else []))"

definition build_timestamp :: "environ \<Rightarrow> flags_in \<Rightarrow> string prog" where
  "build_timestamp env i =
     (if fi_timestamp_from_commit i \<and> fi_worktree i \<noteq> [] \<and> fi_commit i \<noteq> []
      then bind (resolve_git env) (\<lambda>_.
           bind (git_capture_checked [''-C'', fi_worktree i, ''log'', ''-1'', ''--format=%cd'', fi_commit i]) (\<lambda>t.
           Ret (if strip t = [] then FIXED_TIMESTAMP else strip t)))
      else Ret FIXED_TIMESTAMP)"

definition reproducible_parts :: "string \<Rightarrow> string list" where
  "reproducible_parts timestamp =
     [''KBUILD_BUILD_TIMESTAMP='' @ timestamp, ''KBUILD_BUILD_USER=kdevops'', ''KBUILD_BUILD_HOST=kdevops'', ''LOCALVERSION='']"

text \<open>\<open>os.path.abspath\<close>, from the directory the step runs in.\<close>

definition abspath :: "path \<Rightarrow> string \<Rightarrow> path" where
  "abspath cwd p = resolve_path (path_join cwd p)"

definition prefix_map_of :: "path \<Rightarrow> flags_in \<Rightarrow> string" where
  "prefix_map_of cwd i =
     (if fi_reproducible i \<and> fi_worktree i \<noteq> [] \<and> fi_build_dir i \<noteq> []
      then ''-fdebug-prefix-map='' @ path_str (common_path (abspath cwd (fi_worktree i)) (abspath cwd (fi_build_dir i))) @ ''/=''
      else [])"

definition compose_flags :: "path \<Rightarrow> flags_in \<Rightarrow> string list \<Rightarrow> string list result" where
  "compose_flags cwd i own0 =
     (let own = own0 @ (if fi_extra_warn i = [] then [] else [''W='' @ concat (sort (dedup (fi_extra_warn i)))]) in
      andthen (if fi_make_flags i = [] then Inr [] else shlex_split (fi_make_flags i)) (\<lambda>user.
        let extra = (if fi_kcflags i = [] then user else merge_kcflags user (fi_kcflags i));
            (extra', own') = (if prefix_map_of cwd i = [] then (extra, own) else merge_prefix_map extra (prefix_map_of cwd i) own) in
        Inr (own' @ extra')))"

definition build_flags :: "environ \<Rightarrow> path \<Rightarrow> flags_in \<Rightarrow> (string \<times> path option) prog" where
  "build_flags env cwd i =
     (if fi_compiler i \<notin> set [''gcc'', ''clang''] then Raise ValueError
      else bind (if fi_ccache i then bind (write_ccache_conf env (fi_ccache_max_size i)) (\<lambda>p. Ret (Some p)) else Ret None) (\<lambda>conf.
           bind (compiler_parts env i) (\<lambda>cparts.
           bind (if fi_reproducible i then bind (build_timestamp env i) (\<lambda>t. Ret (reproducible_parts t)) else Ret []) (\<lambda>rparts.
           bind (of_result (compose_flags cwd i (cparts @ rparts))) (\<lambda>argv.
           Ret (shlex_join argv, conf))))))"

section \<open>Passing them on\<close>

text \<open>\<open>flags_to_env\<close>: the tokens \<open>KEY=VALUE\<close>, options left out.\<close>

definition env_token :: "string \<Rightarrow> (string, string) dict \<Rightarrow> (string, string) dict" where
  "env_token tok env =
     (if CHR ''='' \<in> set tok \<and> \<not> prefix ''-'' tok
      then dict_set (before_chr (CHR ''='') tok) (after_chr (CHR ''='') tok) env else env)"

definition flags_to_env :: "string \<Rightarrow> (string, string) dict result" where
  "flags_to_env make_flags = andthen (shlex_split make_flags) (\<lambda>toks. Inr (fold env_token toks []))"

definition add_flag :: "string \<Rightarrow> string \<Rightarrow> string list \<Rightarrow> string list" where
  "add_flag var flag tokens =
     (case extend_first var flag tokens of None \<Rightarrow> tokens @ [var @ ''='' @ flag] | Some ts \<Rightarrow> ts)"

definition counting :: "string \<Rightarrow> string result" where
  "counting make_flags =
     andthen (shlex_split make_flags) (\<lambda>tokens.
       Inr (shlex_join (add_flag ''KRUSTFLAGS'' ''--cap-lints=warn'' (add_flag ''KCFLAGS'' ''-Wno-error'' tokens))))"

section \<open>What arrives\<close>

lemma scan_word: "list_all shell_safe s \<Longrightarrow> shlex_scan Word (Some w) (s @ t) = shlex_scan Word (Some (w @ s)) t"
proof (induction s arbitrary: w)
  case (Cons c s)
  then have "\<not> shlex_blank c \<and> c \<noteq> CHR 0x27 \<and> c \<noteq> CHR 0x22 \<and> c \<noteq> CHR 0x5C"
    by (auto simp: shell_safe_def shlex_blank_def is_alnum_ascii_def is_digit_def is_lower_ascii_def is_upper_ascii_def)
  with Cons show ?case by (simp add: started_word_def)
qed simp

lemma scan_single_quotes:
  "shlex_scan Quoted (Some w)
     (concat (map (\<lambda>c. if c = CHR 0x27 then [CHR 0x27, CHR 0x22, CHR 0x27, CHR 0x22, CHR 0x27] else [c]) s) @ CHR 0x27 # t)
   = shlex_scan Word (Some (w @ s)) t"
proof (induction s arbitrary: w)
  case (Cons c s)
  have "\<not> shlex_blank (CHR 0x27)" "\<not> shlex_blank (CHR 0x22)" by (simp_all add: shlex_blank_def)
  with Cons show ?case by (simp add: started_word_def)
qed simp

lemma scan_quote: "shlex_scan Word None (shlex_quote s @ t) = shlex_scan Word (Some s) t"
proof (cases "s = [] \<or> \<not> list_all shell_safe s")
  case True
  have "\<not> shlex_blank (CHR 0x27)" by (simp add: shlex_blank_def)
  then show ?thesis using True scan_single_quotes [of "[]" s t] by (auto simp: shlex_quote_def started_word_def)
next
  case False
  then obtain c cs where s: "s = c # cs" "shell_safe c" "list_all shell_safe cs" by (cases s) auto
  then have "\<not> shlex_blank c \<and> c \<noteq> CHR 0x27 \<and> c \<noteq> CHR 0x22 \<and> c \<noteq> CHR 0x5C"
    by (auto simp: shell_safe_def shlex_blank_def is_alnum_ascii_def is_digit_def is_lower_ascii_def is_upper_ascii_def)
  with False s scan_word [of cs "[c]" t] show ?thesis by (simp add: shlex_quote_def started_word_def)
qed

lemma shlex_split_join: "shlex_split (shlex_join args) = Inr args"
proof (induction args)
  case Nil
  then show ?case by (simp add: shlex_split_def shlex_join_def emitted_def)
next
  case (Cons a as)
  show ?case
  proof (cases as)
    case Nil
    then show ?thesis using scan_quote [of a "[]"] by (simp add: shlex_split_def shlex_join_def emitted_def)
  next
    case (Cons b bs)
    then have "shlex_join (a # as) = shlex_quote a @ '' '' @ shlex_join as" by (simp add: shlex_join_def)
    moreover have "shlex_blank (CHR '' '')" by (simp add: shlex_blank_def)
    ultimately show ?thesis
      using Cons.IH scan_quote [of a "'' '' @ shlex_join as"] by (simp add: shlex_split_def emitted_def)
  qed
qed

section \<open>What a variable ends up as\<close>

text \<open>The words of a text do not depend on the blanks around it.\<close>

lemma split_ws_lstrip: "split_ws (dropWhile is_space s) = split_ws s"
  by (subst (1 2) split_ws.simps) simp

lemma split_ws_spaces: "\<forall>c \<in> set s. is_space c \<Longrightarrow> split_ws s = []"
  by (subst split_ws.simps) (simp add: Let_def dropWhile_eq_Nil_conv)

lemma split_ws_append: "is_space c \<Longrightarrow> split_ws (a @ c # b) = split_ws a @ split_ws b"
proof (induction a rule: split_ws.induct)
  case (1 a)
  define t where "t = dropWhile is_space a"
  show ?case
  proof (cases "t = []")
    case True
    then have blank: "\<forall>c \<in> set a. is_space c" by (simp add: t_def dropWhile_eq_Nil_conv)
    with 1(2) have "dropWhile is_space (a @ c # b) = dropWhile is_space b" by (simp add: dropWhile_append)
    then show ?thesis using split_ws_lstrip [of "a @ c # b"] split_ws_lstrip [of b] split_ws_spaces [OF blank] by simp
  next
    case False
    then have drop: "dropWhile is_space (a @ c # b) = t @ c # b" by (auto simp: t_def dropWhile_append)
    have "takeWhile (\<lambda>c. \<not> is_space c) (t @ c # b) = takeWhile (\<lambda>c. \<not> is_space c) t"
      "dropWhile (\<lambda>c. \<not> is_space c) (t @ c # b) = dropWhile (\<lambda>c. \<not> is_space c) t @ c # b"
      using 1(2) by (auto simp: takeWhile_append dropWhile_append intro!: takeWhile_eq_all_conv [THEN iffD2, symmetric])
    with False 1(1) [OF t_def False 1(2)] show ?thesis
      by (subst (1 2) split_ws.simps) (simp add: Let_def drop flip: t_def)
  qed
qed

lemma split_ws_strip: "split_ws (strip s) = split_ws s"
proof -
  let ?l = "dropWhile is_space s"
  obtain t where t: "?l = rstrip ?l @ t" "\<forall>c \<in> set t. is_space c" using rstrip_by_prefix [of ?l is_space] by blast
  have "split_ws (rstrip ?l) = split_ws ?l"
  proof (cases t)
    case (Cons c u)
    then have "split_ws (rstrip ?l @ t) = split_ws (rstrip ?l)" using t(2) by (simp add: split_ws_append split_ws_spaces)
    with t(1) show ?thesis by simp
  qed (use t(1) in simp)
  then show ?thesis by (simp add: strip_by_def lstrip_by_def split_ws_lstrip)
qed

lemma split_ws_merged: "split_ws (strip (v @ '' '' @ w)) = split_ws v @ split_ws w"
  unfolding split_ws_strip using split_ws_append [of "CHR '' ''" v w] by (simp add: is_space_def)

text \<open>Extending the first assignment of a variable touches that token and nothing else.\<close>

lemma assigns_parts:
  assumes "CHR ''='' \<notin> set v"
  shows "assigns v t \<longleftrightarrow> CHR ''='' \<in> set t \<and> before_chr (CHR ''='') t = v"
    and "assigns v t \<Longrightarrow> after_chr (CHR ''='') t = value_of v t"
proof -
  have split: "t = before_chr (CHR ''='') t @ CHR ''='' # after_chr (CHR ''='') t" if "CHR ''='' \<in> set t"
  proof -
    have "dropWhile (\<lambda>x. x \<noteq> CHR ''='') t \<noteq> []" using that by auto
    then have "dropWhile (\<lambda>x. x \<noteq> CHR ''='') t = CHR ''='' # tl (dropWhile (\<lambda>x. x \<noteq> CHR ''='') t)"
      using hd_dropWhile [of "\<lambda>x. x \<noteq> CHR ''=''" t] by (metis list.collapse)
    then show ?thesis unfolding before_chr_def after_chr_def by (metis takeWhile_dropWhile_id)
  qed
  have own: "before_chr (CHR ''='') (v @ CHR ''='' # u) = v \<and> after_chr (CHR ''='') (v @ CHR ''='' # u) = u" for u
    using assms unfolding before_chr_def after_chr_def
    by (subst takeWhile_append2, force, subst dropWhile_append2, force, simp)
  show "assigns v t \<longleftrightarrow> CHR ''='' \<in> set t \<and> before_chr (CHR ''='') t = v"
  proof
    assume "assigns v t"
    then obtain u where "t = v @ CHR ''='' # u" by (auto simp: assigns_def prefix_def)
    then show "CHR ''='' \<in> set t \<and> before_chr (CHR ''='') t = v" using own [of u] by simp
  next
    assume "CHR ''='' \<in> set t \<and> before_chr (CHR ''='') t = v"
    then have "t = v @ CHR ''='' # after_chr (CHR ''='') t" using split by simp
    then show "assigns v t" unfolding assigns_def prefix_def by auto
  qed
  show "after_chr (CHR ''='') t = value_of v t" if "assigns v t"
  proof -
    obtain u where "t = v @ CHR ''='' # u" using \<open>assigns v t\<close> by (auto simp: assigns_def prefix_def)
    then show ?thesis using own [of u] by (simp add: value_of_def)
  qed
qed

lemma assigns_inj: "CHR ''='' \<notin> set v \<Longrightarrow> CHR ''='' \<notin> set w \<Longrightarrow> assigns v t \<Longrightarrow> assigns w t \<Longrightarrow> v = w"
  by (simp add: assigns_parts(1))

lemma assigns_own [simp]: "assigns v (v @ CHR ''='' # s)"
  by (simp add: assigns_def)

lemma value_of_own [simp]: "value_of v (v @ CHR ''='' # s) = s"
  by (simp add: value_of_def)

lemma extend_first_None: "extend_first var flag ts = None \<longleftrightarrow> filter (assigns var) ts = []"
  by (induction ts) auto

lemma extend_first_own:
  "extend_first var flag ts = Some us \<Longrightarrow>
    filter (assigns var) us
    = (var @ ''='' @ strip (value_of var (hd (filter (assigns var) ts)) @ '' '' @ flag)) # tl (filter (assigns var) ts)"
  by (induction ts arbitrary: us) (auto split: if_splits)

lemma extend_first_others:
  "extend_first var flag ts = Some us \<Longrightarrow> CHR ''='' \<notin> set var \<Longrightarrow> CHR ''='' \<notin> set w \<Longrightarrow> w \<noteq> var
    \<Longrightarrow> filter (assigns w) us = filter (assigns w) ts"
  by (induction ts arbitrary: us) (auto dest: assigns_inj split: if_splits)

text \<open>What \<open>flags_to_env\<close> reads: the last assignment of a variable.\<close>

definition plain_var :: "string \<Rightarrow> bool" where
  "plain_var v = (CHR ''='' \<notin> set v \<and> v \<noteq> [] \<and> hd v \<noteq> CHR ''-'')"

definition last_value :: "string \<Rightarrow> string list \<Rightarrow> string option" where
  "last_value var ts =
     (if filter (assigns var) ts = [] then None else Some (value_of var (last (filter (assigns var) ts))))"

lemma last_value_env:
  assumes "plain_var var"
  shows "dict_get (fold env_token ts []) var = last_value var ts"
proof (induction ts rule: rev_induct)
  case Nil
  then show ?case by (simp add: last_value_def)
next
  case (snoc t ts)
  have sep: "CHR ''='' \<notin> set var" and dash: "assigns var t \<Longrightarrow> \<not> prefix ''-'' t"
    using assms by (auto simp: plain_var_def assigns_def prefix_def neq_Nil_conv)
  show ?case
  proof (cases "assigns var t")
    case True
    with dash have "fold env_token (ts @ [t]) [] = dict_set var (value_of var t) (fold env_token ts [])"
      using assigns_parts [OF sep, of t] by (simp add: env_token_def)
    with True show ?thesis by (simp add: last_value_def)
  next
    case False
    then have "dict_get (env_token t d) var = dict_get d var" for d
      using assigns_parts(1) [OF sep, of t] by (auto simp: env_token_def)
    with False snoc show ?thesis by (simp add: last_value_def)
  qed
qed

definition var_words :: "string \<Rightarrow> string list \<Rightarrow> string list" where
  "var_words var ts = (case last_value var ts of None \<Rightarrow> [] | Some v \<Rightarrow> split_ws v)"

definition option_words :: "string option \<Rightarrow> string list" where
  "option_words v = (case v of None \<Rightarrow> [] | Some s \<Rightarrow> split_ws s)"

definition assigned_once :: "string \<Rightarrow> string list \<Rightarrow> bool" where
  "assigned_once var ts = (length (filter (assigns var) ts) \<le> 1)"

lemma last_value_append:
  "last_value var (ts @ us) = (case last_value var us of None \<Rightarrow> last_value var ts | Some v \<Rightarrow> Some v)"
  by (simp add: last_value_def)

lemma extend_first_words:
  assumes "extend_first var flag ts = Some us" "assigned_once var ts"
  shows "var_words var us = var_words var ts @ split_ws flag" "assigned_once var us"
proof -
  have "filter (assigns var) ts \<noteq> []" using assms(1) extend_first_None [of var flag ts] by auto
  with assms(2) obtain t where t: "filter (assigns var) ts = [t]"
    by (cases "filter (assigns var) ts") (auto simp: assigned_once_def)
  have u: "filter (assigns var) us = [var @ ''='' @ strip (value_of var t @ '' '' @ flag)]"
    using extend_first_own [OF assms(1)] unfolding t by simp
  show "assigned_once var us" by (simp add: assigned_once_def u)
  show "var_words var us = var_words var ts @ split_ws flag"
    using split_ws_merged [of "value_of var t" flag] by (simp add: var_words_def last_value_def t u)
qed

text \<open>One step of the merge, for the flag variables alike: \<open>absent\<close> says that nothing of ours sets the variable yet.\<close>

definition absent :: "string \<Rightarrow> string list \<Rightarrow> bool" where
  "absent var ts = (filter (assigns var) ts = [])"

lemma absent_once: "absent var ts \<Longrightarrow> assigned_once var ts"
  by (simp add: absent_def assigned_once_def)

lemma absent_append [simp]: "absent var (ts @ us) \<longleftrightarrow> absent var ts \<and> absent var us"
  by (simp add: absent_def)

lemma absent_words: "absent var ts \<Longrightarrow> var_words var (ts @ us) = var_words var us"
  by (simp add: absent_def var_words_def last_value_def)

lemma absent_own [simp]:
  "CHR ''='' \<notin> set var \<Longrightarrow> CHR ''='' \<notin> set w \<Longrightarrow> absent var [w @ CHR ''='' # s] \<longleftrightarrow> w \<noteq> var"
  using assigns_inj [of w var "w @ CHR ''='' # s"] by (auto simp: absent_def)

lemma words_eq: "filter (assigns var) ts = filter (assigns var) us \<Longrightarrow> var_words var ts = var_words var us"
  by (simp add: var_words_def last_value_def)

lemma once_eq: "filter (assigns var) ts = filter (assigns var) us \<Longrightarrow> assigned_once var ts = assigned_once var us"
  by (simp add: assigned_once_def)

lemma merge_prefix_var_words:
  assumes "merge_prefix_var pm var (m, own) = (m', own')" "assigned_once var m" "absent var own"
    and plain: "CHR ''='' \<notin> set var"
  shows "var_words var (own' @ m') = var_words var m @ split_ws pm"
    and "w \<noteq> var \<Longrightarrow> CHR ''='' \<notin> set w \<Longrightarrow> filter (assigns w) m' = filter (assigns w) m"
    and "w \<noteq> var \<Longrightarrow> CHR ''='' \<notin> set w \<Longrightarrow> filter (assigns w) own' = filter (assigns w) own"
proof -
  consider (own) "extend_first var pm m = None" "m' = m" "own' = own @ [var @ ''='' @ pm]"
    | (theirs) u where "extend_first var pm m = Some u" "m' = u" "own' = own"
    using assms(1) by (auto simp: merge_prefix_var_def split: option.splits)
  note cases = this
  show "var_words var (own' @ m') = var_words var m @ split_ws pm"
    using cases
  proof cases
    case own
    then have "filter (assigns var) m = []" by (simp add: extend_first_None)
    with own assms(3) show ?thesis by (simp add: var_words_def last_value_def absent_def)
  next
    case theirs
    with extend_first_words(1) [OF theirs(1) assms(2)] absent_words [OF assms(3)] show ?thesis by simp
  qed
  have other: "\<not> assigns w (var @ CHR ''='' # pm)" if "w \<noteq> var" "CHR ''='' \<notin> set w"
    using assigns_inj [OF that(2) plain, of "var @ CHR ''='' # pm"] that(1) by auto
  show "filter (assigns w) m' = filter (assigns w) m" if "w \<noteq> var" "CHR ''='' \<notin> set w"
    using cases by cases (use extend_first_others plain that in auto)
  show "filter (assigns w) own' = filter (assigns w) own" if "w \<noteq> var" "CHR ''='' \<notin> set w"
    using cases by cases (use other [OF that] in auto)
qed

lemma merge_kcflags_words:
  assumes "assigned_once ''KCFLAGS'' ts"
  shows "var_words ''KCFLAGS'' (merge_kcflags ts flags) = var_words ''KCFLAGS'' ts @ split_ws (join '' '' flags)"
    and "assigned_once ''KCFLAGS'' (merge_kcflags ts flags)"
    and "w \<noteq> ''KCFLAGS'' \<Longrightarrow> CHR ''='' \<notin> set w \<Longrightarrow> filter (assigns w) (merge_kcflags ts flags) = filter (assigns w) ts"
proof -
  let ?p = "join '' '' flags"
  have plain: "CHR ''='' \<notin> set ''KCFLAGS''" by simp
  have own: "assigns ''KCFLAGS'' (''KCFLAGS='' @ ?p)" "value_of ''KCFLAGS'' (''KCFLAGS='' @ ?p) = ?p"
    by (simp_all add: assigns_def value_of_def)
  consider (none) "extend_first ''KCFLAGS'' ?p ts = None" "merge_kcflags ts flags = ts @ [''KCFLAGS='' @ ?p]"
    | (some) u where "extend_first ''KCFLAGS'' ?p ts = Some u" "merge_kcflags ts flags = u"
    by (cases "extend_first ''KCFLAGS'' ?p ts") (auto simp: merge_kcflags_def Let_def)
  note cases = this
  show "var_words ''KCFLAGS'' (merge_kcflags ts flags) = var_words ''KCFLAGS'' ts @ split_ws ?p"
    using cases
  proof cases
    case none
    with own show ?thesis by (simp add: var_words_def last_value_def extend_first_None)
  next
    case some
    with extend_first_words(1) [OF some(1) assms] show ?thesis by simp
  qed
  show "assigned_once ''KCFLAGS'' (merge_kcflags ts flags)"
    using cases
  proof cases
    case none
    then show ?thesis by (simp add: assigned_once_def extend_first_None)
  next
    case some
    with extend_first_words(2) [OF some(1) assms] show ?thesis by simp
  qed
  show "filter (assigns w) (merge_kcflags ts flags) = filter (assigns w) ts" if w: "w \<noteq> ''KCFLAGS''" "CHR ''='' \<notin> set w"
    using cases
  proof cases
    case none
    with assigns_inj [OF w(2) plain] own(1) w(1) show ?thesis by auto
  next
    case some
    with extend_first_others [OF some(1) plain w(2) w(1)] show ?thesis by simp
  qed
qed

lemma compose_words:
  assumes "shlex_split (fi_make_flags i) = Inr user" "compose_flags cwd i own = Inr argv"
    and once: "assigned_once ''KCFLAGS'' user" "assigned_once ''KAFLAGS'' user"
    and own: "absent ''KCFLAGS'' own" "absent ''KAFLAGS'' own"
  shows "var_words ''KCFLAGS'' argv = var_words ''KCFLAGS'' user @ split_ws (join '' '' (fi_kcflags i)) @ split_ws (prefix_map_of cwd i)"
    and "var_words ''KAFLAGS'' argv = var_words ''KAFLAGS'' user @ split_ws (prefix_map_of cwd i)"
proof -
  let ?K = "''KCFLAGS''" and ?A = "''KAFLAGS''"
  let ?warn = "if fi_extra_warn i = [] then [] else [''W='' @ concat (sort (dedup (fi_extra_warn i)))]"
  define own1 where "own1 = own @ ?warn"
  define extra where "extra = (if fi_kcflags i = [] then user else merge_kcflags user (fi_kcflags i))"
  have plain: "CHR ''='' \<notin> set ?K" "CHR ''='' \<notin> set ?A" and differ: "?K \<noteq> ?A" "?A \<noteq> ?K" by simp_all
  have "absent ?K ?warn" "absent ?A ?warn" by (simp_all add: absent_def assigns_def)
  with own have own1: "absent ?K own1" "absent ?A own1" by (simp_all add: own1_def)
  have empty: "split_ws [] = []" by (simp add: split_ws_spaces)
  have K: "var_words ?K extra = var_words ?K user @ split_ws (join '' '' (fi_kcflags i))" "assigned_once ?K extra"
    using merge_kcflags_words(1,2) [OF once(1)] once(1) by (simp_all add: extra_def empty)
  have "filter (assigns ?A) extra = filter (assigns ?A) user"
    using merge_kcflags_words(3) [OF once(1) differ(2) plain(2)] by (simp add: extra_def)
  then have A: "var_words ?A extra = var_words ?A user" "assigned_once ?A extra"
    using once(2) words_eq once_eq by metis+
  have user: "(if fi_make_flags i = [] then Inr [] else shlex_split (fi_make_flags i)) = Inr user"
    using assms(1) by (auto simp: shlex_split_def emitted_def)
  have "var_words ?K argv = var_words ?K extra @ split_ws (prefix_map_of cwd i)
    \<and> var_words ?A argv = var_words ?A extra @ split_ws (prefix_map_of cwd i)"
  proof (cases "prefix_map_of cwd i = []")
    case True
    then have "argv = own1 @ extra"
      using assms(2) unfolding compose_flags_def Let_def user andthen_simps by (simp add: own1_def extra_def)
    with True show ?thesis by (simp add: absent_words own1 empty)
  next
    case False
    let ?pm = "prefix_map_of cwd i"
    obtain m1 o1 where step1: "merge_prefix_var ?pm ?K (extra, own1) = (m1, o1)" by (cases "merge_prefix_var ?pm ?K (extra, own1)")
    obtain m2 o2 where step2: "merge_prefix_var ?pm ?A (m1, o1) = (m2, o2)" by (cases "merge_prefix_var ?pm ?A (m1, o1)")
    have argv: "argv = o2 @ m2"
      using assms(2) False step1 step2 unfolding compose_flags_def Let_def user andthen_simps
      by (simp add: own1_def extra_def merge_prefix_map_def)
    note first = merge_prefix_var_words [OF step1 K(2) own1(1) plain(1)]
    have sameA: "filter (assigns ?A) m1 = filter (assigns ?A) extra" "filter (assigns ?A) o1 = filter (assigns ?A) own1"
      using first(2,3) [OF differ(2) plain(2)] by simp_all
    have onceA: "assigned_once ?A m1" "absent ?A o1"
      using A(2) own1(2) sameA by (simp_all add: assigned_once_def absent_def)
    note second = merge_prefix_var_words [OF step2 onceA plain(2)]
    have sameK: "filter (assigns ?K) m2 = filter (assigns ?K) m1" "filter (assigns ?K) o2 = filter (assigns ?K) o1"
      using second(2,3) [OF differ(1) plain(1)] by simp_all
    have "var_words ?K (o2 @ m2) = var_words ?K (o1 @ m1)" using sameK by (intro words_eq) simp
    moreover have "var_words ?A m1 = var_words ?A extra" using sameA(1) by (rule words_eq)
    ultimately show ?thesis using first(1) second(1) argv by simp
  qed
  with K(1) A(1) show "var_words ?K argv = var_words ?K user @ split_ws (join '' '' (fi_kcflags i)) @ split_ws (prefix_map_of cwd i)"
    and "var_words ?A argv = var_words ?A user @ split_ws (prefix_map_of cwd i)" by simp_all
qed

lemma compiler_parts_own:
  assumes "exec (compiler_parts env i) h w = (Inr ps, w')"
  shows "absent ''KCFLAGS'' ps \<and> absent ''KAFLAGS'' ps"
proof (cases "fi_compiler i = ''clang''")
  case True
  then obtain cc resource where
    "ps = [''LLVM=1'', (if fi_ccache i then ''CC=ccache '' @ cc else ''CC='' @ cc),
       ''CFLAGS_KERNEL=-I'' @ resource, ''CFLAGS_MODULE=-I'' @ resource]"
    using assms by (auto simp: compiler_parts_def exec_bind split: prod.splits sum.splits)
  then show ?thesis by (simp add: absent_def assigns_def)
next
  case False
  then have "ps = (if fi_ccache i then [''CC=ccache '' @ fi_compiler i] else [])"
    using assms by (simp add: compiler_parts_def split: if_splits)
  then show ?thesis by (simp add: absent_def assigns_def)
qed

lemma reproducible_parts_own: "absent ''KCFLAGS'' (reproducible_parts t) \<and> absent ''KAFLAGS'' (reproducible_parts t)"
  by (simp add: absent_def assigns_def reproducible_parts_def)

lemma bind_Inr:
  "exec (bind p f) m w = (Inr y, w') \<longleftrightarrow> (\<exists>x w1. exec p m w = (Inr x, w1) \<and> exec (f x) m w1 = (Inr y, w'))"
  by (auto simp: exec_bind split: prod.splits sum.splits)

lemma build_flags_argv:
  assumes "exec (build_flags env cwd i) h w = (Inr (flags, conf), w')"
  obtains own argv where "flags = shlex_join argv" "compose_flags cwd i own = Inr argv"
    "absent ''KCFLAGS'' own" "absent ''KAFLAGS'' own"
proof -
  have run: "exec (build_flags env cwd i) h w = (Inr (flags, conf), w')" by (rule assms)
  have known: "fi_compiler i \<in> set [''gcc'', ''clang'']"
    using run by (rule contrapos_pp) (simp add: build_flags_def)
  obtain c1 w1 cparts w2 rparts w3 argv w4 where steps: "exec (compiler_parts env i) h w1 = (Inr cparts, w2)"
    and second: "exec (if fi_reproducible i then bind (build_timestamp env i) (\<lambda>t. Ret (reproducible_parts t)) else Ret []) h w2 = (Inr rparts, w3)"
    and third: "exec (of_result (compose_flags cwd i (cparts @ rparts))) h w3 = (Inr argv, w4)"
    and last: "exec (Ret (shlex_join argv, c1)) h w4 = (Inr (flags, conf), w')"
    using run unfolding build_flags_def if_not_P [OF iffD2 [OF not_not known]] bind_Inr by blast
  have composed: "compose_flags cwd i (cparts @ rparts) = Inr argv" "flags = shlex_join argv"
    using third last by (simp_all add: of_result_def split: sum.splits)
  have rparts: "rparts = [] \<or> (\<exists>t. rparts = reproducible_parts t)"
    using second by (cases "fi_reproducible i") (auto simp: bind_Inr)
  have "absent ''KCFLAGS'' [] \<and> absent ''KAFLAGS'' []" by (simp add: absent_def)
  with compiler_parts_own [OF steps] rparts reproducible_parts_own
  have "absent ''KCFLAGS'' (cparts @ rparts) \<and> absent ''KAFLAGS'' (cparts @ rparts)" by auto
  with that composed show thesis by blast
qed


definition demo_flags :: flags_in where
  "demo_flags = \<lparr>fi_compiler = ''gcc'', fi_reproducible = True, fi_ccache = False, fi_ccache_max_size = 10,
     fi_timestamp_from_commit = False, fi_make_flags = ''V=1 KCFLAGS=-g'', fi_extra_warn = [''2'', ''1''],
     fi_kcflags = [''-W''], fi_worktree = ''/w/a'', fi_build_dir = ''/w/b'', fi_commit = []\<rparr>"

definition silent_machine :: "unit machine" where
  "silent_machine w c = (\<lparr>rc = 0, out = [], entries = []\<rparr>, w)"


text \<open>The kernel checks' own make: the last word of each flag variable keeps warnings warnings.\<close>

lemma add_flag_words:
  assumes "assigned_once var ts" "CHR ''='' \<notin> set var"
  shows "var_words var (add_flag var flag ts) = var_words var ts @ split_ws flag"
    and "w \<noteq> var \<Longrightarrow> CHR ''='' \<notin> set w \<Longrightarrow> filter (assigns w) (add_flag var flag ts) = filter (assigns w) ts"
proof -
  have own: "assigns var (var @ ''='' @ flag)" "value_of var (var @ ''='' @ flag) = flag" by (simp_all add: assigns_def value_of_def)
  show "var_words var (add_flag var flag ts) = var_words var ts @ split_ws flag"
  proof (cases "extend_first var flag ts")
    case None
    then have "add_flag var flag ts = ts @ [var @ ''='' @ flag]" by (simp add: add_flag_def)
    with None own show ?thesis by (simp add: var_words_def last_value_def extend_first_None)
  next
    case (Some u)
    with extend_first_words(1) [OF Some assms(1)] show ?thesis by (simp add: add_flag_def)
  qed
  show "filter (assigns w) (add_flag var flag ts) = filter (assigns w) ts" if w: "w \<noteq> var" "CHR ''='' \<notin> set w"
  proof (cases "extend_first var flag ts")
    case None
    moreover have "\<not> assigns w (var @ ''='' @ flag)" using own(1) assigns_inj [OF w(2) assms(2)] w(1) by blast
    ultimately show ?thesis by (simp add: add_flag_def)
  next
    case (Some u)
    with extend_first_others [OF Some assms(2) w(2) w(1)] show ?thesis by (simp add: add_flag_def)
  qed
qed

lemma counting_words:
  assumes "shlex_split flags = Inr ts" "assigned_once ''KCFLAGS'' ts" "assigned_once ''KRUSTFLAGS'' ts"
  shows "\<exists>us. counting flags = Inr (shlex_join us)
    \<and> var_words ''KCFLAGS'' us = var_words ''KCFLAGS'' ts @ [''-Wno-error'']
    \<and> var_words ''KRUSTFLAGS'' us = var_words ''KRUSTFLAGS'' ts @ [''--cap-lints=warn'']"
proof -
  let ?K = "''KCFLAGS''" and ?R = "''KRUSTFLAGS''"
  let ?a = "add_flag ?K ''-Wno-error'' ts"
  have plain: "CHR ''='' \<notin> set ?K" "CHR ''='' \<notin> set ?R" and differ: "?K \<noteq> ?R" "?R \<noteq> ?K" by simp_all
  have flags: "split_ws ''-Wno-error'' = [''-Wno-error'']" "split_ws ''--cap-lints=warn'' = [''--cap-lints=warn'']" by code_simp+
  note one = add_flag_words [OF assms(2) plain(1), where flag = "''-Wno-error''"]
  have R: "filter (assigns ?R) ?a = filter (assigns ?R) ts" by (rule one(2) [OF differ(2) plain(2)])
  then have onceR: "assigned_once ?R ?a" using assms(3) by (simp add: assigned_once_def)
  note two = add_flag_words [OF onceR plain(2), where flag = "''--cap-lints=warn''"]
  have "var_words ?K (add_flag ?R ''--cap-lints=warn'' ?a) = var_words ?K ?a"
    by (rule words_eq) (rule two(2) [OF differ(1) plain(1)])
  with one(1) two(1) words_eq [OF R] flags assms(1) show ?thesis by (auto simp: counting_def)
qed

text \<open>
  With two assignments of \<open>KCFLAGS\<close> in \<open>make_flags\<close> the first is extended and the last one counts: the picked
  flags are lost.
\<close>

lemma doubled_kcflags_lost:
  "\<exists>argv. compose_flags [] (demo_flags\<lparr>fi_make_flags := ''KCFLAGS=-O1 KCFLAGS=-g'', fi_reproducible := False\<rparr>) [] = Inr argv
    \<and> last_value ''KCFLAGS'' argv = Some ''-g''"
proof -
  have "compose_flags [] (demo_flags\<lparr>fi_make_flags := ''KCFLAGS=-O1 KCFLAGS=-g'', fi_reproducible := False\<rparr>) []
    = Inr [''W=12'', ''KCFLAGS=-O1 -W'', ''KCFLAGS=-g'']"
    by code_simp
  moreover have "last_value ''KCFLAGS'' [''W=12'', ''KCFLAGS=-O1 -W'', ''KCFLAGS=-g''] = Some ''-g''" by code_simp
  ultimately show ?thesis by blast
qed

end
