(* ===== verification/FstestsRender.thy ===== *)
theory FstestsRender
  imports FstestsDevices FstestsRun
begin

text \<open>
  Preparing an xfstests run on the host, \<open>f/fstests/render_config.py\<close>: which sections of the configuration the
  guest's devices can run, what an earlier run left and how it is kept, and the files the guest's unit reads.

  The state is a part of the file system: texts by path, and the results directories of the sections by path,
  each with its files and its directories of per-test artifacts. Symbolic links are not modelled, and no results
  directory lies inside another.
\<close>

section \<open>Which sections can run\<close>

record render_in =
  ri_vm_name :: string
  ri_kernel_version :: string
  ri_local_config :: string
  ri_sections :: "string list option"
  ri_clean_results :: bool
  ri_logwrites :: bool
  ri_devices :: "device list"
  ri_check :: check_args
  ri_test_timeout :: int
  ri_test_timeouts :: "(string, int) dict option"
  ri_recreate_test_dev :: bool
  ri_arm_all :: bool

definition too_small :: "nat \<Rightarrow> nat \<Rightarrow> nat option \<Rightarrow> string list" where
  "too_small sector bsize ssize =
     (if bsize < sector then [''block '' @ show_nat bsize] else [])
     @ (case ssize of None \<Rightarrow> [] | Some s \<Rightarrow> if s < sector then [''sector '' @ show_nat s] else [])"

definition needs_text :: "nat \<Rightarrow> string \<Rightarrow> nat \<Rightarrow> string" where
  "needs_text need what have_devs =
     ''needs '' @ show_nat need @ '' devices for '' @ what @ '', have '' @ show_nat have_devs"

text \<open>Why a section is skipped, if it is.\<close>

definition skip_reason :: "bool \<Rightarrow> device list \<Rightarrow> string \<Rightarrow> string \<Rightarrow> string option" where
  "skip_reason logwrites devices block section =
     (let sector = device_sector devices; bsize = section_block_size block section;
          below = too_small sector bsize (section_sector_size block section);
          externals = section_external_devs block; n = length devices in
      if below \<noteq> [] then Some (join '' and '' below @ '' < device sector '' @ show_nat sector
        @ '' (needs a >= block/sector-size device)'')
      else if section_is_v4 block section \<and> bsize > GUEST_PAGE_SIZE then
        Some (''V4 (crc=0) block '' @ show_nat bsize @ '' > page size '' @ show_nat GUEST_PAGE_SIZE
          @ ''; the kernel cannot mount a V4 filesystem with block size above the page size'')
      else if externals \<noteq> [] \<and> n < 2 + length externals then
        Some (needs_text (2 + length externals) (join '', '' externals) n)
      else if logwrites \<and> n < 2 + length externals + 1 then
        Some (needs_text (2 + length externals + 1)
          ((if externals \<noteq> [] then join '', '' externals @ '' + '' else []) @ ''LOGWRITES_DEV'') n)
      else None)"

text \<open>The sections with their one-section configs, and the skipped ones with their reasons, in order.\<close>

fun arm_sections :: "bool \<Rightarrow> device list \<Rightarrow> string \<Rightarrow> string list
    \<Rightarrow> ((string \<times> string) list \<times> (string \<times> string) list) result" where
  "arm_sections logwrites devices cfg [] = Inr ([], [])"
| "arm_sections logwrites devices cfg (s # ss) =
     (let block = section_block cfg s in
      case skip_reason logwrites devices block s of
        Some reason \<Rightarrow> andthen (arm_sections logwrites devices cfg ss) (\<lambda>(armed, skipped).
          Inr (armed, (s, reason) # skipped))
      | None \<Rightarrow> andthen (inject_device_base block devices logwrites) (\<lambda>body.
          andthen (arm_sections logwrites devices cfg ss) (\<lambda>(armed, skipped). Inr ((s, body) # armed, skipped))))"

record selection =
  se_armed :: "(string \<times> string) list"
  se_run :: "string list"
  se_skipped :: "(string \<times> string) list"

text \<open>The text of the form's field, or the shipped catalogue.\<close>

definition config_text :: "render_in \<Rightarrow> string result" where
  "config_text i = (if strip (ri_local_config i) \<noteq> [] then Inr (strip (ri_local_config i)) else xfs_catalog_text None ''matrix'')"

definition requested :: "string list option \<Rightarrow> string list \<Rightarrow> string list" where
  "requested sections available =
     filter (\<lambda>s. s \<in> set available) (case sections of None \<Rightarrow> available | Some ss \<Rightarrow> if ss = [] then available else ss)"

definition select_sections :: "render_in \<Rightarrow> string \<Rightarrow> selection result" where
  "select_sections i cfg =
     (let available = parse_sections cfg; asked = requested (ri_sections i) available in
      if available = [] \<or> asked = [] \<or> length (ri_devices i) < 2 then Inl ValueError
      else andthen (arm_sections (ri_logwrites i) (ri_devices i) cfg (if ri_arm_all i then available else asked))
        (\<lambda>(armed, skipped).
          let driven = filter (\<lambda>s. s \<in> set asked) (map fst armed) in
          if driven = [] then Inl ValueError
          else Inr \<lparr>se_armed = armed, se_run = driven, se_skipped = skipped\<rparr>))"

section \<open>What an earlier run left\<close>

record section_tree =
  st_files :: "(string, string) dict"
  st_groups :: "(string, (string, string) dict) dict"

definition rename_file :: "string \<Rightarrow> string \<Rightarrow> (string, string) dict \<Rightarrow> (string, string) dict" where
  "rename_file a b d = (case dict_get d a of None \<Rightarrow> d | Some v \<Rightarrow> dict_set b v (dict_del a d))"

text \<open>\<open>{n:04d}\<close>.\<close>

definition pad4 :: "nat \<Rightarrow> string" where
  "pad4 n = replicate (4 - length (show_nat n)) (CHR ''0'') @ show_nat n"

definition kept_result :: "nat \<Rightarrow> string" where
  "kept_result n = ''result.'' @ pad4 n @ ''.xml''"

definition kept_log :: "nat \<Rightarrow> string" where
  "kept_log n = ''check.'' @ pad4 n @ ''.log''"

lemma read_nat_zeros: "read_nat (replicate k (CHR ''0'') @ s) = read_nat s"
proof (induction s rule: rev_induct)
  case Nil
  have "read_nat (replicate k (CHR ''0'')) = 0"
  proof (induction k)
    case (Suc k)
    then show ?case
      using read_nat_append [of "replicate k (CHR ''0'')" "CHR ''0''"]
      by (simp add: replicate_append_same [symmetric] digit_val_def del: replicate_append_same)
  qed (simp add: read_nat_def)
  then show ?case by (simp add: read_nat_def)
next
  case (snoc c s)
  then show ?case
    using read_nat_append [of "replicate k (CHR ''0'') @ s" c] read_nat_append [of s c] by simp
qed

lemma pad4_inject: "pad4 m = pad4 n \<longleftrightarrow> m = n"
  by (metis pad4_def read_nat_show_nat read_nat_zeros)

lemma kept_result_inject: "kept_result m = kept_result n \<longleftrightarrow> m = n"
  by (simp add: kept_result_def pad4_inject)

function next_index :: "string list \<Rightarrow> nat \<Rightarrow> nat" where
  "next_index names n = (if kept_result n \<in> set names then next_index names (Suc n) else n)"
  by pat_completeness auto
termination
proof (relation "measure (\<lambda>(names, n). card {m. n \<le> m \<and> kept_result m \<in> set names})")
  fix names :: "string list" and n
  assume taken: "kept_result n \<in> set names"
  let ?A = "\<lambda>n. {m. n \<le> m \<and> kept_result m \<in> set names}"
  have "inj_on kept_result (?A n)" by (simp add: inj_on_def kept_result_inject)
  moreover have "kept_result ` ?A n \<subseteq> set names" by auto
  ultimately have "finite (?A n)" using finite_subset finite_imageD by blast
  moreover have "n \<in> ?A n" "n \<notin> ?A (Suc n)" "?A (Suc n) \<subseteq> ?A n" using taken by auto
  then have "?A (Suc n) \<subset> ?A n" by blast
  ultimately have "card (?A (Suc n)) < card (?A n)" by (simp add: psubset_card_mono)
  then show "((names, Suc n), (names, n)) \<in> measure (\<lambda>(names, n). card {m. n \<le> m \<and> kept_result m \<in> set names})" by simp
qed simp

declare next_index.simps [simp del]

definition rotate_results :: "section_tree \<Rightarrow> section_tree \<times> nat option" where
  "rotate_results t =
     (if ''result.xml'' \<notin> set (keys (st_files t)) then (t, None)
      else let n = next_index (keys (st_files t) @ keys (st_groups t)) 1 in
        (t\<lparr>st_files := rename_file ''check.log'' (kept_log n) (rename_file ''result.xml'' (kept_result n) (st_files t))\<rparr>,
         Some n))"

definition FAILURE_RE :: re where
  "FAILURE_RE = RSeqs [RBol, RAlts (RLit ''out.bad'') [RLit ''dmesg'', RLit ''hints'', RSeqs [RLit ''core.'', RPlus RDot]], REol]"

definition ROTATED_RE :: re where
  "ROTATED_RE = RSeqs [RBol, RPlus RDigit, RLit ''.'',
     RAlts (RLit ''out.bad'') [RLit ''dmesg'', RLit ''hints'', RLit ''full'', RSeqs [RLit ''core.'', RPlus RDot],
       RLit ''fsxgood'', RLit ''fsxlog''], REol]"

definition matches :: "re \<Rightarrow> string \<Rightarrow> bool" where
  "matches r s = (re_match r s \<noteq> None)"

definition test_base :: "string \<Rightarrow> string" where
  "test_base name = before_chr (CHR ''.'') name"

definition test_rest :: "string \<Rightarrow> string" where
  "test_rest name = after_chr (CHR ''.'') name"

definition artifacts :: "string list \<Rightarrow> string list" where
  "artifacts names = filter (\<lambda>n. CHR ''.'' \<in> set n \<and> \<not> matches ROTATED_RE (test_rest n)) names"

definition failing_bases :: "string list \<Rightarrow> string list" where
  "failing_bases names = map test_base (filter (\<lambda>n. matches FAILURE_RE (test_rest n)) (artifacts names))"

text \<open>The files that move, test by test.\<close>

definition moving :: "string list \<Rightarrow> string list" where
  "moving names =
     (let items = artifacts names in
      filter (\<lambda>n. test_base n \<in> set (failing_bases names) \<or> prefix ''core.'' (test_rest n))
        (concat (map (\<lambda>b. filter (\<lambda>n. test_base n = b) items) (dedup (map test_base items)))))"

definition kept_artifact :: "nat \<Rightarrow> string \<Rightarrow> string" where
  "kept_artifact n name = test_base name @ ''.'' @ pad4 n @ ''.'' @ test_rest name"

definition rename_all :: "(string \<Rightarrow> string) \<Rightarrow> string list \<Rightarrow> (string, string) dict \<Rightarrow> (string, string) dict" where
  "rename_all f names d = fold (\<lambda>n. rename_file n (f n)) names d"

definition rotate_group :: "nat \<Rightarrow> (string, string) dict \<Rightarrow> (string, string) dict" where
  "rotate_group n d = rename_all (kept_artifact n) (moving (keys d)) d"

definition rotate_failure_artifacts :: "nat \<Rightarrow> section_tree \<Rightarrow> section_tree \<times> nat" where
  "rotate_failure_artifacts n t =
     (t\<lparr>st_groups := map (\<lambda>(g, d). (g, rotate_group n d)) (st_groups t)\<rparr>,
      sum_list (map (\<lambda>(g, d). length (moving (keys d))) (st_groups t)))"

section \<open>The files of a run\<close>

record render_fs =
  rf_texts :: "(path, string) dict"
  rf_trees :: "(path, section_tree) dict"

record laid =
  la_kept :: "nat option"
  la_archived :: nat
  la_cleaned :: bool

text \<open>Cleaning or keeping the results of a section that is about to run.\<close>

definition settle_results :: "bool \<Rightarrow> path \<Rightarrow> render_fs \<Rightarrow> laid \<times> render_fs" where
  "settle_results anew dir fs =
     (case dict_get (rf_trees fs) dir of
        None \<Rightarrow> (\<lparr>la_kept = None, la_archived = 0, la_cleaned = False\<rparr>, fs)
      | Some t \<Rightarrow>
          if anew then (\<lparr>la_kept = None, la_archived = 0, la_cleaned = True\<rparr>, fs\<lparr>rf_trees := dict_del dir (rf_trees fs)\<rparr>)
          else (case rotate_results t of
              (t', None) \<Rightarrow> (\<lparr>la_kept = None, la_archived = 0, la_cleaned = False\<rparr>, fs)
            | (t', Some n) \<Rightarrow> (case rotate_failure_artifacts n t' of (t'', moved) \<Rightarrow>
                (\<lparr>la_kept = Some n, la_archived = moved, la_cleaned = False\<rparr>,
                 fs\<lparr>rf_trees := dict_set dir t'' (rf_trees fs)\<rparr>))))"

definition GUEST_STATE_DIR :: string where "GUEST_STATE_DIR = ''/var/lib/xfstests''"

definition emit :: "path \<Rightarrow> string \<Rightarrow> string \<Rightarrow> render_fs \<Rightarrow> render_fs" where
  "emit share name body fs = fs\<lparr>rf_texts := dict_set (resolve_path (path_join share name)) body (rf_texts fs)\<rparr>"

definition plain_args :: "string \<Rightarrow> check_args" where
  "plain_args report = \<lparr>test_selection = ''groups'', ca_groups = Some [''auto''], exclude_group = [], ca_exclude = [],
     ca_report = report, randomize = False, ca_tests = [], iterations = 1, loop_on_fail = 0, stop_on_fail = True\<rparr>"

definition section_env :: "render_in \<Rightarrow> bool \<Rightarrow> string \<Rightarrow> string" where
  "section_env i is_run s =
     render_section_env (GUEST_STATE_DIR @ ''/'' @ s @ ''.config'')
       (build_check_args (if is_run then ri_check i else plain_args (ca_report (ri_check i))))
       (ri_test_timeout i) (ri_test_timeouts i) (ri_recreate_test_dev i)"

definition lay_section :: "path \<Rightarrow> render_in \<Rightarrow> path \<Rightarrow> bool \<Rightarrow> string \<times> string \<Rightarrow> render_fs \<Rightarrow> laid result \<times> render_fs" where
  "lay_section workers i share is_run = (\<lambda>(s, body) fs.
     case (if is_run then map_sum id Some (section_results_dir workers (ri_vm_name i) (ri_kernel_version i) s) else Inr None) of
       Inl e \<Rightarrow> (Inl e, fs)
     | Inr dir \<Rightarrow>
         (case (case dir of None \<Rightarrow> (\<lparr>la_kept = None, la_archived = 0, la_cleaned = False\<rparr>, fs)
                | Some d \<Rightarrow> settle_results (ri_clean_results i) d fs) of
            (l, fs') \<Rightarrow> (Inr l, emit share (s @ ''.env'') (section_env i is_run s) (emit share (s @ ''.config'') body fs'))))"

fun lay_sections :: "path \<Rightarrow> render_in \<Rightarrow> path \<Rightarrow> string list \<Rightarrow> (string \<times> string) list \<Rightarrow> render_fs
    \<Rightarrow> (string \<times> laid) list result \<times> render_fs" where
  "lay_sections workers i share chosen [] fs = (Inr [], fs)"
| "lay_sections workers i share chosen (sb # rest) fs =
     (case lay_section workers i share (fst sb \<in> set chosen) sb fs of
        (Inl e, fs') \<Rightarrow> (Inl e, fs')
      | (Inr l, fs') \<Rightarrow> (case lay_sections workers i share chosen rest fs' of
          (Inl e, fs'') \<Rightarrow> (Inl e, fs'')
        | (Inr ls, fs'') \<Rightarrow> (Inr ((fst sb, l) # ls), fs'')))"

text \<open>The name of a file without its suffix (\<open>Path.stem\<close>); a name that is all suffix keeps it.\<close>

definition stem_of :: "string \<Rightarrow> string \<Rightarrow> string" where
  "stem_of suff name = (if name = suff then name else take (length name - length suff) name)"

definition stale_name :: "string list \<Rightarrow> bool \<Rightarrow> string \<Rightarrow> bool" where
  "stale_name armed mirror name =
     (name \<in> {''check.env'', ''local.config''} \<or> suffix ''.mkfs'' name \<or> suffix ''.xfs_info'' name
      \<or> mirror \<and> (\<exists>suff\<in>{''.config'', ''.env''}. suffix suff name \<and> stem_of suff name \<notin> set armed))"

definition prune_share :: "path \<Rightarrow> string list \<Rightarrow> bool \<Rightarrow> render_fs \<Rightarrow> render_fs" where
  "prune_share share armed mirror fs =
     fs\<lparr>rf_texts := filter (\<lambda>(p, _). \<not> (p \<noteq> [] \<and> butlast p = share \<and> stale_name armed mirror (last p))) (rf_texts fs)\<rparr>"

record render_out =
  ro_sections :: "string list"
  ro_armed :: "string list"
  ro_skipped :: "(string \<times> string) list"
  ro_rotated :: "(string \<times> nat) list"
  ro_archived :: "(string \<times> nat) list"
  ro_cleaned :: "string list"
  ro_check_args :: string

definition render_outcome :: "render_in \<Rightarrow> selection \<Rightarrow> (string \<times> laid) list \<Rightarrow> render_out" where
  "render_outcome i se ls =
     \<lparr>ro_sections = se_run se, ro_armed = map fst (se_armed se), ro_skipped = se_skipped se,
      ro_rotated = List.map_filter (\<lambda>(s, l). map_option (Pair s) (la_kept l)) ls,
      ro_archived = List.map_filter (\<lambda>(s, l). if la_archived l > 0 then Some (s, la_archived l) else None) ls,
      ro_cleaned = map fst (filter (\<lambda>(s, l). la_cleaned l) ls),
      ro_check_args = build_check_args (ri_check i)\<rparr>"

definition fstests_render :: "path \<Rightarrow> render_in \<Rightarrow> render_fs \<Rightarrow> render_out result \<times> render_fs" where
  "fstests_render workers i fs =
     (case andthen (fstests_share_dir workers (ri_vm_name i)) (\<lambda>share.
            andthen (config_text i) (\<lambda>cfg. andthen (select_sections i cfg) (\<lambda>se. Inr (share, se)))) of
        Inl e \<Rightarrow> (Inl e, fs)
      | Inr (share, se) \<Rightarrow>
          (case lay_sections workers i share (se_run se) (se_armed se) fs of
             (Inl e, fs') \<Rightarrow> (Inl e, fs')
           | (Inr ls, fs') \<Rightarrow>
               (Inr (render_outcome i se ls), prune_share share (map fst (se_armed se)) (ri_arm_all i) fs')))"

section \<open>Selecting never fails half-way\<close>

lemma skip_None:
  assumes "skip_reason logwrites devices block s = None"
  shows "section_external_devs block \<noteq> [] \<Longrightarrow> 2 + length (section_external_devs block) \<le> length devices"
    and "logwrites \<Longrightarrow> 2 + length (section_external_devs block) + 1 \<le> length devices"
  using assms by (auto simp: skip_reason_def Let_def split: if_splits)

lemma inject_total:
  assumes "skip_reason logwrites devices block s = None" "2 \<le> length devices"
  shows "\<exists>body. inject_device_base block devices logwrites = Inr body"
proof (cases "logwrites \<and> \<not> contains ''LOGWRITES_DEV='' block")
  case True
  with skip_None(2) [OF assms(1)] show ?thesis
    by (auto simp: inject_device_base_def logwrites_split_def Let_def)
next
  case False
  then have split: "logwrites_split block logwrites n devs = Inr ([], devs)" for n devs by (auto simp: logwrites_split_def)
  show ?thesis
  proof (cases "section_external_devs block = []")
    case True
    with split assms(2) show ?thesis by (simp add: inject_device_base_def)
  next
    case False
    with split skip_None(1) [OF assms(1)] show ?thesis by (simp add: inject_device_base_def Let_def)
  qed
qed

definition one_section :: "render_in \<Rightarrow> string \<Rightarrow> string \<Rightarrow> string" where
  "one_section i cfg s =
     (case inject_device_base (section_block cfg s) (ri_devices i) (ri_logwrites i) of Inl _ \<Rightarrow> [] | Inr body \<Rightarrow> body)"

definition runnable :: "render_in \<Rightarrow> string \<Rightarrow> string \<Rightarrow> bool" where
  "runnable i cfg s = (skip_reason (ri_logwrites i) (ri_devices i) (section_block cfg s) s = None)"

lemma one_section_Inr:
  "runnable i cfg s \<Longrightarrow> 2 \<le> length (ri_devices i) \<Longrightarrow>
    inject_device_base (section_block cfg s) (ri_devices i) (ri_logwrites i) = Inr (one_section i cfg s)"
  using inject_total [of "ri_logwrites i" "ri_devices i" "section_block cfg s" s] by (auto simp: runnable_def one_section_def)

lemma arm_sections_exact:
  assumes "2 \<le> length (ri_devices i)"
  shows "\<exists>skipped. arm_sections (ri_logwrites i) (ri_devices i) cfg ss
    = Inr (map (\<lambda>s. (s, one_section i cfg s)) (filter (runnable i cfg) ss), skipped)"
proof (induction ss)
  case (Cons s ss)
  then obtain skipped where "arm_sections (ri_logwrites i) (ri_devices i) cfg ss
    = Inr (map (\<lambda>s. (s, one_section i cfg s)) (filter (runnable i cfg) ss), skipped)" by blast
  then show ?case
    using one_section_Inr [OF _ assms, of cfg s] runnable_def [of i cfg s]
    by (cases "skip_reason (ri_logwrites i) (ri_devices i) (section_block cfg s) s") (auto simp: Let_def)
qed simp

definition asked_of :: "render_in \<Rightarrow> string \<Rightarrow> string list" where
  "asked_of i cfg = requested (ri_sections i) (parse_sections cfg)"

definition armed_of :: "render_in \<Rightarrow> string \<Rightarrow> string list" where
  "armed_of i cfg = filter (runnable i cfg) (if ri_arm_all i then parse_sections cfg else asked_of i cfg)"

lemma asked_subset: "set (asked_of i cfg) \<subseteq> set (parse_sections cfg)"
  by (auto simp: asked_of_def requested_def)

lemma select_exact:
  "select_sections i cfg = Inr se \<longleftrightarrow>
    2 \<le> length (ri_devices i) \<and> filter (runnable i cfg) (asked_of i cfg) \<noteq> []
    \<and> se_armed se = map (\<lambda>s. (s, one_section i cfg s)) (armed_of i cfg)
    \<and> se_run se = filter (\<lambda>s. s \<in> set (asked_of i cfg)) (armed_of i cfg)
    \<and> select_sections i cfg = Inr se" (is "?l \<longleftrightarrow> ?r")
proof
  assume sel: ?l
  then have two: "2 \<le> length (ri_devices i)" by (auto simp: select_sections_def Let_def split: if_splits)
  obtain skipped where arm: "arm_sections (ri_logwrites i) (ri_devices i) cfg
      (if ri_arm_all i then parse_sections cfg else asked_of i cfg)
    = Inr (map (\<lambda>s. (s, one_section i cfg s)) (armed_of i cfg), skipped)"
    using arm_sections_exact [OF two] unfolding armed_of_def by blast
  have fst_armed: "map fst (map (\<lambda>s. (s, one_section i cfg s)) (armed_of i cfg)) = armed_of i cfg" by (simp add: comp_def)
  have run: "filter (\<lambda>s. s \<in> set (asked_of i cfg)) (armed_of i cfg) \<noteq> []"
    "se_armed se = map (\<lambda>s. (s, one_section i cfg s)) (armed_of i cfg)"
    "se_run se = filter (\<lambda>s. s \<in> set (asked_of i cfg)) (armed_of i cfg)"
    using sel arm fst_armed unfolding select_sections_def Let_def asked_of_def [symmetric]
    by (auto split: if_splits)
  moreover have "filter (runnable i cfg) (asked_of i cfg) \<noteq> []"
    using run(1) by (auto simp: filter_empty_conv armed_of_def split: if_splits)
  ultimately show ?r using sel two by blast
qed blast

lemma select_ok:
  "is_ok (select_sections i cfg) \<longleftrightarrow> 2 \<le> length (ri_devices i) \<and> filter (runnable i cfg) (asked_of i cfg) \<noteq> []" (is "?l \<longleftrightarrow> ?r")
proof
  assume ?l
  then show ?r using select_exact unfolding is_ok_iff by blast
next
  assume r: ?r
  then obtain skipped where arm: "arm_sections (ri_logwrites i) (ri_devices i) cfg
      (if ri_arm_all i then parse_sections cfg else asked_of i cfg)
    = Inr (map (\<lambda>s. (s, one_section i cfg s)) (armed_of i cfg), skipped)"
    using arm_sections_exact unfolding armed_of_def by blast
  have fst_armed: "map fst (map (\<lambda>s. (s, one_section i cfg s)) (armed_of i cfg)) = armed_of i cfg" by (simp add: comp_def)
  from r obtain s where s: "s \<in> set (asked_of i cfg)" "runnable i cfg s" by (auto simp: filter_empty_conv)
  then have "asked_of i cfg \<noteq> []" "parse_sections cfg \<noteq> []" "s \<in> set (armed_of i cfg)"
    using asked_subset [of i cfg] by (auto simp: armed_of_def)
  moreover from this s have "filter (\<lambda>s. s \<in> set (asked_of i cfg)) (armed_of i cfg) \<noteq> []" by (auto simp: filter_empty_conv)
  ultimately show ?l
    using r arm fst_armed unfolding select_sections_def Let_def asked_of_def [symmetric] by auto
qed

section \<open>What a rendered section finds\<close>

definition no_report :: "path \<Rightarrow> render_fs \<Rightarrow> bool" where
  "no_report dir fs =
     (case dict_get (rf_trees fs) dir of None \<Rightarrow> True | Some t \<Rightarrow> ''result.xml'' \<notin> set (keys (st_files t)))"

lemma rename_file_keys:
  "set (keys (rename_file a b d)) = (if a \<in> set (keys d) then insert b (set (keys d) - {a}) else set (keys d))"
proof (cases "dict_get d a")
  case None
  moreover from None have "a \<notin> set (keys d)" by (simp add: map_of_eq_None_iff)
  ultimately show ?thesis by (simp add: rename_file_def)
next
  case (Some v)
  then have "a \<in> set (keys d)" by (force dest: map_of_SomeD)
  moreover have "set (keys (dict_del a d)) = set (keys d) - {a}" by (force simp: dict_del_def)
  ultimately show ?thesis using Some by (auto simp: rename_file_def keys_dict_set)
qed

lemma kept_result_other: "kept_result n \<noteq> ''result.xml''" "kept_log n \<noteq> ''result.xml''"
proof -
  have "length (kept_result n) > length ''result.xml''" by (simp add: kept_result_def pad4_def)
  then show "kept_result n \<noteq> ''result.xml''" by auto
  show "kept_log n \<noteq> ''result.xml''" by (simp add: kept_log_def)
qed

lemma rotated_fresh: "''result.xml'' \<notin> set (keys (st_files (fst (rotate_results t))))"
  using kept_result_other [symmetric] by (auto simp: rotate_results_def Let_def rename_file_keys simp del: set_map)

lemma settle_fresh: "no_report dir (snd (settle_results anew dir fs))"
proof (cases "dict_get (rf_trees fs) dir")
  case None
  then show ?thesis by (simp add: settle_results_def no_report_def)
next
  case (Some t)
  show ?thesis
  proof (cases anew)
    case True
    with Some show ?thesis by (simp add: settle_results_def no_report_def)
  next
    case False
    obtain t' k where rot: "rotate_results t = (t', k)" by (cases "rotate_results t")
    have none: "''result.xml'' \<notin> set (keys (st_files t'))" using rotated_fresh [of t] rot by simp
    show ?thesis
    proof (cases k)
      case None
      then have "t' = t" using rot by (auto simp: rotate_results_def Let_def split: if_splits)
      with None Some False rot none show ?thesis by (simp add: settle_results_def no_report_def)
    next
      case (Some n)
      with \<open>dict_get (rf_trees fs) dir = Some t\<close> False rot none show ?thesis
        by (simp add: settle_results_def no_report_def rotate_failure_artifacts_def)
    qed
  qed
qed

lemma settle_other: "dir' \<noteq> dir \<Longrightarrow> dict_get (rf_trees (snd (settle_results anew dir fs))) dir' = dict_get (rf_trees fs) dir'"
  by (auto simp: settle_results_def rotate_failure_artifacts_def split: option.splits prod.splits)

lemma settle_keeps: "no_report dir' fs \<Longrightarrow> no_report dir' (snd (settle_results anew dir fs))"
  using settle_fresh [of dir anew fs] settle_other [of dir' dir anew fs] by (cases "dir' = dir") (simp_all add: no_report_def)

lemma settle_texts: "rf_texts (snd (settle_results anew dir fs)) = rf_texts fs"
  by (auto simp: settle_results_def rotate_failure_artifacts_def split: option.splits prod.splits)

lemma emit_simps [simp]:
  "no_report dir (emit share name body fs) = no_report dir fs"
  "rf_texts (emit share name body fs) = dict_set (resolve_path (path_join share name)) body (rf_texts fs)"
  by (simp_all add: emit_def no_report_def)

lemma lay_section_ok:
  assumes "lay_section workers i share is_run (s, body) fs = (Inr l, fs')"
  shows "is_run \<Longrightarrow> \<exists>dir. section_results_dir workers (ri_vm_name i) (ri_kernel_version i) s = Inr dir \<and> no_report dir fs'"
    and "no_report d fs \<Longrightarrow> no_report d fs'"
    and "rf_texts fs' = dict_set (resolve_path (path_join share (s @ ''.env''))) (section_env i is_run s)
      (dict_set (resolve_path (path_join share (s @ ''.config''))) body (rf_texts fs))"
proof -
  have plain: "fs' = emit share (s @ ''.env'') (section_env i False s) (emit share (s @ ''.config'') body fs)" if "\<not> is_run"
    using assms that by (simp add: lay_section_def)
  have there: "\<exists>dir. section_results_dir workers (ri_vm_name i) (ri_kernel_version i) s = Inr dir
      \<and> fs' = emit share (s @ ''.env'') (section_env i True s)
          (emit share (s @ ''.config'') body (snd (settle_results (ri_clean_results i) dir fs)))" if is_run
    using assms that
    by (cases "section_results_dir workers (ri_vm_name i) (ri_kernel_version i) s") (auto simp: lay_section_def split: prod.splits)
  show "\<exists>dir. section_results_dir workers (ri_vm_name i) (ri_kernel_version i) s = Inr dir \<and> no_report dir fs'" if is_run
    using there [OF that] settle_fresh by auto
  show "no_report d fs'" if "no_report d fs"
    using there plain settle_keeps [OF that] that by (cases is_run) auto
  show "rf_texts fs' = dict_set (resolve_path (path_join share (s @ ''.env''))) (section_env i is_run s)
      (dict_set (resolve_path (path_join share (s @ ''.config''))) body (rf_texts fs))"
    using there plain settle_texts by (cases is_run) auto
qed

text \<open>Names whose files stay where the guest looks for them, one pair of files for each.\<close>

definition plain_section :: "string \<Rightarrow> bool" where
  "plain_section s = (CHR ''/'' \<notin> set s \<and> s \<notin> {[], ''check'', ''local''})"

lemma file_path:
  assumes "''..'' \<notin> set share" "CHR ''/'' \<notin> set name" "name \<notin> {[], ''.'', ''..''}"
  shows "resolve_path (path_join share name) = share @ [name]"
proof -
  have "\<not> is_absolute name" using assms(2) by (auto simp: is_absolute_def prefix_def)
  then have "path_join share name = share @ [name]" using assms(2,3) by (simp add: path_join_def parts_plain)
  then show ?thesis using assms(1,3) by (auto intro: resolve_clean)
qed

lemma section_files:
  assumes "''..'' \<notin> set share" "plain_section s"
  shows "resolve_path (path_join share (s @ ''.config'')) = share @ [s @ ''.config'']"
    and "resolve_path (path_join share (s @ ''.env'')) = share @ [s @ ''.env'']"
proof -
  have "s @ ''.config'' \<notin> {[], ''.'', ''..''}" "s @ ''.env'' \<notin> {[], ''.'', ''..''}"
    by (cases s rule: rev_cases; simp)+
  with assms show "resolve_path (path_join share (s @ ''.config'')) = share @ [s @ ''.config'']"
    "resolve_path (path_join share (s @ ''.env'')) = share @ [s @ ''.env'']"
    by (auto intro!: file_path simp: plain_section_def)
qed

lemma suffixes_differ: "s @ ''.config'' \<noteq> s' @ ''.env''"
proof
  assume "s @ ''.config'' = s' @ ''.env''"
  then have "last (s @ ''.config'') = last (s' @ ''.env'')" by (rule arg_cong)
  then show False by simp
qed

definition laid_down :: "path \<Rightarrow> render_in \<Rightarrow> string list \<Rightarrow> (string \<Rightarrow> string) \<Rightarrow> render_fs \<Rightarrow> string \<Rightarrow> bool" where
  "laid_down share i chosen body fs s =
     (dict_get (rf_texts fs) (share @ [s @ ''.config'']) = Some (body s)
      \<and> dict_get (rf_texts fs) (share @ [s @ ''.env'']) = Some (section_env i (s \<in> set chosen) s))"

lemma lay_sections_ok:
  assumes "lay_sections workers i share chosen (map (\<lambda>s. (s, body s)) ss) fs = (Inr ls, fs')"
    and share: "''..'' \<notin> set share" and plain: "\<forall>s \<in> set ss. plain_section s"
  shows "(\<forall>d. no_report d fs \<longrightarrow> no_report d fs')
    \<and> (\<forall>s \<in> set ss. s \<in> set chosen \<longrightarrow>
        (\<exists>dir. section_results_dir workers (ri_vm_name i) (ri_kernel_version i) s = Inr dir \<and> no_report dir fs'))
    \<and> (\<forall>s. s \<in> set ss \<or> laid_down share i chosen body fs s \<longrightarrow> laid_down share i chosen body fs' s)"
  using assms(1) plain
proof (induction ss arbitrary: fs ls)
  case (Cons s ss)
  obtain l fs1 ls' where one: "lay_section workers i share (s \<in> set chosen) (s, body s) fs = (Inr l, fs1)"
    and rest: "lay_sections workers i share chosen (map (\<lambda>s. (s, body s)) ss) fs1 = (Inr ls', fs')"
    using Cons.prems(1) by (auto split: prod.splits sum.splits)
  note IH = Cons.IH [OF rest]
  have plain: "plain_section s" "\<forall>s\<in>set ss. plain_section s" using Cons.prems(2) by simp_all
  note step = lay_section_ok [OF one]
  have texts: "rf_texts fs1 = dict_set (share @ [s @ ''.env'']) (section_env i (s \<in> set chosen) s)
      (dict_set (share @ [s @ ''.config'']) (body s) (rf_texts fs))"
    using step(3) section_files [OF share plain(1)] by simp
  have own: "laid_down share i chosen body fs1 s"
    using suffixes_differ [of s s] by (simp add: laid_down_def texts)
  have keep: "laid_down share i chosen body fs1 r" if "laid_down share i chosen body fs r" for r
    using that suffixes_differ [of s r] suffixes_differ [of r s] by (auto simp: laid_down_def texts)
  from IH [OF plain(2)] own keep step(1,2) show ?case by fastforce
qed simp

lemma pruned_keeps:
  assumes "share @ [name] = p" "\<not> stale_name armed mirror name"
  shows "dict_get (rf_texts (prune_share share armed mirror fs)) p = dict_get (rf_texts fs) p"
proof -
  have "dict_get (filter (\<lambda>(q, _). P q) d) p = dict_get d p" if "P p" for P :: "path \<Rightarrow> bool" and d :: "(path, string) dict"
    using that by (induction d) auto
  then show ?thesis using assms by (auto simp: prune_share_def)
qed

lemma laid_not_stale:
  assumes "plain_section s" "s \<in> set armed"
  shows "\<not> stale_name armed mirror (s @ ''.config'')" "\<not> stale_name armed mirror (s @ ''.env'')"
proof -
  have tails: "\<not> suffix (t @ [c]) (u @ [d])" if "c \<noteq> d" for t u :: string and c d using that by (auto simp: suffix_def)
  have others: "\<not> suffix ''.mkfs'' (s @ ''.config'')" "\<not> suffix ''.xfs_info'' (s @ ''.config'')" "\<not> suffix ''.env'' (s @ ''.config'')"
    "\<not> suffix ''.mkfs'' (s @ ''.env'')" "\<not> suffix ''.xfs_info'' (s @ ''.env'')" "\<not> suffix ''.config'' (s @ ''.env'')"
    using tails [of "CHR ''s''" "CHR ''g''" "''.mkf''" "s @ ''.confi''"] tails [of "CHR ''o''" "CHR ''g''" "''.xfs_inf''" "s @ ''.confi''"]
      tails [of "CHR ''v''" "CHR ''g''" "''.en''" "s @ ''.confi''"] tails [of "CHR ''s''" "CHR ''v''" "''.mkf''" "s @ ''.en''"]
      tails [of "CHR ''o''" "CHR ''v''" "''.xfs_inf''" "s @ ''.en''"] tails [of "CHR ''g''" "CHR ''v''" "''.confi''" "s @ ''.en''"]
    by simp_all
  have stems: "stem_of ''.config'' (s @ ''.config'') = s" "stem_of ''.env'' (s @ ''.env'') = s"
    using assms(1) by (simp_all add: stem_of_def plain_section_def)
  have special: "s @ ''.config'' \<notin> {''check.env'', ''local.config''}" "s @ ''.env'' \<notin> {''check.env'', ''local.config''}"
  proof -
    have "(s @ ''.config'' = ''local'' @ ''.config'') = (s = ''local'')" "(s @ ''.env'' = ''check'' @ ''.env'') = (s = ''check'')"
      by (simp_all only: append_same_eq)
    moreover have "s @ ''.config'' \<noteq> ''check.env''" "s @ ''.env'' \<noteq> ''local.config''"
      using suffixes_differ [of s "''check''"] suffixes_differ [of "''local''" s] by auto
    ultimately show "s @ ''.config'' \<notin> {''check.env'', ''local.config''}" "s @ ''.env'' \<notin> {''check.env'', ''local.config''}"
      using assms(1) by (auto simp: plain_section_def)
  qed
  show "\<not> stale_name armed mirror (s @ ''.config'')" "\<not> stale_name armed mirror (s @ ''.env'')"
    using others stems special assms(2) by (auto simp: stale_name_def)
qed

lemma share_clean: "fstests_share_dir workers vm = Inr share \<Longrightarrow> ''..'' \<notin> set share"
  by (auto simp: fstests_share_dir_def dest: under_inside)

lemma render_steps:
  assumes "fstests_render workers i fs = (Inr r, fs')"
  obtains share cfg se ls fs1 where "fstests_share_dir workers (ri_vm_name i) = Inr share" "config_text i = Inr cfg"
    "select_sections i cfg = Inr se" "lay_sections workers i share (se_run se) (se_armed se) fs = (Inr ls, fs1)"
    "r = render_outcome i se ls" "fs' = prune_share share (map fst (se_armed se)) (ri_arm_all i) fs1"
proof -
  obtain share se where sel: "andthen (fstests_share_dir workers (ri_vm_name i)) (\<lambda>share.
      andthen (config_text i) (\<lambda>cfg. andthen (select_sections i cfg) (\<lambda>se. Inr (share, se)))) = Inr (share, se)"
    using assms by (auto simp: fstests_render_def split: sum.splits prod.splits)
  obtain ls fs1 where "lay_sections workers i share (se_run se) (se_armed se) fs = (Inr ls, fs1)"
    "r = render_outcome i se ls" "fs' = prune_share share (map fst (se_armed se)) (ri_arm_all i) fs1"
    using assms unfolding fstests_render_def sel by (auto split: sum.splits prod.splits)
  with that sel show thesis by (auto simp: andthen_Inr)
qed


definition demo_render :: render_in where
  "demo_render = \<lparr>ri_vm_name = ''g'', ri_kernel_version = ''6.1'', ri_local_config = unlines [''[a]'', ''FSTYP=xfs''],
     ri_sections = None, ri_clean_results = False, ri_logwrites = False, ri_devices = [Plain ''/dev/x'', Plain ''/dev/y''],
     ri_check = plain_args ''xunit'', ri_test_timeout = 0, ri_test_timeouts = None, ri_recreate_test_dev = True,
     ri_arm_all = True\<rparr>"

definition demo_left :: render_fs where
  "demo_left = \<lparr>rf_texts = [([''w'', ''shared'', ''fstests'', ''g'', ''check.env''], ''old'')],
     rf_trees = [([''w'', ''shared'', ''fstests'', ''g'', ''6.1'', ''results'', ''a''],
       \<lparr>st_files = [(''result.xml'', ''old'')], st_groups = [(''xfs'', [(''001.out.bad'', ''x''), (''002.full'', ''y'')])]\<rparr>)]\<rparr>"


section \<open>Keeping what an earlier run left\<close>

lemma absent_get: "a \<notin> set (keys d) \<Longrightarrow> dict_get d a = None"
  by (simp add: map_of_eq_None_iff)

lemma dict_get_rename:
  assumes "a \<in> set (keys d)" "b \<notin> set (keys d)"
  shows "dict_get (rename_file a b d) k = (if k = b then dict_get d a else if k = a then None else dict_get d k)"
proof -
  obtain v where v: "dict_get d a = Some v" using assms(1) by (cases "dict_get d a") (auto simp: map_of_eq_None_iff)
  show ?thesis using assms v by (auto simp: rename_file_def)
qed

lemma rename_all_get:
  assumes "distinct names" "set names \<subseteq> set (keys d)" "inj_on f (set names)" "\<forall>n\<in>set names. f n \<notin> set (keys d)"
  shows "dict_get (rename_all f names d) k =
    (if k \<in> f ` set names then dict_get d (the_inv_into (set names) f k) else if k \<in> set names then None else dict_get d k)"
  using assms
proof (induction names arbitrary: d)
  case Nil
  then show ?case by (simp add: rename_all_def)
next
  case (Cons n ns)
  have n: "n \<in> set (keys d)" "f n \<notin> set (keys d)" "n \<notin> set ns" using Cons.prems by auto
  let ?d = "rename_file n (f n) d"
  have keys: "set (keys ?d) = insert (f n) (set (keys d) - {n})" using n(1) by (simp add: rename_file_keys del: set_map)
  have fresh: "\<forall>m\<in>set ns. f m \<notin> set (keys ?d)"
  proof
    fix m assume m: "m \<in> set ns"
    have "f m \<noteq> f n" using inj_onD [OF Cons.prems(3), of m n] m n(3) by auto
    then show "f m \<notin> set (keys ?d)" using Cons.prems(4) m unfolding keys by simp
  qed
  have IH: "dict_get (rename_all f ns ?d) k =
    (if k \<in> f ` set ns then dict_get ?d (the_inv_into (set ns) f k) else if k \<in> set ns then None else dict_get ?d k)"
  proof (rule Cons.IH)
    show "set ns \<subseteq> set (keys ?d)" using Cons.prems(2) n(3) unfolding keys by auto
    show "distinct ns" "inj_on f (set ns)" using Cons.prems(1,3) by auto
  qed (rule fresh)
  have all: "rename_all f (n # ns) d = rename_all f ns ?d" by (simp add: rename_all_def)
  note get = dict_get_rename [OF n(1,2)]
  consider (ns) m where "m \<in> set ns" "k = f m" | (n) "k = f n" | (no) "k \<notin> f ` set (n # ns)" by auto
  then show ?case
  proof cases
    case ns
    have "the_inv_into (set ns) f k = m" "the_inv_into (set (n # ns)) f k = m"
      using Cons.prems(3) ns by (auto intro: the_inv_into_f_f inj_on_subset)
    moreover have "m \<noteq> n" "m \<noteq> f n" using ns(1) n Cons.prems(2) by auto
    ultimately show ?thesis using ns IH by (simp add: all get)
  next
    case n
    have "k \<notin> f ` set ns" using n \<open>n \<notin> set ns\<close> Cons.prems(3) by (auto simp: inj_on_def)
    moreover have "the_inv_into (set (n # ns)) f k = n" using Cons.prems(3) n by (auto intro: the_inv_into_f_f)
    moreover have "k \<notin> set ns" using n Cons.prems(2,4) by auto
    ultimately show ?thesis using n IH by (simp add: all get)
  next
    case no
    then show ?thesis by (auto simp: all IH get)
  qed
qed

lemma distinct_by_key: "distinct xs \<Longrightarrow> distinct bs \<Longrightarrow> distinct (concat (map (\<lambda>b. filter (\<lambda>x. f x = b) xs) bs))"
  by (induction bs) auto

lemma moving_facts:
  "distinct names \<Longrightarrow> distinct (moving names)" "set (moving names) \<subseteq> set (artifacts names)"
proof -
  show "distinct (moving names)" if "distinct names"
    unfolding moving_def Let_def using that by (intro distinct_filter distinct_by_key) (simp_all add: artifacts_def)
  show "set (moving names) \<subseteq> set (artifacts names)" by (auto simp: moving_def Let_def)
qed

lemma failing_moves: "x \<in> set (artifacts names) \<Longrightarrow> matches FAILURE_RE (test_rest x) \<Longrightarrow> x \<in> set (moving names)"
  by (auto simp: moving_def Let_def failing_bases_def)

lemma kept_parts: "test_base (kept_artifact n x) = test_base x" "test_rest (kept_artifact n x) = pad4 n @ ''.'' @ test_rest x"
proof -
  have base: "c \<noteq> CHR ''.''" if "c \<in> set (test_base x)" for c using that by (auto simp: test_base_def before_chr_def dest: set_takeWhileD)
  have "takeWhile (\<lambda>c. c \<noteq> CHR ''.'') (test_base x @ CHR ''.'' # u) = test_base x"
    "dropWhile (\<lambda>c. c \<noteq> CHR ''.'') (test_base x @ CHR ''.'' # u) = CHR ''.'' # u" for u
    using base by (simp_all add: takeWhile_append2 dropWhile_append2)
  then show "test_base (kept_artifact n x) = test_base x" "test_rest (kept_artifact n x) = pad4 n @ ''.'' @ test_rest x"
    by (simp_all add: kept_artifact_def test_base_def [of "_ @ _"] test_rest_def [of "_ @ _"] before_chr_def [of _ "_ @ _"] after_chr_def [of _ "_ @ _"])
qed

lemma name_parts: "CHR ''.'' \<in> set x \<Longrightarrow> x = test_base x @ CHR ''.'' # test_rest x"
proof -
  assume dot: "CHR ''.'' \<in> set x"
  then have "dropWhile (\<lambda>c. c \<noteq> CHR ''.'') x \<noteq> []" by auto
  then have "dropWhile (\<lambda>c. c \<noteq> CHR ''.'') x = CHR ''.'' # tl (dropWhile (\<lambda>c. c \<noteq> CHR ''.'') x)"
    using hd_dropWhile [of "\<lambda>c. c \<noteq> CHR ''.''" x] by (metis list.collapse)
  then show ?thesis unfolding test_base_def test_rest_def before_chr_def after_chr_def by (metis takeWhile_dropWhile_id)
qed

lemma kept_inj: "inj_on (kept_artifact n) (set (artifacts names))"
proof (rule inj_onI)
  fix x y assume xy: "x \<in> set (artifacts names)" "y \<in> set (artifacts names)" and eq: "kept_artifact n x = kept_artifact n y"
  have "test_base x = test_base y" "test_rest x = test_rest y"
    using kept_parts [of n x] kept_parts [of n y] eq by simp_all
  moreover have "CHR ''.'' \<in> set x" "CHR ''.'' \<in> set y" using xy by (simp_all add: artifacts_def)
  ultimately show "x = y" using name_parts by metis
qed

text \<open>Names an earlier rotation of the same index would have left.\<close>

definition of_index :: "nat \<Rightarrow> string \<Rightarrow> bool" where
  "of_index n x = prefix (pad4 n @ ''.'') (test_rest x)"

lemma rotate_group_get:
  assumes "distinct (keys d)" "list_all (\<lambda>x. \<not> of_index n x) (keys d)"
  shows "x \<in> set (moving (keys d)) \<Longrightarrow> dict_get (rotate_group n d) (kept_artifact n x) = dict_get d x \<and> dict_get (rotate_group n d) x = None"
    and "x \<in> set (keys d) \<Longrightarrow> x \<notin> set (moving (keys d)) \<Longrightarrow> dict_get (rotate_group n d) x = dict_get d x"
proof -
  let ?m = "moving (keys d)"
  have sub: "set ?m \<subseteq> set (keys d)" using moving_facts(2) by (force simp: artifacts_def)
  have inj: "inj_on (kept_artifact n) (set ?m)" using kept_inj moving_facts(2) inj_on_subset by metis
  have "of_index n (kept_artifact n y)" for y by (simp add: of_index_def kept_parts(2))
  then have fresh: "kept_artifact n y \<notin> set (keys d)" for y using assms(2) unfolding list_all_iff by blast
  have get: "dict_get (rotate_group n d) k =
    (if k \<in> kept_artifact n ` set ?m then dict_get d (the_inv_into (set ?m) (kept_artifact n) k)
     else if k \<in> set ?m then None else dict_get d k)" for k
    unfolding rotate_group_def by (rule rename_all_get [OF moving_facts(1) [OF assms(1)] sub inj]) (use fresh in blast)
  show "dict_get (rotate_group n d) (kept_artifact n x) = dict_get d x \<and> dict_get (rotate_group n d) x = None" if "x \<in> set ?m"
    using that sub fresh the_inv_into_f_f [OF inj that] by (auto simp: get)
  show "dict_get (rotate_group n d) x = dict_get d x" if "x \<in> set (keys d)" "x \<notin> set ?m"
  proof -
    have "x \<notin> kept_artifact n ` set ?m" using that(1) fresh by blast
    with that(2) show ?thesis by (simp add: get)
  qed
qed

lemma next_index_free: "kept_result (next_index names n) \<notin> set names"
proof (induction names n rule: next_index.induct)
  case (1 names n)
  then show ?case by (cases "kept_result n \<in> set names") (subst next_index.simps, simp)+
qed


definition left_tree :: section_tree where
  "left_tree = \<lparr>st_files = [(''result.xml'', ''r''), (''check.log'', ''l''), (''result.0001.xml'', ''o'')],
     st_groups = [(''xfs'', [(''001.out.bad'', ''x''), (''001.full'', ''f''), (''002.full'', ''y'')])]\<rparr>"


text \<open>
  C32: The step refuses a run before it is under way. It returns exactly when the guest and kernel name paths inside
  the share, the configuration is one, there are two devices at least, and one of the sections asked for can run on
  them; a drive list too short for a section's external devices or for the log device never fails it, that section
  is skipped.
\<close>

theorem render_refuses:
  "is_ok (fst (fstests_render workers i fs)) \<longleftrightarrow>
    (case (fstests_share_dir workers (ri_vm_name i), config_text i) of
       (Inr share, Inr cfg) \<Rightarrow> 2 \<le> length (ri_devices i) \<and> filter (runnable i cfg) (asked_of i cfg) \<noteq> []
         \<and> list_all (\<lambda>s. is_ok (section_results_dir workers (ri_vm_name i) (ri_kernel_version i) s))
             (filter (runnable i cfg) (asked_of i cfg))
     | _ \<Rightarrow> False)"
proof -
  have lay: "is_ok (fst (lay_sections workers i share chosen sbs fs)) \<longleftrightarrow>
      list_all (\<lambda>s. s \<in> set chosen \<longrightarrow> is_ok (section_results_dir workers (ri_vm_name i) (ri_kernel_version i) s)) (map fst sbs)"
    for share chosen sbs fs
  proof (induction sbs arbitrary: fs)
    case (Cons sb sbs)
    obtain r fs1 where one: "lay_section workers i share (fst sb \<in> set chosen) sb fs = (r, fs1)"
      by (cases "lay_section workers i share (fst sb \<in> set chosen) sb fs")
    have r: "is_ok r \<longleftrightarrow> (fst sb \<in> set chosen \<longrightarrow> is_ok (section_results_dir workers (ri_vm_name i) (ri_kernel_version i) (fst sb)))"
      using one by (cases sb; cases "section_results_dir workers (ri_vm_name i) (ri_kernel_version i) (fst sb)")
        (auto simp: lay_section_def split: prod.splits if_splits)
    obtain q fs2 where rest: "lay_sections workers i share chosen sbs fs1 = (q, fs2)"
      by (cases "lay_sections workers i share chosen sbs fs1")
    have q: "is_ok q \<longleftrightarrow> list_all (\<lambda>s. s \<in> set chosen \<longrightarrow> is_ok (section_results_dir workers (ri_vm_name i) (ri_kernel_version i) s)) (map fst sbs)"
      using Cons.IH [of fs1] rest by simp
    show ?case
      unfolding lay_sections.simps one prod.case using r q rest
      by (cases r; cases q; cases "fst sb \<in> set chosen") simp_all
  qed simp
  show ?thesis
  proof (cases "fstests_share_dir workers (ri_vm_name i)"; cases "config_text i")
    fix share cfg assume ok: "fstests_share_dir workers (ri_vm_name i) = Inr share" "config_text i = Inr cfg"
    show ?thesis
    proof (cases "select_sections i cfg")
      case (Inl e)
      then have "\<not> (2 \<le> length (ri_devices i) \<and> filter (runnable i cfg) (asked_of i cfg) \<noteq> [])" using select_ok [of i cfg] by simp
      with Inl ok show ?thesis by (simp add: fstests_render_def)
    next
      case (Inr se)
      then have se: "se_armed se = map (\<lambda>s. (s, one_section i cfg s)) (armed_of i cfg)"
        "se_run se = filter (\<lambda>s. s \<in> set (asked_of i cfg)) (armed_of i cfg)"
        and can: "2 \<le> length (ri_devices i)" "filter (runnable i cfg) (asked_of i cfg) \<noteq> []"
        using select_exact [of i cfg se] by blast+
      have both: "set (se_run se) = set (filter (runnable i cfg) (asked_of i cfg))"
        using asked_subset [of i cfg] by (auto simp: se(2) armed_of_def)
      have "is_ok (fst (fstests_render workers i fs)) \<longleftrightarrow> is_ok (fst (lay_sections workers i share (se_run se) (se_armed se) fs))"
        using ok Inr by (auto simp: fstests_render_def split: prod.splits sum.splits)
      also have "\<dots> \<longleftrightarrow> list_all (\<lambda>s. is_ok (section_results_dir workers (ri_vm_name i) (ri_kernel_version i) s)) (se_run se)"
        unfolding lay by (auto simp: se list_all_iff)
      also have "\<dots> \<longleftrightarrow> list_all (\<lambda>s. is_ok (section_results_dir workers (ri_vm_name i) (ri_kernel_version i) s))
          (filter (runnable i cfg) (asked_of i cfg))"
        unfolding list_all_iff both ..
      finally show ?thesis using ok can by simp
    qed
  qed (auto simp: fstests_render_def)
qed

end
