(* ===== verification/Checks.thy ===== *)
theory Checks
  imports MakeFlags Json PyRegex
begin

text \<open>
  The checks of a kernel series: \<open>f/kernel/checks.py\<close>, the steps \<open>f/kernel/check_*.py\<close> with the Rust steps
  beside them, the selection of the checks (\<open>select_checks.py\<close>) and the writing of the series
  (\<open>format_patch.py\<close>). A step runs one checker, whose output goes to a log, and reads its findings from there. The
  directory a checker runs in is not part of a command.
\<close>

section \<open>Findings\<close>

record diag =
  dg_file :: string
  dg_line :: "nat option"
  dg_level :: string
  dg_message :: string

definition is_space_or_colon :: "char \<Rightarrow> bool" where
  "is_space_or_colon c = (is_space c \<or> c = CHR '':'')"

abbreviation RName :: re where
  "RName \<equiv> RPlus (RCls (\<lambda>c. \<not> is_space_or_colon c))"

definition DIAGNOSTIC :: re where
  "DIAGNOSTIC = RSeqs [RBol, RGrp ''file'' RName, RLit '':'', ROpt (RSeq (RGrp ''line'' (RPlus RDigit)) (RLit '':'')),
     ROpt (RSeqs [RPlus RDigit, ROpt (RSeq (RLit ''-'') (RPlus RDigit)), RLit '':'']), RStar RSpace, ROpt (RLit ''fatal ''),
     RGrp ''level'' (RAlts (RLit ''warning'') [RLit ''error'', RLit ''WARNING'', RLit ''ERROR'', RLit ''CHECK'', RLit ''CRITICAL'']),
     RLit '':'', RStar RSpace, RGrp ''message'' (RStar RDot), REol]"

definition KERNELDOC :: re where
  "KERNELDOC = RSeqs [RBol, RGrp ''level'' (RAlts (RLit ''Warning'') [RLit ''Error'']), RLit '': '', RGrp ''file'' RName, RLit '':'',
     RGrp ''line'' (RPlus RDigit), RLit '' '', RGrp ''message'' (RStar RDot), REol]"

definition LEVELS :: "(string, string) dict" where
  "LEVELS = [(''error'', ''error''), (''ERROR'', ''error''), (''CRITICAL'', ''error''), (''warning'', ''warning''),
     (''WARNING'', ''warning''), (''CHECK'', ''check''), (''Warning'', ''warning''), (''Error'', ''error'')]"

text \<open>\<open>while path.startswith(("../", "./")): path = path.split("/", 1)[1]\<close>\<close>

fun strip_dots :: "string \<Rightarrow> string" where
  "strip_dots (a # b # c # s) =
     (if a = CHR ''.'' \<and> b = CHR ''.'' \<and> c = CHR ''/'' then strip_dots s
      else if a = CHR ''.'' \<and> b = CHR ''/'' then strip_dots (c # s)
      else a # b # c # s)"
| "strip_dots [a, b] = (if a = CHR ''.'' \<and> b = CHR ''/'' then [] else [a, b])"
| "strip_dots s = s"

definition worktree_path :: "string \<Rightarrow> string \<Rightarrow> string" where
  "worktree_path p worktree =
     (let root = rstrip_by (\<lambda>c. c = CHR ''/'') worktree @ ''/'' in
      strip_dots (if worktree \<noteq> [] \<and> prefix root p then drop (length root) p else p))"

definition line_of :: "mtch \<Rightarrow> nat option" where
  "line_of m = (case grp m ''line'' of None \<Rightarrow> None | Some l \<Rightarrow> if l = [] then None else Some (read_nat l))"

definition diag_of :: "string \<Rightarrow> string \<Rightarrow> diag option" where
  "diag_of worktree line =
     map_option (\<lambda>m. \<lparr>dg_file = worktree_path (grp0 m ''file'') worktree, dg_line = line_of m,
         dg_level = the (dict_get LEVELS (grp0 m ''level'')), dg_message = strip (grp0 m ''message'')\<rparr>)
       (case re_match DIAGNOSTIC line of Some m \<Rightarrow> Some m | None \<Rightarrow> re_match KERNELDOC line)"

fun diags_from :: "string \<Rightarrow> diag list \<Rightarrow> string list \<Rightarrow> diag list" where
  "diags_from worktree found [] = found"
| "diags_from worktree found (l # ls) =
     (case diag_of worktree l of
        None \<Rightarrow> diags_from worktree found ls
      | Some d \<Rightarrow> diags_from worktree (if d \<in> set found then found else found @ [d]) ls)"

definition diagnostics :: "string \<Rightarrow> string \<Rightarrow> diag list" where
  "diagnostics t worktree = diags_from worktree [] (splitlines t)"

text \<open>\<open>rustc\<close>: a level line, then its location; a summary line ends what is pending.\<close>

definition RUST_HEADER :: re where
  "RUST_HEADER = RSeqs [RBol, RGrp ''level'' (RAlts (RLit ''warning'') [RLit ''error'']),
     ROpt (RSeqs [RLit ''['', RPlus (RCls (\<lambda>c. is_word c \<or> c = CHR '':'' \<or> c = CHR ''-'')), RLit '']'']), RLit '': '',
     RGrp ''message'' (RStar RDot), REol]"

definition RUST_SUMMARY :: re where
  "RUST_SUMMARY = RSeqs [RBol, RAlts (RSeqs [RLit ''warning: '', RPlus RDigit, RLit '' warning'', ROpt (RLit ''s''), RLit '' emitted''])
     [RLit ''error: aborting due to'',
      RSeqs [RLit ''warning: '', RStar RDot, RLit '' generated '', RPlus RDigit, RLit '' warning'', ROpt (RLit ''s'')],
      RLit ''error: could not compile'']]"

definition RUST_LOCATION :: re where
  "RUST_LOCATION = RSeqs [RBol, RStar RSpace, RLit ''--> '', RGrp ''file'' (RPlus (RCls (\<lambda>c. c \<noteq> CHR '':''))), RLit '':'',
     RGrp ''line'' (RPlus RDigit), RLit '':'', RPlus RDigit]"

text \<open>The findings so far, the latest last, and whether that one still waits for its location.\<close>

definition rust_line :: "string \<Rightarrow> diag list \<times> bool \<Rightarrow> string \<Rightarrow> diag list \<times> bool" where
  "rust_line worktree = (\<lambda>(found, pending) line.
     if re_match RUST_SUMMARY line \<noteq> None then (found, False)
     else case re_match RUST_HEADER line of
       Some m \<Rightarrow> (found @ [\<lparr>dg_file = [], dg_line = None, dg_level = grp0 m ''level'', dg_message = strip (grp0 m ''message'')\<rparr>], True)
     | None \<Rightarrow>
         (case re_match RUST_LOCATION line of
            Some m \<Rightarrow>
              if pending \<and> dg_file (last found) = []
              then (butlast found @ [(last found)\<lparr>dg_file := worktree_path (grp0 m ''file'') worktree,
                      dg_line := Some (read_nat (grp0 m ''line''))\<rparr>], pending)
              else (found, pending)
          | None \<Rightarrow> (found, pending)))"

definition rust_diagnostics :: "string \<Rightarrow> string \<Rightarrow> diag list" where
  "rust_diagnostics t worktree = fst (foldl (rust_line worktree) ([], False) (splitlines t))"

definition RUSTFMT_DIFF :: re where
  "RUSTFMT_DIFF = RSeqs [RBol, RLit ''Diff in '', RGrp ''file'' (RLazyPlus RNonSpace),
     RAlt (RSeqs [RLit '':'', RGrp ''line'' (RPlus RDigit), RLit '':''])
       (RSeqs [RLit '' at line '', RGrp ''at'' (RPlus RDigit), RLit '':''])]"

definition rustfmt_diffs :: "string \<Rightarrow> string \<Rightarrow> diag list" where
  "rustfmt_diffs t worktree = List.map_filter (\<lambda>line. map_option (\<lambda>m.
     \<lparr>dg_file = worktree_path (grp0 m ''file'') worktree,
       dg_line = Some (read_nat (if grp0 m ''line'' \<noteq> [] then grp0 m ''line'' else grp0 m ''at'')),
       dg_level = ''error'', dg_message = ''not formatted as rustfmt would''\<rparr>)
     (re_match RUSTFMT_DIFF line)) (splitlines t)"

definition RUSTTEST_RESULT :: re where
  "RUSTTEST_RESULT = RSeqs [RBol, RLit ''test result: '', RPlus (RCls is_word), RLit ''. '', RGrp ''passed'' (RPlus RDigit),
     RLit '' passed; '', RGrp ''failed'' (RPlus RDigit), RLit '' failed'']"

definition rusttest_totals :: "string \<Rightarrow> nat \<times> nat" where
  "rusttest_totals t = foldl (\<lambda>(p, f) line. case re_match RUSTTEST_RESULT line of
       None \<Rightarrow> (p, f)
     | Some m \<Rightarrow> (p + read_nat (grp0 m ''passed''), f + read_nat (grp0 m ''failed''))) (0, 0) (splitlines t)"

definition is_hex :: "char \<Rightarrow> bool" where
  "is_hex c = (is_digit c \<or> c \<in> set ''abcdef'')"

definition CHECKSTACK :: re where
  "CHECKSTACK = RSeqs [RBol, ROpt (RSeqs [RLit ''0x'', RPlus (RCls is_hex), RPlus RSpace]), RGrp ''function'' (RPlus RNonSpace),
     RPlus RSpace, RLit ''['', RGrp ''object'' (RPlus (RCls (\<lambda>c. c \<noteq> CHR '']''))), RLit '']:'', RPlus RSpace,
     RGrp ''bytes'' (RPlus RDigit), REol]"

record frame =
  fm_function :: string
  fm_object :: string
  fm_bytes :: nat

definition stack_frames :: "string \<Rightarrow> frame list" where
  "stack_frames t = List.map_filter (\<lambda>line. map_option (\<lambda>m.
     \<lparr>fm_function = grp0 m ''function'', fm_object = grp0 m ''object'', fm_bytes = read_nat (grp0 m ''bytes'')\<rparr>)
     (re_match CHECKSTACK line)) (splitlines t)"

definition in_files :: "diag list \<Rightarrow> string list \<Rightarrow> diag list" where
  "in_files ds names = filter (\<lambda>d. dg_file d \<in> set names) ds"

definition level_count :: "string \<Rightarrow> diag list \<Rightarrow> nat" where
  "level_count l ds = length (filter (\<lambda>d. dg_level d = l) ds)"

section \<open>A check's result\<close>

definition MAX_FINDINGS :: nat where "MAX_FINDINGS = 100"

definition check_status :: "nat \<Rightarrow> bool \<Rightarrow> string" where
  "check_status errors bad = (if errors \<noteq> 0 \<or> bad then ''failed'' else ''passed'')"

record check_out =
  ck_check :: string
  ck_status :: string
  ck_errors :: nat
  ck_warnings :: nat
  ck_checks :: nat
  ck_log :: "path option"
  ck_extra :: "(string, json) dict"
  ck_findings :: "diag list"

definition check_result :: "string \<Rightarrow> diag list \<Rightarrow> path option \<Rightarrow> bool \<Rightarrow> (string, json) dict \<Rightarrow> check_out" where
  "check_result name ds log bad extra =
     \<lparr>ck_check = name, ck_status = check_status (level_count ''error'' ds) bad, ck_errors = level_count ''error'' ds,
       ck_warnings = level_count ''warning'' ds, ck_checks = level_count ''check'' ds, ck_log = log, ck_extra = extra,
       ck_findings = take MAX_FINDINGS ds\<rparr>"

text \<open>A step's status as the flow saw it: nothing, Windmill's error object, or a result.\<close>

definition outcome_of :: "json \<Rightarrow> json" where
  "outcome_of r =
     (if \<not> truthy r then JStr ''not run''
      else case r of
        JObj d \<Rightarrow> (if ''error'' \<in> set (keys d) \<and> ''status'' \<notin> set (keys d) then JStr ''error''
          else case dict_get d ''status'' of None \<Rightarrow> JStr ''error'' | Some v \<Rightarrow> v)
      | _ \<Rightarrow> JStr ''error'')"

section \<open>Running a checker\<close>

definition check_dir :: "environ \<Rightarrow> path result" where
  "check_dir env =
     andthen (workers_env env) (\<lambda>w.
     case dict_get env ''WORKER_INDEX'' of None \<Rightarrow> Inl KeyError | Some i \<Rightarrow> Inr (path_join w i @ [''check'']))"

text \<open>\<open>DevShell.tee\<close>: the output goes to the log; the exit status is returned, not raised.\<close>

definition tee :: "string list \<Rightarrow> path \<Rightarrow> int prog" where
  "tee argv log =
     bind (act (Mkdir (butlast log))) (\<lambda>_.
     Do (Dev ''check-kernel'' argv) (\<lambda>r.
     bind (act (WriteText log (out r))) (\<lambda>_. Ret (rc r))))"

definition make_argv :: "nat \<Rightarrow> string \<Rightarrow> string \<Rightarrow> string \<Rightarrow> string list \<Rightarrow> string list result" where
  "make_argv jobs worktree build_dir make_flags goals =
     andthen (shlex_split make_flags) (\<lambda>flags.
       Inr ([''make'', ''--directory='' @ worktree, ''O='' @ build_dir, ''--jobs='' @ show_nat jobs] @ flags @ goals))"

definition NOT_KERNEL_OBJECTS :: "string list" where
  "NOT_KERNEL_OBJECTS = [''tools/'', ''scripts/'', ''samples/'', ''Documentation/'']"

definition kernel_source :: "string \<Rightarrow> bool" where
  "kernel_source f = (\<not> list_ex (\<lambda>p. prefix p f) NOT_KERNEL_OBJECTS)"

text \<open>The object of a C file, and the command file kbuild leaves beside it.\<close>

definition object_of :: "string \<Rightarrow> string" where
  "object_of f = take (length f - 2) f @ ''.o''"

definition cmd_file :: "string \<Rightarrow> path" where
  "cmd_file obj = (let p = parts obj in butlast p @ [''.'' @ last p @ ''.cmd''])"

text \<open>\<open>str(Path(obj))\<close> of a relative path.\<close>

definition rel_str :: "string \<Rightarrow> string" where
  "rel_str obj = join ''/'' (parts obj)"

fun kernel_objects :: "string list \<Rightarrow> path \<Rightarrow> string list prog" where
  "kernel_objects [] build = Ret []"
| "kernel_objects (f # fs) build =
     (if \<not> suffix ''.c'' f \<or> \<not> kernel_source f then kernel_objects fs build
      else bind (probe (IsFile (build @ cmd_file (object_of f)))) (\<lambda>there.
           bind (kernel_objects fs build) (\<lambda>objs.
           Ret (if there then rel_str (object_of f) # objs else objs))))"

definition series_files :: "environ \<Rightarrow> string \<Rightarrow> string \<Rightarrow> string list prog" where
  "series_files env worktree base =
     bind (resolve_git env) (\<lambda>_.
     bind (git_capture_checked [''-C'', worktree, ''diff'', ''--name-only'', ''--diff-filter=AM'', base, ''HEAD'']) (\<lambda>t.
     Ret (sort (filter (\<lambda>l. l \<noteq> []) (splitlines t)))))"

definition config_has :: "path \<Rightarrow> string \<Rightarrow> bool prog" where
  "config_has build symbol =
     bind (probe (IsFile (build @ [''.config'']))) (\<lambda>there.
     if there then bind (read_text (build @ [''.config''])) (\<lambda>t. Ret (contains (symbol @ ''=y'' @ nl) t)) else Ret False)"

text \<open>One checker, its log read back: the shape every step has.\<close>

definition run_checker :: "environ \<Rightarrow> string \<Rightarrow> string list result \<Rightarrow> (path \<times> int \<times> string) prog" where
  "run_checker env log_name argv =
     bind (of_result (check_dir env)) (\<lambda>d.
     bind (of_result argv) (\<lambda>a.
     bind (tee a (d @ [log_name])) (\<lambda>status.
     bind (read_text (d @ [log_name])) (\<lambda>t. Ret (d @ [log_name], status, t)))))"

record check_in =
  ci_worktree :: string
  ci_build_dir :: string
  ci_files :: "string list"
  ci_scope :: string
  ci_flags :: string

definition scoped :: "check_in \<Rightarrow> diag list \<Rightarrow> diag list" where
  "scoped i ds = (if ci_scope i = ''series'' then in_files ds (ci_files i) else ds)"

definition in_series :: "check_in \<Rightarrow> bool" where
  "in_series i = (ci_scope i = ''series'')"

definition scope_extra :: "check_in \<Rightarrow> (string, json) dict" where
  "scope_extra i = [(''scope'', JStr (ci_scope i))]"

definition objects_extra :: "check_in \<Rightarrow> string list \<Rightarrow> (string, json) dict" where
  "objects_extra i objs = scope_extra i @ [(''objects'', JList (map JStr objs))]"

section \<open>The steps\<close>

definition remove_object :: "path \<Rightarrow> string \<Rightarrow> unit prog" where
  "remove_object build obj =
     bind (probe (Exists (path_join build obj))) (\<lambda>there. only_if there (act (Unlink (path_join build obj))))"

definition warning_flags :: "string \<Rightarrow> string result" where
  "warning_flags make_flags =
     andthen (counting make_flags) (\<lambda>flags.
     andthen (shlex_split make_flags) (\<lambda>toks.
       Inr (if list_ex (\<lambda>t. prefix ''W='' t) toks then flags else flags @ '' W=1'')))"

definition check_warnings :: "environ \<Rightarrow> nat \<Rightarrow> check_in \<Rightarrow> check_out prog" where
  "check_warnings env jobs i =
     (let build = parts (ci_build_dir i) in
      bind (if in_series i then kernel_objects (ci_files i) build else Ret []) (\<lambda>objs.
      if in_series i \<and> objs = [] then Ret (check_result ''W=1'' [] None False (objects_extra i []))
      else bind (for_each objs (remove_object build)) (\<lambda>_.
           bind (of_result (warning_flags (ci_flags i))) (\<lambda>flags.
           bind (run_checker env ''warnings.log'' (make_argv jobs (ci_worktree i) (ci_build_dir i) flags objs)) (\<lambda>(log, status, t).
           Ret (check_result ''W=1'' (scoped i (diagnostics t (ci_worktree i))) (Some log) (status \<noteq> 0) (objects_extra i objs)))))))"

definition SPARSE_REJECTED :: string where
  "SPARSE_REJECTED = ''specified, but sparse is not available or not up to date''"

definition check_sparse :: "environ \<Rightarrow> nat \<Rightarrow> check_in \<Rightarrow> check_out prog" where
  "check_sparse env jobs i =
     bind (if in_series i then kernel_objects (ci_files i) (parts (ci_build_dir i)) else Ret []) (\<lambda>objs.
     if in_series i \<and> objs = [] then Ret (check_result ''sparse'' [] None False (objects_extra i []))
     else bind (run_checker env ''sparse.log''
            (make_argv jobs (ci_worktree i) (ci_build_dir i) (ci_flags i) (''C=2'' # objs))) (\<lambda>(log, status, t).
          if contains SPARSE_REJECTED t then Raise RuntimeError
          else Ret (check_result ''sparse'' (scoped i (diagnostics t (ci_worktree i))) (Some log) (status \<noteq> 0) (objects_extra i objs))))"

definition kerneldoc_sources :: "environ \<Rightarrow> check_in \<Rightarrow> string list prog" where
  "kerneldoc_sources env i =
     (if in_series i then Ret (filter (\<lambda>f. (suffix ''.c'' f \<or> suffix ''.h'' f) \<and> kernel_source f) (ci_files i))
      else bind (resolve_git env) (\<lambda>_.
           bind (git_capture_checked [''-C'', ci_worktree i, ''ls-tree'', ''--name-only'', ''-d'', ''HEAD'']) (\<lambda>t.
           Ret (filter (\<lambda>d. d @ ''/'' \<notin> set NOT_KERNEL_OBJECTS \<and> d \<notin> set [''LICENSES'', ''usr'']) (split_ws t)))))"

definition check_kerneldoc :: "environ \<Rightarrow> check_in \<Rightarrow> check_out prog" where
  "check_kerneldoc env i =
     bind (kerneldoc_sources env i) (\<lambda>sources.
     if sources = [] then Ret (check_result ''kernel-doc'' [] None False (scope_extra i))
     else bind (run_checker env ''kernel-doc.log'' (Inr ([''scripts/kernel-doc'', ''--none'', ''-Wall''] @ sources))) (\<lambda>(log, status, t).
          Ret (check_result ''kernel-doc'' (scoped i (diagnostics t (ci_worktree i))) (Some log) (status \<noteq> 0) (scope_extra i))))"

definition check_clippy :: "environ \<Rightarrow> nat \<Rightarrow> check_in \<Rightarrow> check_out prog" where
  "check_clippy env jobs i =
     bind (run_checker env ''clippy.log'' (andthen (counting (ci_flags i)) (\<lambda>flags.
       make_argv jobs (ci_worktree i) (ci_build_dir i) flags [''CLIPPY=1'']))) (\<lambda>(log, status, t).
     Ret (check_result ''clippy'' (scoped i (rust_diagnostics t (ci_worktree i))) (Some log) (status \<noteq> 0) (scope_extra i)))"

definition check_rustfmt :: "environ \<Rightarrow> nat \<Rightarrow> check_in \<Rightarrow> check_out prog" where
  "check_rustfmt env jobs i =
     bind (run_checker env ''rustfmt.log'' (make_argv jobs (ci_worktree i) (ci_build_dir i) (ci_flags i) [''rustfmtcheck''])) (\<lambda>(log, status, t).
     let every = rustfmt_diffs t (ci_worktree i) in
     Ret (check_result ''rustfmt'' (scoped i every) (Some log) (status \<noteq> 0 \<and> every = []) (scope_extra i)))"

definition check_rustavailable :: "environ \<Rightarrow> nat \<Rightarrow> check_in \<Rightarrow> check_out prog" where
  "check_rustavailable env jobs i =
     bind (of_result (check_dir env)) (\<lambda>d.
     bind (of_result (make_argv jobs (ci_worktree i) (ci_build_dir i) (ci_flags i) [''rustavailable''])) (\<lambda>a.
     bind (tee a (d @ [''rustavailable.log''])) (\<lambda>status.
     Ret (check_result ''rustavailable'' [] (Some (d @ [''rustavailable.log''])) (status \<noteq> 0) []))))"

definition build_rustdoc :: "environ \<Rightarrow> nat \<Rightarrow> check_in \<Rightarrow> check_out prog" where
  "build_rustdoc env jobs i =
     bind (run_checker env ''rustdoc.log'' (andthen (counting (ci_flags i)) (\<lambda>flags.
       make_argv jobs (ci_worktree i) (ci_build_dir i) flags [''rustdoc'']))) (\<lambda>(log, status, t).
     Ret (check_result ''rustdoc'' (rust_diagnostics t (ci_worktree i)) (Some log) (status \<noteq> 0) []))"

definition run_rusttest :: "environ \<Rightarrow> nat \<Rightarrow> check_in \<Rightarrow> check_out prog" where
  "run_rusttest env jobs i =
     bind (run_checker env ''rusttest.log'' (andthen (counting (ci_flags i)) (\<lambda>flags.
       make_argv jobs (ci_worktree i) (ci_build_dir i) flags [''rusttest'']))) (\<lambda>(log, status, t).
     case rusttest_totals t of (p, f) \<Rightarrow>
     Ret (check_result ''rusttest'' (rust_diagnostics t (ci_worktree i)) (Some log) (status \<noteq> 0 \<or> f > 0)
       [(''tests_passed'', JInt (int p)), (''tests_failed'', JInt (int f))]))"

definition check_style :: "environ \<Rightarrow> string list \<Rightarrow> bool \<Rightarrow> check_out prog" where
  "check_style env patches strict =
     bind (run_checker env ''checkpatch.log'' (Inr ([''scripts/checkpatch.pl'', ''--terse'', ''--show-types'']
       @ (if strict then [''--strict''] else []) @ patches))) (\<lambda>(log, status, t).
     let ran = list_ex (prefix ''total:'') (splitlines t) in
     Ret (check_result ''checkpatch'' (diagnostics t []) (Some log) (status \<noteq> 0 \<and> \<not> ran) [(''strict'', JBool strict)]))"

definition CANDIDATE_BYTES :: nat where "CANDIDATE_BYTES = 512"

definition DEFINITION_RE :: re where
  "DEFINITION_RE = RSeqs [RMBol, RLit ''+'', RCls (\<lambda>c. is_lower_ascii c \<or> is_upper_ascii c \<or> c = CHR ''_''),
     RLazy (RCls (\<lambda>c. is_word c \<or> is_space c \<or> c = CHR ''*'')), RCls (\<lambda>c. is_space c \<or> c = CHR ''*''),
     RGrp ''1'' (RPlus (RCls is_word)), RLit ''('']"

definition defined_in :: "string \<Rightarrow> string list" where
  "defined_in patch_text = map (\<lambda>m. grp0 m ''1'') (re_findall DEFINITION_RE patch_text)"

definition frame_diag :: "frame \<Rightarrow> diag" where
  "frame_diag f = \<lparr>dg_file = fm_object f, dg_line = None, dg_level = ''warning'',
     dg_message = fm_function f @ '' uses '' @ show_nat (fm_bytes f) @ '' bytes of stack''\<rparr>"

definition frame_json :: "frame \<Rightarrow> json" where
  "frame_json f = JObj [(''function'', JStr (fm_function f)), (''object'', JStr (fm_object f)), (''bytes'', JInt (int (fm_bytes f)))]"

definition check_stack :: "environ \<Rightarrow> nat \<Rightarrow> check_in \<Rightarrow> path list \<Rightarrow> check_out prog" where
  "check_stack env jobs i patches =
     bind (run_checker env ''checkstack.log'' (make_argv jobs (ci_worktree i) (ci_build_dir i) (ci_flags i) [''checkstack'']))
       (\<lambda>(log, status, t).
     let frames = stack_frames t; large = filter (\<lambda>f. fm_bytes f > CANDIDATE_BYTES) frames in
     bind (if in_series i then bind (map_prog read_text patches) (\<lambda>ts. Ret (concat (map defined_in ts))) else Ret []) (\<lambda>defined.
     let shown = (if in_series i then filter (\<lambda>f. fm_function f \<in> set defined) large else large) in
     Ret (check_result ''checkstack'' (map frame_diag shown) (Some log) (status \<noteq> 0)
       (scope_extra i @ [(''frames'', JList (map frame_json (take 50 frames)))]))))"

definition UAPI_RE :: re where
  "UAPI_RE = RSeqs [RBol, RAlt (RLit ''include/uapi/'') (RSeqs [RLit ''arch/'', RPlus (RCls (\<lambda>c. c \<noteq> CHR ''/'')), RLit ''/include/uapi/''])]"

definition UAPI_REPORT :: string where "UAPI_REPORT = ''appear _not_ to be backwards compatible''"

definition check_uapi :: "environ \<Rightarrow> check_in \<Rightarrow> string \<Rightarrow> check_out prog" where
  "check_uapi env i base_commit =
     (let headers = filter (\<lambda>f. re_match UAPI_RE f \<noteq> None \<and> suffix ''.h'' f) (ci_files i);
          extra = [(''headers'', JList (map JStr headers))] in
      if headers = [] then Ret (check_result ''check-uapi'' [] None False extra)
      else bind (of_result (check_dir env)) (\<lambda>d.
           let errors = d @ [''check-uapi.errors'']; log = d @ [''check-uapi.log''] in
           bind (tee [''env'', ''CC=gcc'', ''scripts/check-uapi.sh'', ''-b'', ''HEAD'', ''-p'', base_commit, ''-l'', path_str errors] log) (\<lambda>status.
           if status = 2 then Raise RuntimeError
           else if status = 1
           then bind (read_text log) (\<lambda>t. if \<not> contains UAPI_REPORT t then Raise RuntimeError
                else Ret (check_result ''check-uapi''
                  [\<lparr>dg_file = path_str errors, dg_line = None, dg_level = ''error'',
                    dg_message = ''a UAPI header changed incompatibly''\<rparr>] (Some log) True extra))
           else Ret (check_result ''check-uapi'' [] (Some log) (status \<noteq> 0) extra))))"

section \<open>Choosing the checks\<close>

definition CHECKS :: "(string, string) dict" where
  "CHECKS = [(''W=1'', ''check_warnings''), (''checkpatch'', ''check_style''), (''sparse'', ''check_sparse''),
     (''checkstack'', ''check_stack''), (''kernel-doc'', ''check_kerneldoc''), (''check-uapi'', ''check_uapi''),
     (''coccicheck'', ''check_cocci''), (''clang-tidy'', ''check_clang''), (''clang-analyzer'', ''check_clang''),
     (''htmldocs'', ''build_htmldocs''), (''rustavailable'', ''check_rustavailable''), (''rustfmt'', ''check_rustfmt''),
     (''clippy'', ''check_clippy''), (''rustdoc'', ''build_rustdoc''), (''rusttest'', ''run_rusttest''),
     (''get_maintainer'', ''find_maintainers'')]"

definition DEFAULT_CHECKS :: "string list" where
  "DEFAULT_CHECKS = [''W=1'', ''checkpatch'', ''sparse'', ''checkstack'', ''kernel-doc'', ''check-uapi'', ''rustavailable'',
     ''rustfmt'', ''clippy'', ''rustdoc'', ''rusttest'', ''get_maintainer'']"

definition RUST_CHECKS :: "string list" where
  "RUST_CHECKS = [''rustavailable'', ''rustfmt'', ''clippy'', ''rustdoc'', ''rusttest'']"

definition CLANG_CHECKS :: "string list" where "CLANG_CHECKS = [''clang-tidy'', ''clang-analyzer'']"

definition SCOPES :: "string list" where "SCOPES = [''series'', ''worktree'']"

definition skip_check :: "bool \<Rightarrow> bool \<Rightarrow> string \<Rightarrow> string option" where
  "skip_check rust clang name =
     (if name \<in> set RUST_CHECKS \<and> \<not> rust then Some ''CONFIG_RUST is not set''
      else if name \<in> set CLANG_CHECKS \<and> \<not> clang then Some ''the Build does not use Clang'' else None)"

record checks_picked =
  cp_checks :: "string list"
  cp_skipped :: "(string, string) dict"
  cp_run :: "(string, bool) dict"
  cp_clang_tools :: "string list"
  cp_rust :: bool

definition skipped_checks :: "bool \<Rightarrow> bool \<Rightarrow> string list \<Rightarrow> (string, string) dict" where
  "skipped_checks rust clang picked =
     fold (\<lambda>n d. case skip_check rust clang n of None \<Rightarrow> d | Some why \<Rightarrow> dict_set n why d) picked []"

definition pick_checks :: "bool \<Rightarrow> bool \<Rightarrow> string list \<Rightarrow> checks_picked" where
  "pick_checks rust clang picked =
     (let skipped = skipped_checks rust clang picked;
          selected = filter (\<lambda>n. n \<in> set picked \<and> n \<notin> set (keys skipped)) (keys CHECKS) in
      \<lparr>cp_checks = selected, cp_skipped = skipped,
        cp_run = fold (\<lambda>n d. dict_set (the (dict_get CHECKS n)) True d) selected
          (fold (\<lambda>s d. dict_set s False d) (map snd CHECKS) []),
        cp_clang_tools = filter (\<lambda>n. n \<in> set selected) CLANG_CHECKS, cp_rust = rust\<rparr>)"

definition select_checks :: "path \<Rightarrow> string list option \<Rightarrow> string \<Rightarrow> checks_picked prog" where
  "select_checks build checks scope =
     (let picked = (case checks of None \<Rightarrow> DEFAULT_CHECKS | Some cs \<Rightarrow> cs) in
      if scope \<notin> set SCOPES then Raise ValueError
      else if list_ex (\<lambda>n. n \<notin> set (keys CHECKS)) picked then Raise ValueError
      else bind (config_has build ''CONFIG_RUST'') (\<lambda>rust.
           bind (config_has build ''CONFIG_CC_IS_CLANG'') (\<lambda>clang.
           Ret (pick_checks rust clang picked))))"

section \<open>Writing the series\<close>

record series_out =
  sr_dir :: path
  sr_base_commit :: string
  sr_commits :: int
  sr_patches :: "path list"
  sr_cover :: "path option"
  sr_files :: "string list"

definition format_patch :: "environ \<Rightarrow> string \<Rightarrow> string \<Rightarrow> string \<Rightarrow> string \<Rightarrow> string \<Rightarrow> series_out prog" where
  "format_patch env worktree base git_ref b4_series subject_prefix =
     (let onto = (if base \<noteq> [] then base else if b4_series \<noteq> [] then git_ref else []) in
      if onto = [] then Raise ValueError
      else bind (resolve_git env) (\<lambda>_.
      bind (resolve_ref (parts worktree) onto) (\<lambda>(target, _).
      bind (git_capture_checked [''-C'', worktree, ''merge-base'', target, ''HEAD'']) (\<lambda>b.
      let commit = strip b in
      bind (git_capture_checked [''-C'', worktree, ''rev-list'', ''--count'', commit @ ''..HEAD'']) (\<lambda>c.
      let commits = read_int (strip c) in
      if commits = 0 then Raise ValueError
      else bind (of_result (check_dir env)) (\<lambda>d.
      let patches = d @ [''patches''] in
      bind (probe (Exists d)) (\<lambda>there.
      bind (only_if there (act (Rmtree d))) (\<lambda>_.
      bind (act (Mkdir patches)) (\<lambda>_.
      bind (git_run ([''-C'', worktree, ''format-patch'', ''--output-directory'', path_str patches, ''--base='' @ commit,
          ''--subject-prefix='' @ subject_prefix] @ (if commits > 1 then [''--cover-letter''] else []) @ [commit])) (\<lambda>_.
      bind (Do (ListDir patches) (\<lambda>r. Ret (sort (filter (suffix ''.patch'') (entries r))))) (\<lambda>written.
      bind (series_files env worktree commit) (\<lambda>names.
      let cover = find (prefix ''0000-'') written in
      Ret \<lparr>sr_dir = patches, sr_base_commit = commit, sr_commits = commits,
        sr_patches = map (\<lambda>n. patches @ [n]) (filter (\<lambda>n. Some n \<noteq> cover) written),
        sr_cover = map_option (\<lambda>n. patches @ [n]) cover, sr_files = names\<rparr>))))))))))))"

section \<open>Reading a log back\<close>

text \<open>The first result of a pattern, step by step.\<close>

definition leads :: "re \<Rightarrow> rst \<Rightarrow> rst \<Rightarrow> bool" where
  "leads r st x = (\<exists>ys. run r st = x # ys)"

lemma leads_seq: "leads r st st1 \<Longrightarrow> leads k st1 x \<Longrightarrow> leads (RSeq r k) st x"
  unfolding leads_def by (elim exE, rule seq_first)

lemma leads_eps: "leads REps st st"
  by (simp add: leads_def)

lemma leads_alt1: "leads r st x \<Longrightarrow> leads (RAlt r q) st x"
  by (auto simp: leads_def)

lemma leads_alt2: "run r st = [] \<Longrightarrow> leads q st x \<Longrightarrow> leads (RAlt r q) st x"
  by (auto simp: leads_def)

lemma leads_opt_skip: "run r st = [] \<Longrightarrow> leads (ROpt r) st st"
  by (rule leads_alt2) (auto intro: leads_eps)

lemma leads_lit: "leads (RLit w) (pre, w @ s, caps) (rev w @ pre, s, caps)"
  by (simp add: leads_def del: RLit.simps)

lemma leads_star: "\<forall>c \<in> set w. p c \<Longrightarrow> s = [] \<or> \<not> p (hd s) \<Longrightarrow> leads (RStar (RCls p)) (pre, w @ s, caps) (rev w @ pre, s, caps)"
  unfolding leads_def by (rule star_cls_first)

lemma leads_grp_plus:
  "\<forall>c \<in> set w. p c \<Longrightarrow> s = [] \<or> \<not> p (hd s) \<Longrightarrow> w \<noteq> []
    \<Longrightarrow> leads (RGrp g (RPlus (RCls p))) (pre, w @ s, caps) (rev w @ pre, s, (g, w) # caps)"
  unfolding leads_def by (rule grp_plus_cls_first)

lemma leads_grp_star:
  "\<forall>c \<in> set w. p c \<Longrightarrow> s = [] \<or> \<not> p (hd s)
    \<Longrightarrow> leads (RGrp g (RStar (RCls p))) (pre, w @ s, caps) (rev w @ pre, s, (g, w) # caps)"
  unfolding leads_def by (rule grp_star_cls_first)

lemma leads_grp:
  "leads r (pre, w @ s, caps) (rev w @ pre, s, caps') \<Longrightarrow> leads (RGrp g r) (pre, w @ s, caps) (rev w @ pre, s, (g, w) # caps')"
  unfolding leads_def run_grp by (elim exE) simp

lemma leads_match: "leads r ([], s, []) (pre', s', caps) \<Longrightarrow> \<exists>m. re_match r s = Some m \<and> m_caps m = caps"
  by (auto simp: leads_def re_match_def first_match_def)

definition level_token :: "string \<Rightarrow> string" where
  "level_token l = (if l = ''check'' then ''CHECK'' else l)"

definition render_diag :: "diag \<Rightarrow> string" where
  "render_diag d = dg_file d @ '':'' @ (case dg_line d of None \<Rightarrow> [] | Some n \<Rightarrow> show_nat n @ '':'') @ '' ''
     @ level_token (dg_level d) @ '':'' @ '' '' @ dg_message d"

definition diag_ok :: "diag \<Rightarrow> bool" where
  "diag_ok d = (dg_file d \<noteq> [] \<and> list_all (\<lambda>c. \<not> is_space_or_colon c) (dg_file d) \<and> strip_dots (dg_file d) = dg_file d
     \<and> dg_level d \<in> set [''error'', ''warning'', ''check''] \<and> line_ok (dg_message d)
     \<and> (dg_message d = [] \<or> \<not> is_space (hd (dg_message d)) \<and> \<not> is_space (last (dg_message d))))"

lemma level_leads:
  assumes "l \<in> set [''error'', ''warning'', ''check'']"
  shows "leads (RGrp ''level'' (RAlts (RLit ''warning'') [RLit ''error'', RLit ''WARNING'', RLit ''ERROR'', RLit ''CHECK'', RLit ''CRITICAL'']))
    (pre, level_token l @ s, caps) (rev (level_token l) @ pre, s, (''level'', level_token l) # caps)"
proof -
  have other: "run (RLit w) (pre, v @ s, caps) = []" if "take 2 w \<noteq> take 2 v" "2 \<le> length w" "2 \<le> length v" for w v
  proof (rule run_RLit_other)
    show "\<not> prefix w (v @ s)"
    proof
      assume "prefix w (v @ s)"
      then obtain t where "v @ s = w @ t" by (auto simp: prefix_def)
      then have "take 2 (v @ s) = take 2 (w @ t)" by simp
      with that show False by simp
    qed
  qed
  consider "l = ''error''" | "l = ''warning''" | "l = ''check''" using assms by auto
  then show ?thesis
  proof cases
    case 1
    then have "level_token l = ''error''" by (simp add: level_token_def)
    then show ?thesis
      unfolding RAlts.simps by (simp only:, intro leads_grp leads_alt2 [OF other] leads_alt1 [OF leads_lit]) simp_all
  next
    case 2
    then have "level_token l = ''warning''" by (simp add: level_token_def)
    then show ?thesis unfolding RAlts.simps by (simp only:, intro leads_grp leads_alt1 [OF leads_lit])
  next
    case 3
    then have t: "level_token l = ''CHECK''" by (simp add: level_token_def)
    show ?thesis
      unfolding RAlts.simps t
      by (rule leads_grp, (rule leads_alt2 [OF other], simp, simp, simp)+, rule leads_alt1 [OF leads_lit])
  qed
qed

text \<open>What follows the file and the line, whatever they captured.\<close>

lemma tail_leads:
  assumes "l \<in> set [''error'', ''warning'', ''check'']" "line_ok msg" "msg = [] \<or> \<not> is_space (hd msg)"
  shows "leads (RSeqs [ROpt (RSeqs [RPlus RDigit, ROpt (RSeq (RLit ''-'') (RPlus RDigit)), RLit '':'']), RStar RSpace, ROpt (RLit ''fatal ''),
     RGrp ''level'' (RAlts (RLit ''warning'') [RLit ''error'', RLit ''WARNING'', RLit ''ERROR'', RLit ''CHECK'', RLit ''CRITICAL'']),
     RLit '':'', RStar RSpace, RGrp ''message'' (RStar RDot), REol])
    (pre, '' '' @ level_token l @ '':'' @ '' '' @ msg, caps)
    (rev msg @ '' '' @ '':'' @ rev (level_token l) @ '' '' @ pre, [], (''message'', msg) # (''level'', level_token l) # caps)"
proof -
  have tok: "level_token l = c # u \<Longrightarrow> \<not> is_space c \<and> c \<noteq> CHR ''f''" for c u
    using assms(1) by (auto simp: level_token_def is_space_def)
  have space: "is_space (CHR '' '')" by (simp add: is_space_def)
  have one: "leads (ROpt (RSeqs [RPlus RDigit, ROpt (RSeq (RLit ''-'') (RPlus RDigit)), RLit '':'']))
      (pre, '' '' @ t, caps) (pre, '' '' @ t, caps)" for t
    by (rule leads_opt_skip) (simp add: is_digit_def)
  have two: "leads (RStar RSpace) (pre, '' '' @ level_token l @ t, caps) (rev '' '' @ pre, level_token l @ t, caps)" for t
    using assms(1) space by (intro leads_star) (auto simp: level_token_def is_space_def)
  have three: "leads (ROpt (RLit ''fatal '')) (pre, level_token l @ t, caps) (pre, level_token l @ t, caps)" for pre t
    using assms(1) by (intro leads_opt_skip) (auto simp: level_token_def)
  have colon: "leads (RLit '':'') (pre, '':'' @ t, caps) (rev '':'' @ pre, t, caps)" for pre t caps by (rule leads_lit)
  have blank: "leads (RStar RSpace) (pre, '' '' @ msg, caps) (rev '' '' @ pre, msg, caps)" for pre caps
    using assms(3) space by (intro leads_star) auto
  have message: "leads (RGrp ''message'' (RStar RDot)) (pre, msg, caps) (rev msg @ pre, [], (''message'', msg) # caps)" for pre caps
    using leads_grp_star [where w = msg and p = not_nl and s = "[]" and g = "''message''" and pre = pre and caps = caps] no_nl [OF assms(2)] by (auto simp: not_nl_def)
  have eol: "leads (RSeq REol REps) (pre, [], caps) (pre, [], caps)" for pre caps by (simp add: leads_def)
  note steps = leads_seq [OF one leads_seq [OF two leads_seq [OF three leads_seq [OF level_leads [OF assms(1)]
    leads_seq [OF colon leads_seq [OF blank leads_seq [OF message eol]]]]]]]
  show ?thesis using steps by simp
qed

lemma diag_match:
  assumes "diag_ok d"
  shows "\<exists>m. re_match DIAGNOSTIC (render_diag d) = Some m
    \<and> m_caps m = [(''message'', dg_message d), (''level'', level_token (dg_level d))]
        @ (case dg_line d of None \<Rightarrow> [] | Some n \<Rightarrow> [(''line'', show_nat n)]) @ [(''file'', dg_file d)]"
proof -
  let ?f = "dg_file d" and ?l = "dg_level d" and ?m = "dg_message d"
  let ?rest = "'' '' @ level_token ?l @ '':'' @ '' '' @ ?m"
  let ?at = "case dg_line d of None \<Rightarrow> [] | Some n \<Rightarrow> show_nat n @ '':''"
  have path: "leads (RGrp ''file'' RName) ([], ?f @ '':'' @ t, []) (rev ?f @ [], '':'' @ t, [(''file'', ?f)])" for t
    using assms by (intro leads_grp_plus) (auto simp: diag_ok_def list_all_iff is_space_or_colon_def)
  have colon: "leads (RLit '':'') (pre, '':'' @ t, caps) (rev '':'' @ pre, t, caps)" for pre t caps by (rule leads_lit)
  have line: "\<exists>pre'. leads (ROpt (RSeq (RGrp ''line'' (RPlus RDigit)) (RLit '':''))) (pre, ?at @ ?rest, caps)
      (pre', ?rest, (case dg_line d of None \<Rightarrow> [] | Some n \<Rightarrow> [(''line'', show_nat n)]) @ caps)" for pre caps
  proof (cases "dg_line d")
    case None
    have "run (RSeq (RGrp ''line'' (RPlus RDigit)) (RLit '':'')) (pre, ?rest, caps) = []" by (simp add: run_grp is_digit_def)
    with None show ?thesis by (auto intro!: exI leads_opt_skip)
  next
    case (Some n)
    have "leads (RGrp ''line'' (RPlus RDigit)) (pre, show_nat n @ '':'' @ ?rest, caps)
        (rev (show_nat n) @ pre, '':'' @ ?rest, (''line'', show_nat n) # caps)"
      using show_nat_digits by (intro leads_grp_plus) (auto simp: is_digit_def simp del: show_nat.simps)
    from leads_alt1 [OF leads_seq [OF this colon]] Some show ?thesis by (auto simp del: show_nat.simps)
  qed
  obtain pre' where line': "leads (ROpt (RSeq (RGrp ''line'' (RPlus RDigit)) (RLit '':''))) (rev '':'' @ rev ?f @ [], ?at @ ?rest, [(''file'', ?f)])
      (pre', ?rest, (case dg_line d of None \<Rightarrow> [] | Some n \<Rightarrow> [(''line'', show_nat n)]) @ [(''file'', ?f)])"
    using line by blast
  have bol: "leads RBol ([], t, []) ([], t, [])" for t by (simp add: leads_def)
  have ok: "?l \<in> set [''error'', ''warning'', ''check'']" "line_ok ?m" "?m = [] \<or> \<not> is_space (hd ?m)"
    using assms by (auto simp: diag_ok_def)
  note all = leads_seq [OF bol leads_seq [OF path leads_seq [OF colon leads_seq [OF line' tail_leads [OF ok]]]]]
  have "render_diag d = ?f @ '':'' @ ?at @ ?rest" by (simp add: render_diag_def)
  with leads_match [OF all] show ?thesis unfolding DIAGNOSTIC_def RSeqs.simps by simp
qed

lemma diag_of_render:
  assumes "diag_ok d"
  shows "diag_of [] (render_diag d) = Some d"
proof -
  obtain m where m: "re_match DIAGNOSTIC (render_diag d) = Some m"
    and caps: "m_caps m = [(''message'', dg_message d), (''level'', level_token (dg_level d))]
        @ (case dg_line d of None \<Rightarrow> [] | Some n \<Rightarrow> [(''line'', show_nat n)]) @ [(''file'', dg_file d)]"
    using diag_match [OF assms] by blast
  have fields: "grp0 m ''file'' = dg_file d" "grp0 m ''message'' = dg_message d" "grp0 m ''level'' = level_token (dg_level d)"
    "line_of m = dg_line d"
    by (auto simp: grp0_def grp_def caps line_of_def split: option.splits simp del: show_nat.simps)
  have "the (dict_get LEVELS (level_token (dg_level d))) = dg_level d"
    using assms by (auto simp: diag_ok_def level_token_def LEVELS_def)
  moreover have "worktree_path (dg_file d) [] = dg_file d" using assms by (simp add: worktree_path_def diag_ok_def)
  moreover have "strip (dg_message d) = dg_message d" using assms by (intro strip_by_id) (auto simp: diag_ok_def)
  ultimately show ?thesis by (simp add: diag_of_def m fields)
qed

lemma diags_from_dedup: "list_all2 (\<lambda>l d. diag_of worktree l = Some d) ls ds \<Longrightarrow> diags_from worktree found ls = dedup_acc found ds"
  by (induction arbitrary: found rule: list_all2_induct) auto

lemma render_diag_line: "diag_ok d \<Longrightarrow> line_ok (render_diag d)"
proof -
  assume ok: "diag_ok d"
  have "line_ok (dg_file d)"
    using ok newline_space by (force simp: diag_ok_def list_all_iff line_ok_def is_space_or_colon_def)
  moreover have "line_ok (level_token (dg_level d))" using ok by (auto simp: diag_ok_def level_token_def is_newline_def)
  ultimately show ?thesis
    using ok by (auto simp: render_diag_def diag_ok_def is_newline_def split: option.splits simp del: show_nat.simps)
qed



section \<open>Every picked check runs or says why not\<close>

lemma skipped_checks_get:
  "dict_get (fold (\<lambda>n d. case skip_check rust clang n of None \<Rightarrow> d | Some why \<Rightarrow> dict_set n why d) picked d0) n =
    (if n \<in> set picked \<and> skip_check rust clang n \<noteq> None then skip_check rust clang n else dict_get d0 n)"
  by (induction picked arbitrary: d0) (auto split: option.splits)

lemma skipped_get: "dict_get (skipped_checks rust clang picked) n = (if n \<in> set picked then skip_check rust clang n else None)"
  by (simp add: skipped_checks_def skipped_checks_get)

lemma skipped_keys: "n \<in> set (keys (skipped_checks rust clang picked)) \<longleftrightarrow> n \<in> set picked \<and> skip_check rust clang n \<noteq> None"
  using skipped_get [of rust clang picked n] map_of_eq_None_iff [of "skipped_checks rust clang picked" n] by (auto split: if_splits)

lemma run_flags_get:
  "dict_get (fold (\<lambda>n d. dict_set (f n) v d) ns d0) s = (if s \<in> f ` set ns then Some v else dict_get d0 s)"
  by (induction ns arbitrary: d0) auto

text \<open>
  Every check that was asked for runs or is listed with the reason it does not. The step returns for every list of
  known checks and a known scope, whatever the Build's configuration is; then a check that was asked for is skipped
  exactly when the configuration rules it out and selected otherwise, nothing else is selected, and a step of the flow
  is switched on exactly when one of the selected checks is its work.
\<close>

theorem checks_accounted:
  assumes "scope \<in> set SCOPES" and "list_all (\<lambda>n. n \<in> set (keys CHECKS)) picked"
    and "exec (config_has build ''CONFIG_RUST'') h w = (Inr rust, w1)"
    and "exec (config_has build ''CONFIG_CC_IS_CLANG'') h w1 = (Inr clang, w2)"
  shows "\<exists>p. exec (select_checks build (Some picked) scope) h w = (Inr p, w2)
    \<and> set (cp_checks p) = {n \<in> set picked. skip_check rust clang n = None}
    \<and> (\<forall>n. dict_get (cp_skipped p) n = (if n \<in> set picked then skip_check rust clang n else None))
    \<and> (\<forall>s. dict_get (cp_run p) s =
          (if s \<in> set (map snd CHECKS) then Some (list_ex (\<lambda>n. dict_get CHECKS n = Some s) (cp_checks p)) else None))"
proof -
  let ?p = "pick_checks rust clang picked"
  let ?step = "\<lambda>n. the (dict_get CHECKS n)"
  have known: "\<not> list_ex (\<lambda>n. n \<notin> set (keys CHECKS)) picked" using assms(2) by (auto simp: list_ex_iff list_all_iff)
  have "exec (select_checks build (Some picked) scope) h w = (Inr ?p, w2)"
    unfolding select_checks_def option.case Let_def if_not_P [OF iffD2 [OF not_not assms(1)]] if_not_P [OF known]
    by (simp add: exec_bind assms(3,4))
  moreover have checks: "cp_checks ?p = filter (\<lambda>n. n \<in> set picked \<and> skip_check rust clang n = None) (keys CHECKS)"
    unfolding pick_checks_def Let_def by (simp add: skipped_keys del: set_map cong: conj_cong)
  moreover have "set (cp_checks ?p) = {n \<in> set picked. skip_check rust clang n = None}"
    unfolding checks using assms(2) by (auto simp: list_all_iff simp del: set_map)
  moreover have "dict_get (cp_skipped ?p) n = (if n \<in> set picked then skip_check rust clang n else None)" for n
    by (simp add: pick_checks_def Let_def skipped_get)
  moreover have "dict_get (cp_run ?p) s =
      (if s \<in> set (map snd CHECKS) then Some (list_ex (\<lambda>n. dict_get CHECKS n = Some s) (cp_checks ?p)) else None)" for s
  proof -
    have run: "dict_get (cp_run ?p) s = (if s \<in> ?step ` set (cp_checks ?p) then Some True
        else if s \<in> set (map snd CHECKS) then Some False else None)"
      unfolding pick_checks_def Let_def by (simp add: run_flags_get [of ?step] run_flags_get [of "\<lambda>s. s"] del: set_map)
    have "\<exists>v. dict_get CHECKS n = Some v" if "n \<in> set (cp_checks ?p)" for n
      using that unfolding checks by (auto simp: weak_map_of_SomeI)
    then have own: "s \<in> ?step ` set (cp_checks ?p) \<longleftrightarrow> list_ex (\<lambda>n. dict_get CHECKS n = Some s) (cp_checks ?p)"
      by (force simp: list_ex_iff)
    moreover have "list_ex (\<lambda>n. dict_get CHECKS n = Some s) (cp_checks ?p) \<Longrightarrow> s \<in> set (map snd CHECKS)"
      by (force simp: list_ex_iff dest: map_of_SomeD)
    ultimately show ?thesis unfolding run own by auto
  qed
  ultimately show ?thesis by blast
qed

theorem checks_accounted_witness:
  "\<exists>p. exec (select_checks [''b''] (Some [''clippy'', ''sparse'']) ''series'') (\<lambda>w c. (\<lparr>rc = 1, out = [], entries = []\<rparr>, w)) () = (Inr p, ())
    \<and> set (cp_checks p) = {''sparse''} \<and> dict_get (cp_skipped p) ''clippy'' = Some ''CONFIG_RUST is not set''
    \<and> dict_get (cp_run p) ''check_sparse'' = Some True"
proof -
  let ?h = "\<lambda>w c. (\<lparr>rc = 1, out = [], entries = []\<rparr>, w)"
  have no: "exec (config_has [''b''] c) ?h () = (Inr False, ())" for c by (simp add: config_has_def probe_def holds_def)
  have pre: "''series'' \<in> set SCOPES" "list_all (\<lambda>n. n \<in> set (keys CHECKS)) [''clippy'', ''sparse'']" by code_simp+
  obtain p where p: "exec (select_checks [''b''] (Some [''clippy'', ''sparse'']) ''series'') ?h () = (Inr p, ())"
    "set (cp_checks p) = {n \<in> set [''clippy'', ''sparse'']. skip_check False False n = None}"
    and skips: "\<forall>n. dict_get (cp_skipped p) n = (if n \<in> set [''clippy'', ''sparse''] then skip_check False False n else None)"
    and flags: "\<forall>s. dict_get (cp_run p) s =
      (if s \<in> set (map snd CHECKS) then Some (list_ex (\<lambda>n. dict_get CHECKS n = Some s) (cp_checks p)) else None)"
    using checks_accounted [OF pre no no] by blast
  have p3: "dict_get (cp_skipped p) ''clippy'' = skip_check False False ''clippy''" using skips [rule_format, of "''clippy''"] by simp
  note p4 = flags [rule_format, of "''check_sparse''"]
  have skip: "skip_check False False ''clippy'' = Some ''CONFIG_RUST is not set''" "skip_check False False ''sparse'' = None" by code_simp+
  have two: "{n \<in> set [a, b]. P n} = {b}" if "\<not> P a" "P b" for a b :: string and P using that by auto
  have "set (cp_checks p) = {''sparse''}" unfolding p(2) by (rule two) (simp_all only: skip option.distinct simp_thms)
  moreover have "''check_sparse'' \<in> set (map snd CHECKS)" "dict_get CHECKS ''sparse'' = Some ''check_sparse''" by code_simp+
  ultimately have "dict_get (cp_run p) ''check_sparse'' = Some True" unfolding p4 by (simp add: list_ex_iff)
  with p(1) p3 \<open>set (cp_checks p) = {''sparse''}\<close> skip(1) show ?thesis by metis
qed

end
