(* ===== verification/BuildCheck.thy ===== *)
theory BuildCheck
  imports Bisect MakeFlags
begin

text \<open>
  The payload of a bisect that boots no guest, \<open>f/kernel/check_usertests.py\<close>: whether the harnesses compile at the
  candidate. Its report is the one the bisect step reads next; the last section puts the two together. The pattern
  of the failure that is hunted is the user's: whether it is found in a text is the parameter \<open>search\<close>. The report
  is the JSON value that is written and read, as in \<open>Bisect\<close>.
\<close>

definition SPARSE_TREES :: "string list" where
  "SPARSE_TREES = [''tools'', ''include'', ''lib'', ''mm'']"

record build_report =
  br_status :: string
  br_candidate :: string
  br_harnesses :: "string list"
  br_failed :: "string list"
  br_matched :: "bool option"

text \<open>One harness: what its make printed, and whether it failed.\<close>

definition build_harness :: "path \<Rightarrow> nat \<Rightarrow> string \<Rightarrow> (bool \<times> string) prog" where
  "build_harness repo jobs h =
     bind (git_run [''-C'', path_str repo, ''clean'', ''-ffdx'', ''--'', ''tools/testing/'' @ h]) (\<lambda>_.
     Do (Dev ''build-usertests'' [''make'', ''--directory='' @ path_str (repo @ [''tools'', ''testing''] @ parts h),
         ''--jobs='' @ show_nat jobs]) (\<lambda>r. Ret (holds r, out r)))"

definition build_verdict :: "(string \<Rightarrow> string \<Rightarrow> bool) \<Rightarrow> string \<Rightarrow> (string \<times> bool \<times> string) list \<Rightarrow> string \<times> bool option" where
  "build_verdict search error_re runs =
     (let bad = filter (\<lambda>(h, ok, t). \<not> ok) runs in
      if bad = [] then (''passed'', None)
      else if error_re = [] then (''failed'', None)
      else if search error_re (join nl (map (\<lambda>(h, ok, t). t) bad)) then (''failed'', Some True)
      else (''passed'', Some False))"

definition build_report_of :: "(string \<Rightarrow> string \<Rightarrow> bool) \<Rightarrow> string \<Rightarrow> string \<Rightarrow> (string \<times> bool \<times> string) list \<Rightarrow> build_report" where
  "build_report_of search error_re candidate runs =
     (case build_verdict search error_re runs of (status, matched) \<Rightarrow>
       \<lparr>br_status = status, br_candidate = candidate, br_harnesses = map fst runs,
         br_failed = map fst (filter (\<lambda>(h, ok, t). \<not> ok) runs), br_matched = matched\<rparr>)"

definition report_json :: "build_report \<Rightarrow> json" where
  "report_json r = JObj [(''status'', JStr (br_status r)), (''candidate'', JStr (br_candidate r)),
     (''harnesses'', JList (map JStr (br_harnesses r))), (''failed'', JList (map JStr (br_failed r))),
     (''matched'', (case br_matched r of None \<Rightarrow> JNull | Some b \<Rightarrow> JBool b))]"

definition wanted_harnesses :: "string list option \<Rightarrow> string list" where
  "wanted_harnesses harnesses =
     filter (\<lambda>h. h \<noteq> []) (case harnesses of None \<Rightarrow> keys USERTESTS_CATALOG | Some hs \<Rightarrow> if hs = [] then keys USERTESTS_CATALOG else hs)"

text \<open>\<open>text\<close> is \<open>json.dumps(report, indent=2)\<close> with a newline, a text that parses back to the report.\<close>

definition check_usertests ::
  "(string \<Rightarrow> string \<Rightarrow> bool) \<Rightarrow> (json \<Rightarrow> string) \<Rightarrow> environ \<Rightarrow> nat \<Rightarrow> string \<Rightarrow> string \<Rightarrow> string list option \<Rightarrow> string \<Rightarrow> build_report prog" where
  "check_usertests search dump env jobs vm_name candidate harnesses error_re =
     (let eff = wanted_harnesses harnesses in
      if list_ex (\<lambda>h. h \<notin> set (keys USERTESTS_CATALOG)) eff then Raise ValueError
      else if candidate = [] then Raise ValueError
      else case dict_get env ''SYSTEM_DIR'' of None \<Rightarrow> Raise KeyError | Some system \<Rightarrow>
        (let sdir = path_join (parts system @ [''bisect'']) vm_name; repo = sdir @ [''repo''] in
         bind (probe (IsDir repo)) (\<lambda>there.
         if \<not> there then Raise RuntimeError else
         bind (of_result (workers_env env)) (\<lambda>_.
         bind (resolve_git env) (\<lambda>_.
         bind (git_run ([''-C'', path_str repo, ''sparse-checkout'', ''set''] @ SPARSE_TREES)) (\<lambda>_.
         bind (git_run [''-C'', path_str repo, ''checkout'', ''--force'', ''--detach'', candidate]) (\<lambda>_.
         bind (map_prog (\<lambda>h. bind (build_harness repo jobs h) (\<lambda>r. Ret (h, r))) eff) (\<lambda>runs.
         let report = build_report_of search error_re candidate runs in
         bind (act (WriteText (sdir @ [''report.json'']) (dump (report_json report)))) (\<lambda>_. Ret report)))))))))"

section \<open>The bisect reads it\<close>

text \<open>
  What \<open>_fresh_verdict\<close> takes from a parsed report: the status, and the runtimes of the items, whole numbers in this
  model; an item is an object, as the collect steps write it (Python raises on another one).
\<close>

definition item_runtime :: "json \<Rightarrow> int option" where
  "item_runtime i = (case jget [''runtime''] i of Some (JInt n) \<Rightarrow> Some n | _ \<Rightarrow> None)"

definition read_report :: "json \<Rightarrow> report option" where
  "read_report v =
     (case v of
        JObj d \<Rightarrow> Some \<lparr>rep_status = (case dict_get d ''status'' of Some (JStr s) \<Rightarrow> Some s | _ \<Rightarrow> None),
          rep_runtimes = (case dict_get d ''items'' of Some (JList xs) \<Rightarrow> map item_runtime xs | _ \<Rightarrow> [])\<rparr>
      | _ \<Rightarrow> None)"

lemma map_prog_names:
  "exec (map_prog (\<lambda>h. bind (f h) (\<lambda>r. Ret (h, r))) hs) m w = (Inr runs, w') \<Longrightarrow> map fst runs = hs"
  by (induction hs arbitrary: w runs) (auto simp: exec_bind split: prod.splits sum.splits)


definition quiet_build :: "unit machine" where
  "quiet_build w c = (\<lparr>rc = (case c of Dev _ _ \<Rightarrow> 2 | _ \<Rightarrow> 0), out = ''xarray.c: error'', entries = []\<rparr>, w)"


end
