(* ===== verification/Lifecycle.thy ===== *)
theory Lifecycle
  imports Qsu Mirrors Steps Store Identity JsonText
begin

text \<open>
  The life of a guest on its host: \<open>f/qsu/destroy.py\<close>, \<open>f/qsu/boot.py\<close>, \<open>f/qsu/settle.py\<close>, \<open>f/qsu/stop.py\<close>,
  \<open>f/qsu/status.py\<close>, \<open>f/qsu/resolve.py\<close>, and where \<open>f/qsu/virtiofsd/render.py\<close> puts the files of a share. The two
  waits meet a clock and an answer in each round, as those of \<open>Wait\<close> do. \<open>Path.glob\<close> with one star is a choice of
  the names of a directory; the names of guests have no pattern characters of their own.
\<close>

section \<open>Where a guest's files are\<close>

definition share_env :: "path \<Rightarrow> string \<Rightarrow> string \<Rightarrow> path" where
  "share_env cfg vm tg = path_join (cfg @ [''virtiofsd'']) (vm @ ''-'' @ tg @ ''.env'')"

definition share_dropin :: "path \<Rightarrow> string \<Rightarrow> string \<Rightarrow> path" where
  "share_dropin cfg vm tg =
     path_join (cfg @ [''user'']) (''virtiofsd@'' @ vm @ ''-'' @ tg @ ''.service.d/override.conf'')"

definition fixed_targets :: "path \<Rightarrow> path \<Rightarrow> path \<Rightarrow> path \<Rightarrow> string \<Rightarrow> path list" where
  "fixed_targets cfg state workers system vm =
     [path_join (cfg @ [''qemu-system'']) (vm @ ''.env''),
      path_join (cfg @ [''user'']) (''qemu-system@'' @ vm @ ''.service.d''),
      state,
      path_join (workers @ [''shared'', ''vm'']) (vm @ ''.vars.json''),
      path_join (system @ [''ssh'', ''config.d'']) (vm @ ''.conf'')]"

definition glob_name :: "string \<Rightarrow> string \<Rightarrow> string \<Rightarrow> bool" where
  "glob_name pre post n = (prefix pre n \<and> suffix post n \<and> length pre + length post \<le> length n)"

definition glob_dir :: "path \<Rightarrow> string \<Rightarrow> string \<Rightarrow> path list prog" where
  "glob_dir d pre post =
     Do (ListDir d) (\<lambda>r. Ret (map (\<lambda>n. d @ [n]) (filter (glob_name pre post) (if holds r then entries r else []))))"

section \<open>Destroying\<close>

text \<open>\<open>_rm\<close>: what was removed, if anything was there.\<close>

definition remove_path :: "path \<Rightarrow> string option prog" where
  "remove_path p =
     bind (probe (IsDir p)) (\<lambda>dir.
     bind (if dir then probe (IsSymlink p) else Ret False) (\<lambda>linked.
     if dir \<and> \<not> linked then bind (act (Rmtree p)) (\<lambda>_. Ret (Some (path_str p)))
     else bind (probe (Exists p)) (\<lambda>there.
          bind (if there then Ret True else probe (IsSymlink p)) (\<lambda>there.
          if there then bind (act (Unlink p)) (\<lambda>_. Ret (Some (path_str p))) else Ret None))))"

definition remove_all :: "path list \<Rightarrow> string list prog" where
  "remove_all ps = bind (map_prog remove_path ps) (\<lambda>rs. Ret (List.map_filter id rs))"

definition shared_targets :: "path \<Rightarrow> path list" where
  "shared_targets cfg =
     [cfg @ [''user'', ''qemu-system@.service''], cfg @ [''user'', ''virtiofsd@.service''],
      cfg @ [''user'', ''virtiofsd@.socket''], cfg @ [''qemu-system''], cfg @ [''virtiofsd'']]"

definition teardown_shared :: "path \<Rightarrow> string list prog" where
  "teardown_shared cfg =
     bind (user_systemctl_status [''stop'', ''virtiofsd@*.socket'']) (\<lambda>_. remove_all (shared_targets cfg))"

definition targets :: "environ \<Rightarrow> path \<Rightarrow> path \<Rightarrow> path \<Rightarrow> string \<Rightarrow> path list prog" where
  "targets env user_home cfg workers vm =
     bind (of_result (system_dir env)) (\<lambda>system.
     bind (glob_dir (cfg @ [''user'']) (''virtiofsd@'' @ vm @ ''-'') ''.service.d'') (\<lambda>dropins.
     bind (glob_dir (cfg @ [''virtiofsd'']) (vm @ ''-'') ''.env'') (\<lambda>envs.
     Ret (fixed_targets cfg (state_dir env user_home vm) workers system vm @ dropins @ envs))))"

record destroyed_vm =
  dv_name :: string
  dv_stopped :: bool
  dv_removed :: "string list"

record destroy_out =
  do_names :: "string list"
  do_destroyed :: "destroyed_vm list"
  do_removed :: "string list"
  do_shared_torn_down :: bool

definition destroy_vm :: "environ \<Rightarrow> path \<Rightarrow> path \<Rightarrow> path \<Rightarrow> string \<Rightarrow> destroyed_vm prog" where
  "destroy_vm env user_home cfg workers vm =
     bind (user_systemctl_status [''stop'', ''qemu-system@'' @ vm @ ''.service'']) (\<lambda>status.
     bind (targets env user_home cfg workers vm) (\<lambda>ps.
     bind (remove_all ps) (\<lambda>removed.
     Ret \<lparr>dv_name = vm, dv_stopped = (status = 0), dv_removed = removed\<rparr>)))"

definition destroy :: "environ \<Rightarrow> path \<Rightarrow> string list \<Rightarrow> destroy_out prog" where
  "destroy env user_home vm_names =
     (let names = dedup vm_names in
      if names = [] then Raise ValueError else
      bind (of_result (workers_env env)) (\<lambda>workers.
      let cfg = systemd_config env user_home None in
      bind (map_prog (destroy_vm env user_home cfg workers) names) (\<lambda>gone.
      bind (glob_dir (cfg @ [''qemu-system'']) [] ''.env'') (\<lambda>left.
      bind (if left = [] then teardown_shared cfg else Ret []) (\<lambda>shared.
      bind (user_systemctl_status [''daemon-reload'']) (\<lambda>_.
      Ret \<lparr>do_names = names, do_destroyed = gone, do_removed = concat (map dv_removed gone) @ shared,
        do_shared_torn_down = (left = [])\<rparr>))))))"

section \<open>What is left\<close>

text \<open>A host's files as the list of their paths; what is below a path in the list is a directory.\<close>

definition names_below :: "path list \<Rightarrow> path \<Rightarrow> string list" where
  "names_below files d = dedup (List.map_filter (\<lambda>p. if strict_prefix d p then Some (p ! length d) else None) files)"

definition yes_no :: "bool \<Rightarrow> resp" where
  "yes_no b = \<lparr>rc = (if b then 0 else 1), out = [], entries = []\<rparr>"

definition files_machine :: "path list machine" where
  "files_machine files c =
     (case c of
        IsDir p \<Rightarrow> (yes_no (list_ex (strict_prefix p) files), files)
      | Exists p \<Rightarrow> (yes_no (list_ex (prefix p) files), files)
      | IsSymlink p \<Rightarrow> (yes_no False, files)
      | ListDir d \<Rightarrow> (\<lparr>rc = 0, out = [], entries = names_below files d\<rparr>, files)
      | Rmtree p \<Rightarrow> (yes_no True, filter (\<lambda>q. \<not> prefix p q) files)
      | Unlink p \<Rightarrow> (yes_no True, filter (\<lambda>q. \<not> prefix p q) files)
      | _ \<Rightarrow> (yes_no True, files))"

text \<open>Which files are below a name of \<open>d\<close> that the pattern matches, and which go with a guest.\<close>

definition caught :: "path \<Rightarrow> string \<Rightarrow> string \<Rightarrow> path \<Rightarrow> bool" where
  "caught d pre post q = (strict_prefix d q \<and> glob_name pre post (q ! length d))"

definition below_any :: "path list \<Rightarrow> path \<Rightarrow> bool" where
  "below_any ps q = list_ex (\<lambda>p. prefix p q) ps"

definition goes_with :: "environ \<Rightarrow> path \<Rightarrow> path \<Rightarrow> path \<Rightarrow> path \<Rightarrow> string \<Rightarrow> path \<Rightarrow> bool" where
  "goes_with env user_home cfg workers system vm q =
     (below_any (fixed_targets cfg (state_dir env user_home vm) workers system vm) q
      \<or> caught (cfg @ [''user'']) (''virtiofsd@'' @ vm @ ''-'') ''.service.d'' q
      \<or> caught (cfg @ [''virtiofsd'']) (vm @ ''-'') ''.env'' q)"

lemma holds_yes_no [simp]: "holds (yes_no b) = b"
  by (simp add: holds_def yes_no_def)

lemma not_below: "\<not> list_ex (prefix p) files \<Longrightarrow> filter (\<lambda>q. \<not> prefix p q) files = files"
  by (auto simp: list_ex_iff intro: filter_True)

lemma exec_remove_path:
  "exec (remove_path p) files_machine files =
     (Inr (if list_ex (prefix p) files then Some (path_str p) else None), filter (\<lambda>q. \<not> prefix p q) files)"
proof -
  have "list_ex (strict_prefix p) files \<Longrightarrow> list_ex (prefix p) files" by (auto simp: list_ex_iff strict_prefix_def)
  then show ?thesis
    by (auto simp: remove_path_def probe_def act_def files_machine_def not_below)
qed

lemma exec_map_remove:
  "\<exists>rs. exec (map_prog remove_path ps) files_machine files = (Inr rs, filter (\<lambda>q. \<not> below_any ps q) files)"
proof (induction ps arbitrary: files)
  case (Cons p ps)
  obtain rs where "exec (map_prog remove_path ps) files_machine (filter (\<lambda>q. \<not> prefix p q) files) =
      (Inr rs, filter (\<lambda>q. \<not> below_any ps q) (filter (\<lambda>q. \<not> prefix p q) files))"
    using Cons.IH by blast
  then show ?case by (simp add: exec_bind exec_remove_path below_any_def conj_commute)
qed (simp add: below_any_def)

lemma exec_remove_all:
  "\<exists>rs. exec (remove_all ps) files_machine files = (Inr rs, filter (\<lambda>q. \<not> below_any ps q) files)"
  using exec_map_remove [of ps files] by (auto simp: remove_all_def exec_bind)

lemma names_below_iff: "n \<in> set (names_below files d) \<longleftrightarrow> (\<exists>p \<in> set files. strict_prefix d p \<and> p ! length d = n)"
  by (force simp: names_below_def List.map_filter_def)

definition globbed :: "path list \<Rightarrow> path \<Rightarrow> string \<Rightarrow> string \<Rightarrow> path list" where
  "globbed files d pre post = map (\<lambda>n. d @ [n]) (filter (glob_name pre post) (names_below files d))"

lemma exec_glob_dir: "exec (glob_dir d pre post) files_machine files = (Inr (globbed files d pre post), files)"
  by (simp add: glob_dir_def files_machine_def globbed_def holds_def)

lemma strict_prefix_next: "strict_prefix d q \<Longrightarrow> \<exists>rest. q = d @ (q ! length d) # rest"
  by (metis append_Nil2 list.exhaust nth_append_length prefixE strict_prefix_def)

lemma globbed_caught: "q \<in> set files \<Longrightarrow> below_any (globbed files d pre post) q = caught d pre post q"
proof
  assume "below_any (globbed files d pre post) q"
  then obtain n rest where "glob_name pre post n" "q = d @ n # rest"
    by (auto simp: below_any_def list_ex_iff globbed_def prefix_def)
  then show "caught d pre post q" by (simp add: caught_def strict_prefix_def)
next
  assume "q \<in> set files" and c: "caught d pre post q"
  then obtain rest where rest: "q = d @ (q ! length d) # rest"
    using strict_prefix_next [of d q] by (auto simp: caught_def)
  moreover have "d @ [q ! length d] \<in> set (globbed files d pre post)"
    using c \<open>q \<in> set files\<close> by (auto simp: globbed_def names_below_iff caught_def)
  moreover have "prefix (d @ [q ! length d]) q" using rest by (metis append.assoc append_Cons append_Nil prefixI)
  ultimately show "below_any (globbed files d pre post) q"
    unfolding below_any_def list_ex_iff by blast
qed

lemma globbed_none: "globbed files d pre post = [] \<longleftrightarrow> \<not> list_ex (caught d pre post) files"
proof -
  have "globbed files d pre post = [] \<longleftrightarrow> (\<forall>n \<in> set (names_below files d). \<not> glob_name pre post n)"
    by (simp add: globbed_def filter_empty_conv)
  also have "\<dots> \<longleftrightarrow> \<not> list_ex (caught d pre post) files"
    unfolding list_ex_iff caught_def using names_below_iff [of _ files d] by metis
  finally show ?thesis .
qed

lemma exec_systemctl: "exec (user_systemctl_status args) files_machine files = (Inr 0, files)"
  by (simp add: user_systemctl_status_def files_machine_def yes_no_def)

lemma exec_destroy_vm:
  assumes "system_dir env = Inr system"
  shows "\<exists>d. exec (destroy_vm env home cfg workers vm) files_machine files =
    (Inr d, filter (\<lambda>q. \<not> goes_with env home cfg workers system vm q) files)"
proof -
  let ?ps = "fixed_targets cfg (state_dir env home vm) workers system vm
    @ globbed files (cfg @ [''user'']) (''virtiofsd@'' @ vm @ ''-'') ''.service.d''
    @ globbed files (cfg @ [''virtiofsd'']) (vm @ ''-'') ''.env''"
  have "exec (targets env home cfg workers vm) files_machine files = (Inr ?ps, files)"
    by (simp add: targets_def assms of_result_def exec_bind exec_glob_dir)
  moreover obtain rs where "exec (remove_all ?ps) files_machine files = (Inr rs, filter (\<lambda>q. \<not> below_any ?ps q) files)"
    using exec_remove_all by blast
  moreover have "filter (\<lambda>q. \<not> below_any ?ps q) files = filter (\<lambda>q. \<not> goes_with env home cfg workers system vm q) files"
    using globbed_caught by (intro filter_cong) (auto simp: goes_with_def below_any_def)
  ultimately show ?thesis by (simp add: destroy_vm_def exec_bind exec_systemctl)
qed

lemma exec_destroy_vms:
  assumes "system_dir env = Inr system"
  shows "\<exists>ds. exec (map_prog (destroy_vm env home cfg workers) vms) files_machine files =
    (Inr ds, filter (\<lambda>q. \<not> list_ex (\<lambda>vm. goes_with env home cfg workers system vm q) vms) files)"
proof (induction vms arbitrary: files)
  case (Cons vm vms)
  obtain d where d: "exec (destroy_vm env home cfg workers vm) files_machine files =
      (Inr d, filter (\<lambda>q. \<not> goes_with env home cfg workers system vm q) files)"
    using exec_destroy_vm [OF assms] by blast
  obtain ds where "exec (map_prog (destroy_vm env home cfg workers) vms) files_machine
       (filter (\<lambda>q. \<not> goes_with env home cfg workers system vm q) files) =
      (Inr ds, filter (\<lambda>q. \<not> list_ex (\<lambda>vm. goes_with env home cfg workers system vm q) vms)
        (filter (\<lambda>q. \<not> goes_with env home cfg workers system vm q) files))"
    using Cons.IH by blast
  with d show ?case by (simp add: exec_bind conj_commute)
qed simp


definition plain_word :: "string \<Rightarrow> bool" where
  "plain_word s = (s \<noteq> [] \<and> CHR ''/'' \<notin> set s)"

definition some_host :: environ where
  "some_host = [(''WORKERS_DIR'', ''/w''), (''SYSTEM_DIR'', ''/s'')]"

definition two_guests :: "path list" where
  "two_guests =
     (let cfg = systemd_config some_host [''h''] None in
      [share_env cfg ''vm'' ''home'', share_env cfg ''vm-b'' ''home'', share_dropin cfg ''vm-b'' ''home'',
       cfg @ [''qemu-system'', ''vm.env''], cfg @ [''qemu-system'', ''vm-b.env'']])"


lemma parts_two:
  assumes "plain_word a" "plain_word b" "a \<noteq> ''.''" "b \<noteq> ''.''"
  shows "parts (a @ ''/'' @ b) = [a, b]"
  using assms by (simp add: parts_def split_chr_append split_chr_no_sep plain_word_def)

lemma share_env_path:
  "plain_word vm \<Longrightarrow> plain_word tg \<Longrightarrow> share_env cfg vm tg = cfg @ [''virtiofsd'', vm @ ''-'' @ tg @ ''.env'']"
  by (cases vm) (simp_all add: share_env_def path_join_def is_absolute_def plain_word_def parts_plain)

lemma share_dropin_path:
  assumes "plain_word vm" "plain_word tg"
  shows "share_dropin cfg vm tg = cfg @ [''user'', ''virtiofsd@'' @ vm @ ''-'' @ tg @ ''.service.d'', ''override.conf'']"
  using parts_two [of "''virtiofsd@'' @ vm @ ''-'' @ tg @ ''.service.d''" "''override.conf''"] assms
  by (simp add: share_dropin_def path_join_def is_absolute_def plain_word_def)

lemma caught_star: "caught d (u @ a) post (d @ (u @ b @ post) # rest) = prefix a b"
proof -
  have "glob_name (u @ a) post (u @ b @ post) = prefix a b"
    by (auto simp: glob_name_def suffix_def dest: prefix_length_le intro: prefix_length_prefix)
  then show ?thesis by (simp add: caught_def strict_prefix_def)
qed

text \<open>The star of a guest's pattern matches the files of a share when the guest's name and a hyphen lead the share's.\<close>

lemma share_files_caught:
  assumes "plain_word w" "plain_word tg"
  shows "caught (cfg @ [''virtiofsd'']) (v @ ''-'') ''.env'' (share_env cfg w tg) = prefix (v @ ''-'') (w @ ''-'' @ tg)"
    and "caught (cfg @ [''user'']) (''virtiofsd@'' @ v @ ''-'') ''.service.d'' (share_dropin cfg w tg)
      = prefix (v @ ''-'') (w @ ''-'' @ tg)"
    and "\<not> caught (cfg @ [''user'']) p s (share_env cfg w tg)"
    and "\<not> caught (cfg @ [''virtiofsd'']) p s (share_dropin cfg w tg)"
proof -
  show "caught (cfg @ [''virtiofsd'']) (v @ ''-'') ''.env'' (share_env cfg w tg) = prefix (v @ ''-'') (w @ ''-'' @ tg)"
    using caught_star [of "cfg @ [''virtiofsd'']" "[]" "v @ ''-''" "''.env''" "w @ ''-'' @ tg" "[]"]
    by (simp add: share_env_path [OF assms])
  show "caught (cfg @ [''user'']) (''virtiofsd@'' @ v @ ''-'') ''.service.d'' (share_dropin cfg w tg)
      = prefix (v @ ''-'') (w @ ''-'' @ tg)"
    using caught_star [of "cfg @ [''user'']" "''virtiofsd@''" "v @ ''-''" "''.service.d''" "w @ ''-'' @ tg" "[''override.conf'']"]
    by (simp add: share_dropin_path [OF assms])
  show "\<not> caught (cfg @ [''user'']) p s (share_env cfg w tg)" "\<not> caught (cfg @ [''virtiofsd'']) p s (share_dropin cfg w tg)"
    by (simp_all add: share_env_path [OF assms] share_dropin_path [OF assms] caught_def strict_prefix_def)
qed

text \<open>
  C22: Which guests a destroyed guest takes with it. After destroying \<open>v\<close> on a host where others are left, a file of
  the share \<open>tg\<close> of the guest \<open>w\<close> is still there if and only if the name of \<open>v\<close> and a hyphen do not lead
  \<open>w-tg\<close>: the shares of every guest whose name extends that of \<open>v\<close> by a hyphen go as well, though nobody asked.
\<close>

theorem destroy_neighbours:
  assumes "workers_env env = Inr workers" "system_dir env = Inr system"
    and "plain_word w" "plain_word tg" "cfg = systemd_config env home None"
    and "f = share_env cfg w tg \<or> f = share_dropin cfg w tg" "f \<in> set files"
    and "\<not> below_any (fixed_targets cfg (state_dir env home v) workers system v) f"
    and "exec (destroy env home [v]) files_machine files = (Inr r, files')" "\<not> do_shared_torn_down r"
  shows "f \<in> set files' \<longleftrightarrow> \<not> prefix (v @ ''-'') (w @ ''-'' @ tg)"
proof -
  have taken: "goes_with env home cfg workers system v f = prefix (v @ ''-'') (w @ ''-'' @ tg)"
    unfolding goes_with_def using assms(6,8) share_files_caught [OF assms(3,4)] by auto
  obtain ds where "exec (map_prog (destroy_vm env home cfg workers) [v]) files_machine files =
      (Inr ds, filter (\<lambda>q. \<not> list_ex (\<lambda>vm. goes_with env home cfg workers system vm q) [v]) files)"
    using exec_destroy_vms [OF assms(2)] by blast
  moreover have "dedup [v] = [v]" by (simp add: dedup_def)
  ultimately have "files' = filter (\<lambda>q. \<not> goes_with env home cfg workers system v q) files"
    using assms(1,9,10) unfolding assms(5)
    by (auto simp: destroy_def Let_def of_result_def exec_bind exec_glob_dir teardown_shared_def exec_systemctl split: if_splits prod.splits sum.splits)
  with assms(7) taken show ?thesis by simp
qed

theorem destroy_neighbours_witness:
  "\<exists>r files'. exec (destroy some_host [''h''] [''vm'']) files_machine two_guests = (Inr r, files')
    \<and> share_env (systemd_config some_host [''h''] None) ''vm-b'' ''home'' \<notin> set files'"
proof -
  have env: "workers_env some_host = Inr [''w'']" "system_dir some_host = Inr [''s'']" by code_simp+
  have plain: "plain_word ''vm-b''" "plain_word ''home''" by (simp_all add: plain_word_def)
  obtain r files' where run: "exec (destroy some_host [''h''] [''vm'']) files_machine two_guests = (Inr r, files')"
    and r: "\<not> do_shared_torn_down r"
  proof -
    have "case exec (destroy some_host [''h''] [''vm'']) files_machine two_guests of
        (Inr r, _) \<Rightarrow> \<not> do_shared_torn_down r | _ \<Rightarrow> False" by code_simp
    with that show thesis by (auto split: prod.splits sum.splits)
  qed
  have there: "share_env (systemd_config some_host [''h''] None) ''vm-b'' ''home'' \<in> set two_guests"
    by (simp add: two_guests_def Let_def)
  have fixed: "\<not> below_any (fixed_targets (systemd_config some_host [''h''] None) (state_dir some_host [''h''] ''vm'') [''w''] [''s''] ''vm'')
      (share_env (systemd_config some_host [''h''] None) ''vm-b'' ''home'')" by code_simp
  have "prefix (''vm'' @ ''-'') (''vm-b'' @ ''-'' @ ''home'')" by simp
  with destroy_neighbours [OF env plain refl disjI1 [OF refl] there fixed run r] run show ?thesis by blast
qed

end
