(* ===== verification/BootSteps.thy ===== *)
theory BootSteps
  imports Lifecycle Suites
begin

text \<open>
  Bringing a guest up: \<open>f/qsu/boot.py\<close>, \<open>f/qsu/settle.py\<close>, \<open>f/qsu/stop.py\<close>, \<open>f/qsu/status.py\<close>, and what a bringup
  that reuses earlier builds boots, \<open>f/qsu/resolve.py\<close>. The clock and the answer each round of a wait meets are the
  ticks of the run; the access to the two devices and the banner of the ssh port are parameters.
\<close>

section \<open>Waiting for a state\<close>

record poll_tick =
  pt_now :: int
  pt_answer :: string

text \<open>The state of the last round (of none, the empty text) and the number of rounds.\<close>

partial_function (option) await_state ::
  "(string \<Rightarrow> bool) \<Rightarrow> int \<Rightarrow> (nat \<Rightarrow> poll_tick) \<Rightarrow> nat \<Rightarrow> string \<Rightarrow> (string \<times> nat) option" where
  "await_state ends deadline ticks k state =
     (if \<not> pt_now (ticks k) < deadline then Some (state, k)
      else let state = strip (pt_answer (ticks k)) in
        if ends state then Some (state, Suc k) else await_state ends deadline ticks (Suc k) state)"

definition last_state :: "(nat \<Rightarrow> poll_tick) \<Rightarrow> nat \<Rightarrow> string \<Rightarrow> string" where
  "last_state ticks n state = (if n = 0 then state else strip (pt_answer (ticks (n - 1))))"

section \<open>Booting\<close>

definition HOST_ACCESS :: "string list" where "HOST_ACCESS = [''/dev/kvm'', ''/dev/vhost-vsock'']"

definition check_host_access :: "(string \<Rightarrow> bool) \<Rightarrow> unit result" where
  "check_host_access accessible = (if filter (\<lambda>d. \<not> accessible d) HOST_ACCESS \<noteq> [] then Inl RuntimeError else Inr ())"

definition vm_unit :: "string \<Rightarrow> string" where
  "vm_unit vm = ''qemu-system@'' @ vm @ ''.service''"

definition set_cid :: "int option \<Rightarrow> int option" where
  "set_cid cid = (case cid of None \<Rightarrow> None | Some c \<Rightarrow> if c = 0 then None else Some c)"

definition ssh_stanza :: "string \<Rightarrow> int \<Rightarrow> path \<Rightarrow> string" where
  "ssh_stanza vm cid priv =
     join nl
       [''Host '' @ vm,
        ''    HostName vsock/'' @ show_int cid,
        ''    ProxyCommand /usr/lib/systemd/systemd-ssh-proxy %h %p'',
        ''    ProxyUseFdpass yes'',
        ''    IdentityFile '' @ path_str priv,
        ''    IdentitiesOnly yes'',
        ''    User root'',
        ''    StrictHostKeyChecking accept-new'',
        ''    UserKnownHostsFile /dev/null'',
        []]"

definition write_ssh_alias :: "environ \<Rightarrow> string \<Rightarrow> int option \<Rightarrow> path option prog" where
  "write_ssh_alias env vm cid =
     bind (of_result (system_dir env)) (\<lambda>system.
     let priv = system @ [''ssh'', ''id_ed25519'']; conf = path_join (system @ [''ssh'', ''config.d'']) (vm @ ''.conf'') in
     case set_cid cid of None \<Rightarrow> Ret None
     | Some c \<Rightarrow> bind (probe (IsFile priv)) (\<lambda>there.
         if \<not> there then Ret None else bind (atomic_write conf (ssh_stanza vm c priv)) (\<lambda>_. Ret (Some conf))))"

definition ssh_command_of :: "string \<Rightarrow> int \<Rightarrow> int option \<Rightarrow> path option \<Rightarrow> string" where
  "ssh_command_of vm port cid conf =
     (if conf \<noteq> None then ''ssh '' @ vm
      else case set_cid cid of
        Some c \<Rightarrow> ''ssh root@vsock/'' @ show_int c
      | None \<Rightarrow> ''ssh -p '' @ show_int port @ '' root@127.0.0.1'')"

record boot_out =
  bo_vm :: string
  bo_ssh_port :: int
  bo_vsock_cid :: "int option"
  bo_ssh_command :: string
  bo_ssh_config :: "path option"
  bo_state_dir :: path
  bo_ssh_ready :: bool

definition boot_start :: "(string \<Rightarrow> bool) \<Rightarrow> environ \<Rightarrow> string \<Rightarrow> unit prog" where
  "boot_start accessible env vm =
     bind (of_result (check_host_access accessible)) (\<lambda>_.
     bind (of_result (workers_env env)) (\<lambda>_.
     bind (user_systemctl [''daemon-reload'']) (\<lambda>_.
     user_systemctl [''restart'', vm_unit vm])))"

definition boot_finish :: "(int \<Rightarrow> bool) \<Rightarrow> environ \<Rightarrow> path \<Rightarrow> string \<Rightarrow> int \<Rightarrow> int option \<Rightarrow> string \<Rightarrow> boot_out prog" where
  "boot_finish banner env user_home vm port cid state =
     (if state \<noteq> ''active'' then
        Do (Dev ''systemd'' [''systemctl'', ''--user'', ''show'', vm_unit vm, ''--property=Result,ExecMainStatus,ExecMainCode''])
          (\<lambda>_. Raise RuntimeError)
      else bind (write_ssh_alias env vm cid) (\<lambda>conf.
        Ret \<lparr>bo_vm = vm, bo_ssh_port = port, bo_vsock_cid = set_cid cid, bo_ssh_command = ssh_command_of vm port cid conf,
          bo_ssh_config = conf, bo_state_dir = state_dir env user_home vm, bo_ssh_ready = banner port\<rparr>))"

definition boot_ends :: "string \<Rightarrow> bool" where
  "boot_ends state = (state = ''active'' \<or> state = ''failed'')"

text \<open>The step whose loop met \<open>ticks\<close>, \<open>start\<close> being the clock when it began; \<open>None\<close> if the loop does not end.\<close>

definition boot ::
  "(string \<Rightarrow> bool) \<Rightarrow> (int \<Rightarrow> bool) \<Rightarrow> environ \<Rightarrow> path \<Rightarrow> string \<Rightarrow> int \<Rightarrow> int option \<Rightarrow> int \<Rightarrow> int \<Rightarrow> (nat \<Rightarrow> poll_tick) \<Rightarrow>
    boot_out prog option" where
  "boot accessible banner env user_home vm port cid wait_timeout start ticks =
     map_option (\<lambda>(state, _). bind (boot_start accessible env vm) (\<lambda>_. boot_finish banner env user_home vm port cid state))
       (await_state boot_ends (start + min wait_timeout 60) ticks 0 [])"

section \<open>Settling, stopping, status\<close>

record settle_out =
  se_vm :: string
  se_state :: string
  se_polls :: nat

definition settle :: "environ \<Rightarrow> string \<Rightarrow> int \<Rightarrow> int \<Rightarrow> (nat \<Rightarrow> poll_tick) \<Rightarrow> settle_out prog option" where
  "settle env vm timeout start ticks =
     map_option (\<lambda>(state, polls). with_guest env vm (\<lambda>_.
         if booted state then Ret \<lparr>se_vm = vm, se_state = state, se_polls = polls\<rparr> else Raise RuntimeError))
       (await_state booted (start + max 1 timeout) ticks 0 [])"

definition stop_vm :: "environ \<Rightarrow> string \<Rightarrow> (string \<times> bool \<times> int) prog" where
  "stop_vm env vm =
     bind (of_result (workers_env env)) (\<lambda>_.
     bind (user_systemctl_status [''stop'', vm_unit vm]) (\<lambda>status. Ret (vm, status = 0, status)))"

record status_out =
  so_active :: bool
  so_is_active :: string
  so_machined :: "string option"
  so_access :: "(string, string) dict"

definition access_lines :: "string \<Rightarrow> int option \<Rightarrow> int option \<Rightarrow> (string, string) dict" where
  "access_lines vm port cid =
     [(''status'', ''systemctl --user status qemu-system@'' @ vm),
      (''logs'', ''journalctl --user-unit=qemu-system@'' @ vm @ ''.service''),
      (''list'', ''machinectl --user list''),
      (''console'', ''socat -,raw,echo=0,escape=0x1d UNIX-CONNECT:$XDG_RUNTIME_DIR/qemu-system/'' @ vm @ ''/console.sock'')]
     @ (case set_cid port of None \<Rightarrow> [] | Some p \<Rightarrow> [(''ssh'', ''ssh -p '' @ show_int p @ '' root@127.0.0.1'')])
     @ (case set_cid cid of None \<Rightarrow> [] | Some c \<Rightarrow> [(''vsock'', ''ssh root@vsock/'' @ show_int c)])"

definition vm_status :: "environ \<Rightarrow> string \<Rightarrow> int option \<Rightarrow> int option \<Rightarrow> status_out prog" where
  "vm_status env vm port cid =
     bind (of_result (workers_env env)) (\<lambda>_.
     Do (Dev ''systemd'' [''systemctl'', ''--user'', ''is-active'', vm_unit vm]) (\<lambda>a.
     Do (Dev ''systemd'' [''machinectl'', ''--user'', ''status'', vm]) (\<lambda>r.
     let is_active = strip (out a); machine = strip (out r) in
     Ret \<lparr>so_active = (is_active = ''active''), so_is_active = is_active,
       so_machined = (if machine = [] then None else Some machine), so_access = access_lines vm port cid\<rparr>)))"

section \<open>What is reused\<close>

definition host_operator :: "environ \<Rightarrow> string option \<Rightarrow> string" where
  "host_operator env login =
     (let home = rstrip_by (\<lambda>c. c = CHR ''/'') (some_text (dict_get env ''HOME''));
          name = (if prefix ''/home/'' home then after_last_chr (CHR ''/'') home else some_text login) in
      if name \<noteq> [] \<and> name \<noteq> ''.'' \<and> name \<noteq> ''..'' \<and> name \<noteq> ''root'' then name else ''kdevops'')"

record kernel_pick =
  kp_image :: string
  kp_modules :: string
  kp_release :: string

definition removeprefix :: "string \<Rightarrow> string \<Rightarrow> string" where
  "removeprefix pre s = (if prefix pre s then drop (length pre) s else s)"

definition pick_kernel :: "install_fs \<Rightarrow> (string \<Rightarrow> string option) \<Rightarrow> string \<Rightarrow> kernel_pick option result" where
  "pick_kernel fs lookup name =
     (if name = [] then Inr None
      else case lookup name of None \<Rightarrow> Inl ValueError
      | Some sp \<Rightarrow> (let release = removeprefix ''kernel-'' name in
          case kernel_run_layer fs sp release of
            (Some img, True) \<Rightarrow> Inr (Some \<lparr>kp_image = img, kp_modules = sp @ ''/lib/modules'', kp_release = release\<rparr>)
          | _ \<Rightarrow> Inl ValueError))"

definition pick_qemu :: "install_fs \<Rightarrow> (string \<Rightarrow> string option) \<Rightarrow> string \<Rightarrow> string option result" where
  "pick_qemu fs lookup name =
     (if name = [] then Inr None
      else case (case lookup name of None \<Rightarrow> [] | Some sp \<Rightarrow> qemu_emulators fs sp) of
        [] \<Rightarrow> Inl ValueError | b # _ \<Rightarrow> Inr (Some b))"

text \<open>The reused closure: its \<open>init\<close> and \<open>initrd\<close>, and the sharing its guest recorded; \<open>sidecar\<close> is the text of that record.\<close>

definition reuse_closure :: "bool \<Rightarrow> string option \<Rightarrow> ((string, json) dict \<times> json) result" where
  "reuse_closure wanted sidecar =
     (if \<not> wanted then Inr ([], JObj [])
      else case (case sidecar of None \<Rightarrow> None | Some t \<Rightarrow> loads t) of
        None \<Rightarrow> Inl ValueError
      | Some v \<Rightarrow>
          andthen (members AttributeError v) (\<lambda>data.
          andthen (members AttributeError (get_or_json data ''closure'' (JObj []))) (\<lambda>closure.
          case dict_get closure ''init'' of
            None \<Rightarrow> Inl ValueError
          | Some i \<Rightarrow> (if \<not> truthy i then Inl ValueError
              else Inr ([(''init'', i), (''initrd'', case dict_get closure ''initrd'' of None \<Rightarrow> JNull | Some x \<Rightarrow> x)],
                        get_or_json data ''sharing'' (JObj []))))))"

record resolve_in =
  ri_kernel_index :: string
  ri_kernel_reuse :: bool
  ri_qemu_index :: string
  ri_qemu_reuse :: bool
  ri_closure_reuse :: bool

record resolve_out =
  ro_kernel :: "kernel_pick option"
  ro_qemu_binary :: "string option"
  ro_closure :: "(string, json) dict"
  ro_sharing :: json
  ro_host_user :: string

text \<open>\<open>main\<close> on a host with the store \<open>h\<close> and the files \<open>fs\<close>.\<close>

definition resolve_artifacts ::
  "environ \<Rightarrow> string option \<Rightarrow> host \<Rightarrow> install_fs \<Rightarrow> string option \<Rightarrow> resolve_in \<Rightarrow> resolve_out result" where
  "resolve_artifacts env login h fs sidecar i =
     (let lookup = (\<lambda>n. local_path env n h);
          qemu = (if ri_qemu_reuse i \<and> ri_qemu_index i = [] then some_text (latest_run_layer env ''qemu'' h) else ri_qemu_index i) in
      if ri_qemu_reuse i \<and> qemu = [] then Inl ValueError
      else if ri_kernel_reuse i \<and> ri_kernel_index i = [] then Inl ValueError
      else if ri_closure_reuse i \<and> workers_env env = Inl KeyError then Inl KeyError
      else andthen (reuse_closure (ri_closure_reuse i) sidecar) (\<lambda>(closure, sharing).
           andthen (pick_kernel fs lookup (ri_kernel_index i)) (\<lambda>kernel.
           andthen (pick_qemu fs lookup qemu) (\<lambda>binary.
           Inr \<lparr>ro_kernel = kernel, ro_qemu_binary = binary, ro_closure = closure, ro_sharing = sharing,
             ro_host_user = host_operator env login\<rparr>))))"

section \<open>The waits end\<close>

lemma await_state_exact:
  assumes "\<And>j. k \<le> j \<Longrightarrow> j < n \<Longrightarrow> pt_now (ticks j) < deadline \<and> \<not> ends (strip (pt_answer (ticks j)))" and "k \<le> n"
    and "\<not> pt_now (ticks n) < deadline \<or> ends (strip (pt_answer (ticks n)))"
    and "state = last_state ticks k []"
  shows "await_state ends deadline ticks k state =
    Some (if pt_now (ticks n) < deadline then (strip (pt_answer (ticks n)), Suc n) else (last_state ticks n [], n))"
  using assms
proof (induction "n - k" arbitrary: k state)
  case 0
  then show ?case by (subst await_state.simps) (auto simp: Let_def)
next
  case (Suc m)
  then have k: "pt_now (ticks k) < deadline" "\<not> ends (strip (pt_answer (ticks k)))" by auto
  have "await_state ends deadline ticks k state = await_state ends deadline ticks (Suc k) (last_state ticks (Suc k) [])"
    using k by (subst await_state.simps) (auto simp: Let_def last_state_def)
  then show ?case using Suc by auto
qed

lemma rounds_enough:
  fixes ticks :: "nat \<Rightarrow> poll_tick"
  assumes "0 < pause" "0 \<le> limit" "\<And>k. pt_now (ticks k) + pause \<le> pt_now (ticks (Suc k))" "start \<le> pt_now (ticks 0)"
  shows "start + limit \<le> pt_now (ticks (nat (limit div pause) + 1))"
proof -
  have "pause * (limit div pause) + limit mod pause = limit" "limit mod pause < pause"
    using assms(1) mult_div_mod_eq [of pause limit] pos_mod_bound [of pause limit] by blast+
  then have "limit < (limit div pause + 1) * pause"
    unfolding mult.commute [of _ pause] distrib_left by linarith
  moreover have "int (nat (limit div pause) + 1) = limit div pause + 1"
    using assms(1,2) by (simp add: pos_imp_zdiv_nonneg_iff)
  ultimately have "limit < int (nat (limit div pause) + 1) * pause" by argo
  with clock_reaches [of pt_now ticks pause start "nat (limit div pause) + 1", OF assms(3,4)] show ?thesis by linarith
qed

lemma await_state_settles:
  fixes ticks :: "nat \<Rightarrow> poll_tick"
  assumes "0 < pause" "0 \<le> limit" "\<And>k. pt_now (ticks k) + pause \<le> pt_now (ticks (Suc k))" "start \<le> pt_now (ticks 0)"
  shows "\<exists>n \<le> nat (limit div pause) + 1.
    list_all (\<lambda>j. pt_now (ticks j) < start + limit \<and> \<not> ends (strip (pt_answer (ticks j)))) [0..<n]
    \<and> (pt_now (ticks n) < start + limit \<longrightarrow> ends (strip (pt_answer (ticks n))))
    \<and> await_state ends (start + limit) ticks 0 [] =
        Some (if pt_now (ticks n) < start + limit then (strip (pt_answer (ticks n)), Suc n) else (last_state ticks n [], n))"
proof -
  let ?N = "nat (limit div pause) + 1"
  let ?stop = "\<lambda>n. \<not> pt_now (ticks n) < start + limit \<or> ends (strip (pt_answer (ticks n)))"
  have "start + limit \<le> pt_now (ticks ?N)" by (rule rounds_enough) (use assms in auto)
  then have late: "?stop ?N" by simp
  define n where "n = (LEAST n. ?stop n)"
  have n: "?stop n" "n \<le> ?N" "\<And>j. j < n \<Longrightarrow> \<not> ?stop j"
    unfolding n_def using LeastI [of ?stop, OF late] Least_le [of ?stop, OF late] not_less_Least by blast+
  have "await_state ends (start + limit) ticks 0 [] =
      Some (if pt_now (ticks n) < start + limit then (strip (pt_answer (ticks n)), Suc n) else (last_state ticks n [], n))"
    by (rule await_state_exact) (use n in \<open>auto simp: last_state_def\<close>)
  then show ?thesis using n by (intro exI [of _ n]) (auto simp: list_all_iff)
qed

lemma last_state_not:
  "list_all (\<lambda>j. p j \<and> \<not> ends (strip (pt_answer (ticks j)))) [0..<n] \<Longrightarrow> \<not> ends [] \<Longrightarrow> \<not> ends (last_state ticks n [])"
  by (cases n) (auto simp: last_state_def list_all_iff)

lemma boot_start_ok:
  assumes "exec (boot_start accessible env vm) m w = (Inr x, w')"
  shows "list_all accessible HOST_ACCESS
    \<and> Dev ''systemd'' [''systemctl'', ''--user'', ''restart'', vm_unit vm] \<in> set (trace (boot_start accessible env vm) m w)"
proof -
  have "\<exists>u. check_host_access accessible = Inr u" "\<exists>p. workers_env env = Inr p"
    using assms by (cases "check_host_access accessible"; cases "workers_env env"; simp add: boot_start_def of_result_def)+
  then obtain p where ok: "check_host_access accessible = Inr ()" "workers_env env = Inr p" by auto
  then have "list_all accessible HOST_ACCESS"
    by (auto simp: check_host_access_def filter_empty_conv list_all_iff split: if_splits)
  moreover have "Dev ''systemd'' [''systemctl'', ''--user'', ''restart'', vm_unit vm] \<in> set (trace (boot_start accessible env vm) m w)"
    using assms by (auto simp: boot_start_def ok of_result_def user_systemctl_def dev_run_def split: prod.splits if_splits)
  ultimately show ?thesis by simp
qed

text \<open>
  C20: A boot ends, and it returns only for a guest that came up. When the clock moves on by at least the pause of two
  seconds a round, the step's loop is over after at most as many rounds as the wait (of a minute at most) has pauses,
  and one more. If the last answer of the host's systemd was not that the unit is active, or came too late, the step
  raises, whatever the host does; and it starts the guest by one restart of its unit before it waits.
\<close>

theorem boot_comes_up:
  assumes "0 \<le> wait" "\<And>k. pt_now (ticks k) + 2 \<le> pt_now (ticks (Suc k))" "start \<le> pt_now (ticks 0)"
  shows "\<exists>n \<le> nat (min wait 60 div 2) + 1. \<exists>p.
    boot accessible banner env home vm port cid wait start ticks = Some p
    \<and> list_all (\<lambda>j. pt_now (ticks j) < start + min wait 60 \<and> \<not> boot_ends (strip (pt_answer (ticks j)))) [0..<n]
    \<and> (is_ok (fst (exec p m w)) \<longrightarrow>
        pt_now (ticks n) < start + min wait 60 \<and> strip (pt_answer (ticks n)) = ''active''
        \<and> list_all accessible HOST_ACCESS
        \<and> Dev ''systemd'' [''systemctl'', ''--user'', ''restart'', vm_unit vm] \<in> set (trace p m w))"
proof -
  let ?T = "min wait 60"
  obtain n where n: "n \<le> nat (?T div 2) + 1"
    and quiet: "list_all (\<lambda>j. pt_now (ticks j) < start + ?T \<and> \<not> boot_ends (strip (pt_answer (ticks j)))) [0..<n]"
    and await: "await_state boot_ends (start + ?T) ticks 0 [] =
        Some (if pt_now (ticks n) < start + ?T then (strip (pt_answer (ticks n)), Suc n) else (last_state ticks n [], n))"
    using await_state_settles [of 2 ?T ticks start boot_ends] assms by auto
  let ?state = "if pt_now (ticks n) < start + ?T then strip (pt_answer (ticks n)) else last_state ticks n []"
  let ?p = "bind (boot_start accessible env vm) (\<lambda>_. boot_finish banner env home vm port cid ?state)"
  have p: "boot accessible banner env home vm port cid wait start ticks = Some ?p"
    by (simp add: boot_def await)
  have "\<not> boot_ends []" by (simp add: boot_ends_def)
  with quiet have stale: "last_state ticks n [] \<noteq> ''active''"
    using last_state_not [of _ boot_ends ticks n] by (force simp: boot_ends_def)
  have up: "pt_now (ticks n) < start + ?T \<and> strip (pt_answer (ticks n)) = ''active''" if ok: "is_ok (fst (exec ?p m w))"
  proof -
    have "?state = ''active''"
    proof (rule ccontr)
      assume "?state \<noteq> ''active''"
      then have "\<not> is_ok (fst (exec (boot_finish banner env home vm port cid ?state) m w1))" for w1
        by (simp add: boot_finish_def split: prod.splits)
      with ok show False by (auto simp: exec_bind split: prod.splits sum.splits)
    qed
    with stale show ?thesis by (auto split: if_splits)
  qed
  have started: "list_all accessible HOST_ACCESS
      \<and> Dev ''systemd'' [''systemctl'', ''--user'', ''restart'', vm_unit vm] \<in> set (trace ?p m w)" if "is_ok (fst (exec ?p m w))"
    using that boot_start_ok [of accessible env vm m w]
    by (auto simp: exec_bind trace_bind split: prod.splits sum.splits)
  from n p quiet up started show ?thesis by blast
qed

theorem boot_comes_up_witness:
  "case boot (\<lambda>_. True) (\<lambda>_. False) some_host [''h''] ''vm'' 2222 (Some 7) 60 100
      (\<lambda>k. \<lparr>pt_now = 100 + 2 * int k, pt_answer = (if k < 3 then ''activating'' else ''active'')\<rparr>) of
     None \<Rightarrow> False
   | Some p \<Rightarrow> is_ok (fst (exec p files_machine [])) \<and>
       Dev ''systemd'' [''systemctl'', ''--user'', ''restart'', vm_unit ''vm''] \<in> set (trace p files_machine [])"
proof -
  let ?ticks = "\<lambda>k. \<lparr>pt_now = 100 + 2 * int k, pt_answer = (if k < 3 then ''activating'' else ''active'')\<rparr>"
  obtain n p where p: "boot (\<lambda>_. True) (\<lambda>_. False) some_host [''h''] ''vm'' 2222 (Some 7) 60 100 ?ticks = Some p"
    and started: "is_ok (fst (exec p files_machine [])) \<longrightarrow>
      Dev ''systemd'' [''systemctl'', ''--user'', ''restart'', vm_unit ''vm''] \<in> set (trace p files_machine [])"
    using boot_comes_up [of 60 ?ticks 100 "\<lambda>_. True" "\<lambda>_. False" some_host "[''h'']" "''vm''" 2222 "Some 7" files_machine "[]"]
    by auto
  have "await_state boot_ends 160 ?ticks 0 [] = Some (''active'', 4)"
    by (simp add: await_state.simps boot_ends_def strip_by_def lstrip_by_def rstrip_by_def is_space_def Let_def)
  then have "p = bind (boot_start (\<lambda>_. True) some_host ''vm'') (\<lambda>_. boot_finish (\<lambda>_. False) some_host [''h''] ''vm'' 2222 (Some 7) ''active'')"
    using p by (simp add: boot_def)
  moreover have "is_ok (fst (exec (bind (boot_start (\<lambda>_. True) some_host ''vm'') (\<lambda>_. boot_finish (\<lambda>_. False) some_host [''h''] ''vm'' 2222
      (Some 7) ''active'')) files_machine []))" by code_simp
  ultimately have "is_ok (fst (exec p files_machine []))" by blast
  with p started show ?thesis by simp
qed

section \<open>What a resolved reuse stands for\<close>

lemma pick_kernel_Inr:
  "pick_kernel fs lookup name = Inr (Some k) \<Longrightarrow>
    \<exists>sp. lookup name = Some sp \<and> kernel_run_layer fs sp (kp_release k) = (Some (kp_image k), True) \<and> kp_modules k = sp @ ''/lib/modules''"
  "pick_kernel fs lookup name = Inr None \<Longrightarrow> name = []"
  by (auto simp: pick_kernel_def Let_def split: if_splits option.splits prod.splits bool.splits)

lemma pick_qemu_Inr:
  "pick_qemu fs lookup name = Inr (Some b) \<Longrightarrow> \<exists>sp. lookup name = Some sp \<and> b \<in> set (qemu_emulators fs sp)"
  "pick_qemu fs lookup name = Inr None \<Longrightarrow> name = []"
  by (auto simp: pick_qemu_def split: if_splits option.splits list.splits)

lemma reuse_closure_Inr:
  "reuse_closure True sidecar = Inr (closure, sharing) \<Longrightarrow>
    case dict_get closure ''init'' of None \<Rightarrow> False | Some x \<Rightarrow> truthy x"
  by (auto simp: reuse_closure_def andthen_Inr split: option.splits if_splits)

text \<open>
  C19: A bringup that reuses builds is never handed less than a guest to boot. When the resolve step returns, a kernel
  was either not asked for, or it is the boot image of the picked index entry with its modules beside it; a QEMU was
  not asked for, or it is an emulator of the picked entry, or of the newest QEMU of the index where none was picked;
  and a reused closure has an init. Everything else raises.
\<close>

theorem reuse_is_bootable:
  assumes "resolve_artifacts env login h fs sidecar i = Inr r"
  shows "(case ro_kernel r of
        None \<Rightarrow> ri_kernel_index i = [] \<and> \<not> ri_kernel_reuse i
      | Some k \<Rightarrow> \<exists>sp. local_path env (ri_kernel_index i) h = Some sp
          \<and> kernel_run_layer fs sp (kp_release k) = (Some (kp_image k), True) \<and> kp_modules k = sp @ ''/lib/modules'')
    \<and> (case ro_qemu_binary r of
        None \<Rightarrow> ri_qemu_index i = [] \<and> \<not> ri_qemu_reuse i
      | Some b \<Rightarrow> \<exists>n sp. local_path env n h = Some sp \<and> b \<in> set (qemu_emulators fs sp)
          \<and> (n = ri_qemu_index i \<or> ri_qemu_index i = [] \<and> latest_run_layer env ''qemu'' h = Some n))
    \<and> (ri_closure_reuse i \<longrightarrow> (case dict_get (ro_closure r) ''init'' of None \<Rightarrow> False | Some x \<Rightarrow> truthy x))"
proof -
  let ?lookup = "\<lambda>n. local_path env n h"
  let ?qemu = "if ri_qemu_reuse i \<and> ri_qemu_index i = [] then some_text (latest_run_layer env ''qemu'' h) else ri_qemu_index i"
  have asked: "\<not> (ri_qemu_reuse i \<and> ?qemu = [])" "\<not> (ri_kernel_reuse i \<and> ri_kernel_index i = [])"
    using assms by (auto simp: resolve_artifacts_def Let_def split: if_splits)
  obtain closure sharing kern binary where parts:
      "reuse_closure (ri_closure_reuse i) sidecar = Inr (closure, sharing)"
      "pick_kernel fs ?lookup (ri_kernel_index i) = Inr kern" "pick_qemu fs ?lookup ?qemu = Inr binary"
    and r: "ro_kernel r = kern" "ro_qemu_binary r = binary" "ro_closure r = closure"
    using assms by (auto simp: resolve_artifacts_def Let_def andthen_Inr split: if_splits)
  have "case kern of None \<Rightarrow> ri_kernel_index i = [] \<and> \<not> ri_kernel_reuse i
      | Some k \<Rightarrow> \<exists>sp. ?lookup (ri_kernel_index i) = Some sp
          \<and> kernel_run_layer fs sp (kp_release k) = (Some (kp_image k), True) \<and> kp_modules k = sp @ ''/lib/modules''"
    using parts(2) pick_kernel_Inr [of fs ?lookup "ri_kernel_index i"] asked(2) by (cases kern) auto
  moreover have "case binary of None \<Rightarrow> ri_qemu_index i = [] \<and> \<not> ri_qemu_reuse i
      | Some b \<Rightarrow> \<exists>n sp. ?lookup n = Some sp \<and> b \<in> set (qemu_emulators fs sp)
          \<and> (n = ri_qemu_index i \<or> ri_qemu_index i = [] \<and> latest_run_layer env ''qemu'' h = Some n)"
  proof (cases binary)
    case None
    then show ?thesis using parts(3) pick_qemu_Inr(2) [of fs ?lookup ?qemu] asked(1) by (auto split: if_splits)
  next
    case (Some b)
    then obtain sp where sp: "?lookup ?qemu = Some sp" "b \<in> set (qemu_emulators fs sp)"
      using parts(3) pick_qemu_Inr(1) [of fs ?lookup ?qemu b] by blast
    have "?qemu = ri_qemu_index i \<or> ri_qemu_index i = [] \<and> latest_run_layer env ''qemu'' h = Some ?qemu"
      using asked(1) by (auto simp: some_text_def split: option.splits)
    with sp show ?thesis unfolding Some option.case by blast
  qed
  moreover have "ri_closure_reuse i \<longrightarrow> (case dict_get closure ''init'' of None \<Rightarrow> False | Some x \<Rightarrow> truthy x)"
    using parts(1) reuse_closure_Inr by (cases "ri_closure_reuse i") auto
  ultimately show ?thesis using r by simp
qed

definition one_build :: host where
  "one_build = \<lparr>h_index = [(''kernel-6.1'', Link ''/nix/store/k'' 3)], h_live = [''/nix/store/k''], h_now = 9\<rparr>"

definition one_layer :: install_fs where
  "one_layer = \<lparr>fs_dir = (\<lambda>d. d \<in> {''/nix/store/k/boot'', ''/nix/store/k/lib/modules/6.1''}), fs_file = (\<lambda>_. False),
     fs_names = (\<lambda>d. if d = ''/nix/store/k/boot'' then [''config-6.1'', ''vmlinuz-6.1''] else [])\<rparr>"

theorem reuse_is_bootable_witness:
  "\<exists>r. resolve_artifacts some_host None one_build one_layer None
      \<lparr>ri_kernel_index = ''kernel-6.1'', ri_kernel_reuse = True, ri_qemu_index = [], ri_qemu_reuse = False, ri_closure_reuse = False\<rparr> = Inr r
    \<and> ro_qemu_binary r = None \<and> ro_kernel r \<noteq> None"
proof -
  let ?i = "\<lparr>ri_kernel_index = ''kernel-6.1'', ri_kernel_reuse = True, ri_qemu_index = [], ri_qemu_reuse = False, ri_closure_reuse = False\<rparr>"
  have "case resolve_artifacts some_host None one_build one_layer None ?i of Inl _ \<Rightarrow> False | Inr r \<Rightarrow> ro_qemu_binary r = None" by code_simp
  then obtain r where r: "resolve_artifacts some_host None one_build one_layer None ?i = Inr r" "ro_qemu_binary r = None"
    by (auto split: sum.splits)
  with reuse_is_bootable [OF r(1)] show ?thesis by (auto split: option.splits)
qed

end
