(* ===== verification/Spec2Isabelle.thy ===== *)
theory Spec2Isabelle
  imports Prelude PyRegex Verdict Paths UnitName Selftests Effects Labels Worktree Json Bringup Bisect Store FstestsDevices FstestsRun Kunit Identity Wait Nvme Qsu Remote JsonText Steps Blktests RuntimeTests Usertests Suites Mirrors GitRefs MakeFlags FstestsRender Checks BuildCheck Lifecycle BootSteps
begin

text \<open>
  A verification development of kdevops-ng: kernel development and testing as Windmill steps in Python
  (\<open>f/\<close>). A step is a module with a \<open>main\<close>; a flow runs steps in order and hands the result of one to
  the next. The development models the steps that decide something: what is built and from which tree, what a
  guest is given, what runs on it, when a run is over and whether it passed.

  \<^bold>\<open>The program's parts and how they interact.\<close>
  The mirror and fetch steps of \<open>f/workbench\<close> lay the git repositories; \<open>f/common/gitrefs.py\<close> offers their
  refs in the forms; \<open>f/common/worktree.py\<close> cuts the trees a build or a developer works in.
  \<open>f/kernel/build_flags.py\<close> composes the make flags and \<open>f/kernel/identity.py\<close> the identity a build is found
  by; \<open>f/common/store.py\<close> publishes and resolves builds. \<open>f/qsu/common.py\<close> composes a guest, and
  \<open>f/common/remote.py\<close> reaches it. Each of the six suites (\<open>f/selftests\<close>, \<open>f/kunit\<close>,
  \<open>f/fstests\<close>, \<open>f/blktests\<close>, \<open>f/runtime_tests\<close>, \<open>f/usertests\<close>) discovers what the guest can run,
  prepares and renders it, starts an item, waits for it, collects its result and judges the run; a stop step is the
  flow's failure handler. \<open>f/kernel/bisect_step.py\<close> drives builds and suite runs to the first bad commit.

  \<^bold>\<open>How code is modelled.\<close>
  A function without effects is a HOL function; an exception is the left of the sum type \<open>'a result\<close> (\<open>Prelude\<close>,
  with the exception's class in \<open>py_error\<close>; messages are left out). A step with effects is a \<open>prog\<close> of
  \<open>Effects\<close>: a tree of commands (a git, nix or devShell argv, a read or a write of a file) with continuations that
  take the answer, so that a theorem about a step holds for every behaviour of git, the guest and the file
  system; where a theorem is about a particular program on the other side (a repository's remotes, a journal that
  grows, a directory) the machine is a definition of its own (\<open>bare_machine\<close>, \<open>refs_machine\<close>) or a
  hypothesis (\<open>serves\<close>). Dictionaries keep Python's insertion order (\<open>dict\<close>), strings are lists of 8-bit
  characters, \<open>int\<close>s are unbounded, as Python's are.

  \<^bold>\<open>The theories.\<close>
  \<^item> \<open>Prelude\<close>, \<open>PyRegex\<close>, \<open>Json\<close>, \<open>JsonText\<close>, \<open>Paths\<close>, \<open>Effects\<close>: the parts of Python the steps use
    (\<open>str\<close>, \<open>dict\<close>, \<open>re\<close> as a backtracking matcher, \<open>json\<close>, \<open>pathlib\<close>, processes), with the
    directories and the git, nix and devShell runners of \<open>f/common/devshell.py\<close>.
  \<^item> \<open>Labels\<close>, \<open>Worktree\<close>: \<open>f/common/worktree.py\<close>. The safety lemmas say which commands a developer's tree
    can see, when it is removed, and that the worker's forcing commands stay in the build worktree.
  \<^item> \<open>Mirrors\<close>: \<open>f/workbench/mirror.py\<close>, \<open>f/workbench/fetch.py\<close>: where a branch lands, that provisioning
    converges from any state. \<open>GitRefs\<close>: \<open>f/common/gitrefs.py\<close>: a pick resolves to the ref it named.
  \<^item> \<open>MakeFlags\<close>: \<open>f/kernel/build_flags.py\<close>, \<open>flags_to_env\<close>, \<open>counting\<close>: the flags a reader gets.
  \<^item> \<open>Checks\<close>: \<open>f/kernel/checks.py\<close>, \<open>check_*.py\<close>, \<open>select_checks.py\<close>, \<open>format_patch.py\<close>: what a checker writes is
    what is counted, and every check asked for runs or says why not.
  \<^item> \<open>Identity\<close>: \<open>f/kernel/identity.py\<close>, \<open>f/common/run_layer.py\<close>, \<open>f/kernel/reuse_check.py\<close>: the baked
    \<open>.config\<close>, a refinement of a pure function by the step.
  \<^item> \<open>Store\<close>: \<open>f/common/store.py\<close>, \<open>f/common/store_index.py\<close>, over the locale \<open>path_index\<close>.
  \<^item> \<open>Bringup\<close>, \<open>Bisect\<close>: \<open>f/kernel/bisect_step.py\<close>, \<open>bisect_judge.py\<close>: the state machine as a function on
    the recorded state, reachability as an inductive relation, its invariant and its termination.
    \<open>BuildCheck\<close>: \<open>f/kernel/check_usertests.py\<close>, the payload that boots no guest, and what the step reads of it.
  \<^item> \<open>Nvme\<close>, \<open>Qsu\<close>: \<open>f/qsu/common.py\<close>, \<open>f/qsu/binaries.py\<close>: drives, shares, command line, units.
  \<^item> \<open>Lifecycle\<close>, \<open>BootSteps\<close>: \<open>f/qsu/destroy.py\<close>, \<open>boot.py\<close>, \<open>settle.py\<close>, \<open>stop.py\<close>, \<open>status.py\<close>,
    \<open>resolve.py\<close>: which files a destroyed guest takes with it (on a host's files as a list of paths,
    \<open>files_machine\<close>), that a boot ends and returns only for a guest that is up, and what a reuse hands to the render.
  \<^item> \<open>Remote\<close>: \<open>f/common/remote.py\<close>: every argument reaches the guest's shell as it was given.
  \<^item> \<open>Verdict\<close>: the run verdict of the suites, one locale \<open>verdict\<close> with an interpretation for each.
    \<open>UnitName\<close>: the systemd escape, over the locale \<open>codec\<close>.
  \<^item> \<open>Selftests\<close>, \<open>Kunit\<close>, \<open>FstestsConfig\<close>, \<open>FstestsCatalog\<close>, \<open>FstestsDevices\<close>, \<open>FstestsRun\<close>,
    \<open>FstestsRender\<close>, \<open>Blktests\<close>, \<open>RuntimeTests\<close>, \<open>Usertests\<close>: what each suite parses, renders, collects and
    judges. For each the lemma on a green run says what a passed judge is backed by.
  \<^item> \<open>Steps\<close>, \<open>Suites\<close>: the discover, start and stop steps and the power cycle, and what they have in common.
  \<^item> \<open>Wait\<close>: the six \<open>wait.py\<close>: they return, and what they return is a reading of the journal from the cursor on.
  \<^item> This theory composes waiting, collecting and judging.

  \<^bold>\<open>Bounds and fuel.\<close>
  \<open>poll_loop\<close> (the waits), \<open>reboot_loop\<close> and \<open>await_state\<close> are partial functions into \<open>option\<close>,
  \<open>None\<close> for a loop that does not end; \<open>wait_returns\<close>, \<open>reboot_settles\<close> and \<open>boot_comes_up\<close> prove that
  they return within the time-out, for clocks that move by at least the pause of a round. The bisect loop has a
  bound of \<open>4 + max 1 max_steps\<close> iterations that \<open>bisect_loop_ends\<close> proves. The regular-expression matcher and
  \<open>split_ws\<close> terminate by measures; the JSON reader has twice the length of the text and two as fuel, which its
  round trip shows to be enough for every text \<open>json.dumps\<close> writes. The search for a free index of
  \<open>FstestsRender\<close> terminates because the names of a directory are finitely many.

  \<^bold>\<open>Not modelled.\<close>
  The output to the job log everywhere. The reports (\<open>report.py\<close>) beside that of blktests and the annotation of
  \<open>f/monitoring\<close>: they print what the collect step returned. \<open>f/nix\<close> and the jinja2 templates of \<open>f/qsu\<close>:
  they fill in texts of nix and systemd. The kernel steps that run one make (configure, compile, install,
  devtools, fetch and publish of the devel layer): their work is done by make. The build steps of
  \<open>f/qemu\<close> likewise. Of the checks, coccicheck and the clang tools, which loop over rules and databases of the
  kernel tree, and the Markdown of the report. The diagnostics steps of \<open>f/qsu\<close> and its image creation:
  sequences of journalctl and qemu-img calls. XML parsing, floating-point times, the locale of the shell and Unicode
  beyond 8 bits are parameters or left out. Symbolic links are followed only where a step asks for \<open>RealPath\<close>. \<open>scripts/\<close> are tools of the
  repository's own maintenance, \<open>tests/\<close> tests, the rest flows, forms and documentation.
\<close>

section \<open>Waiting, collecting and judging together\<close>

text \<open>What the run flow hands from the wait to the collect step of a kselftest item.\<close>

definition selftests_item :: "bool \<Rightarrow> selftests_out \<Rightarrow> collect_in" where
  "selftests_item fail_on_user_crash w =
     \<lparr>ci_item = wo_item w, ci_ktap = wo_ktap w, ci_result = wo_result w, ci_exec_status = wo_exec_status w,
      ci_crashed = wo_crashed w, ci_timed_out = wo_timed_out w, ci_user_crashes = so_user_crashes w,
      ci_user_crash_count = so_user_crash_count w, ci_fail_on_user_crash = fail_on_user_crash\<rparr>"

text \<open>
  C1: A kselftest item is only ever reported as passed on what the guest's own journal says. If the wait's
  result collects as passed, there is a stretch of the journal from the run's cursor on whose last job
  record says that the unit finished, that tells of no failing exit, and in which the unit's own messages
  are a complete KTAP document without a failed and with at least one passed test; a dead guest and an
  expired deadline never pass.
\<close>

theorem waited_green:
  assumes "serves J up ticks" "c0 \<le> length (J 0)"
    and "selftests_wait vm item unit c0 now timeout ticks found = Some r"
    and "co_status (selftests_collect (selftests_item fail r)) = Passed"
  shows "\<exists>n k. c0 \<le> n \<and> n \<le> length (J k)
    \<and> (let seen = drop c0 (take n (J k)); s = parse_ktap (join nl (own_texts unit seen)) in
        job_outcome seen = ''done'' \<and> last_exit seen \<in> {[], ''0''}
        \<and> complete s \<and> num Failed (tests s) = 0 \<and> num Passed (tests s) > 0)
    \<and> \<not> wo_crashed r \<and> \<not> wo_timed_out r"
proof -
  have counted: "counted (parse_ktap t)" for t by (simp add: parse_ktap_def ktap_lines_counted)
  let ?i = "selftests_item fail r"
  have "plumbing_ok ?i" and s: "complete (parse_ktap (wo_ktap r))" "failed (parse_ktap (wo_ktap r)) = 0"
    "passed (parse_ktap (wo_ktap r)) \<noteq> 0"
    using assms(4) by (auto simp: selftests_collect_def Let_def selftests_item_def split: if_splits)
  then have plumbing: "wo_result r = ''done''" "wo_exec_status r \<in> {[], ''0''}" "\<not> wo_crashed r" "\<not> wo_timed_out r"
    by (simp_all add: plumbing_ok_def selftests_item_def)
  obtain n k where stretch: "c0 \<le> n" "n \<le> length (J k)"
    and ktap: "wo_ktap r = join nl (own_texts unit (drop c0 (take n (J k))))"
    and said: "wo_result r = job_outcome (drop c0 (take n (J k)))" "wo_exec_status r = last_exit (drop c0 (take n (J k)))"
    using wait_seen [OF assms(1-3)] unfolding Let_def by blast
  have "num Failed (tests (parse_ktap (wo_ktap r))) = 0" "num Passed (tests (parse_ktap (wo_ktap r))) > 0"
    using s(2,3) counted [of "wo_ktap r"] by (simp_all add: counted_def)
  with stretch plumbing s(1) show ?thesis unfolding Let_def ktap said by blast
qed

definition demo_doc :: "string list" where
  "demo_doc = render_doc [hd ktests_example]"

definition demo_run :: "nat \<Rightarrow> jrec list" where
  "demo_run k =
     map (\<lambda>l. \<lparr>j_unit = Some ''u'', j_message_id = None, j_exit_status = None, j_text = l, j_monotonic = None, j_realtime = None\<rparr>) demo_doc
     @ [\<lparr>j_unit = None, j_message_id = Some MSG_UNIT_STARTED, j_exit_status = None, j_text = [],
         j_monotonic = Some 7, j_realtime = Some 9000\<rparr>]"

definition demo_polls :: "nat \<Rightarrow> nat fetch tick" where
  "demo_polls k =
     \<lparr>t_host = ''active'', t_answer = (\<lambda>c. Some (length (demo_run k), drop c (demo_run k))), t_now = 15 * int k\<rparr>"

theorem waited_green_witness:
  "case selftests_wait ''vm-1'' ''size'' ''u'' 0 0 900 demo_polls (Some []) of None \<Rightarrow> False
   | Some r \<Rightarrow> co_status (selftests_collect (selftests_item True r)) = Passed \<and> \<not> wo_crashed r"
proof -
  have run: "case selftests_wait ''vm-1'' ''size'' ''u'' 0 0 900 demo_polls (Some []) of None \<Rightarrow> False
     | Some r \<Rightarrow> wo_ktap r = join nl demo_doc \<and> plumbing_ok (selftests_item True r) \<and> \<not> crash_fails (selftests_item True r)"
    by code_simp
  then obtain r where r: "selftests_wait ''vm-1'' ''size'' ''u'' 0 0 900 demo_polls (Some []) = Some r"
    by (auto split: option.splits)
  with run have ktap: "wo_ktap r = join nl demo_doc" and plumbing: "plumbing_ok (selftests_item True r)" "\<not> crash_fails (selftests_item True r)"
    by simp_all
  have ok: "\<forall>t \<in> set [hd ktests_example]. ktest_ok t"
    using ktests_example_ok by (simp add: ktests_example_def)
  have "last demo_doc \<noteq> []" "demo_doc \<noteq> []" by code_simp+
  then have "splitlines (join nl demo_doc) = demo_doc"
    using render_doc_ok [OF ok] by (intro splitlines_join) (simp_all add: demo_doc_def)
  then have s: "tests (parse_ktap (wo_ktap r)) = [hd ktests_example]" "complete (parse_ktap (wo_ktap r))"
    using ktap_lines_render [OF ok] by (simp_all add: parse_ktap_def ktap demo_doc_def)
  moreover have "counted (parse_ktap (wo_ktap r))" by (simp add: parse_ktap_def ktap_lines_counted)
  ultimately have passed: "co_status (selftests_collect (selftests_item True r)) = Passed"
    using plumbing by (simp add: selftests_collect_def Let_def counted_def selftests_item_def ktests_example_def)
  have "serves demo_run (\<lambda>_. True) demo_polls" "0 \<le> length (demo_run 0)"
    by (simp_all add: serves_def demo_polls_def demo_run_def)
  from waited_green [OF this r passed] have "\<not> wo_crashed r" by blast
  with passed r show ?thesis by simp
qed

end
